(* ===== verification/Prelude.thy ===== *)
theory Prelude
  imports Complex_Main "HOL-Library.Multiset" "HOL-Library.Word" "HOL-Library.Char_ord"
    "HOL-Library.List_Lexorder"
begin

text \<open>
  What every component of the development shares: Go's machine integers, decimal text
  (package \<open>strconv\<close>), \<open>sort.SliceStable\<close>, and the list view of an SQL table.
  \<^item> A Go \<open>int\<close>/\<open>int64\<close>/\<open>int32\<close> is an \<open>int\<close>; a conversion that can lose bits is written
    \<open>int64\<close> / \<open>int32\<close> (two's complement truncation).
  \<^item> A Go \<open>string\<close> is the list of its bytes.
  \<^item> A pointer or a nullable column is an \<open>option\<close>.
  \<^item> A fallible call returns \<open>'e + 'a\<close>, with \<open>Inl\<close> for the error.
\<close>

named_theorems go_defs "definitions of Go library functions the proofs unfold"
named_theorems sql_simps "what the table operations do to keys, rows and membership"

section \<open>Machine integers\<close>

definition int32 :: "int \<Rightarrow> int" where
  "int32 x = signed_take_bit 31 x"

definition int64 :: "int \<Rightarrow> int" where
  "int64 x = signed_take_bit 63 x"

definition in_int32 :: "int \<Rightarrow> bool" where
  "in_int32 x \<longleftrightarrow> - (2 ^ 31) \<le> x \<and> x < 2 ^ 31"

definition in_int64 :: "int \<Rightarrow> bool" where
  "in_int64 x \<longleftrightarrow> - (2 ^ 63) \<le> x \<and> x < 2 ^ 63"

lemma int32_id: "in_int32 x \<Longrightarrow> int32 x = x"
  by (simp add: int32_def in_int32_def signed_take_bit_int_eq_self_iff)

lemma int64_id: "in_int64 x \<Longrightarrow> int64 x = x"
  by (simp add: int64_def in_int64_def signed_take_bit_int_eq_self_iff)

lemma int64_range: "in_int64 (int64 x)"
  using signed_take_bit_int_greater_eq_minus_exp [of 63 x] signed_take_bit_int_less_exp [of 63 x]
  by (simp add: int64_def in_int64_def)

lemma int32_range: "in_int32 (int32 x)"
  using signed_take_bit_int_greater_eq_minus_exp [of 31 x] signed_take_bit_int_less_exp [of 31 x]
  by (simp add: int32_def in_int32_def)

text \<open>A conversion to 32 bits makes \<open>2 ^ 31\<close> and what follows it negative.\<close>

lemma int32_wraps:
  assumes "2 ^ 31 \<le> x" "x < 2 ^ 32"
  shows "int32 x = x - 2 ^ 32"
proof -
  have "int32 x = (x + 2 ^ 31) mod 2 ^ 32 - 2 ^ 31"
    by (simp add: int32_def signed_take_bit_eq_take_bit_shift take_bit_eq_mod)
  also have "(x + 2 ^ 31) mod 2 ^ 32 = x + 2 ^ 31 - 2 ^ 32"
    using assms by (subst mod_pos_geq) (auto intro: mod_pos_pos_trivial)
  finally show ?thesis by simp
qed

lemma in_int32_64: "in_int32 x \<Longrightarrow> in_int64 x"
  by (simp add: in_int32_def in_int64_def)

lemma in_int64_int32 [simp]: "in_int64 (int32 x)"
  by (rule in_int32_64 [OF int32_range])

text \<open>A sum of two \<open>int64\<close> values that passes the top comes back negative.\<close>

lemma int64_add_overflow:
  assumes "0 \<le> x" "0 \<le> y" "x < 2 ^ 63" "y < 2 ^ 63" "2 ^ 63 \<le> x + y"
  shows "int64 (x + y) < 0"
proof -
  have "int64 (x + y) = (x + y + 2 ^ 63) mod 2 ^ 64 - 2 ^ 63"
    by (simp add: int64_def signed_take_bit_eq_take_bit_shift take_bit_eq_mod)
  also have "(x + y + 2 ^ 63) mod 2 ^ 64 = x + y + 2 ^ 63 - 2 ^ 64"
    using assms by (subst mod_pos_geq) (auto intro: mod_pos_pos_trivial)
  finally show ?thesis using assms by simp
qed

lemma upt_zero_Suc: "[0..<Suc n] = 0 # map Suc [0..<n]"
  by (subst upt_conv_Cons) (simp, simp only: map_Suc_upt)

section \<open>Decimal text\<close>

text \<open>\<open>strconv.FormatInt(_, 10)\<close> and \<open>strconv.ParseInt(_, 10, 64)\<close> (also \<open>strconv.Atoi\<close>):
  an optional sign, at least one decimal digit, nothing else, and a value in range.\<close>

definition digit_char :: "nat \<Rightarrow> char" where
  "digit_char d = char_of (48 + d)"

definition digit_val :: "char \<Rightarrow> nat option" where
  "digit_val c = (let n = of_char c :: nat in if 48 \<le> n \<and> n \<le> 57 then Some (n - 48) else None)"

fun dec_nat :: "int \<Rightarrow> string" where
  "dec_nat n = (if n < 10 then [digit_char (nat n)]
     else dec_nat (n div 10) @ [digit_char (nat (n mod 10))])"

declare dec_nat.simps [simp del]

definition FormatInt :: "int \<Rightarrow> string" where
  "FormatInt i = (if i < 0 then CHR ''-'' # dec_nat (- i) else dec_nat i)"

definition parse_step :: "int option \<Rightarrow> char \<Rightarrow> int option" where
  "parse_step acc c = (case acc of None \<Rightarrow> None
     | Some a \<Rightarrow> (case digit_val c of None \<Rightarrow> None | Some d \<Rightarrow> Some (10 * a + int d)))"

definition parse_digits :: "string \<Rightarrow> int option" where
  "parse_digits s = (if s = [] then None else foldl parse_step (Some 0) s)"

definition ParseInt :: "string \<Rightarrow> int option" where
  "ParseInt s =
     (let (neg, body) = (case s of [] \<Rightarrow> (False, [])
                         | c # cs \<Rightarrow> (if c = CHR ''-'' then (True, cs)
                                      else if c = CHR ''+'' then (False, cs) else (False, s)))
      in case parse_digits body of None \<Rightarrow> None
             | Some n \<Rightarrow> (let i = (if neg then - n else n)
                     in if in_int64 i then Some i else None))"

lemma of_char_digit: "d < 10 \<Longrightarrow> of_char (digit_char d) = (48 + d :: nat)"
  by (simp add: digit_char_def)

lemma digit_val_digit_char [simp]: "d < 10 \<Longrightarrow> digit_val (digit_char d) = Some d"
  by (simp add: digit_val_def of_char_digit Let_def)

lemma foldl_parse_dec_nat: "0 \<le> n \<Longrightarrow> foldl parse_step (Some 0) (dec_nat n) = Some n"
proof (induction n rule: dec_nat.induct)
  case (1 n)
  show ?case
  proof (cases "n < 10")
    case True
    with 1 show ?thesis by (simp add: dec_nat.simps [of n] parse_step_def)
  next
    case False
    with 1 have "foldl parse_step (Some 0) (dec_nat (n div 10)) = Some (n div 10)" by simp
    moreover have "nat (n mod 10) < 10" by simp
    ultimately show ?thesis using False by (simp add: dec_nat.simps [of n]) (simp add: parse_step_def)
  qed
qed

lemma dec_nat_nonempty [simp]: "dec_nat n \<noteq> []"
  by (subst dec_nat.simps) simp

lemma parse_digits_dec_nat [simp]: "0 \<le> n \<Longrightarrow> parse_digits (dec_nat n) = Some n"
  by (simp add: parse_digits_def foldl_parse_dec_nat)

lemma dec_nat_digits: "c \<in> set (dec_nat n) \<Longrightarrow> \<exists>d < 10. c = digit_char d"
proof (induction n rule: dec_nat.induct)
  case (1 n)
  have m: "nat (n mod 10) < 10" by simp
  show ?case
  proof (cases "n < 10")
    case True
    then have "nat n < 10" by simp
    with True "1.prems" show ?thesis by (auto simp: dec_nat.simps [of n])
  next
    case False
    with "1.prems" have "c \<in> set (dec_nat (n div 10)) \<or> c = digit_char (nat (n mod 10))"
      by (auto simp: dec_nat.simps [of n])
    with m False "1.IH" show ?thesis by blast
  qed
qed

lemma digit_char_not_sign: "d < 10 \<Longrightarrow> digit_char d \<noteq> CHR ''-'' \<and> digit_char d \<noteq> CHR ''+''"
proof -
  assume "d < 10"
  then have "of_char (digit_char d) = (48 + d :: nat)" by (rule of_char_digit)
  then show ?thesis by auto
qed

lemma ParseInt_FormatInt: "in_int64 i \<Longrightarrow> ParseInt (FormatInt i) = Some i"
proof (cases "i < 0")
  case True
  assume "in_int64 i"
  with True show ?thesis by (simp add: FormatInt_def ParseInt_def Let_def)
next
  case False
  assume r: "in_int64 i"
  obtain c cs where c: "dec_nat i = c # cs" by (cases "dec_nat i") auto
  then obtain d where "d < 10" "c = digit_char d" using dec_nat_digits [of c i] by auto
  then have "c \<noteq> CHR ''-''" "c \<noteq> CHR ''+''" using digit_char_not_sign by auto
  then have "ParseInt (c # cs) = (case parse_digits (c # cs) of None \<Rightarrow> None
      | Some n \<Rightarrow> if in_int64 n then Some n else None)"
    by (simp add: ParseInt_def Let_def split: option.split)
  with c r False show ?thesis by (simp add: FormatInt_def flip: c)
qed

lemma FormatInt_inject: "in_int64 i \<Longrightarrow> in_int64 j \<Longrightarrow> FormatInt i = FormatInt j \<Longrightarrow> i = j"
  by (metis ParseInt_FormatInt option.inject)

section \<open>\<open>sort.SliceStable\<close>\<close>

text \<open>
  \<open>sort.SliceStable(xs, less)\<close> for a strict weak order \<open>less\<close> has exactly one result: the
  stable arrangement. It is computed here by insertion; an element goes before the first one
  that is not smaller, so equal elements keep their order.
\<close>

fun insert_less :: "('a \<Rightarrow> 'a \<Rightarrow> bool) \<Rightarrow> 'a \<Rightarrow> 'a list \<Rightarrow> 'a list" where
  "insert_less lt x [] = [x]"
| "insert_less lt x (y # ys) = (if lt y x then y # insert_less lt x ys else x # y # ys)"

definition SliceStable :: "('a \<Rightarrow> 'a \<Rightarrow> bool) \<Rightarrow> 'a list \<Rightarrow> 'a list" where
  "SliceStable lt xs = foldr (insert_less lt) xs []"

lemma mset_insert_less [simp]: "mset (insert_less lt x ys) = {#x#} + mset ys"
  by (induction ys) auto

lemma mset_SliceStable [simp]: "mset (SliceStable lt xs) = mset xs"
  by (induction xs) (auto simp: SliceStable_def)

lemma set_SliceStable [simp]: "set (SliceStable lt xs) = set xs"
  by (metis mset_SliceStable set_mset_mset)

lemma length_SliceStable [simp]: "length (SliceStable lt xs) = length xs"
  by (metis mset_SliceStable size_mset)

lemma set_insert_less [simp]: "set (insert_less lt x ys) = insert x (set ys)"
  by (induction ys) auto

lemma distinct_SliceStable [simp]: "distinct (map f (SliceStable lt xs)) = distinct (map f xs)"
  by (metis distinct_count_atmost_1 mset_SliceStable mset_map set_SliceStable set_map)

lemma SliceStable_Nil [simp]: "SliceStable lt [] = []"
  by (simp add: SliceStable_def)

lemma SliceStable_eq_Nil [simp]: "SliceStable lt xs = [] \<longleftrightarrow> xs = []"
  by (metis length_0_conv length_SliceStable)

text \<open>The contract \<open>sort\<close> asks of its \<open>lt\<close>: a strict weak order.\<close>

locale strict_weak_order =
  fixes lt :: "'a \<Rightarrow> 'a \<Rightarrow> bool"
  assumes irrefl: "\<not> lt x x"
    and trans: "lt x y \<Longrightarrow> lt y z \<Longrightarrow> lt x z"
    and neg_trans: "\<not> lt x y \<Longrightarrow> \<not> lt y z \<Longrightarrow> \<not> lt x z"
begin

lemma asym: "lt x y \<Longrightarrow> \<not> lt y x"
  using irrefl trans by blast

lemma sorted_insert_less:
  "sorted_wrt (\<lambda>a b. \<not> lt b a) ys \<Longrightarrow> sorted_wrt (\<lambda>a b. \<not> lt b a) (insert_less lt x ys)"
proof (induction ys)
  case Nil
  then show ?case by simp
next
  case (Cons y ys)
  show ?case
  proof (cases "lt y x")
    case True
    with Cons show ?thesis using asym by auto
  next
    case False
    with Cons.prems have "\<not> lt z x" if "z \<in> set ys" for z
      using that neg_trans by auto
    with Cons.prems False show ?thesis by auto
  qed
qed

lemma sorted_SliceStable: "sorted_wrt (\<lambda>a b. \<not> lt b a) (SliceStable lt xs)"
  unfolding SliceStable_def by (induction xs) (auto intro: sorted_insert_less)

text \<open>Already sorted input is left alone: a second sort changes nothing.\<close>

lemma insert_less_first: "\<forall>y \<in> set ys. \<not> lt y x \<Longrightarrow> insert_less lt x ys = x # ys"
  by (cases ys) auto

lemma SliceStable_sorted: "sorted_wrt (\<lambda>a b. \<not> lt b a) xs \<Longrightarrow> SliceStable lt xs = xs"
  unfolding SliceStable_def by (induction xs) (auto simp: insert_less_first)

lemma SliceStable_idem: "SliceStable lt (SliceStable lt xs) = SliceStable lt xs"
  by (rule SliceStable_sorted) (rule sorted_SliceStable)

text \<open>Where no two different elements tie, the result depends on the multiset alone.\<close>

lemma sorted_unique:
  assumes "sorted_wrt (\<lambda>a b. \<not> lt b a) xs" "sorted_wrt (\<lambda>a b. \<not> lt b a) ys"
    and "mset xs = mset ys"
    and "\<And>a b. a \<in> set xs \<Longrightarrow> b \<in> set xs \<Longrightarrow> \<not> lt a b \<Longrightarrow> \<not> lt b a \<Longrightarrow> a = b"
  shows "xs = ys"
  using assms
proof (induction xs arbitrary: ys)
  case Nil
  then show ?case by simp
next
  case (Cons x xs)
  then obtain y ys' where ys: "ys = y # ys'" by (cases ys) auto
  have sets: "set ys = set (x # xs)" using Cons.prems(3) by (metis set_mset_mset)
  have "y \<in> set (x # xs)" "x \<in> set (y # ys')" using sets ys by auto
  then have "\<not> lt y x" "\<not> lt x y" using Cons.prems(1,2) ys irrefl by auto
  then have "x = y" using Cons.prems(4) [of x y] sets ys by auto
  moreover have "xs = ys'"
    using Cons.prems ys \<open>x = y\<close> by (intro Cons.IH) auto
  ultimately show ?case using ys by simp
qed

lemma SliceStable_perm:
  assumes "mset xs = mset ys"
    and "\<And>a b. a \<in> set xs \<Longrightarrow> b \<in> set xs \<Longrightarrow> \<not> lt a b \<Longrightarrow> \<not> lt b a \<Longrightarrow> a = b"
  shows "SliceStable lt xs = SliceStable lt ys"
  by (rule sorted_unique) (use assms sorted_SliceStable in auto)

end

section \<open>Tables\<close>

text \<open>
  A table is the list of its rows. The statements the code runs are \<open>UPDATE ... WHERE\<close>,
  \<open>DELETE ... WHERE\<close>, \<open>INSERT ... ON CONFLICT (key) DO UPDATE\<close> and
  \<open>INSERT ... ON CONFLICT (key) DO NOTHING RETURNING\<close>.
\<close>

definition sql_update :: "('r \<Rightarrow> bool) \<Rightarrow> ('r \<Rightarrow> 'r) \<Rightarrow> 'r list \<Rightarrow> 'r list" where
  "sql_update P f rows = map (\<lambda>r. if P r then f r else r) rows"

definition sql_delete :: "('r \<Rightarrow> bool) \<Rightarrow> 'r list \<Rightarrow> 'r list" where
  "sql_delete P rows = filter (\<lambda>r. \<not> P r) rows"

definition sql_upsert :: "('r \<Rightarrow> 'k) \<Rightarrow> 'r \<Rightarrow> ('r \<Rightarrow> 'r) \<Rightarrow> 'r list \<Rightarrow> 'r list" where
  "sql_upsert key new upd rows =
     (if key new \<in> key ` set rows then sql_update (\<lambda>r. key r = key new) upd rows
      else rows @ [new])"

definition sql_insert_ignore :: "('r \<Rightarrow> 'k) \<Rightarrow> 'r \<Rightarrow> 'r list \<Rightarrow> 'r list \<times> bool" where
  "sql_insert_ignore key new rows =
     (if key new \<in> key ` set rows then (rows, False) else (rows @ [new], True))"

definition sql_get :: "('r \<Rightarrow> bool) \<Rightarrow> 'r list \<Rightarrow> 'r option" where
  "sql_get P rows = find P rows"

lemma keys_sql_update [sql_simps]: "(\<And>r. key (f r) = key r) \<Longrightarrow> map key (sql_update P f rows) = map key rows"
  by (simp add: sql_update_def)

lemma distinct_sql_delete [sql_simps]:
  "distinct (map key rows) \<Longrightarrow> distinct (map key (sql_delete P rows))"
  by (simp add: sql_delete_def distinct_map_filter)

lemma set_sql_delete [sql_simps]: "set (sql_delete P rows) = {r \<in> set rows. \<not> P r}"
  by (auto simp: sql_delete_def)

lemma set_sql_update [sql_simps]:
  "set (sql_update P f rows) = {r \<in> set rows. \<not> P r} \<union> f ` {r \<in> set rows. P r}"
  by (auto simp: sql_update_def)

lemma length_sql_update [sql_simps]: "length (sql_update P f rows) = length rows"
  by (simp add: sql_update_def)

lemma distinct_sql_upsert [sql_simps]:
  "distinct (map key rows) \<Longrightarrow> (\<And>r. key (upd r) = key r) \<Longrightarrow>
   distinct (map key (sql_upsert key new upd rows))"
  by (auto simp: sql_upsert_def keys_sql_update)

lemma set_sql_upsert:
  "set (sql_upsert key new upd rows) \<subseteq> insert new (set rows \<union> upd ` set rows)"
  by (auto simp: sql_upsert_def sql_update_def)

lemma sql_upsert_hit [sql_simps]:
  "key new \<in> key ` set rows \<Longrightarrow> sql_upsert key new upd rows = sql_update (\<lambda>r. key r = key new) upd rows"
  by (simp add: sql_upsert_def)

lemma sql_upsert_miss [sql_simps]:
  "key new \<notin> key ` set rows \<Longrightarrow> sql_upsert key new upd rows = rows @ [new]"
  by (simp add: sql_upsert_def)

lemma distinct_sql_insert_ignore [sql_simps]:
  "distinct (map key rows) \<Longrightarrow> distinct (map key (fst (sql_insert_ignore key new rows)))"
  by (auto simp: sql_insert_ignore_def)

lemma key_sql_insert_ignore [sql_simps]:
  "key new \<in> key ` set (fst (sql_insert_ignore key new rows))"
  by (auto simp: sql_insert_ignore_def)

lemma sql_get_Some: "sql_get P rows = Some r \<Longrightarrow> r \<in> set rows \<and> P r"
  by (auto simp: sql_get_def find_Some_iff)

lemma sql_get_None: "sql_get P rows = None \<longleftrightarrow> (\<forall>r \<in> set rows. \<not> P r)"
  by (auto simp: sql_get_def find_None_iff)

lemma sql_get_key:
  "distinct (map key rows) \<Longrightarrow> r \<in> set rows \<Longrightarrow> sql_get (\<lambda>x. key x = key r) rows = Some r"
  by (induction rows) (auto simp: sql_get_def rev_image_eqI)

text \<open>A lookup by key through each statement.\<close>

lemma sql_get_update [sql_simps]:
  "(\<And>r. key (f r) = key r) \<Longrightarrow>
   sql_get (\<lambda>r. key r = k) (sql_update P f rows)
     = map_option (\<lambda>r. if P r then f r else r) (sql_get (\<lambda>r. key r = k) rows)"
  by (induction rows) (auto simp: sql_get_def sql_update_def)

lemma sql_get_upsert [sql_simps]:
  assumes "\<And>r. key (upd r) = key r"
  shows "sql_get (\<lambda>r. key r = k) (sql_upsert key new upd rows) =
     (if k = key new
      then Some (case sql_get (\<lambda>r. key r = k) rows of None \<Rightarrow> new | Some r \<Rightarrow> upd r)
      else sql_get (\<lambda>r. key r = k) rows)"
proof (cases "key new \<in> key ` set rows")
  case True
  then obtain r where r: "sql_get (\<lambda>r. key r = key new) rows = Some r"
    by (cases "sql_get (\<lambda>r. key r = key new) rows") (auto simp: sql_get_None)
  have "sql_get (\<lambda>r. key r = k) (sql_update (\<lambda>r. key r = key new) upd rows)
      = map_option (\<lambda>r. if key r = key new then upd r else r) (sql_get (\<lambda>r. key r = k) rows)"
    using assms by (rule sql_get_update)
  with True r show ?thesis
    by (cases "sql_get (\<lambda>r. key r = k) rows") (auto simp: sql_upsert_def dest: sql_get_Some)
next
  case False
  then have "\<forall>r \<in> set rows. key r \<noteq> key new" by (metis image_eqI)
  then have "sql_get (\<lambda>r. key r = key new) rows = None" by (simp add: sql_get_None)
  moreover have "sql_get (\<lambda>r. key r = k) (rows @ [new])
      = (case sql_get (\<lambda>r. key r = k) rows of Some r \<Rightarrow> Some r | None \<Rightarrow> if key new = k then Some new else None)"
    by (induction rows) (auto simp: sql_get_def)
  ultimately show ?thesis
    using False by (auto simp: sql_upsert_def split: option.splits)
qed

lemma sql_get_member:
  "distinct (map key rows) \<Longrightarrow> r \<in> set rows \<longleftrightarrow> sql_get (\<lambda>x. key x = key r) rows = Some r"
  using sql_get_key [of key rows r] sql_get_Some [of "\<lambda>x. key x = key r" rows r] by blast

end
