(* ===== verification/Basics.thy ===== *)
theory Basics
  imports Prelude
begin

text \<open>
  The leaf packages the rest is built on: \<open>internal/paging\<close>, \<open>internal/index\<close>,
  \<open>internal/pgconv\<close>, \<open>internal/rankutil\<close> and \<open>internal/normalize\<close>.

  The two Unicode passes of \<open>normalize.Normalize\<close> (NFKC and full case folding, both from
  \<open>golang.org/x/text\<close>) are the parameters \<open>nfkc\<close> and \<open>fold_case\<close>; \<open>strings.Fields\<close> and
  \<open>strings.Join\<close> are written out on the UTF-8 bytes. An id (\<open>github.com/google/uuid\<close>) is a
  value of a type variable with the parser \<open>uuid_parse\<close> as a parameter. Instants and
  durations are integers, in nanoseconds.
\<close>

section \<open>Paging\<close>

text \<open>\<open>paging.Limit\<close>; its arguments \<open>def\<close> and \<open>max\<close> are \<open>dflt\<close> and \<open>mx\<close>.\<close>

definition Limit :: "int \<Rightarrow> int \<Rightarrow> int \<Rightarrow> int" where
  "Limit v dflt mx = (if v \<le> 0 then dflt else if v > mx then mx else v)"

definition Offset :: "int \<Rightarrow> int" where
  "Offset v = (if v < 0 then 0 else v)"

lemma Limit_pos: "0 < dflt \<Longrightarrow> dflt \<le> mx \<Longrightarrow> 0 < Limit v dflt mx"
  by (simp add: Limit_def)

lemma Limit_le: "dflt \<le> mx \<Longrightarrow> Limit v dflt mx \<le> mx"
  by (simp add: Limit_def)

lemma Limit_fixed: "0 < v \<Longrightarrow> v \<le> mx \<Longrightarrow> Limit v dflt mx = v"
  by (simp add: Limit_def)

lemma Limit_idem: "0 < dflt \<Longrightarrow> dflt \<le> mx \<Longrightarrow> Limit (Limit v dflt mx) dflt mx = Limit v dflt mx"
  by (simp add: Limit_def)

lemma Offset_nonneg [simp]: "0 \<le> Offset v"
  by (simp add: Offset_def)

lemma Offset_in_int64: "in_int64 v \<Longrightarrow> in_int64 (Offset v)"
  by (simp add: Offset_def in_int64_def)

section \<open>Eligibility\<close>

definition safe :: "string \<Rightarrow> string" where
  "safe s = (if s = [] then ''unknown'' else s)"

definition Eligible :: "string \<Rightarrow> string \<Rightarrow> bool \<times> string" where
  "Eligible privacy state =
     (if privacy \<noteq> ''public'' then (False, ''privacy_'' @ safe privacy)
      else if state \<noteq> ''published'' then (False, ''state_'' @ safe state)
      else (True, []))"

lemma fst_Eligible: "fst (Eligible p s) \<longleftrightarrow> p = ''public'' \<and> s = ''published''"
  by (simp add: Eligible_def)

lemma Eligible_reason: "fst (Eligible p s) \<longleftrightarrow> snd (Eligible p s) = []"
  by (simp add: Eligible_def)

lemma safe_nonempty [simp]: "safe s \<noteq> []"
  by (simp add: safe_def)

text \<open>The recorded reason names the failing dimension and, through it, the value it had.\<close>

lemma Eligible_reason_dimension:
  "\<not> fst (Eligible p s) \<Longrightarrow>
   snd (Eligible p s) = (if p \<noteq> ''public'' then ''privacy_'' @ safe p else ''state_'' @ safe s)"
  by (auto simp: Eligible_def split: if_splits)

section \<open>Optional columns\<close>

definition OptStr :: "string \<Rightarrow> string option" where
  "OptStr s = (if s = [] then None else Some s)"

definition DerefStr :: "string option \<Rightarrow> string" where
  "DerefStr s = (case s of None \<Rightarrow> [] | Some t \<Rightarrow> t)"

lemma DerefStr_OptStr [simp]: "DerefStr (OptStr s) = s"
  by (simp add: OptStr_def DerefStr_def)

lemma OptStr_DerefStr: "s \<noteq> Some [] \<Longrightarrow> OptStr (DerefStr s) = s"
  by (auto simp: OptStr_def DerefStr_def split: option.splits)

section \<open>Feature preparation\<close>

definition nanos_per_hour :: int where
  "nanos_per_hour = 3600 * 10 ^ 9"

text \<open>\<open>time.Time.Sub\<close> saturates at the extreme durations.\<close>

definition time_Sub :: "int \<Rightarrow> int \<Rightarrow> int" where
  "time_Sub t u = max (- (2 ^ 63)) (min (2 ^ 63 - 1) (t - u))"

definition AgeDays :: "int option \<Rightarrow> int \<Rightarrow> int \<Rightarrow> real" where
  "AgeDays publishedAt sourceUpdatedAt now =
     (let t = (case publishedAt of Some p \<Rightarrow> p | None \<Rightarrow> sourceUpdatedAt);
          d = real_of_int (time_Sub now t) / real_of_int nanos_per_hour / 24
      in if d < 0 then 0 else d)"

lemma AgeDays_nonneg [simp]: "0 \<le> AgeDays p u now"
  by (simp add: AgeDays_def Let_def)

lemma AgeDays_future: "now \<le> t \<Longrightarrow> AgeDays (Some t) u now = 0"
  by (simp add: AgeDays_def Let_def time_Sub_def nanos_per_hour_def)

definition ParseUUIDs :: "(string \<Rightarrow> 'id option) \<Rightarrow> string list \<Rightarrow> 'id list" where
  "ParseUUIDs uuid_parse ss = List.map_filter uuid_parse ss"

lemma length_ParseUUIDs: "length (ParseUUIDs up ss) \<le> length ss"
  by (induction ss) (auto simp: ParseUUIDs_def map_filter_simps split: option.splits)

section \<open>Normalisation\<close>

text \<open>
  \<open>unicode.IsSpace\<close> on UTF-8: the number of bytes of the white-space rune the string starts
  with, 0 for none. The lead bytes of the multi-byte spaces never occur inside another
  rune, so looking at every byte position is the same as decoding rune by rune.
\<close>

fun space_width :: "string \<Rightarrow> nat" where
  "space_width [] = 0"
| "space_width (c # s) =
     (let b = of_char c :: nat; rest = map of_char s :: nat list
      in if b \<in> {9, 10, 11, 12, 13, 32} then 1
         else if b = 194 \<and> take 1 rest \<in> {[133], [160]} then 2
         else if b = 225 \<and> take 2 rest = [154, 128] then 3
         else if b = 226 \<and> length rest \<ge> 2 \<and> rest ! 0 = 128
                 \<and> (rest ! 1 \<in> {128..138} \<or> rest ! 1 \<in> {168, 169, 175}) then 3
         else if b = 226 \<and> take 2 rest = [129, 159] then 3
         else if b = 227 \<and> take 2 rest = [128, 128] then 3
         else 0)"

text \<open>\<open>strings.Fields\<close>: \<open>cur\<close> is the word being read.\<close>

function fields_from :: "string \<Rightarrow> string \<Rightarrow> string list" where
  "fields_from cur [] = (if cur = [] then [] else [cur])"
| "fields_from cur (c # s) =
     (if space_width (c # s) = 0 then fields_from (cur @ [c]) s
      else (if cur = [] then [] else [cur]) @ fields_from [] (drop (space_width (c # s)) (c # s)))"
  by pat_completeness auto
termination by (relation "measure (\<lambda>(cur, s). length s)") auto

definition Fields :: "string \<Rightarrow> string list" where
  "Fields s = fields_from [] s"

fun Join :: "string list \<Rightarrow> string \<Rightarrow> string" where
  "Join [] sep = []"
| "Join [x] sep = x"
| "Join (x # y # xs) sep = x @ sep @ Join (y # xs) sep"

definition Normalize :: "(string \<Rightarrow> string) \<Rightarrow> (string \<Rightarrow> string) \<Rightarrow> string \<Rightarrow> string" where
  "Normalize nfkc fold_case s = Join (Fields (fold_case (nfkc s))) '' ''"

end
