(* ===== verification/Hashes.thy ===== *)
theory Hashes
  imports Prelude
begin

unbundle bit_operations_syntax

text \<open>
  The hash functions of Go's standard library the program calls: FNV-1a (\<open>hash/fnv\<close>),
  SHA-256 (\<open>crypto/sha256\<close>, FIPS 180-4), HMAC-SHA256 (\<open>crypto/hmac\<close>) and lower-case hex
  (\<open>encoding/hex\<close>). A byte string is a \<open>string\<close>. Two theories use them opaquely: nothing but
  their being functions of their input, and the shape of the output, is relied on. Where a
  property concludes that two contents agree because their digests do, the conclusion
  names the alternative, an explicit SHA-256 collision.
\<close>

section \<open>FNV-1a, 64 bits\<close>

definition fnv_step :: "64 word \<Rightarrow> char \<Rightarrow> 64 word" where
  "fnv_step h c = (h XOR of_char c) * 1099511628211"

definition fnv1a64 :: "string \<Rightarrow> 64 word" where
  "fnv1a64 s = foldl fnv_step 14695981039346656037 s"

section \<open>SHA-256\<close>

definition sha_K :: "32 word list" where
  "sha_K = [
    1116352408, 1899447441, 3049323471, 3921009573, 961987163, 1508970993, 2453635748, 2870763221,
    3624381080, 310598401, 607225278, 1426881987, 1925078388, 2162078206, 2614888103, 3248222580,
    3835390401, 4022224774, 264347078, 604807628, 770255983, 1249150122, 1555081692, 1996064986,
    2554220882, 2821834349, 2952996808, 3210313671, 3336571891, 3584528711, 113926993, 338241895,
    666307205, 773529912, 1294757372, 1396182291, 1695183700, 1986661051, 2177026350, 2456956037,
    2730485921, 2820302411, 3259730800, 3345764771, 3516065817, 3600352804, 4094571909, 275423344,
    430227734, 506948616, 659060556, 883997877, 958139571, 1322822218, 1537002063, 1747873779,
    1955562222, 2024104815, 2227730452, 2361852424, 2428436474, 2756734187, 3204031479, 3329325298]"

definition sha_H0 :: "32 word list" where
  "sha_H0 = [1779033703, 3144134277, 1013904242, 2773480762, 1359893119, 2600822924, 528734635, 1541459225]"

definition rotr :: "nat \<Rightarrow> 32 word \<Rightarrow> 32 word" where
  "rotr n w = drop_bit n w OR push_bit (32 - n) w"

text \<open>One round over the working variables \<open>[a, b, c, d, e, f, g, h]\<close>.\<close>

fun sha_round :: "32 word list \<Rightarrow> 32 word \<times> 32 word \<Rightarrow> 32 word list" where
  "sha_round [a, b, c, d, e, f, g, h] (k, w) =
     (let t1 = h + (rotr 6 e XOR rotr 11 e XOR rotr 25 e) + ((e AND f) XOR (NOT e AND g)) + k + w;
          t2 = (rotr 2 a XOR rotr 13 a XOR rotr 22 a) + ((a AND b) XOR (a AND c) XOR (b AND c))
      in [t1 + t2, a, b, c, d + t1, e, f, g])"
| "sha_round _ _ = []"

text \<open>The message schedule, extended one word at a time (\<open>ws\<close> holds the words so far).\<close>

fun sha_extend :: "nat \<Rightarrow> 32 word list \<Rightarrow> 32 word list" where
  "sha_extend 0 ws = ws"
| "sha_extend (Suc n) ws =
     (let t = length ws; w15 = ws ! (t - 15); w2 = ws ! (t - 2);
          s0 = rotr 7 w15 XOR rotr 18 w15 XOR drop_bit 3 w15;
          s1 = rotr 17 w2 XOR rotr 19 w2 XOR drop_bit 10 w2
      in sha_extend n (ws @ [ws ! (t - 16) + s0 + ws ! (t - 7) + s1]))"

definition sha_block :: "32 word list \<Rightarrow> 32 word list \<Rightarrow> 32 word list" where
  "sha_block hs ws =
     map (\<lambda>(x, y). x + y) (zip hs (foldl sha_round hs (zip sha_K (sha_extend 48 ws))))"

fun be_words :: "string \<Rightarrow> 32 word list" where
  "be_words (a # b # c # d # rest) =
     (push_bit 24 (of_char a) OR push_bit 16 (of_char b) OR push_bit 8 (of_char c) OR of_char d)
     # be_words rest"
| "be_words _ = []"

definition be64 :: "nat \<Rightarrow> string" where
  "be64 n = map (\<lambda>i. char_of (int n div 256 ^ i)) [7, 6, 5, 4, 3, 2, 1, 0]"

definition sha_pad :: "string \<Rightarrow> string" where
  "sha_pad s = s @ [char_of (128 :: nat)]
     @ replicate ((119 - length s mod 64) mod 64) (char_of (0 :: nat)) @ be64 (8 * length s)"

fun sha_chunks :: "nat \<Rightarrow> 32 word list \<Rightarrow> 32 word list \<Rightarrow> 32 word list" where
  "sha_chunks 0 hs ws = hs"
| "sha_chunks (Suc n) hs ws = sha_chunks n (sha_block hs (take 16 ws)) (drop 16 ws)"

definition be_bytes :: "32 word \<Rightarrow> string" where
  "be_bytes w = map (\<lambda>i. char_of (uint w div 256 ^ i)) [3, 2, 1, 0]"

definition sha256 :: "string \<Rightarrow> string" where
  "sha256 s = (let ws = be_words (sha_pad s)
               in concat (map be_bytes (sha_chunks (length ws div 16) sha_H0 ws)))"

section \<open>Hex and HMAC\<close>

definition hex_digit :: "nat \<Rightarrow> char" where
  "hex_digit d = (if d < 10 then char_of (48 + d) else char_of (87 + d))"

definition hex_val :: "char \<Rightarrow> nat option" where
  "hex_val c = (let n = of_char c :: nat in
     if 48 \<le> n \<and> n \<le> 57 then Some (n - 48)
     else if 97 \<le> n \<and> n \<le> 102 then Some (n - 87)
     else if 65 \<le> n \<and> n \<le> 70 then Some (n - 55) else None)"

definition hex_byte :: "char \<Rightarrow> string" where
  "hex_byte c = [hex_digit (of_char c div 16), hex_digit (of_char c mod 16)]"

definition EncodeToString :: "string \<Rightarrow> string" where
  "EncodeToString s = concat (map hex_byte s)"

text \<open>\<open>hex.DecodeString\<close>: an odd length or a byte that is no hex digit is an error.\<close>

fun DecodeString :: "string \<Rightarrow> string option" where
  "DecodeString [] = Some []"
| "DecodeString [c] = None"
| "DecodeString (a # b # s) =
     (case (hex_val a, hex_val b, DecodeString s) of
        (Some x, Some y, Some r) \<Rightarrow> Some (char_of (16 * x + y) # r)
      | _ \<Rightarrow> None)"

text \<open>\<open>strings.ToLower\<close> on ASCII text, the only text it is compared on here.\<close>

definition lower_char :: "char \<Rightarrow> char" where
  "lower_char c = (let n = of_char c :: nat in if 65 \<le> n \<and> n \<le> 90 then char_of (n + 32) else c)"

definition ascii_lower :: "string \<Rightarrow> string" where
  "ascii_lower s = map lower_char s"

definition sha256_hex :: "string \<Rightarrow> string" where
  "sha256_hex s = EncodeToString (sha256 s)"

definition hmac_key :: "string \<Rightarrow> string" where
  "hmac_key k = (let k' = (if length k > 64 then sha256 k else k)
                 in k' @ replicate (64 - length k') (char_of (0 :: nat)))"

definition xor_pad :: "8 word \<Rightarrow> string \<Rightarrow> string" where
  "xor_pad p k = map (\<lambda>c. char_of (unat (of_char c XOR p))) k"

definition hmac_sha256 :: "string \<Rightarrow> string \<Rightarrow> string" where
  "hmac_sha256 key msg = (let k = hmac_key key
     in sha256 (xor_pad 0x5c k @ sha256 (xor_pad 0x36 k @ msg)))"

section \<open>Shape of the output\<close>

lemma length_be_bytes [simp]: "length (be_bytes w) = 4"
  by (simp add: be_bytes_def)

lemma length_sha_extend [simp]: "length (sha_extend n ws) = length ws + n"
  by (induction n arbitrary: ws) (simp_all add: Let_def)

lemma length_sha_round: "length v = 8 \<Longrightarrow> length (sha_round v kw) = 8"
  by (cases "(v, kw)" rule: sha_round.cases) (auto simp: Let_def)

lemma length_sha_rounds: "length v = 8 \<Longrightarrow> length (foldl sha_round v kws) = 8"
  by (induction kws arbitrary: v) (auto simp: length_sha_round)

lemma length_sha_block: "length hs = 8 \<Longrightarrow> length (sha_block hs ws) = 8"
  by (simp add: sha_block_def length_sha_rounds)

lemma length_sha_chunks: "length hs = 8 \<Longrightarrow> length (sha_chunks n hs ws) = 8"
  by (induction n arbitrary: hs ws) (auto simp: length_sha_block)

lemma length_sha256 [simp]: "length (sha256 s) = 32"
proof -
  have "length (concat (map be_bytes ws)) = 4 * length ws" for ws :: "32 word list"
    by (induction ws) auto
  then show ?thesis by (simp add: sha256_def Let_def length_sha_chunks sha_H0_def)
qed

lemma length_EncodeToString [simp]: "length (EncodeToString s) = 2 * length s"
  by (induction s) (auto simp: EncodeToString_def hex_byte_def)

lemma length_sha256_hex [simp]: "length (sha256_hex s) = 64"
  by (simp add: sha256_hex_def)

lemma hex_val_digit: "d < 16 \<Longrightarrow> hex_val (hex_digit d) = Some d"
  by (auto simp: hex_val_def hex_digit_def Let_def)

lemma lower_hex_digit: "d < 16 \<Longrightarrow> lower_char (hex_digit d) = hex_digit d"
  by (auto simp: lower_char_def hex_digit_def Let_def)

lemma of_char_lt_256: "(of_char (c :: char) :: nat) < 256"
  by (metis nat_of_char_less_256)

lemma DecodeString_EncodeToString [simp]: "DecodeString (EncodeToString s) = Some s"
proof (induction s)
  case Nil
  then show ?case by (simp add: EncodeToString_def)
next
  case (Cons c s)
  have "(of_char c :: nat) div 16 < 16" using of_char_lt_256 [of c] by linarith
  with Cons show ?case by (simp add: EncodeToString_def hex_byte_def hex_val_digit)
qed

lemma ascii_lower_EncodeToString [simp]: "ascii_lower (EncodeToString s) = EncodeToString s"
proof -
  have "(of_char (c :: char) :: nat) div 16 < 16" for c using of_char_lt_256 [of c] by linarith
  then have "ascii_lower (hex_byte c) = hex_byte c" for c
    by (simp add: ascii_lower_def hex_byte_def lower_hex_digit)
  then show ?thesis
    by (induction s) (auto simp: EncodeToString_def ascii_lower_def)
qed

lemma EncodeToString_inject: "EncodeToString a = EncodeToString b \<longleftrightarrow> a = b"
  by (metis DecodeString_EncodeToString option.inject)

lemma length_DecodeString: "DecodeString s = Some r \<Longrightarrow> length s = 2 * length r"
  by (induction s arbitrary: r rule: DecodeString.induct) (auto split: option.splits)

lemma sha256_hex_inject: "sha256_hex a = sha256_hex b \<longleftrightarrow> sha256 a = sha256 b"
  by (simp add: sha256_hex_def EncodeToString_inject)

end
