(* ===== verification/Json.thy ===== *)
theory Json
  imports Hashes "HOL-Library.AList"
begin

text \<open>
  JSON as the program sees it through \<open>encoding/json\<close>. A well-formed text is its syntax
  tree: an object keeps its members in order, duplicates included, and a number keeps its
  spelling; the text of a string is decoded (valid UTF-8, which is what \<open>encoding/json\<close>
  always delivers). A request body is its length in bytes together with its tree, or no tree
  when the text is malformed or has trailing content.

  Modelled of the library: \<open>json.Marshal\<close> of a value decoded into \<open>any\<close> with \<open>UseNumber\<close>
  (\<open>marshal\<close>); \<open>json.Unmarshal\<close> into a struct (\<open>dec_obj\<close> and the field decoders: case-folded
  field names, the last duplicate wins, unknown members are ignored, \<open>null\<close> clears a pointer
  and leaves any other field alone); RFC 3339 instants (\<open>parse_rfc3339\<close>).
\<close>

datatype json =
    JNull
  | JBool bool
  | JNum string
  | JStr string
  | JArr "json list"
  | JObj "(string \<times> json) list"

record body =
  body_len :: int
  body_json :: "json option"

section \<open>Writing\<close>

definition hex4_digit :: "nat \<Rightarrow> char" where
  "hex4_digit d = hex_digit (d mod 16)"

definition escape_byte :: "char \<Rightarrow> string" where
  "escape_byte c = (let n = of_char c :: nat in
     if n = 34 \<or> n = 92 then [CHR 0x5C, c]
     else if n = 8 then [CHR 0x5C, CHR ''b'']
     else if n = 12 then [CHR 0x5C, CHR ''f'']
     else if n = 10 then [CHR 0x5C, CHR ''n'']
     else if n = 13 then [CHR 0x5C, CHR ''r'']
     else if n = 9 then [CHR 0x5C, CHR ''t'']
     else if n < 32 \<or> n = 60 \<or> n = 62 \<or> n = 38
       then [CHR 0x5C, CHR ''u'', CHR ''0'', CHR ''0'', hex4_digit (n div 16), hex4_digit n]
     else [c])"

text \<open>The two line separators U+2028 and U+2029 (\<open>E2 80 A8\<close>, \<open>E2 80 A9\<close>) are escaped too.\<close>

fun escape :: "string \<Rightarrow> string" where
  "escape (a # b # c # s) =
     (if (of_char a :: nat) = 226 \<and> (of_char b :: nat) = 128 \<and> (of_char c :: nat) \<in> {168, 169}
      then CHR 0x5C # ''u202'' @ hex4_digit (of_char c) # escape s
      else escape_byte a @ escape (b # c # s))"
| "escape (a # s) = escape_byte a @ escape s"
| "escape [] = []"

definition quote :: "string \<Rightarrow> string" where
  "quote s = [CHR 0x22] @ escape s @ [CHR 0x22]"

fun commas :: "string list \<Rightarrow> string" where
  "commas [] = []"
| "commas [x] = x"
| "commas (x # y # xs) = x @ '','' @ commas (y # xs)"

text \<open>
  Decoding an object into a map keeps the last of several members of one name, and
  \<open>json.Marshal\<close> writes a map with its keys in byte order. \<open>canon\<close> is the tree that results.
\<close>

definition last_members :: "(string \<times> 'a) list \<Rightarrow> (string \<times> 'a) list" where
  "last_members kvs = sort_key fst (AList.clearjunk (rev kvs))"

fun canon :: "json \<Rightarrow> json" where
  "canon (JArr xs) = JArr (map canon xs)"
| "canon (JObj kvs) = JObj (last_members (map (\<lambda>(k, v). (k, canon v)) kvs))"
| "canon j = j"

fun render :: "json \<Rightarrow> string" where
  "render JNull = ''null''"
| "render (JBool b) = (if b then ''true'' else ''false'')"
| "render (JNum s) = s"
| "render (JStr s) = quote s"
| "render (JArr xs) = ''['' @ commas (map render xs) @ '']''"
| "render (JObj kvs) =
     [CHR 0x7B] @ commas (map (\<lambda>(k, v). quote k @ '':'' @ render v) kvs) @ [CHR 0x7D]"

definition marshal :: "json \<Rightarrow> string" where
  "marshal j = render (canon j)"

lemma distinct_last_members [simp]: "distinct (map fst (last_members kvs))"
  using distinct_clearjunk [of "rev kvs"] by (simp add: distinct_map last_members_def)

lemma sorted_last_members: "sorted (map fst (last_members kvs))"
  by (simp add: last_members_def)

lemma map_of_last_members: "map_of (last_members kvs) = map_of (rev kvs)"
proof -
  have "map_of (last_members kvs) = map_of (AList.clearjunk (rev kvs))"
    by (rule map_of_inject_set [THEN iffD2]) (simp, rule distinct_clearjunk, simp add: last_members_def)
  then show ?thesis by (simp add: map_of_clearjunk)
qed

lemma sorted_members_unique:
  assumes "sorted (map fst xs)" "distinct (map fst xs)" "sorted (map fst ys)" "distinct (map fst ys)"
    and "map_of xs = map_of ys"
  shows "xs = ys"
proof (rule map_sorted_distinct_set_unique [of fst])
  show s: "set xs = set ys" using assms by (simp add: map_of_inject_set)
  show "inj_on fst (set xs \<union> set ys)" using s assms(2) by (simp add: distinct_map)
qed (use assms in auto)

lemma last_members_fixed:
  assumes "sorted (map fst kvs)" "distinct (map fst kvs)"
  shows "last_members kvs = kvs"
proof -
  have "map_of (rev kvs) = map_of kvs"
    using assms(2) by (subst map_of_inject_set) (simp_all add: rev_map [symmetric])
  then show ?thesis
    using assms by (intro sorted_members_unique) (simp_all add: sorted_last_members map_of_last_members)
qed

text \<open>Two objects with the same last value for every name have the same canonical members.\<close>

lemma last_members_cong: "map_of (rev xs) = map_of (rev ys) \<Longrightarrow> last_members xs = last_members ys"
  by (rule sorted_members_unique) (simp_all add: sorted_last_members map_of_last_members)

lemma set_clearjunk_subset: "set (AList.clearjunk al) \<subseteq> set al"
proof (induction al rule: clearjunk.induct)
  case (2 p ps)
  have "set (AList.delete (fst p) ps) \<subseteq> set ps" by (auto simp: AList.delete_eq)
  with 2 show ?case by auto
qed simp

lemma set_last_members: "set (last_members kvs) \<subseteq> set kvs"
  using set_clearjunk_subset [of "rev kvs"] by (simp add: last_members_def)

lemma canon_idem [simp]: "canon (canon j) = canon j"
proof (induction j rule: canon.induct)
  case (2 kvs)
  let ?c = "\<lambda>(k, v). (k :: string, canon v)"
  let ?l = "last_members (map ?c kvs)"
  have "?c kv = kv" if "kv \<in> set ?l" for kv
  proof -
    from that set_last_members have "kv \<in> set (map ?c kvs)" by blast
    with 2 show ?thesis by auto
  qed
  then have "map ?c ?l = ?l" by (simp add: map_idI)
  then show ?case by (simp add: last_members_fixed sorted_last_members)
qed auto

lemma canon_obj:
  assumes "distinct (map fst kvs)"
  obtains kvs' where "canon (JObj kvs) = JObj kvs'" "distinct (map fst kvs')"
    "fst ` set kvs' = fst ` set kvs" "\<And>k. map_of kvs' k = map_option canon (map_of kvs k)"
proof
  let ?c = "map (\<lambda>(k, v). (k, canon v)) kvs"
  show "canon (JObj kvs) = JObj (last_members ?c)" by simp
  show "distinct (map fst (last_members ?c))" by simp
  have d: "distinct (map fst ?c)" using assms by (simp add: o_def case_prod_unfold)
  then have "map_of (rev ?c) = map_of ?c"
    by (subst map_of_inject_set) (simp_all add: rev_map [symmetric])
  then show m: "map_of (last_members ?c) k = map_option canon (map_of kvs k)" for k
    by (simp add: map_of_last_members map_of_map)
  have "dom (map_of (last_members ?c)) = dom (map_of kvs)"
    using m by (auto simp: dom_def)
  then show "fst ` set (last_members ?c) = fst ` set kvs" by (simp add: dom_map_of_conv_image_fst)
qed

lemma marshal_canon [simp]: "marshal (canon j) = marshal j"
  by (simp add: marshal_def)

text \<open>Member order and shadowed duplicates do not reach the output.\<close>

lemma marshal_members:
  assumes "map_of (rev xs) = map_of (rev ys)"
  shows "marshal (JObj xs) = marshal (JObj ys)"
proof -
  let ?c = "\<lambda>(k, v). (k :: string, canon v)"
  have "map_of (rev (map ?c zs)) = map_option canon \<circ> map_of (rev zs)" for zs :: "(string \<times> json) list"
    by (simp add: rev_map map_of_map)
  with assms have "last_members (map ?c xs) = last_members (map ?c ys)"
    by (intro last_members_cong) simp
  then show ?thesis by (simp add: marshal_def)
qed

section \<open>Reading into a struct\<close>

text \<open>
  A decoder takes the value already in the target and returns the new one, \<open>None\<close> for an
  error. Field names match exactly, or else after \<open>foldName\<close>: ASCII upper case, with the
  Kelvin sign and the long s folding to K and S.
\<close>

type_synonym 'a dec = "json \<Rightarrow> 'a \<Rightarrow> 'a option"

definition upper_char :: "char \<Rightarrow> char" where
  "upper_char c = (let n = of_char c :: nat in if 97 \<le> n \<and> n \<le> 122 then char_of (n - 32) else c)"

fun foldName :: "string \<Rightarrow> string" where
  "foldName [] = []"
| "foldName (a # s) =
     (if (of_char a :: nat) = 197 \<and> map of_char (take 1 s) = [191 :: nat]
      then CHR ''S'' # foldName (drop 1 s)
      else if (of_char a :: nat) = 226 \<and> map of_char (take 2 s) = [132, 170 :: nat]
      then CHR ''K'' # foldName (drop 2 s)
      else upper_char a # foldName s)"

definition find_field :: "(string \<times> 'a dec) list \<Rightarrow> string \<Rightarrow> 'a dec option" where
  "find_field fs k =
     (case map_of fs k of Some d \<Rightarrow> Some d
      | None \<Rightarrow> map_option snd (find (\<lambda>(n, d). foldName n = foldName k) fs))"

fun dec_members :: "(string \<times> 'a dec) list \<Rightarrow> (string \<times> json) list \<Rightarrow> 'a \<Rightarrow> 'a option" where
  "dec_members fs [] a = Some a"
| "dec_members fs ((k, v) # kvs) a =
     (case find_field fs k of None \<Rightarrow> dec_members fs kvs a
      | Some d \<Rightarrow> (case d v a of None \<Rightarrow> None | Some a' \<Rightarrow> dec_members fs kvs a'))"

definition dec_obj :: "(string \<times> 'a dec) list \<Rightarrow> 'a dec" where
  "dec_obj fs j a = (case j of JNull \<Rightarrow> Some a | JObj kvs \<Rightarrow> dec_members fs kvs a | _ \<Rightarrow> None)"

definition fld :: "'b dec \<Rightarrow> ('a \<Rightarrow> 'b) \<Rightarrow> (('b \<Rightarrow> 'b) \<Rightarrow> 'a \<Rightarrow> 'a) \<Rightarrow> 'a dec" where
  "fld d get upd j a = map_option (\<lambda>x. upd (\<lambda>_. x) a) (d j (get a))"

definition dec_string :: "string dec" where
  "dec_string j cur = (case j of JStr s \<Rightarrow> Some s | JNull \<Rightarrow> Some cur | _ \<Rightarrow> None)"

definition dec_bool :: "bool dec" where
  "dec_bool j cur = (case j of JBool b \<Rightarrow> Some b | JNull \<Rightarrow> Some cur | _ \<Rightarrow> None)"

definition dec_int64 :: "int dec" where
  "dec_int64 j cur = (case j of JNum s \<Rightarrow> ParseInt s | JNull \<Rightarrow> Some cur | _ \<Rightarrow> None)"

definition dec_int32 :: "int dec" where
  "dec_int32 j cur = (case j of
      JNum s \<Rightarrow> (case ParseInt s of Some i \<Rightarrow> if in_int32 i then Some i else None | None \<Rightarrow> None)
    | JNull \<Rightarrow> Some cur | _ \<Rightarrow> None)"

text \<open>A pointer field; the pointee starts from the zero value \<open>z\<close>.\<close>

definition dec_ptr :: "'a \<Rightarrow> 'a dec \<Rightarrow> 'a option dec" where
  "dec_ptr z d j cur = (case j of JNull \<Rightarrow> Some None
     | _ \<Rightarrow> map_option Some (d j (case cur of Some x \<Rightarrow> x | None \<Rightarrow> z)))"

fun dec_list :: "'a \<Rightarrow> 'a dec \<Rightarrow> json list \<Rightarrow> 'a list option" where
  "dec_list z d [] = Some []"
| "dec_list z d (j # js) =
     (case d j z of None \<Rightarrow> None
      | Some x \<Rightarrow> (case dec_list z d js of None \<Rightarrow> None | Some xs \<Rightarrow> Some (x # xs)))"

text \<open>A slice field: \<open>None\<close> is the nil slice.\<close>

definition dec_slice :: "'a \<Rightarrow> 'a dec \<Rightarrow> 'a list option dec" where
  "dec_slice z d j cur = (case j of JNull \<Rightarrow> Some None
     | JArr js \<Rightarrow> map_option Some (dec_list z d js) | _ \<Rightarrow> None)"

text \<open>A type with \<open>UnmarshalText\<close> (an id): a JSON string, or \<open>null\<close> for no change.\<close>

definition dec_text :: "(string \<Rightarrow> 'a option) \<Rightarrow> 'a dec" where
  "dec_text p j cur = (case j of JStr s \<Rightarrow> p s | JNull \<Rightarrow> Some cur | _ \<Rightarrow> None)"

lemma length_dec_list: "dec_list z d js = Some xs \<Longrightarrow> length xs = length js"
  by (induction js arbitrary: xs) (auto split: option.splits)

lemma find_field_exact: "map_of fs k = Some d \<Longrightarrow> find_field fs k = Some d"
  by (simp add: find_field_def)

text \<open>Every member that reaches a decoder was accepted by it.\<close>

lemma dec_members_accepted:
  "dec_members fs kvs a = Some a' \<Longrightarrow> (k, v) \<in> set kvs \<Longrightarrow> map_of fs k = Some d \<Longrightarrow>
   \<exists>cur x. d v cur = Some x"
proof (induction kvs arbitrary: a)
  case (Cons kv kvs)
  obtain k1 v1 where kv: "kv = (k1, v1)" by (cases kv)
  show ?case
  proof (cases "(k, v) = kv")
    case True
    with Cons.prems show ?thesis by (auto simp: kv find_field_exact split: option.splits)
  next
    case False
    with Cons.prems(2) have "(k, v) \<in> set kvs" by simp
    moreover from Cons.prems(1) obtain a1 where "dec_members fs kvs a1 = Some a'"
      by (auto simp: kv split: option.splits)
    ultimately show ?thesis using Cons.IH Cons.prems(3) by blast
  qed
qed simp

text \<open>A one-field target reads the one member of that name and no other.\<close>

lemma dec_members_none:
  "\<forall>k \<in> fst ` set kvs. find_field fs k = None \<Longrightarrow> dec_members fs kvs a = Some a"
  by (induction kvs) auto

lemma dec_members_single:
  assumes "distinct (map fst kvs)" "map_of kvs n = Some v"
    and "\<forall>k \<in> fst ` set kvs. k \<noteq> n \<longrightarrow> find_field [(n, d)] k = None"
  shows "dec_members [(n, d)] kvs a = d v a"
  using assms
proof (induction kvs)
  case (Cons kv kvs)
  obtain k1 v1 where kv: "kv = (k1, v1)" by (cases kv)
  show ?case
  proof (cases "k1 = n")
    case True
    with Cons.prems have "\<forall>k \<in> fst ` set kvs. find_field [(n, d)] k = None"
      by (auto simp: kv)
    with True Cons.prems show ?thesis
      by (simp add: kv find_field_def dec_members_none split: option.splits)
  next
    case False
    with Cons.prems have "find_field [(n, d)] k1 = None" "map_of kvs n = Some v"
      by (auto simp: kv)
    with Cons show ?thesis by (simp add: kv)
  qed
qed simp

text \<open>
  A field of the result is what its decoder made of the one member of that name, or the
  initial value, where the other decoders leave that field alone.
\<close>

definition keeps :: "('a \<Rightarrow> 'b) \<Rightarrow> string \<Rightarrow> (string \<times> 'a dec) list \<Rightarrow> bool" where
  "keeps get n fs \<longleftrightarrow> (\<forall>(k, d) \<in> set fs. k = n \<or> (\<forall>j a a'. d j a = Some a' \<longrightarrow> get a' = get a))"

lemma keepsD: "keeps get n fs \<Longrightarrow> map_of fs k = Some d \<Longrightarrow> k \<noteq> n \<Longrightarrow> d j a = Some a' \<Longrightarrow> get a' = get a"
  unfolding keeps_def by (drule map_of_SomeD) fastforce

lemma dec_members_keep:
  assumes "keeps get n fs" "fst ` set kvs \<subseteq> fst ` set fs" "n \<notin> fst ` set kvs"
    and "dec_members fs kvs a = Some a'"
  shows "get a' = get a"
  using assms(2-4)
proof (induction kvs arbitrary: a)
  case (Cons kv kvs)
  obtain k v where kv: "kv = (k, v)" by (cases kv)
  obtain d where d: "map_of fs k = Some d"
    using Cons.prems(1) by (metis kv fst_conv image_eqI insertI1 list.simps(15) map_of_eq_None_iff not_None_eq subsetD)
  then obtain a1 where a1: "d v a = Some a1" "dec_members fs kvs a1 = Some a'"
    using Cons.prems(3) by (auto simp: kv find_field_exact split: option.splits)
  have "get a1 = get a" using keepsD [OF assms(1) d _ a1(1)] Cons.prems(2) by (auto simp: kv)
  moreover have "get a' = get a1" using Cons.IH [OF _ _ a1(2)] Cons.prems(1,2) by auto
  ultimately show ?case by simp
qed simp

lemma dec_members_field:
  assumes k: "keeps get n fs" "map_of fs n = Some (fld d get upd)" "\<And>x a. get (upd (\<lambda>_. x) a) = x"
    and "fst ` set kvs \<subseteq> fst ` set fs" "distinct (map fst kvs)" "map_of kvs n = Some j"
    and "dec_members fs kvs a = Some a'"
  shows "d j (get a) = Some (get a')"
  using assms(4-)
proof (induction kvs arbitrary: a)
  case (Cons kv kvs)
  obtain k v where kv: "kv = (k, v)" by (cases kv)
  obtain d1 where d1: "map_of fs k = Some d1"
    using Cons.prems(1) by (metis kv fst_conv image_eqI insertI1 list.simps(15) map_of_eq_None_iff not_None_eq subsetD)
  then obtain a1 where a1: "d1 v a = Some a1" "dec_members fs kvs a1 = Some a'"
    using Cons.prems(4) by (auto simp: kv find_field_exact split: option.splits)
  show ?case
  proof (cases "k = n")
    case True
    then have "get a' = get a1"
      using Cons.prems(1,2) by (intro dec_members_keep [OF k(1) _ _ a1(2)]) (auto simp: kv)
    moreover have "d v (get a) = Some (get a1)"
      using True d1 k(2,3) a1(1) by (auto simp: fld_def)
    ultimately show ?thesis using True Cons.prems(3) by (simp add: kv)
  next
    case False
    have "get a1 = get a" by (rule keepsD [OF k(1) d1 False a1(1)])
    moreover have "d j (get a1) = Some (get a')"
      using False Cons.prems by (intro Cons.IH [OF _ _ _ a1(2)]) (auto simp: kv)
    ultimately show ?thesis by simp
  qed
qed simp

section \<open>Plain trees\<close>

text \<open>Every number is an integer in its plain spelling.\<close>

fun plain :: "json \<Rightarrow> bool" where
  "plain (JNum s) \<longleftrightarrow> (case ParseInt s of Some i \<Rightarrow> FormatInt i = s | None \<Rightarrow> False)"
| "plain (JArr xs) \<longleftrightarrow> (\<forall>x \<in> set xs. plain x)"
| "plain (JObj kvs) \<longleftrightarrow> (\<forall>kv \<in> set kvs. plain (snd kv))"
| "plain j \<longleftrightarrow> True"

lemma plain_canon: "plain j \<Longrightarrow> plain (canon j)"
proof (induction j rule: canon.induct)
  case (2 kvs)
  show ?case
  proof (simp, intro ballI)
    fix kv assume "kv \<in> set (last_members (map (\<lambda>(k, v). (k, canon v)) kvs))"
    then have "kv \<in> set (map (\<lambda>(k, v). (k, canon v)) kvs)" using set_last_members by blast
    then obtain k v where "(k, v) \<in> set kvs" "kv = (k, canon v)" by auto
    with 2 show "plain (snd kv)" by force
  qed
qed auto

lemma ParseInt_FormatInt_unique: "ParseInt (FormatInt n) = Some i \<Longrightarrow> i = n"
proof -
  assume a: "ParseInt (FormatInt n) = Some i"
  show "i = n"
  proof (cases "n < 0")
    case True
    with a show ?thesis by (auto simp: FormatInt_def ParseInt_def Let_def split: if_splits)
  next
    case False
    obtain c cs where c: "dec_nat n = c # cs" by (cases "dec_nat n") auto
    then obtain d where "d < 10" "c = digit_char d" using dec_nat_digits [of c n] by auto
    then have "c \<noteq> CHR ''-''" "c \<noteq> CHR ''+''" using digit_char_not_sign by auto
    moreover have "parse_digits (c # cs) = Some n" using False by (simp flip: c)
    ultimately show ?thesis
      using a False by (auto simp: FormatInt_def c ParseInt_def Let_def split: if_splits)
  qed
qed

end
