(* ===== verification/Schema.thy ===== *)
theory Schema
  imports Basics Json
begin

text \<open>
  The world the services run in: the third-party functions they call (\<open>ext\<close>, a parameter of
  every definition that uses one), instants, and the PostgreSQL schema of \<open>migrations/\<close>,
  one record per table and one record \<open>db\<close> of all tables. An id is the 16 bytes of a
  \<open>uuid.UUID\<close>, a \<open>128 word\<close>; \<open>uuid.Nil\<close> is \<open>0\<close>. An instant is its distance from the Unix
  epoch in nanoseconds. A statement that PostgreSQL rejects (a \<open>CHECK\<close>, or a NUL byte in a
  text value) is the error \<open>SqlError\<close>.
\<close>

type_synonym uuid = "128 word"

text \<open>
  \<open>google/uuid\<close>: \<open>Parse\<close> and \<open>String\<close>. \<open>x/text\<close>: NFKC and case folding. PostgreSQL: text to
  \<open>uuid\<close>, \<open>numeric\<close> and \<open>timestamptz\<close>. \<open>float_text\<close> is the shortest decimal text of a number
  literal read as a \<open>float64\<close>, \<open>None\<close> when it is out of range; \<open>tree_text\<close> is \<open>fmt\<close>'s \<open>%v\<close> of a
  decoded array or object; \<open>to_lower\<close> is \<open>strings.ToLower\<close>. \<open>pg_float8\<close> and \<open>pg_bool\<close> are
  PostgreSQL's casts of a text, \<open>None\<close> when they fail; \<open>uuid_v5\<close> is the version 5 id of a name in the one
  namespace the code uses (\<open>uuid_generate_v5\<close> and \<open>uuid.NewSHA1\<close>).
\<close>

record ext =
  uuid_parse :: "string \<Rightarrow> uuid option"
  uuid_string :: "uuid \<Rightarrow> string"
  nfkc :: "string \<Rightarrow> string"
  fold_case :: "string \<Rightarrow> string"
  pg_uuid :: "string \<Rightarrow> uuid option"
  pg_numeric :: "string \<Rightarrow> string option"
  pg_timestamptz :: "string \<Rightarrow> int option"
  float_text :: "string \<Rightarrow> string option"
  tree_text :: "json \<Rightarrow> string"
  to_lower :: "string \<Rightarrow> string"
  pg_float8 :: "string \<Rightarrow> real option"
  pg_bool :: "string \<Rightarrow> bool option"
  uuid_v5 :: "string \<Rightarrow> uuid"

text \<open>What the code relies on: the text an id prints as is printable and reads back as that id.\<close>

definition ext_ok :: "ext \<Rightarrow> bool" where
  "ext_ok X \<longleftrightarrow> (\<forall>u. uuid_parse X (uuid_string X u) = Some u \<and> pg_uuid X (uuid_string X u) = Some u
     \<and> (\<forall>c \<in> set (uuid_string X u). (of_char c :: nat) \<ge> 32))"

definition normalize :: "ext \<Rightarrow> string \<Rightarrow> string" where
  "normalize X s = Normalize (nfkc X) (fold_case X) s"

lemma ext_ok_uuid: "ext_ok X \<Longrightarrow> uuid_parse X (uuid_string X u) = Some u"
  by (simp add: ext_ok_def)

lemma ext_ok_pg: "ext_ok X \<Longrightarrow> pg_uuid X (uuid_string X u) = Some u"
  by (simp add: ext_ok_def)

lemma uuid_string_inject: "ext_ok X \<Longrightarrow> uuid_string X u = uuid_string X v \<longleftrightarrow> u = v"
  by (metis ext_ok_uuid option.inject)

section \<open>Instants\<close>

definition nanos :: int where
  "nanos = 10 ^ 9"

text \<open>The zero \<open>time.Time\<close> is January 1 of the year 1.\<close>

definition zero_time :: int where
  "zero_time = - 62135596800 * nanos"

definition hours :: "int \<Rightarrow> int" where
  "hours h = h * 3600 * nanos"

text \<open>\<open>timestamptz\<close> keeps microseconds.\<close>

definition pg_ts :: "int \<Rightarrow> int" where
  "pg_ts t = t div 1000 * 1000"

definition leap :: "int \<Rightarrow> bool" where
  "leap y \<longleftrightarrow> y mod 4 = 0 \<and> (y mod 100 \<noteq> 0 \<or> y mod 400 = 0)"

definition days_in :: "int \<Rightarrow> int \<Rightarrow> int" where
  "days_in y m = (if m = 2 then (if leap y then 29 else 28)
                  else if m \<in> {4, 6, 9, 11} then 30 else 31)"

definition days_before_year :: "int \<Rightarrow> int" where
  "days_before_year y = 365 * (y - 1) + (y - 1) div 4 - (y - 1) div 100 + (y - 1) div 400"

definition days_from_epoch :: "int \<Rightarrow> int \<Rightarrow> int \<Rightarrow> int" where
  "days_from_epoch y m d =
     days_before_year y + sum_list (map (days_in y) [1 .. m - 1]) + (d - 1) - 719162"

definition num2 :: "string \<Rightarrow> int option" where
  "num2 s = (if length s = 2 then parse_digits s else None)"

definition num_in :: "int \<Rightarrow> int \<Rightarrow> int option \<Rightarrow> bool" where
  "num_in lo hi x = (case x of None \<Rightarrow> False | Some i \<Rightarrow> lo \<le> i \<and> i \<le> hi)"

fun span_digits :: "string \<Rightarrow> string \<times> string" where
  "span_digits [] = ([], [])"
| "span_digits (c # s) = (if digit_val c = None then ([], c # s)
     else (let (a, b) = span_digits s in (c # a, b)))"

definition fraction :: "string \<Rightarrow> int" where
  "fraction ds = (case parse_digits (take 9 (ds @ replicate 9 (CHR ''0''))) of
     Some n \<Rightarrow> n | None \<Rightarrow> 0)"

definition zone_offset :: "string \<Rightarrow> int option" where
  "zone_offset s =
     (if s = ''Z'' then Some 0
      else if length s = 6 \<and> s ! 0 \<in> {CHR ''+'', CHR ''-''} \<and> s ! 3 = CHR '':''
        \<and> num_in 0 23 (num2 (take 2 (drop 1 s))) \<and> num_in 0 59 (num2 (drop 4 s))
      then (let o' = the (num2 (take 2 (drop 1 s))) * 3600 + the (num2 (drop 4 s)) * 60
            in Some (if s ! 0 = CHR ''-'' then - o' else o'))
      else None)"

text \<open>\<open>time.Time.UnmarshalJSON\<close>: strict RFC 3339, seconds fraction optional.\<close>

definition parse_rfc3339 :: "string \<Rightarrow> int option" where
  "parse_rfc3339 s =
     (let y = (if length (take 4 s) = 4 then parse_digits (take 4 s) else None);
          part = (\<lambda>i. num2 (take 2 (drop i s)));
          rest = drop 19 s;
          frac = (case rest of c # r \<Rightarrow> if c = CHR ''.'' \<and> fst (span_digits r) \<noteq> []
                     then span_digits r else ([], rest) | [] \<Rightarrow> ([], rest))
      in if length s \<ge> 20 \<and> num_in 0 9999 y \<and> s ! 4 = CHR ''-'' \<and> num_in 1 12 (part 5)
            \<and> s ! 7 = CHR ''-'' \<and> num_in 1 (days_in (the y) (the (part 5))) (part 8)
            \<and> s ! 10 = CHR ''T'' \<and> num_in 0 23 (part 11) \<and> s ! 13 = CHR '':''
            \<and> num_in 0 59 (part 14) \<and> s ! 16 = CHR '':'' \<and> num_in 0 59 (part 17)
         then (case zone_offset (snd frac) of None \<Rightarrow> None
               | Some off \<Rightarrow> Some ((days_from_epoch (the y) (the (part 5)) (the (part 8)) * 86400
                   + the (part 11) * 3600 + the (part 14) * 60 + the (part 17) - off) * nanos
                   + fraction (fst frac)))
         else None)"

definition dec_time :: "int dec" where
  "dec_time j cur = (case j of JStr s \<Rightarrow> parse_rfc3339 s | JNull \<Rightarrow> Some cur | _ \<Rightarrow> None)"

text \<open>An instance that satisfies the contract, for the witnesses: decimal text.\<close>

definition sample_ext :: ext where
  "sample_ext = \<lparr> uuid_parse = (\<lambda>s. map_option of_int (parse_digits s)),
     uuid_string = (\<lambda>u. dec_nat (uint u)), nfkc = id, fold_case = ascii_lower,
     pg_uuid = (\<lambda>s. map_option of_int (parse_digits s)), pg_numeric = Some,
     pg_timestamptz = parse_rfc3339, float_text = Some, tree_text = render, to_lower = ascii_lower,
     pg_float8 = (\<lambda>s. map_option real_of_int (parse_digits s)),
     pg_bool = (\<lambda>s. if s = ''true'' then Some True else if s = ''false'' then Some False else None),
     uuid_v5 = (\<lambda>s. of_nat (length s)) \<rparr>"

lemma dec_nat_printable: "c \<in> set (dec_nat n) \<Longrightarrow> 32 \<le> (of_char c :: nat)"
  using dec_nat_digits [of c n] by (auto simp: of_char_digit)

lemma ext_ok_sample: "ext_ok sample_ext"
  by (simp add: ext_ok_def sample_ext_def dec_nat_printable)

lemma uuid_string_printable: "ext_ok X \<Longrightarrow> c \<in> set (uuid_string X u) \<Longrightarrow> (of_char c :: nat) \<ge> 32"
  by (simp add: ext_ok_def)

section \<open>SQL values\<close>

datatype sql_error = SqlError

text \<open>A text value must not hold a NUL byte.\<close>

definition pg_text :: "string \<Rightarrow> bool" where
  "pg_text s \<longleftrightarrow> (\<forall>c \<in> set s. (of_char c :: nat) \<noteq> 0)"

definition pg_text_opt :: "string option \<Rightarrow> bool" where
  "pg_text_opt s = (case s of None \<Rightarrow> True | Some t \<Rightarrow> pg_text t)"

text \<open>
  \<open>jsonb\<close> input: objects become maps, numbers become \<open>numeric\<close> (an integer in plain spelling
  is kept), a NUL in a string is an error.
\<close>

fun jsonb_in :: "ext \<Rightarrow> json \<Rightarrow> json option" where
  "jsonb_in X JNull = Some JNull"
| "jsonb_in X (JBool b) = Some (JBool b)"
| "jsonb_in X (JNum s) =
     (case ParseInt s of Some i \<Rightarrow> if FormatInt i = s then Some (JNum s) else map_option JNum (pg_numeric X s)
      | None \<Rightarrow> map_option JNum (pg_numeric X s))"
| "jsonb_in X (JStr s) = (if pg_text s then Some (JStr s) else None)"
| "jsonb_in X (JArr xs) =
     (let ys = map (jsonb_in X) xs in if None \<in> set ys then None else Some (JArr (map the ys)))"
| "jsonb_in X (JObj kvs) =
     (let ys = map (\<lambda>(k, v). (k, jsonb_in X v)) kvs
      in if None \<in> snd ` set ys \<or> (\<exists>k \<in> fst ` set kvs. \<not> pg_text k) then None
         else Some (JObj (last_members (map (\<lambda>(k, v). (k, the v)) ys))))"

text \<open>What is plain is stored as it is.\<close>

lemma jsonb_arr:
  "jsonb_in X (JArr xs) = Some j \<longleftrightarrow>
     (\<forall>x \<in> set xs. jsonb_in X x \<noteq> None) \<and> j = JArr (map (\<lambda>x. the (jsonb_in X x)) xs)"
proof -
  have "None \<in> set (map (jsonb_in X) xs) \<longleftrightarrow> (\<exists>x \<in> set xs. jsonb_in X x = None)" by force
  then show ?thesis by (simp add: Let_def o_def del: set_map) blast
qed

lemma jsonb_obj:
  "jsonb_in X (JObj kvs) = Some j \<longleftrightarrow>
     (\<forall>kv \<in> set kvs. jsonb_in X (snd kv) \<noteq> None \<and> pg_text (fst kv))
     \<and> j = JObj (last_members (map (\<lambda>kv. (fst kv, the (jsonb_in X (snd kv)))) kvs))"
proof -
  have "map (\<lambda>(k, v). (k, the v)) (map (\<lambda>(k, v). (k, jsonb_in X v)) kvs)
      = map (\<lambda>kv. (fst kv, the (jsonb_in X (snd kv)))) kvs"
    by auto
  moreover have "None \<in> snd ` set (map (\<lambda>(k, v). (k, jsonb_in X v)) kvs)
      \<longleftrightarrow> (\<exists>kv \<in> set kvs. jsonb_in X (snd kv) = None)"
    by (force simp: image_iff)
  ultimately show ?thesis
    by (auto simp: Let_def simp del: map_map)
qed

lemma jsonb_plain: "plain j \<Longrightarrow> jsonb_in X j = Some j' \<Longrightarrow> j' = canon j"
proof (induction j arbitrary: j' rule: canon.induct)
  case (1 xs)
  have "the (jsonb_in X x) = canon x" if "x \<in> set xs" for x
    using 1 that unfolding jsonb_arr by auto
  with 1 show ?case unfolding jsonb_arr by simp
next
  case (2 kvs)
  have "(fst kv, the (jsonb_in X (snd kv))) = (\<lambda>(k, v). (k, canon v)) kv" if "kv \<in> set kvs" for kv
    using 2 that unfolding jsonb_obj by (cases kv) fastforce
  then have "map (\<lambda>kv. (fst kv, the (jsonb_in X (snd kv)))) kvs = map (\<lambda>(k, v). (k, canon v)) kvs"
    by (rule map_cong [OF refl])
  with 2 show ?case unfolding jsonb_obj by simp
qed (auto split: if_splits option.splits)

text \<open>\<open>j->'k'\<close> and \<open>j->>'k'\<close>.\<close>

definition jfield :: "string \<Rightarrow> json \<Rightarrow> json option" where
  "jfield k j = (case j of JObj kvs \<Rightarrow> map_of kvs k | _ \<Rightarrow> None)"

definition jtext :: "json option \<Rightarrow> string option" where
  "jtext j = (case j of None \<Rightarrow> None | Some JNull \<Rightarrow> None | Some (JStr s) \<Rightarrow> Some s
     | Some v \<Rightarrow> Some (render v))"

definition jfield_text :: "string \<Rightarrow> json \<Rightarrow> string option" where
  "jfield_text k j = jtext (jfield k j)"

end
