(* ===== verification/Tables.thy ===== *)
theory Tables
  imports Schema
begin

text \<open>
  The tables of \<open>migrations/\<close>, one record per row type (a column that admits NULL is an
  \<open>option\<close>), and the record \<open>db\<close> of all tables. A statement returns the new database, or
  \<open>SqlError\<close>. Row ids of the two ledgers come from the sequences \<open>seq_query_log\<close> and
  \<open>seq_behavior\<close>.
\<close>

record document =
  d_video_id :: uuid
  d_kind :: string
  d_channel_id :: "uuid option"
  d_channel_handle :: "string option"
  d_channel_name :: "string option"
  d_owner_id :: "uuid option"
  d_title :: string
  d_description :: string
  d_tags :: "string option list"
  d_category :: "string option"
  d_language :: "string option"
  d_license :: "string option"
  d_duration_seconds :: "int option"
  d_is_sensitive :: bool
  d_eligible :: bool
  d_suppressed_reason :: "string option"
  d_views :: int
  d_likes :: int
  d_published_at :: "int option"
  d_source_updated_at :: int
  d_indexed_at :: int
  d_reconcile_run_id :: "uuid option"

record inbox_row =
  ib_event_id :: uuid
  ib_type :: string
  ib_received_at :: int

record config_row =
  sc_key :: string
  sc_text :: string
  sc_updated_at :: int

record query_log_row =
  ql_id :: int
  ql_event_id :: "uuid option"
  ql_normalized_query :: string
  ql_display_query :: string
  ql_user_id :: "uuid option"
  ql_session_id :: "string option"
  ql_subject_id :: "string option"
  ql_results_count :: "int option"
  ql_submitted_at :: int

record aggregate_row =
  qa_normalized_query :: string
  qa_display_query :: string
  qa_total_count :: int
  qa_distinct_users :: int
  qa_decayed_freq :: real
  qa_first_seen :: int
  qa_last_seen :: int
  qa_suggestible :: bool
  qa_banned :: bool

record history_row =
  uh_user_id :: uuid
  uh_normalized_query :: string
  uh_display_query :: string
  uh_use_count :: int
  uh_last_used_at :: int
  uh_hidden :: bool

record projection_row =
  wp_user_id :: uuid
  wp_video_id :: uuid
  wp_weight :: real
  wp_last_watched_at :: int

record behavior_row =
  be_id :: int
  be_event_id :: uuid
  be_type :: string
  be_user_id :: "uuid option"
  be_session_id :: "string option"
  be_normalized_query :: "string option"
  be_video_id :: "uuid option"
  be_position :: "int option"
  be_model_version :: "string option"
  be_occurred_at :: int
  be_props :: json

record engagement_row =
  en_normalized_query :: string
  en_video_id :: uuid
  en_impressions :: int
  en_clicks :: int
  en_meaningful_watches :: int
  en_updated_at :: int

record neighbor_row =
  nb_video_id :: uuid
  nb_neighbor_id :: uuid
  nb_score :: real
  nb_source :: string
  nb_model_version :: string

record cursor_row =
  wc_name :: string
  wc_pos :: int
  wc_updated_at :: int

record experiment_row =
  xp_key :: string
  xp_description :: string
  xp_variants :: json
  xp_salt :: string
  xp_enabled :: bool
  xp_created_at :: int

record model_row =
  md_id :: int
  md_kind :: string
  md_version :: string
  md_status :: string
  md_artifact_sha256 :: "string option"
  md_artifact_path :: "string option"
  md_metrics :: json
  md_trained_at :: int
  md_activated_at :: "int option"

record epoch_row =
  ce_scope :: string
  ce_epoch :: uuid
  ce_predecessor :: "uuid option"

record scope_row =
  cs_scope :: string
  cs_epoch :: uuid
  cs_highest :: int
  cs_completed :: int
  cs_completed_at :: "int option"
  cs_page_count :: int
  cs_document_count :: int
  cs_membership :: "string option"
  cs_pages :: "string option"

record snapshot_row =
  sn_scope :: string
  sn_epoch :: uuid
  sn_generation :: int
  sn_created_at :: int
  sn_page_count :: "int option"
  sn_document_count :: "int option"
  sn_membership :: "string option"
  sn_pages :: "string option"
  sn_canonical_bytes :: int

record page_row =
  pr_scope :: string
  pr_epoch :: uuid
  pr_generation :: int
  pr_page_index :: int
  pr_documents :: json
  pr_document_count :: int
  pr_content_sha256 :: string

record db =
  documents :: "document list"
  events_inbox :: "inbox_row list"
  service_config :: "config_row list"
  query_log :: "query_log_row list"
  seq_query_log :: int
  query_aggregates :: "aggregate_row list"
  user_search_history :: "history_row list"
  user_watch_projection :: "projection_row list"
  behavior_events :: "behavior_row list"
  seq_behavior :: int
  query_video_engagement :: "engagement_row list"
  item_neighbors :: "neighbor_row list"
  worker_cursors :: "cursor_row list"
  experiments :: "experiment_row list"
  models :: "model_row list"
  catalog_epochs :: "epoch_row list"
  catalog_scopes :: "scope_row list"
  catalog_snapshots :: "snapshot_row list"
  catalog_pages :: "page_row list"

definition empty_db :: db where
  "empty_db = \<lparr> documents = [], events_inbox = [], service_config = [], query_log = [], seq_query_log = 1,
     query_aggregates = [], user_search_history = [], user_watch_projection = [], behavior_events = [],
     seq_behavior = 1, query_video_engagement = [], item_neighbors = [], worker_cursors = [],
     experiments = [], models = [], catalog_epochs = [],
     catalog_scopes = [], catalog_snapshots = [], catalog_pages = [] \<rparr>"

text \<open>The primary keys and unique columns hold.\<close>

definition keys_ok :: "db \<Rightarrow> bool" where
  "keys_ok s \<longleftrightarrow>
     distinct (map d_video_id (documents s))
     \<and> distinct (map ib_event_id (events_inbox s))
     \<and> distinct (map sc_key (service_config s))
     \<and> distinct (List.map_filter ql_event_id (query_log s))
     \<and> distinct (map qa_normalized_query (query_aggregates s))
     \<and> distinct (map (\<lambda>r. (uh_user_id r, uh_normalized_query r)) (user_search_history s))
     \<and> distinct (map (\<lambda>r. (wp_user_id r, wp_video_id r)) (user_watch_projection s))
     \<and> distinct (map be_event_id (behavior_events s))"

lemma keys_ok_empty: "keys_ok empty_db"
  by (simp add: keys_ok_def empty_db_def map_filter_simps)

end
