(* ===== verification/CatalogProtocol.thy ===== *)
theory CatalogProtocol
  imports Schema
begin

text \<open>
  \<open>internal/catalog\<close>: the wire form of a generation, the identity of an observation, the
  manifest and the three digests (documents, pages, membership), and \<open>VerifySnapshot\<close>, the
  proof that a frozen set of pages is exactly what a manifest declares.

  A canonical byte slice is represented by the canonical tree it is the text of; its bytes
  are \<open>render\<close> of that tree. The lemmas show that the digests do not depend on the order of
  members, ids or pages, and that a manifest pins content and membership: two snapshots that
  verify against one manifest agree, or exhibit a SHA-256 collision.
\<close>

datatype catalog_error =
    NotAnArray | UnsupportedScope | MissingFence | NotPositive | InvalidGeneration
  | InvalidMembership | BadPageSequence | BadPageDigest
  | InconsistentCounts | BadManifestDigest | BadEmptyManifest
  | OverBudget | PageMismatch | PageCountMismatch | SnapshotQuota
  | LedgerMismatch | MembershipMismatch | PagesMismatch

section \<open>Generations and identities\<close>

definition Generation_MarshalJSON :: "int \<Rightarrow> catalog_error + json" where
  "Generation_MarshalJSON g = (if g \<le> 0 then Inl NotPositive else Inr (JStr (FormatInt g)))"

definition Generation_UnmarshalJSON :: "json \<Rightarrow> catalog_error + int" where
  "Generation_UnmarshalJSON j =
     (case dec_string j [] of None \<Rightarrow> Inl InvalidGeneration
      | Some wire \<Rightarrow> (case ParseInt wire of None \<Rightarrow> Inl InvalidGeneration
        | Some n \<Rightarrow> if n \<le> 0 \<or> FormatInt n \<noteq> wire then Inl InvalidGeneration else Inr n))"

definition ProtocolVersion :: int where "ProtocolVersion = 2"

definition ScopeLocal :: string where "ScopeLocal = ''local''"

definition MaxRequestBytes :: int where "MaxRequestBytes = 2 ^ 20"

definition MaxSnapshotBytes :: int where "MaxSnapshotBytes = 512 * 2 ^ 20"

definition MaxDocuments :: int where "MaxDocuments = 100000"

definition MaxPages :: int where "MaxPages = 1024"

record identity =
  i_scope :: string
  i_epoch :: uuid
  i_generation :: int

definition Identity_Validate :: "identity \<Rightarrow> catalog_error + unit" where
  "Identity_Validate v =
     (if i_scope v \<noteq> ScopeLocal then Inl UnsupportedScope
      else if i_epoch v = 0 \<or> i_generation v \<le> 0 then Inl MissingFence
      else Inr ())"

section \<open>Digests\<close>

definition DocumentsDigest :: "json \<Rightarrow> catalog_error + (json \<times> string)" where
  "DocumentsDigest raw = (case raw of
      JArr documents \<Rightarrow> (let canonical = canon raw in Inr (canonical, sha256_hex (render canonical)))
    | _ \<Rightarrow> Inl NotAnArray)"

record page_digest =
  page_index :: int
  content_sha256 :: string

definition newline :: char where "newline = CHR 0x0A"

definition page_line :: "page_digest \<Rightarrow> string" where
  "page_line p = FormatInt (page_index p) @ '':'' @ content_sha256 p @ [newline]"

text \<open>The loop of \<open>PagesDigest\<close>: \<open>i\<close> counts the pages, \<open>acc\<close> is what the hash was fed.\<close>

fun pages_text :: "int \<Rightarrow> page_digest list \<Rightarrow> string \<Rightarrow> catalog_error + string" where
  "pages_text i [] acc = Inr acc"
| "pages_text i (p # ps) acc =
     (if page_index p \<noteq> int32 i \<or> length (content_sha256 p) \<noteq> 64 then Inl BadPageSequence
      else if DecodeString (content_sha256 p) = None \<or> ascii_lower (content_sha256 p) \<noteq> content_sha256 p
      then Inl BadPageDigest
      else pages_text (i + 1) ps (acc @ page_line p))"

definition before_page :: "page_digest \<Rightarrow> page_digest \<Rightarrow> bool" where
  "before_page p q \<longleftrightarrow> page_index p < page_index q"

definition PagesDigest :: "page_digest list \<Rightarrow> catalog_error + string" where
  "PagesDigest pages = (case pages_text 0 (SliceStable before_page pages) [] of
      Inl e \<Rightarrow> Inl e | Inr acc \<Rightarrow> Inr (sha256_hex acc))"

text \<open>The loop of \<open>MembershipDigest\<close>: \<open>seen\<close> is its map, \<open>ordered\<close> its slice.\<close>

fun membership_ids :: "ext \<Rightarrow> uuid list \<Rightarrow> uuid list \<Rightarrow> string list \<Rightarrow> catalog_error + string list" where
  "membership_ids X [] seen ordered = Inr ordered"
| "membership_ids X (u # us) seen ordered =
     (if u = 0 \<or> u \<in> set seen then Inl InvalidMembership
      else membership_ids X us (u # seen) (ordered @ [uuid_string X u]))"

definition membership_text :: "string list \<Rightarrow> string" where
  "membership_text ss = concat (map (\<lambda>s. s @ [newline]) (sort ss))"

definition MembershipDigest :: "ext \<Rightarrow> uuid list \<Rightarrow> catalog_error + string" where
  "MembershipDigest X ids = (case membership_ids X ids [] [] of
      Inl e \<Rightarrow> Inl e | Inr ordered \<Rightarrow> Inr (sha256_hex (membership_text ordered)))"

section \<open>Manifests and snapshots\<close>

record manifest =
  page_count :: int
  document_count :: int
  membership_sha256 :: string
  pages_sha256 :: string

definition empty_sha256 :: string where
  "empty_sha256 = ''e3b0c44298fc1c149afbf4c8996fb92427ae41e4649b934ca495991b7852b855''"

definition bad_manifest_digest :: "string \<Rightarrow> bool" where
  "bad_manifest_digest d =
     (case DecodeString d of None \<Rightarrow> True
      | Some decoded \<Rightarrow> length decoded \<noteq> 32 \<or> ascii_lower d \<noteq> d)"

definition Manifest_Validate :: "manifest \<Rightarrow> catalog_error + unit" where
  "Manifest_Validate m =
     (if page_count m < 0 \<or> document_count m < 0 \<or> page_count m > document_count m
         \<or> (page_count m = 0) \<noteq> (document_count m = 0)
      then Inl InconsistentCounts
      else if \<exists>d \<in> set [membership_sha256 m, pages_sha256 m]. bad_manifest_digest d
      then Inl BadManifestDigest
      else if page_count m = 0 \<and> (membership_sha256 m \<noteq> empty_sha256 \<or> pages_sha256 m \<noteq> empty_sha256)
      then Inl BadEmptyManifest
      else Inr ())"

record snapshot_page =
  sp_digest :: page_digest
  sp_documents :: json
  sp_count :: int

text \<open>The ids a documents array declares: the anonymous struct both Go readers decode.\<close>

definition dec_member :: "ext \<Rightarrow> uuid dec" where
  "dec_member X = dec_obj [(''video'', dec_obj [(''id'', dec_text (uuid_parse X))])]"

definition member_ids :: "ext \<Rightarrow> json \<Rightarrow> uuid list option" where
  "member_ids X canonical =
     (case canonical of JArr js \<Rightarrow> dec_list 0 (dec_member X) js
      | JNull \<Rightarrow> Some [] | _ \<Rightarrow> None)"

text \<open>The loop of \<open>VerifySnapshot\<close> over the pages: ids, digests and bytes charged so far.\<close>

fun verify_pages ::
  "ext \<Rightarrow> snapshot_page list \<Rightarrow> uuid list \<Rightarrow> page_digest list \<Rightarrow> int
   \<Rightarrow> catalog_error + (uuid list \<times> page_digest list \<times> int)" where
  "verify_pages X [] ids digests charged = Inr (ids, digests, charged)"
| "verify_pages X (p # ps) ids digests charged =
     (case DocumentsDigest (sp_documents p) of Inl e \<Rightarrow> Inl PageMismatch
      | Inr (canonical, digest) \<Rightarrow>
        if digest \<noteq> content_sha256 (sp_digest p) then Inl PageMismatch
        else (case member_ids X canonical of None \<Rightarrow> Inl PageCountMismatch
          | Some members \<Rightarrow>
            if members = [] \<or> int (length members) \<noteq> sp_count p then Inl PageCountMismatch
            else (let ids' = ids @ members; charged' = charged + int (length (render canonical))
              in if charged' > MaxSnapshotBytes \<or> int (length ids') > MaxDocuments then Inl SnapshotQuota
                 else verify_pages X ps ids' (digests @ [sp_digest p]) charged')))"

definition VerifySnapshot :: "ext \<Rightarrow> manifest \<Rightarrow> snapshot_page list \<Rightarrow> int \<Rightarrow> catalog_error + unit" where
  "VerifySnapshot X m pages canonicalBytes =
     (case Manifest_Validate m of Inl e \<Rightarrow> Inl e | Inr _ \<Rightarrow>
      if page_count m > MaxPages \<or> document_count m > MaxDocuments
         \<or> int (length pages) \<noteq> page_count m \<or> canonicalBytes < 0 \<or> canonicalBytes > MaxSnapshotBytes
      then Inl OverBudget
      else (case verify_pages X pages [] [] 0 of Inl e \<Rightarrow> Inl e | Inr (ids, digests, charged) \<Rightarrow>
        if charged \<noteq> canonicalBytes \<or> int (length ids) \<noteq> document_count m then Inl LedgerMismatch
        else (case MembershipDigest X ids of Inl e \<Rightarrow> Inl MembershipMismatch | Inr membership \<Rightarrow>
          if membership \<noteq> membership_sha256 m then Inl MembershipMismatch
          else (case PagesDigest digests of Inl e \<Rightarrow> Inl PagesMismatch | Inr content \<Rightarrow>
            if content \<noteq> pages_sha256 m then Inl PagesMismatch else Inr ()))))"

section \<open>Round trip of a generation\<close>

lemma Generation_round_trip:
  "in_int64 g \<Longrightarrow> Generation_MarshalJSON g = Inr j \<Longrightarrow> Generation_UnmarshalJSON j = Inr g"
  by (auto simp: Generation_MarshalJSON_def Generation_UnmarshalJSON_def dec_string_def
      ParseInt_FormatInt split: if_splits)

lemma Generation_canonical:
  "Generation_UnmarshalJSON j = Inr g \<Longrightarrow> Generation_MarshalJSON g = Inr j \<or> j = JNull"
  by (auto simp: Generation_MarshalJSON_def Generation_UnmarshalJSON_def dec_string_def
      split: if_splits option.splits json.splits)

section \<open>Lines\<close>

text \<open>The texts the digests hash are sequences of lines, and lines can be read back.\<close>

lemma lines_inject:
  assumes "concat (map (\<lambda>s. s @ [n]) xs) = concat (map (\<lambda>s. s @ [n]) ys)"
    and "\<forall>s \<in> set xs. n \<notin> set s" "\<forall>s \<in> set ys. n \<notin> set s"
  shows "xs = ys"
  using assms
proof (induction xs arbitrary: ys)
  case Nil
  then show ?case by (cases ys) auto
next
  case (Cons x xs)
  then obtain y ys' where ys: "ys = y # ys'" by (cases ys) auto
  from Cons.prems(1) have e: "x @ n # concat (map (\<lambda>s. s @ [n]) xs)
      = y @ n # concat (map (\<lambda>s. s @ [n]) ys')"
    by (simp add: ys)
  have "n \<notin> set x" "n \<notin> set y" using Cons.prems ys by auto
  then have "x = y"
    using e by (auto simp: append_eq_append_conv2 Cons_eq_append_conv append_eq_Cons_conv)
  with e Cons.prems ys Cons.IH show ?case by auto
qed

definition collides :: "string \<Rightarrow> string \<Rightarrow> bool" where
  "collides x y \<longleftrightarrow> x \<noteq> y \<and> sha256 x = sha256 y"

lemma sha256_hex_eq_cases: "sha256_hex x = sha256_hex y \<Longrightarrow> x = y \<or> collides x y"
  by (auto simp: sha256_hex_inject collides_def)

section \<open>Membership\<close>

lemma membership_ids_eq:
  "membership_ids X us seen ordered =
     (if 0 \<in> set us \<or> \<not> distinct us \<or> set us \<inter> set seen \<noteq> {} then Inl InvalidMembership
      else Inr (ordered @ map (uuid_string X) us))"
  by (induction us arbitrary: seen ordered) auto

lemma MembershipDigest_eq:
  "MembershipDigest X ids =
     (if 0 \<in> set ids \<or> \<not> distinct ids then Inl InvalidMembership
      else Inr (sha256_hex (membership_text (map (uuid_string X) ids))))"
  by (simp add: MembershipDigest_def membership_ids_eq)

lemma MembershipDigest_perm:
  assumes "mset ids = mset ids'"
  shows "MembershipDigest X ids = MembershipDigest X ids'"
proof -
  have "set ids = set ids'" "distinct ids = distinct ids'"
    using assms by (metis set_mset_mset, metis assms distinct_count_atmost_1 set_mset_mset)
  moreover have "sort (map (uuid_string X) ids) = sort (map (uuid_string X) ids')"
    using assms by (intro properties_for_sort) simp_all
  ultimately show ?thesis by (simp add: MembershipDigest_eq membership_text_def)
qed

lemma membership_text_inject:
  assumes "ext_ok X" "membership_text (map (uuid_string X) a) = membership_text (map (uuid_string X) b)"
  shows "set a = set b"
proof -
  have nl: "newline \<notin> set (uuid_string X u)" for u
  proof
    assume "newline \<in> set (uuid_string X u)"
    then have "32 \<le> (of_char newline :: nat)" by (rule uuid_string_printable [OF assms(1)])
    then show False by (simp add: newline_def)
  qed
  then have "sort (map (uuid_string X) a) = sort (map (uuid_string X) b)"
    using assms(2) unfolding membership_text_def by (intro lines_inject [of newline]) auto
  then have "uuid_string X ` set a = uuid_string X ` set b"
    by (metis set_sort list.set_map)
  moreover have "inj (uuid_string X)" using uuid_string_inject [OF assms(1)] by (simp add: inj_def)
  ultimately show ?thesis by (simp add: inj_image_eq_iff)
qed

lemma membership_determined:
  assumes "ext_ok X" "MembershipDigest X a = Inr d" "MembershipDigest X b = Inr d"
  shows "set a = set b \<or>
    collides (membership_text (map (uuid_string X) a)) (membership_text (map (uuid_string X) b))"
proof -
  let ?t = "\<lambda>us. membership_text (map (uuid_string X) us)"
  have "sha256_hex (?t a) = sha256_hex (?t b)"
    using assms(2,3) by (auto simp: MembershipDigest_eq split: if_splits)
  then have "?t a = ?t b \<or> collides (?t a) (?t b)" by (rule sha256_hex_eq_cases)
  then show ?thesis using membership_text_inject [OF assms(1)] by blast
qed

section \<open>Page sequences\<close>

interpretation page_order: strict_weak_order before_page
  by unfold_locales (auto simp: before_page_def)

definition good_digest :: "string \<Rightarrow> bool" where
  "good_digest d \<longleftrightarrow> length d = 64 \<and> DecodeString d \<noteq> None \<and> ascii_lower d = d"

lemma good_digest_sha256_hex [simp]: "good_digest (sha256_hex s)"
  by (simp add: good_digest_def sha256_hex_def)

fun page_seq :: "int \<Rightarrow> page_digest list \<Rightarrow> bool" where
  "page_seq i [] \<longleftrightarrow> True"
| "page_seq i (p # ps) \<longleftrightarrow>
     page_index p = int32 i \<and> good_digest (content_sha256 p) \<and> page_seq (i + 1) ps"

lemma pages_text_Inr:
  "pages_text i ps acc = Inr t \<longleftrightarrow> page_seq i ps \<and> t = acc @ concat (map page_line ps)"
  by (induction ps arbitrary: i acc) (auto simp: good_digest_def)

lemma page_seq_indexes:
  assumes "page_seq i ps" "0 \<le> i" "i + int (length ps) \<le> 2 ^ 31"
  shows "map page_index ps = map (\<lambda>k. i + int k) [0..<length ps]"
  using assms
proof (induction ps arbitrary: i)
  case (Cons p ps)
  have "int32 i = i" using Cons.prems by (intro int32_id) (simp add: in_int32_def)
  moreover have "map page_index ps = map (\<lambda>k. i + 1 + int k) [0..<length ps]"
    using Cons.prems by (intro Cons.IH) auto
  moreover have "[0..<length (p # ps)] = 0 # map Suc [0..<length ps]"
    by (simp only: upt_zero_Suc length_Cons)
  ultimately show ?case
    using Cons.prems by (simp add: o_def add.assoc del: upt_Suc)
qed simp

lemma page_seq_digests: "page_seq i ps \<Longrightarrow> p \<in> set ps \<Longrightarrow> good_digest (content_sha256 p)"
  by (induction ps arbitrary: i) auto

lemma PagesDigest_Inr:
  "PagesDigest pages = Inr d \<longleftrightarrow>
     page_seq 0 (SliceStable before_page pages)
     \<and> d = sha256_hex (concat (map page_line (SliceStable before_page pages)))"
proof -
  let ?s = "SliceStable before_page pages"
  show ?thesis
  proof (cases "page_seq 0 ?s")
    case True
    then have "pages_text 0 ?s [] = Inr (concat (map page_line ?s))" by (simp add: pages_text_Inr)
    with True show ?thesis by (auto simp: PagesDigest_def)
  next
    case False
    then have "pages_text 0 ?s [] \<noteq> Inr t" for t by (simp add: pages_text_Inr)
    then obtain e where "pages_text 0 ?s [] = Inl e" by (cases "pages_text 0 ?s []") auto
    with False show ?thesis by (simp add: PagesDigest_def)
  qed
qed

text \<open>A page sequence that is accepted has the indexes \<open>0, 1, ..., n - 1\<close>, each once.\<close>

lemma PagesDigest_indexes:
  assumes "PagesDigest pages = Inr d" "int (length pages) \<le> 2 ^ 31"
  shows "map page_index (SliceStable before_page pages) = map int [0..<length pages]"
  using assms page_seq_indexes [of 0 "SliceStable before_page pages"] by (simp add: PagesDigest_Inr)

lemma PagesDigest_distinct:
  assumes "PagesDigest pages = Inr d" "int (length pages) \<le> 2 ^ 31"
  shows "distinct (map page_index pages)"
proof -
  have "distinct (map page_index (SliceStable before_page pages))"
    by (simp add: PagesDigest_indexes [OF assms] distinct_map)
  then show ?thesis by simp
qed

lemma PagesDigest_perm:
  assumes "mset ps = mset qs" "distinct (map page_index ps)"
  shows "PagesDigest ps = PagesDigest qs"
proof -
  have "SliceStable before_page ps = SliceStable before_page qs"
    using assms by (intro page_order.SliceStable_perm)
      (auto simp: before_page_def distinct_map inj_on_def)
  then show ?thesis by (simp add: PagesDigest_def)
qed

definition page_body :: "page_digest \<Rightarrow> string" where
  "page_body p = FormatInt (page_index p) @ '':'' @ content_sha256 p"

lemma page_line_body: "page_line p = page_body p @ [newline]"
  by (simp add: page_line_def page_body_def)

lemma hex_of_DecodeString: "DecodeString s \<noteq> None \<Longrightarrow> c \<in> set s \<Longrightarrow> hex_val c \<noteq> None"
  by (induction s rule: DecodeString.induct) (auto split: option.splits)

lemma newline_page_body: "good_digest (content_sha256 p) \<Longrightarrow> newline \<notin> set (page_body p)"
proof -
  assume g: "good_digest (content_sha256 p)"
  have "hex_val newline = None" by (simp add: hex_val_def newline_def)
  then have "newline \<notin> set (content_sha256 p)"
    using g hex_of_DecodeString unfolding good_digest_def by blast
  moreover have "newline \<notin> set (dec_nat n)" for n
  proof
    assume "newline \<in> set (dec_nat n)"
    then have "32 \<le> (of_char newline :: nat)" by (rule dec_nat_printable)
    then show False by (simp add: newline_def)
  qed
  moreover have "newline \<noteq> CHR ''-''" "newline \<noteq> CHR '':''" by (simp_all add: newline_def)
  ultimately show ?thesis by (auto simp: page_body_def FormatInt_def)
qed

lemma page_body_inject:
  assumes "page_body p = page_body q" "good_digest (content_sha256 p)" "good_digest (content_sha256 q)"
    and "in_int64 (page_index p)" "in_int64 (page_index q)"
  shows "p = q"
proof -
  have "(FormatInt (page_index p) @ '':'') @ content_sha256 p
      = (FormatInt (page_index q) @ '':'') @ content_sha256 q"
    using assms(1) by (simp add: page_body_def)
  then have "content_sha256 p = content_sha256 q" "FormatInt (page_index p) = FormatInt (page_index q)"
    using assms(2,3) by (auto simp: good_digest_def append_eq_append_conv)
  then show ?thesis using FormatInt_inject [OF assms(4,5)] by simp
qed

lemma page_seq_index_range: "page_seq i ps \<Longrightarrow> p \<in> set ps \<Longrightarrow> in_int64 (page_index p)"
proof (induction ps arbitrary: i)
  case (Cons q ps)
  then show ?case by auto
qed simp

lemma page_bodies_inject:
  assumes "map page_body ps = map page_body qs" "page_seq i ps" "page_seq j qs"
  shows "ps = qs"
  using assms
proof (induction ps arbitrary: qs i j)
  case (Cons p ps)
  then obtain q qs' where qs: "qs = q # qs'" by (cases qs) auto
  have "p = q"
    using Cons.prems qs by (intro page_body_inject)
      (auto dest: page_seq_index_range [of i "p # ps" p] page_seq_index_range [of j "q # qs'" q])
  with Cons qs show ?case by auto
qed simp

lemma pages_determined:
  assumes "PagesDigest ps = Inr d" "PagesDigest qs = Inr d"
  shows "SliceStable before_page ps = SliceStable before_page qs \<or>
    collides (concat (map page_line (SliceStable before_page ps)))
             (concat (map page_line (SliceStable before_page qs)))"
proof -
  let ?p = "SliceStable before_page ps" and ?q = "SliceStable before_page qs"
  have seq: "page_seq 0 ?p" "page_seq 0 ?q" using assms by (simp_all add: PagesDigest_Inr)
  have lines: "concat (map page_line zs) = concat (map (\<lambda>s. s @ [newline]) (map page_body zs))" for zs
    by (induction zs) (auto simp: page_line_body)
  have "?p = ?q" if "concat (map page_line ?p) = concat (map page_line ?q)"
  proof -
    have "map page_body ?p = map page_body ?q"
      by (rule lines_inject [of newline])
        (use that seq page_seq_digests newline_page_body in \<open>auto simp: lines simp del: set_SliceStable\<close>)
    then show ?thesis by (rule page_bodies_inject) (use seq in auto)
  qed
  moreover have "sha256_hex (concat (map page_line ?p)) = sha256_hex (concat (map page_line ?q))"
    using assms by (simp add: PagesDigest_Inr)
  ultimately show ?thesis using sha256_hex_eq_cases by blast
qed

section \<open>Verified snapshots\<close>

definition page_ids :: "ext \<Rightarrow> snapshot_page \<Rightarrow> uuid list" where
  "page_ids X p = (case member_ids X (canon (sp_documents p)) of Some ms \<Rightarrow> ms | None \<Rightarrow> [])"

definition page_bytes :: "snapshot_page \<Rightarrow> int" where
  "page_bytes p = int (length (marshal (sp_documents p)))"

definition page_checked :: "ext \<Rightarrow> snapshot_page \<Rightarrow> bool" where
  "page_checked X p \<longleftrightarrow>
     (case sp_documents p of JArr js \<Rightarrow> True | _ \<Rightarrow> False)
     \<and> content_sha256 (sp_digest p) = sha256_hex (marshal (sp_documents p))
     \<and> member_ids X (canon (sp_documents p)) = Some (page_ids X p)
     \<and> page_ids X p \<noteq> [] \<and> int (length (page_ids X p)) = sp_count p"

lemma DocumentsDigest_Inr:
  "DocumentsDigest j = Inr (c, d) \<longleftrightarrow>
     (case j of JArr js \<Rightarrow> True | _ \<Rightarrow> False) \<and> c = canon j \<and> d = sha256_hex (marshal j)"
  by (auto simp: DocumentsDigest_def marshal_def Let_def split: json.splits)

lemma page_bytes_nonneg [simp]: "0 \<le> page_bytes p"
  by (simp add: page_bytes_def)

lemma sum_page_bytes_nonneg: "0 \<le> sum_list (map page_bytes ps)"
  by (induction ps) auto

lemma verify_pages_step:
  "page_checked X p \<and> c + page_bytes p \<le> MaxSnapshotBytes
     \<and> int (length (ids @ page_ids X p)) \<le> MaxDocuments \<Longrightarrow>
   verify_pages X (p # ps) ids ds c
     = verify_pages X ps (ids @ page_ids X p) (ds @ [sp_digest p]) (c + page_bytes p)"
  by (cases "sp_documents p")
    (auto simp: page_checked_def page_ids_def page_bytes_def marshal_def DocumentsDigest_def Let_def
      split: option.splits)

lemma verify_pages_reject:
  "\<not> (page_checked X p
       \<and> c + page_bytes p \<le> MaxSnapshotBytes \<and> int (length (ids @ page_ids X p)) \<le> MaxDocuments) \<Longrightarrow>
   verify_pages X (p # ps) ids ds c \<noteq> Inr r"
  by (cases "sp_documents p")
    (auto simp: page_checked_def page_ids_def page_bytes_def marshal_def DocumentsDigest_def Let_def
      split: option.splits if_splits)

lemma verify_pages_Inr:
  "verify_pages X ps ids ds c = Inr r \<longleftrightarrow>
     (\<forall>p \<in> set ps. page_checked X p)
     \<and> (ps = [] \<or> c + sum_list (map page_bytes ps) \<le> MaxSnapshotBytes
          \<and> int (length (ids @ concat (map (page_ids X) ps))) \<le> MaxDocuments)
     \<and> r = (ids @ concat (map (page_ids X) ps), ds @ map sp_digest ps, c + sum_list (map page_bytes ps))"
proof (induction ps arbitrary: ids ds c)
  case Nil
  then show ?case by auto
next
  case (Cons p ps)
  let ?ok = "page_checked X p
    \<and> c + page_bytes p \<le> MaxSnapshotBytes \<and> int (length (ids @ page_ids X p)) \<le> MaxDocuments"
  show ?case
  proof (cases ?ok)
    case True
    with verify_pages_step [OF True, of ps ds] show ?thesis
      using Cons.IH [of "ids @ page_ids X p" "ds @ [sp_digest p]" "c + page_bytes p"]
      by (auto simp: add.assoc)
  next
    case False
    from False sum_page_bytes_nonneg [of ps] have "\<not> ((\<forall>q \<in> set (p # ps). page_checked X q)
        \<and> c + sum_list (map page_bytes (p # ps)) \<le> MaxSnapshotBytes
        \<and> int (length (ids @ concat (map (page_ids X) (p # ps)))) \<le> MaxDocuments)"
      by auto
    with verify_pages_reject [OF False] show ?thesis by blast
  qed
qed

lemma VerifySnapshot_Inr:
  "VerifySnapshot X m pages b = Inr () \<longleftrightarrow>
     Manifest_Validate m = Inr () \<and> page_count m \<le> MaxPages \<and> document_count m \<le> MaxDocuments
     \<and> int (length pages) = page_count m \<and> 0 \<le> b \<and> b \<le> MaxSnapshotBytes
     \<and> (\<forall>p \<in> set pages. page_checked X p)
     \<and> sum_list (map page_bytes pages) = b
     \<and> int (length (concat (map (page_ids X) pages))) = document_count m
     \<and> MembershipDigest X (concat (map (page_ids X) pages)) = Inr (membership_sha256 m)
     \<and> PagesDigest (map sp_digest pages) = Inr (pages_sha256 m)"
  (is "?l \<longleftrightarrow> ?r")
proof
  assume ?l
  then show ?r
    unfolding VerifySnapshot_def
    by (auto simp: verify_pages_Inr split: sum.splits if_splits prod.splits)
next
  assume r: ?r
  then have "verify_pages X pages [] [] 0
      = Inr (concat (map (page_ids X) pages), map sp_digest pages, sum_list (map page_bytes pages))"
    by (simp add: verify_pages_Inr)
  with r show ?l by (simp add: VerifySnapshot_def)
qed

text \<open>The order in which the pages are read does not matter.\<close>

lemma VerifySnapshot_perm:
  assumes "mset ps = mset qs" "VerifySnapshot X m ps b = Inr ()"
  shows "VerifySnapshot X m qs b = Inr ()"
proof -
  have len: "length ps = length qs" using assms(1) by (metis size_mset)
  have set: "set ps = set qs" using assms(1) by (metis set_mset_mset)
  have bytes: "sum_list (map page_bytes ps) = sum_list (map page_bytes qs)"
    using arg_cong [OF assms(1), of "\<lambda>M. sum_mset (image_mset page_bytes M)"]
    by (simp flip: mset_map add: sum_mset_sum_list)
  have ids: "mset (concat (map (page_ids X) ps)) = mset (concat (map (page_ids X) qs))"
    using arg_cong [OF assms(1), of "\<lambda>M. sum_mset (image_mset (\<lambda>p. mset (page_ids X p)) M)"]
    by (simp flip: mset_map add: sum_mset_sum_list mset_concat o_def)
  then have idlen: "length (concat (map (page_ids X) ps)) = length (concat (map (page_ids X) qs))"
    by (metis size_mset)
  have v: "MembershipDigest X (concat (map (page_ids X) ps)) = Inr (membership_sha256 m)"
    "PagesDigest (map sp_digest ps) = Inr (pages_sha256 m)" "int (length ps) \<le> 1024"
    using assms(2) unfolding VerifySnapshot_Inr MaxPages_def by (blast, blast, linarith)
  have "distinct (map page_index (map sp_digest ps))"
    using v by (intro PagesDigest_distinct) auto
  then have "PagesDigest (map sp_digest ps) = PagesDigest (map sp_digest qs)"
    using assms(1) by (intro PagesDigest_perm) simp_all
  moreover have "MembershipDigest X (concat (map (page_ids X) ps)) = MembershipDigest X (concat (map (page_ids X) qs))"
    using ids by (rule MembershipDigest_perm)
  ultimately show ?thesis
    using assms(2) len set bytes idlen unfolding VerifySnapshot_Inr by simp
qed

text \<open>What the two aggregate digests of a manifest are taken over.\<close>

definition snapshot_ids :: "ext \<Rightarrow> snapshot_page list \<Rightarrow> uuid list" where
  "snapshot_ids X ps = concat (map (page_ids X) ps)"

definition id_lines :: "ext \<Rightarrow> snapshot_page list \<Rightarrow> string" where
  "id_lines X ps = membership_text (map (uuid_string X) (snapshot_ids X ps))"

definition digest_lines :: "snapshot_page list \<Rightarrow> string" where
  "digest_lines ps = concat (map page_line (SliceStable before_page (map sp_digest ps)))"

definition same_content :: "snapshot_page \<Rightarrow> snapshot_page \<Rightarrow> bool" where
  "same_content p q \<longleftrightarrow> sp_digest p = sp_digest q \<and>
     (marshal (sp_documents p) = marshal (sp_documents q)
      \<or> collides (marshal (sp_documents p)) (marshal (sp_documents q)))"

lemma verified_members:
  assumes "VerifySnapshot X m ps b = Inr ()"
  shows "distinct (snapshot_ids X ps) \<and> 0 \<notin> set (snapshot_ids X ps)
    \<and> int (length (snapshot_ids X ps)) = document_count m"
  using assms by (auto simp: VerifySnapshot_Inr snapshot_ids_def MembershipDigest_eq split: if_splits)

lemma same_sequence_same_content:
  assumes "VerifySnapshot X m ps b = Inr ()" "VerifySnapshot X m qs b' = Inr ()"
    and "SliceStable before_page (map sp_digest ps) = SliceStable before_page (map sp_digest qs)"
    and "p \<in> set ps"
  shows "\<exists>q \<in> set qs. same_content p q"
proof -
  have "set (map sp_digest ps) = set (map sp_digest qs)"
    using arg_cong [OF assms(3), of set] by simp
  with assms(4) obtain q where q: "q \<in> set qs" "sp_digest p = sp_digest q" by auto
  have "page_checked X p" "page_checked X q"
    using assms q unfolding VerifySnapshot_Inr by blast+
  then have "sha256_hex (marshal (sp_documents p)) = sha256_hex (marshal (sp_documents q))"
    using q by (simp add: page_checked_def)
  then show ?thesis using q sha256_hex_eq_cases unfolding same_content_def by blast
qed

text \<open>C24. A manifest pins the snapshot it declares. Two sets of pages that both verify against
  it have the same members, or the two membership texts are a SHA-256 collision; and every
  page of the one is, index and canonical content, a page of the other, or an explicit pair
  of texts collides.\<close>

theorem manifest_pins_snapshot:
  assumes "ext_ok X"
    and "VerifySnapshot X m ps b = Inr ()" and "VerifySnapshot X m qs b' = Inr ()"
  shows "(set (snapshot_ids X ps) = set (snapshot_ids X qs) \<or> collides (id_lines X ps) (id_lines X qs))
    \<and> ((\<forall>p \<in> set ps. \<exists>q \<in> set qs. same_content p q) \<or> collides (digest_lines ps) (digest_lines qs))"
proof
  show "set (snapshot_ids X ps) = set (snapshot_ids X qs) \<or> collides (id_lines X ps) (id_lines X qs)"
    unfolding id_lines_def
    by (rule membership_determined [OF assms(1), of _ "membership_sha256 m"])
      (use assms(2,3) in \<open>simp_all add: VerifySnapshot_Inr snapshot_ids_def\<close>)
  have "SliceStable before_page (map sp_digest ps) = SliceStable before_page (map sp_digest qs)
      \<or> collides (digest_lines ps) (digest_lines qs)"
    unfolding digest_lines_def
    by (rule pages_determined [of _ "pages_sha256 m"])
      (use assms(2,3) in \<open>simp_all add: VerifySnapshot_Inr\<close>)
  then show "(\<forall>p \<in> set ps. \<exists>q \<in> set qs. same_content p q) \<or> collides (digest_lines ps) (digest_lines qs)"
    using same_sequence_same_content [OF assms(2,3)] by blast
qed

text \<open>A one-page snapshot with one member, the id 7, and its manifest.\<close>

definition sample_docs :: json where
  "sample_docs = JArr [JObj [(''video'', JObj [(''id'', JStr ''7'')])]]"

definition sample_page :: "json \<Rightarrow> snapshot_page" where
  "sample_page d = \<lparr> sp_digest = \<lparr> page_index = 0, content_sha256 = sha256_hex (marshal d) \<rparr>,
     sp_documents = d, sp_count = 1 \<rparr>"

definition sample_manifest :: "json \<Rightarrow> manifest" where
  "sample_manifest d = \<lparr> page_count = 1, document_count = 1,
     membership_sha256 = sha256_hex (membership_text [''7'']),
     pages_sha256 = sha256_hex (digest_lines [sample_page d]) \<rparr>"

lemma Manifest_Validate_ok:
  "0 < page_count m \<Longrightarrow> page_count m \<le> document_count m \<Longrightarrow>
   membership_sha256 m = sha256_hex s \<Longrightarrow> pages_sha256 m = sha256_hex t \<Longrightarrow> Manifest_Validate m = Inr ()"
  by (simp add: Manifest_Validate_def bad_manifest_digest_def sha256_hex_def)

lemma sample_manifest_ok: "Manifest_Validate (sample_manifest d) = Inr ()"
  by (rule Manifest_Validate_ok) (simp_all add: sample_manifest_def)

lemma sample_verified_page:
  assumes ids: "member_ids sample_ext (canon (JArr ds)) = Some [7]"
    and size: "page_bytes (sample_page (JArr ds)) \<le> MaxSnapshotBytes" and ne: "ds \<noteq> []"
  shows "VerifySnapshot sample_ext (sample_manifest (JArr ds)) [sample_page (JArr ds)]
    (page_bytes (sample_page (JArr ds))) = Inr ()"
proof -
  let ?p = "sample_page (JArr ds)" and ?m = "sample_manifest (JArr ds)"
  have pi: "page_ids sample_ext ?p = [7]" using ids by (simp add: page_ids_def sample_page_def del: canon.simps)
  have "uuid_string sample_ext 7 = ''7''" by code_simp
  then have "MembershipDigest sample_ext [7] = Inr (membership_sha256 ?m)"
    by (simp add: MembershipDigest_eq sample_manifest_def)
  moreover have "PagesDigest [sp_digest ?p] = Inr (pages_sha256 ?m)"
    by (simp add: PagesDigest_Inr SliceStable_def sample_manifest_def digest_lines_def)
      (simp add: sample_page_def int32_def)
  moreover have "page_checked sample_ext ?p"
    using ids pi ne by (simp add: page_checked_def sample_page_def del: canon.simps)
  ultimately show ?thesis
    using size sample_manifest_ok [of "JArr ds"]
    by (simp add: VerifySnapshot_Inr pi MaxPages_def MaxDocuments_def) (simp add: sample_manifest_def)
qed

lemma sample_verified:
  "VerifySnapshot sample_ext (sample_manifest sample_docs) [sample_page sample_docs]
     (page_bytes (sample_page sample_docs)) = Inr ()"
proof -
  have "member_ids sample_ext (canon sample_docs) = Some [7]" by code_simp
  moreover have "page_bytes (sample_page sample_docs) = 22"
  proof -
    have "length (marshal sample_docs) = 22" by code_simp
    then show ?thesis by (simp add: page_bytes_def sample_page_def)
  qed
  ultimately show ?thesis
    using sample_verified_page [of "[JObj [(''video'', JObj [(''id'', JStr ''7'')])]]"]
    by (simp add: sample_docs_def [symmetric] MaxSnapshotBytes_def del: canon.simps)
qed

lemma manifest_pins_snapshot_witness:
  "set (snapshot_ids sample_ext [sample_page sample_docs]) = set (snapshot_ids sample_ext [sample_page sample_docs])
   \<or> collides (id_lines sample_ext [sample_page sample_docs]) (id_lines sample_ext [sample_page sample_docs])"
  using manifest_pins_snapshot [OF ext_ok_sample sample_verified sample_verified] by blast

end
