(* ===== verification/CatalogStore.thy ===== *)
theory CatalogStore
  imports Tables CatalogProtocol
begin

text \<open>
  \<open>internal/store/catalog_*.go\<close>: the receiver's authority over the catalog. A scope row holds
  the epoch in force, the highest generation observed and the completed one with its
  manifest; at most one snapshot per scope is pending, with its pages. Every operation takes
  the advisory lock first, so operations are atomic and a sequence of them is a sequence of
  calls. An operation returns the new database, or the error on which the caller rolls back.
  \<open>now\<close> is the start of the transaction, \<open>clk\<close> the value of \<open>clock_timestamp()\<close>.
\<close>

datatype store_error = CatalogConflict | CatalogQuota | CatalogAlreadyCompleted | CatalogInvalid | SqlFailed

definition scope_of :: "db \<Rightarrow> string \<Rightarrow> scope_row option" where
  "scope_of s scope = sql_get (\<lambda>r. cs_scope r = scope) (catalog_scopes s)"

definition snapshot_of :: "db \<Rightarrow> string \<Rightarrow> snapshot_row option" where
  "snapshot_of s scope = sql_get (\<lambda>r. sn_scope r = scope) (catalog_snapshots s)"

definition pages_of :: "db \<Rightarrow> string \<Rightarrow> page_row list" where
  "pages_of s scope = filter (\<lambda>p. pr_scope p = scope) (catalog_pages s)"

text \<open>\<open>DELETE FROM search.catalog_snapshots WHERE ...\<close>; the pages cascade.\<close>

definition delete_snapshots :: "(snapshot_row \<Rightarrow> bool) \<Rightarrow> db \<Rightarrow> db" where
  "delete_snapshots P s =
     (let gone = filter P (catalog_snapshots s) in
      s\<lparr> catalog_snapshots := sql_delete P (catalog_snapshots s),
        catalog_pages := sql_delete (\<lambda>p. \<exists>n \<in> set gone. sn_scope n = pr_scope p
           \<and> sn_epoch n = pr_epoch p \<and> sn_generation n = pr_generation p) (catalog_pages s) \<rparr>)"

section \<open>Epochs\<close>

definition new_scope :: "string \<Rightarrow> uuid \<Rightarrow> scope_row" where
  "new_scope scope epoch = \<lparr> cs_scope = scope, cs_epoch = epoch, cs_highest = 0, cs_completed = 0,
     cs_completed_at = None, cs_page_count = 0, cs_document_count = 0, cs_membership = None,
     cs_pages = None \<rparr>"

definition reset_epoch :: "db \<Rightarrow> string \<Rightarrow> uuid \<Rightarrow> uuid option \<Rightarrow> store_error + db" where
  "reset_epoch s scope epoch expected =
     (if \<exists>r \<in> set (catalog_epochs s). ce_scope r = scope \<and> ce_epoch r = epoch then Inl CatalogConflict
      else if (case expected of None \<Rightarrow> False | Some p \<Rightarrow>
                 \<not> (\<exists>r \<in> set (catalog_epochs s). ce_scope r = scope \<and> ce_epoch r = p)) then Inl SqlFailed
      else (let s1 = s\<lparr> catalog_epochs := catalog_epochs s
                 @ [\<lparr> ce_scope = scope, ce_epoch = epoch, ce_predecessor = expected \<rparr>] \<rparr>;
                s2 = delete_snapshots (\<lambda>n. sn_scope n = scope) s1
            in Inr (s2\<lparr> catalog_scopes := sql_upsert cs_scope (new_scope scope epoch)
                 (\<lambda>r. new_scope (cs_scope r) epoch) (catalog_scopes s2) \<rparr>)))"

definition SetCatalogEpoch :: "db \<Rightarrow> string \<Rightarrow> uuid \<Rightarrow> uuid option \<Rightarrow> store_error + db" where
  "SetCatalogEpoch s scope epoch expected =
     (if scope \<noteq> ScopeLocal \<or> epoch = 0 \<or> expected = Some 0 then Inl CatalogInvalid
      else (case scope_of s scope of
          Some c \<Rightarrow>
            if cs_epoch c = epoch then
              (case sql_get (\<lambda>r. ce_scope r = scope \<and> ce_epoch r = epoch) (catalog_epochs s) of
                 None \<Rightarrow> Inl SqlFailed
               | Some r \<Rightarrow> if ce_predecessor r \<noteq> expected then Inl CatalogConflict else Inr s)
            else if expected \<noteq> Some (cs_epoch c) then Inl CatalogConflict
            else reset_epoch s scope epoch expected
        | None \<Rightarrow> if expected \<noteq> None then Inl CatalogConflict else reset_epoch s scope epoch expected))"

section \<open>Admission\<close>

definition day :: int where
  "day = hours 24"

definition AdmitCatalogGeneration :: "int \<Rightarrow> int \<Rightarrow> db \<Rightarrow> identity \<Rightarrow> store_error + db" where
  "AdmitCatalogGeneration now clk s v =
     (case Identity_Validate v of Inl e \<Rightarrow> Inl CatalogConflict | Inr _ \<Rightarrow>
      (case scope_of s (i_scope v) of None \<Rightarrow> Inl CatalogConflict | Some c \<Rightarrow>
        if cs_epoch c \<noteq> i_epoch v then Inl CatalogConflict
        else if i_generation v = cs_completed c then Inl CatalogAlreadyCompleted
        else if i_generation v < cs_highest c then Inl CatalogConflict
        else if i_generation v = cs_highest c then
          (if \<exists>n \<in> set (catalog_snapshots s). sn_scope n = i_scope v \<and> sn_epoch n = i_epoch v
                \<and> sn_generation n = i_generation v \<and> sn_created_at n > clk - day
           then Inr s else Inl CatalogConflict)
        else
          (let s1 = delete_snapshots (\<lambda>n. sn_scope n = i_scope v) s
           in Inr (s1\<lparr> catalog_scopes := sql_update (\<lambda>r. cs_scope r = i_scope v)
                         (\<lambda>r. r\<lparr> cs_highest := i_generation v \<rparr>) (catalog_scopes s1),
                      catalog_snapshots := catalog_snapshots s1 @
                        [\<lparr> sn_scope = i_scope v, sn_epoch = i_epoch v, sn_generation = i_generation v,
                           sn_created_at = now, sn_page_count = None, sn_document_count = None,
                           sn_membership = None, sn_pages = None, sn_canonical_bytes = 0 \<rparr>] \<rparr>))))"

section \<open>Pages\<close>

text \<open>\<open>(d->'video'->>'id')::uuid\<close> for each element: \<open>Some None\<close> is NULL, \<open>None\<close> a failed cast.\<close>

definition sql_uuid :: "ext \<Rightarrow> string option \<Rightarrow> uuid option option" where
  "sql_uuid X t = (case t of None \<Rightarrow> Some None
     | Some t' \<Rightarrow> (case pg_uuid X t' of None \<Rightarrow> None | Some u \<Rightarrow> Some (Some u)))"

definition doc_video :: "json \<Rightarrow> json" where
  "doc_video d = (case jfield ''video'' d of Some v \<Rightarrow> v | None \<Rightarrow> JNull)"

definition elements :: "json \<Rightarrow> json list" where
  "elements j = (case j of JArr ds \<Rightarrow> ds | _ \<Rightarrow> [])"

definition doc_ids :: "ext \<Rightarrow> json list \<Rightarrow> uuid option list option" where
  "doc_ids X ds = (let xs = map (\<lambda>d. sql_uuid X (jfield_text ''id'' (doc_video d))) ds
     in if None \<in> set xs then None else Some (map the xs))"

text \<open>
  The part of \<open>StageCatalogPage\<close> after a new page was admitted: the quotas, the declared
  manifest, the ownership check and the two writes.
\<close>

definition insert_page ::
  "ext \<Rightarrow> db \<Rightarrow> identity \<Rightarrow> page_digest \<Rightarrow> json \<Rightarrow> json \<Rightarrow> uuid list \<Rightarrow> store_error + db" where
  "insert_page X s v page canonical stored ids =
     (let scope = i_scope v;
          pages = int (length (pages_of s scope));
          count = sum_list (map pr_document_count (pages_of s scope));
          size = int (length (render canonical));
          n_ids = int (length ids)
      in case snapshot_of s scope of
           None \<Rightarrow> Inl SqlFailed
         | Some n \<Rightarrow>
             if sn_canonical_bytes n + size > MaxSnapshotBytes then Inl CatalogQuota
             else if count + n_ids > MaxDocuments then Inl CatalogQuota
             else if pages + 1 > MaxPages then Inl CatalogQuota
             else if (case sn_page_count n of None \<Rightarrow> False
                      | Some expectedPages \<Rightarrow> page_index page \<ge> expectedPages
                          \<or> count + n_ids > (case sn_document_count n of Some c \<Rightarrow> c | None \<Rightarrow> 0))
             then Inl CatalogConflict
             else (case doc_ids X (concat (map (elements \<circ> pr_documents) (pages_of s scope))) of
                 None \<Rightarrow> Inl SqlFailed
               | Some staged \<Rightarrow>
                   if (\<exists>u \<in> set ids. Some u \<in> set staged)
                      \<or> (\<exists>d \<in> set (documents s). d_kind d \<noteq> ''local'' \<and> d_video_id d \<in> set ids)
                   then Inl CatalogConflict
                   else Inr (s\<lparr> catalog_pages := catalog_pages s @
                          [\<lparr> pr_scope = scope, pr_epoch = i_epoch v, pr_generation = i_generation v,
                             pr_page_index = page_index page, pr_documents = stored,
                             pr_document_count = n_ids, pr_content_sha256 = content_sha256 page \<rparr>],
                        catalog_snapshots := sql_update (\<lambda>n. sn_scope n = scope)
                          (\<lambda>n. n\<lparr> sn_canonical_bytes := sn_canonical_bytes n + size \<rparr>)
                          (catalog_snapshots s) \<rparr>)))"

definition StageCatalogPage ::
  "ext \<Rightarrow> int \<Rightarrow> int \<Rightarrow> db \<Rightarrow> identity \<Rightarrow> page_digest \<Rightarrow> json \<Rightarrow> store_error + db" where
  "StageCatalogPage X now clk s v page docs =
     (if page_index page < 0 \<or> page_index page \<ge> MaxPages then Inl CatalogQuota
      else case DocumentsDigest docs of
        Inl e \<Rightarrow> Inl CatalogConflict
      | Inr (canonical, digest) \<Rightarrow>
          if digest \<noteq> content_sha256 page then Inl CatalogConflict
          else case member_ids X canonical of
            None \<Rightarrow> Inl CatalogConflict
          | Some ids \<Rightarrow>
              if ids = [] then Inl CatalogConflict
              else case MembershipDigest X ids of
                Inl e \<Rightarrow> Inl CatalogConflict
              | Inr _ \<Rightarrow>
                  (case AdmitCatalogGeneration now clk s v of
                     Inl e \<Rightarrow> Inl e
                   | Inr s1 \<Rightarrow>
                       (case jsonb_in X canonical of
                          None \<Rightarrow> Inl SqlFailed
                        | Some stored \<Rightarrow>
                            (case sql_get (\<lambda>p. pr_scope p = i_scope v \<and> pr_generation p = i_generation v
                                           \<and> pr_page_index p = page_index page) (catalog_pages s1) of
                               Some old \<Rightarrow>
                                 if pr_content_sha256 old = digest \<and> pr_documents old = stored
                                 then Inr s1 else Inl CatalogConflict
                             | None \<Rightarrow> insert_page X s1 v page canonical stored ids))))"

section \<open>The end of a snapshot\<close>

definition StageCatalogEnd :: "int \<Rightarrow> int \<Rightarrow> db \<Rightarrow> identity \<Rightarrow> manifest \<Rightarrow> store_error + db" where
  "StageCatalogEnd now clk s v m =
     (case Manifest_Validate m of Inl e \<Rightarrow> Inl CatalogConflict | Inr _ \<Rightarrow>
      if page_count m > MaxPages \<or> document_count m > MaxDocuments then Inl CatalogQuota
      else case AdmitCatalogGeneration now clk s v of
        Inl e \<Rightarrow>
          if e = CatalogAlreadyCompleted then
            (case sql_get (\<lambda>c. cs_scope c = i_scope v \<and> cs_epoch c = i_epoch v
                            \<and> cs_completed c = i_generation v) (catalog_scopes s) of
               None \<Rightarrow> Inl SqlFailed
             | Some c \<Rightarrow>
                 if cs_page_count c = page_count m \<and> cs_document_count c = document_count m
                    \<and> cs_membership c = Some (membership_sha256 m) \<and> cs_pages c = Some (pages_sha256 m)
                 then Inr s else Inl CatalogConflict)
          else Inl e
      | Inr s1 \<Rightarrow>
          (case snapshot_of s1 (i_scope v) of
             None \<Rightarrow> Inl SqlFailed
           | Some n \<Rightarrow>
               if sn_page_count n \<noteq> None then
                 (if sn_page_count n = Some (page_count m) \<and> sn_document_count n = Some (document_count m)
                     \<and> sn_membership n = Some (membership_sha256 m) \<and> sn_pages n = Some (pages_sha256 m)
                  then Inr s1 else Inl CatalogConflict)
               else
                 (let ps = pages_of s1 (i_scope v)
                  in if int (length ps) > page_count m
                        \<or> sum_list (map pr_document_count ps) > document_count m
                        \<or> (\<exists>p \<in> set ps. pr_page_index p \<ge> page_count m)
                     then Inl CatalogConflict
                     else Inr (s1\<lparr> catalog_snapshots := sql_update (\<lambda>n. sn_scope n = i_scope v)
                        (\<lambda>n. n\<lparr> sn_page_count := Some (page_count m),
                               sn_document_count := Some (document_count m),
                               sn_membership := Some (membership_sha256 m),
                               sn_pages := Some (pages_sha256 m) \<rparr>) (catalog_snapshots s1) \<rparr>))))"

section \<open>Verification of the pending evidence\<close>

definition pages_at :: "db \<Rightarrow> identity \<Rightarrow> page_row list" where
  "pages_at s v = filter (\<lambda>p. pr_scope p = i_scope v \<and> pr_epoch p = i_epoch v
     \<and> pr_generation p = i_generation v) (catalog_pages s)"

definition to_snapshot_page :: "page_row \<Rightarrow> snapshot_page" where
  "to_snapshot_page p = \<lparr> sp_digest = \<lparr> page_index = pr_page_index p, content_sha256 = pr_content_sha256 p \<rparr>,
     sp_documents = pr_documents p, sp_count = pr_document_count p \<rparr>"

definition LoadVerifiedCatalogSnapshot ::
  "ext \<Rightarrow> int \<Rightarrow> db \<Rightarrow> identity \<Rightarrow> store_error + manifest option" where
  "LoadVerifiedCatalogSnapshot X clk s v =
     (case Identity_Validate v of Inl e \<Rightarrow> Inl CatalogConflict | Inr _ \<Rightarrow>
      (case scope_of s (i_scope v) of None \<Rightarrow> Inl CatalogConflict | Some c \<Rightarrow>
        if cs_epoch c \<noteq> i_epoch v then Inl CatalogConflict
        else if i_generation v = cs_completed c then Inr None
        else if i_generation v \<noteq> cs_highest c then Inl CatalogConflict
        else (case sql_get (\<lambda>n. sn_scope n = i_scope v \<and> sn_epoch n = i_epoch v
                             \<and> sn_generation n = i_generation v) (catalog_snapshots s) of
            None \<Rightarrow> Inl CatalogConflict
          | Some n \<Rightarrow>
              if \<not> sn_created_at n > clk - day then Inl CatalogConflict
              else (case (sn_page_count n, sn_document_count n, sn_membership n, sn_pages n) of
                  (Some pc, Some dc, Some ms, Some ps) \<Rightarrow>
                    (let m = \<lparr> page_count = pc, document_count = dc, membership_sha256 = ms,
                               pages_sha256 = ps \<rparr>;
                         pages = map to_snapshot_page (sort_key pr_page_index (pages_at s v))
                     in if int (length pages) < pc then Inr None
                        else (case VerifySnapshot X m pages (sn_canonical_bytes n) of
                            Inl e \<Rightarrow> Inl CatalogConflict | Inr _ \<Rightarrow> Inr (Some m)))
                | _ \<Rightarrow> Inr None))))"

section \<open>Activation\<close>

text \<open>The columns \<open>catalogIncoming\<close> projects; \<open>None\<close> is a failed cast or a NULL in a NOT NULL
  column. A NULL among the tags is kept: the column is \<open>TEXT[]\<close>.\<close>

definition sql_int :: "(int \<Rightarrow> bool) \<Rightarrow> string option \<Rightarrow> int option option" where
  "sql_int rng t = (case t of None \<Rightarrow> Some None
     | Some t' \<Rightarrow> (case ParseInt t' of Some i \<Rightarrow> if rng i then Some (Some i) else None | None \<Rightarrow> None))"

definition sql_time :: "ext \<Rightarrow> string option \<Rightarrow> int option option" where
  "sql_time X t = (case t of None \<Rightarrow> Some None
     | Some t' \<Rightarrow> (case pg_timestamptz X t' of Some i \<Rightarrow> Some (Some i) | None \<Rightarrow> None))"

definition sql_bool :: "string option \<Rightarrow> bool option" where
  "sql_bool t = (if t = Some ''true'' then Some True else if t = Some ''false'' then Some False else None)"

definition sql_tags :: "json option \<Rightarrow> string option list option" where
  "sql_tags j = (case j of None \<Rightarrow> Some [] | Some JNull \<Rightarrow> Some []
     | Some (JArr xs) \<Rightarrow> Some (map (\<lambda>x. jtext (Some x)) xs) | _ \<Rightarrow> None)"

definition incoming_row :: "ext \<Rightarrow> int \<Rightarrow> json \<Rightarrow> document option" where
  "incoming_row X now d =
     (let v = doc_video d; t = (\<lambda>k. jfield_text k v) in
      case (sql_uuid X (t ''id''), sql_uuid X (t ''channel_id''), sql_uuid X (t ''owner_id''),
            t ''title'', t ''description'', sql_tags (jfield ''tags'' v),
            sql_int in_int32 (t ''duration_seconds''), sql_bool (t ''is_sensitive''),
            sql_int in_int64 (t ''views''), sql_int in_int32 (t ''likes''),
            sql_time X (t ''published_at''),
            sql_time X (if t ''updated_at'' \<noteq> None then t ''updated_at'' else t ''created_at'')) of
        (Some (Some vid), Some channel, Some owner, Some title, Some descr, Some tags,
         Some dur, Some sens, Some (Some views), Some (Some likes), Some published, Some (Some src)) \<Rightarrow>
          Some \<lparr> d_video_id = vid, d_kind = ''local'', d_channel_id = channel,
            d_channel_handle = t ''channel_handle'', d_channel_name = t ''channel_name'',
            d_owner_id = owner, d_title = title, d_description = descr, d_tags = tags,
            d_category = t ''category'', d_language = t ''language'', d_license = t ''license'',
            d_duration_seconds = dur, d_is_sensitive = sens, d_eligible = True,
            d_suppressed_reason = None, d_views = views, d_likes = likes,
            d_published_at = published, d_source_updated_at = src, d_indexed_at = now,
            d_reconcile_run_id = None \<rparr>
      | _ \<Rightarrow> None)"

text \<open>The update of a conflicting local row: everything but kind, counters and the run stamp.\<close>

definition refresh_row :: "document \<Rightarrow> document \<Rightarrow> document" where
  "refresh_row new live =
     live\<lparr> d_channel_id := d_channel_id new, d_channel_handle := d_channel_handle new,
       d_channel_name := d_channel_name new, d_owner_id := d_owner_id new, d_title := d_title new,
       d_description := d_description new, d_tags := d_tags new, d_category := d_category new,
       d_language := d_language new, d_license := d_license new,
       d_duration_seconds := d_duration_seconds new, d_is_sensitive := d_is_sensitive new,
       d_eligible := True, d_suppressed_reason := None, d_published_at := d_published_at new,
       d_source_updated_at := d_source_updated_at new \<rparr>"

definition project_row :: "int \<Rightarrow> document \<Rightarrow> document \<Rightarrow> document" where
  "project_row now new live =
     (if d_kind live = ''local'' \<and> refresh_row new live \<noteq> live
      then (refresh_row new live)\<lparr> d_indexed_at := now \<rparr> else live)"

fun project_all :: "int \<Rightarrow> document list \<Rightarrow> document list \<Rightarrow> document list" where
  "project_all now [] docs = docs"
| "project_all now (r # rs) docs =
     project_all now rs (sql_upsert d_video_id r (project_row now r) docs)"

definition orphan_row :: "int \<Rightarrow> document \<Rightarrow> document" where
  "orphan_row now d = d\<lparr> d_eligible := False, d_suppressed_reason := Some ''catalog_orphan'', d_indexed_at := now \<rparr>"

definition ineligible_doc :: "json \<Rightarrow> bool" where
  "ineligible_doc d =
     (let v = doc_video d in jfield_text ''kind'' v \<noteq> Some ''local'' \<or> jfield_text ''privacy'' v \<noteq> Some ''public''
        \<or> jfield_text ''state'' v \<noteq> Some ''published'' \<or> jfield_text ''eligible'' d \<noteq> Some ''true''
        \<or> jfield ''suppressed_reason'' d \<noteq> Some JNull)"

text \<open>The writes of an activation, in order.\<close>

definition activate ::
  "int \<Rightarrow> db \<Rightarrow> identity \<Rightarrow> manifest \<Rightarrow> document list \<Rightarrow> store_error + db" where
  "activate now s v m rows =
     (let ids = map d_video_id rows;
          docs1 = project_all now rows (documents s);
          docs2 = sql_update (\<lambda>d. d_kind d = ''local'' \<and> d_eligible d \<and> d_video_id d \<notin> set ids)
                    (orphan_row now) docs1;
          fence = (\<lambda>c. cs_scope c = i_scope v \<and> cs_epoch c = i_epoch v
                     \<and> cs_highest c = i_generation v \<and> cs_completed c < i_generation v)
      in if length (filter fence (catalog_scopes s)) \<noteq> 1 then Inl CatalogConflict
         else Inr (delete_snapshots (\<lambda>n. sn_scope n = i_scope v \<and> sn_epoch n = i_epoch v
                       \<and> sn_generation n = i_generation v)
                (s\<lparr> documents := docs2,
                   catalog_scopes := sql_update fence
                     (\<lambda>c. c\<lparr> cs_completed := i_generation v, cs_completed_at := Some now,
                            cs_page_count := page_count m, cs_document_count := document_count m,
                            cs_membership := Some (membership_sha256 m),
                            cs_pages := Some (pages_sha256 m) \<rparr>) (catalog_scopes s) \<rparr>)))"

definition CompleteCatalogSnapshot ::
  "ext \<Rightarrow> int \<Rightarrow> int \<Rightarrow> db \<Rightarrow> identity \<Rightarrow> store_error + (bool \<times> db)" where
  "CompleteCatalogSnapshot X now clk s v =
     (case LoadVerifiedCatalogSnapshot X clk s v of
        Inl e \<Rightarrow> Inl e
      | Inr None \<Rightarrow> Inr (False, s)
      | Inr (Some m) \<Rightarrow>
          (let incoming = concat (map (elements \<circ> pr_documents) (pages_at s v)) in
           case doc_ids X incoming of
             None \<Rightarrow> Inl SqlFailed
           | Some ids \<Rightarrow>
               if (\<exists>d \<in> set incoming. ineligible_doc d)
                  \<or> (\<exists>d \<in> set (documents s). d_kind d \<noteq> ''local'' \<and> Some (d_video_id d) \<in> set ids)
               then Inl CatalogConflict
               else (let rows = map (incoming_row X now) incoming in
                 if None \<in> set rows then Inl SqlFailed
                 else (case activate now s v m (map the rows) of
                     Inl e \<Rightarrow> Inl e | Inr s' \<Rightarrow> Inr (True, s')))))"

section \<open>Retention and status\<close>

definition PruneCatalogSnapshots :: "int \<Rightarrow> db \<Rightarrow> int \<times> db" where
  "PruneCatalogSnapshots clk s =
     (let old = (\<lambda>n. sn_created_at n \<le> clk - day)
      in (int (length (filter old (catalog_snapshots s))), delete_snapshots old s))"

record status =
  st_foreign_eligible :: bool
  st_scope :: string
  st_epoch :: "uuid option"
  st_ready :: bool
  st_highest :: string
  st_completed :: string
  st_completed_at :: "int option"
  st_manifest :: "manifest option"
  st_staged :: int
  st_oldest_staged_at :: "int option"

definition ReadCatalogStatus :: "db \<Rightarrow> string \<Rightarrow> store_error + status" where
  "ReadCatalogStatus s scope =
     (if scope \<noteq> ''local'' then Inl CatalogConflict
      else (case scope_of s scope of
          None \<Rightarrow> Inr \<lparr> st_foreign_eligible = False, st_scope = scope, st_epoch = None, st_ready = False,
             st_highest = ''0'', st_completed = ''0'', st_completed_at = None, st_manifest = None,
             st_staged = 0, st_oldest_staged_at = None \<rparr>
        | Some c \<Rightarrow>
            (let pend = sql_get (\<lambda>n. sn_scope n = cs_scope c \<and> sn_epoch n = cs_epoch c
                          \<and> sn_generation n = cs_highest c) (catalog_snapshots s);
                 ready = cs_completed c > 0
             in Inr \<lparr> st_foreign_eligible = (\<exists>d \<in> set (documents s). d_kind d \<noteq> ''local'' \<and> d_eligible d),
               st_scope = scope, st_epoch = Some (cs_epoch c), st_ready = ready,
               st_highest = FormatInt (cs_highest c), st_completed = FormatInt (cs_completed c),
               st_completed_at = cs_completed_at c,
               st_manifest = (if ready then Some \<lparr> page_count = cs_page_count c,
                   document_count = cs_document_count c,
                   membership_sha256 = DerefStr (cs_membership c),
                   pages_sha256 = DerefStr (cs_pages c) \<rparr> else None),
               st_staged = (if pend = None then 0 else 1),
               st_oldest_staged_at = map_option sn_created_at pend \<rparr>)))"

end
