(* ===== verification/CatalogPayload.thy ===== *)
theory CatalogPayload
  imports CatalogProtocol
begin

text \<open>
  The wire payloads of the catalog: \<open>catalog.ObjectFields\<close> (\<open>internal/catalog/validation.go\<close>),
  the video document and the envelope (\<open>internal/event/types.go\<close>), the two snapshot payloads
  (\<open>internal/event/catalog_payload.go\<close>) and the batch framing
  (\<open>internal/event/catalog_batch.go\<close>). A rejected payload is \<open>None\<close>.

  The lemmas state what an accepted page guarantees about the raw documents the store will
  keep: known names only, no duplicates, canonical ids and integers, eligible public local
  videos, distinct non-nil ids.
\<close>

section \<open>One object level\<close>

fun object_loop :: "string list \<Rightarrow> string list \<Rightarrow> (string \<times> json) list \<Rightarrow> (string \<times> json) list
    \<Rightarrow> (string \<times> json) list option" where
  "object_loop keys optnl [] flds = Some flds"
| "object_loop keys optnl ((k, v) # kvs) flds =
     (if \<not> (k \<in> set keys \<or> k \<in> set optnl) \<or> map_of flds k \<noteq> None then None
      else object_loop keys optnl kvs (flds @ [(k, v)]))"

definition ObjectFields :: "json \<Rightarrow> string list \<Rightarrow> string list \<Rightarrow> string list \<Rightarrow> (string \<times> json) list option" where
  "ObjectFields raw keys nullable optnl =
     (case raw of
        JObj kvs \<Rightarrow> (case object_loop keys optnl kvs [] of None \<Rightarrow> None
          | Some flds \<Rightarrow>
              if \<exists>key \<in> set keys. map_of flds key = None
                   \<or> (map_of flds key = Some JNull \<and> key \<notin> set nullable)
              then None else Some flds)
      | _ \<Rightarrow> None)"

lemma object_loop_Some:
  "object_loop keys optnl kvs flds = Some r \<longleftrightarrow>
     r = flds @ kvs \<and> fst ` set kvs \<subseteq> set keys \<union> set optnl
     \<and> distinct (map fst kvs) \<and> fst ` set kvs \<inter> fst ` set flds = {}"
proof (induction kvs arbitrary: flds)
  case Nil
  then show ?case by auto
next
  case (Cons kv kvs)
  obtain k v where kv: "kv = (k, v)" by (cases kv)
  show ?case
    using Cons.IH [of "flds @ [(k, v)]"] by (simp add: kv map_of_eq_None_iff) blast
qed

lemma ObjectFields_Some:
  "ObjectFields raw keys nullable optnl = Some r \<longleftrightarrow>
     raw = JObj r \<and> fst ` set r \<subseteq> set keys \<union> set optnl \<and> distinct (map fst r)
     \<and> (\<forall>key \<in> set keys. \<exists>v. map_of r key = Some v \<and> (v = JNull \<longrightarrow> key \<in> set nullable))"
proof (cases raw)
  case (JObj kvs)
  let ?good = "fst ` set kvs \<subseteq> set keys \<union> set optnl \<and> distinct (map fst kvs)"
  show ?thesis
  proof (cases ?good)
    case True
    then have "object_loop keys optnl kvs [] = Some kvs" by (simp add: object_loop_Some)
    moreover have "(\<exists>key \<in> set keys. map_of kvs key = None
        \<or> map_of kvs key = Some JNull \<and> key \<notin> set nullable)
      = (\<not> (\<forall>key \<in> set keys. \<exists>v. map_of kvs key = Some v \<and> (v = JNull \<longrightarrow> key \<in> set nullable)))"
      by (metis option.exhaust option.inject option.distinct(1))
    ultimately show ?thesis using True by (auto simp only: ObjectFields_def JObj json.case option.case split: if_splits)
  next
    case False
    then have "object_loop keys optnl kvs [] \<noteq> Some t" for t by (simp add: object_loop_Some)
    then have "object_loop keys optnl kvs [] = None" by (metis option.exhaust)
    with False show ?thesis by (auto simp: ObjectFields_def JObj)
  qed
qed (simp_all add: ObjectFields_def)

section \<open>Documents\<close>

record video_doc =
  v_id :: uuid
  v_kind :: string
  v_channel_id :: "uuid option"
  v_channel_handle :: "string option"
  v_channel_name :: "string option"
  v_owner_id :: "uuid option"
  v_title :: string
  v_description :: string
  v_tags :: "string list option"
  v_category :: "string option"
  v_language :: "string option"
  v_license :: "string option"
  v_duration_seconds :: "int option"
  v_is_sensitive :: bool
  v_privacy :: string
  v_state :: string
  v_published_at :: "int option"
  v_created_at :: "int option"
  v_updated_at :: "int option"
  v_views :: int
  v_likes :: int

definition zero_video :: video_doc where
  "zero_video = \<lparr> v_id = 0, v_kind = [], v_channel_id = None, v_channel_handle = None,
     v_channel_name = None, v_owner_id = None, v_title = [], v_description = [], v_tags = None,
     v_category = None, v_language = None, v_license = None, v_duration_seconds = None,
     v_is_sensitive = False, v_privacy = [], v_state = [], v_published_at = None,
     v_created_at = None, v_updated_at = None, v_views = 0, v_likes = 0 \<rparr>"

definition dec_uuid :: "ext \<Rightarrow> uuid dec" where
  "dec_uuid X = dec_text (uuid_parse X)"

definition VideoDoc_fields :: "ext \<Rightarrow> (string \<times> video_doc dec) list" where
  "VideoDoc_fields X = [
     (''id'', fld (dec_uuid X) v_id v_id_update),
     (''kind'', fld dec_string v_kind v_kind_update),
     (''channel_id'', fld (dec_ptr 0 (dec_uuid X)) v_channel_id v_channel_id_update),
     (''channel_handle'', fld (dec_ptr [] dec_string) v_channel_handle v_channel_handle_update),
     (''channel_name'', fld (dec_ptr [] dec_string) v_channel_name v_channel_name_update),
     (''owner_id'', fld (dec_ptr 0 (dec_uuid X)) v_owner_id v_owner_id_update),
     (''title'', fld dec_string v_title v_title_update),
     (''description'', fld dec_string v_description v_description_update),
     (''tags'', fld (dec_slice [] dec_string) v_tags v_tags_update),
     (''category'', fld (dec_ptr [] dec_string) v_category v_category_update),
     (''language'', fld (dec_ptr [] dec_string) v_language v_language_update),
     (''license'', fld (dec_ptr [] dec_string) v_license v_license_update),
     (''duration_seconds'', fld (dec_ptr 0 dec_int32) v_duration_seconds v_duration_seconds_update),
     (''is_sensitive'', fld dec_bool v_is_sensitive v_is_sensitive_update),
     (''privacy'', fld dec_string v_privacy v_privacy_update),
     (''state'', fld dec_string v_state v_state_update),
     (''published_at'', fld (dec_ptr zero_time dec_time) v_published_at v_published_at_update),
     (''created_at'', fld (dec_ptr zero_time dec_time) v_created_at v_created_at_update),
     (''updated_at'', fld (dec_ptr zero_time dec_time) v_updated_at v_updated_at_update),
     (''views'', fld dec_int64 v_views v_views_update),
     (''likes'', fld dec_int32 v_likes v_likes_update)]"

definition dec_video :: "ext \<Rightarrow> video_doc dec" where
  "dec_video X = dec_obj (VideoDoc_fields X)"

section \<open>Envelopes\<close>

text \<open>\<open>ev_payload\<close> is the raw payload, with the number of bytes it was spelled in; \<open>None\<close>
  where the member was absent.\<close>

record envelope =
  ev_event_id :: uuid
  ev_type :: string
  ev_occurred_at :: int
  ev_schema_version :: int
  ev_payload :: "json option"
  ev_payload_len :: int

definition zero_envelope :: envelope where
  "zero_envelope = \<lparr> ev_event_id = 0, ev_type = [], ev_occurred_at = zero_time, ev_schema_version = 0,
     ev_payload = None, ev_payload_len = 0 \<rparr>"

definition Envelope_fields :: "ext \<Rightarrow> (json \<Rightarrow> int) \<Rightarrow> (string \<times> envelope dec) list" where
  "Envelope_fields X raw_len = [
     (''event_id'', fld (dec_uuid X) ev_event_id ev_event_id_update),
     (''type'', fld dec_string ev_type ev_type_update),
     (''occurred_at'', fld dec_time ev_occurred_at ev_occurred_at_update),
     (''schema_version'', fld dec_int64 ev_schema_version ev_schema_version_update),
     (''payload'', \<lambda>j e. Some (e\<lparr> ev_payload := Some j, ev_payload_len := raw_len j \<rparr>))]"

section \<open>Canonical spelling\<close>

definition canonicalCatalogUUID :: "ext \<Rightarrow> json option \<Rightarrow> uuid \<Rightarrow> bool" where
  "canonicalCatalogUUID X raw u =
     (u \<noteq> 0 \<and> (case raw of None \<Rightarrow> False | Some j \<Rightarrow> dec_string j [] = Some (uuid_string X u)))"

definition canonicalCatalogInteger :: "json option \<Rightarrow> int \<Rightarrow> bool" where
  "canonicalCatalogInteger raw n = (raw = Some (JNum (FormatInt n)))"

definition validateCatalogIdentity :: "ext \<Rightarrow> identity \<Rightarrow> (string \<times> json) list \<Rightarrow> bool" where
  "validateCatalogIdentity X v flds =
     (Identity_Validate v = Inr () \<and> canonicalCatalogUUID X (map_of flds ''epoch'') (i_epoch v))"

definition dec_generation :: "int dec" where
  "dec_generation j cur = (case Generation_UnmarshalJSON j of Inl e \<Rightarrow> None | Inr g \<Rightarrow> Some g)"

section \<open>The end payload\<close>

record catalog_end =
  e_identity :: identity
  e_manifest :: manifest

definition zero_identity :: identity where
  "zero_identity = \<lparr> i_scope = [], i_epoch = 0, i_generation = 0 \<rparr>"

definition zero_manifest :: manifest where
  "zero_manifest = \<lparr> page_count = 0, document_count = 0, membership_sha256 = [], pages_sha256 = [] \<rparr>"

text \<open>An embedded struct: its fields are promoted.\<close>

definition emb :: "('a \<Rightarrow> 'b) \<Rightarrow> (('b \<Rightarrow> 'b) \<Rightarrow> 'a \<Rightarrow> 'a) \<Rightarrow> (string \<times> 'b dec) list \<Rightarrow> (string \<times> 'a dec) list" where
  "emb get upd fs = map (\<lambda>(k, d). (k, fld d get upd)) fs"

definition Identity_fields :: "ext \<Rightarrow> (string \<times> identity dec) list" where
  "Identity_fields X = [
     (''scope'', fld dec_string i_scope i_scope_update),
     (''epoch'', fld (dec_uuid X) i_epoch i_epoch_update),
     (''generation'', fld dec_generation i_generation i_generation_update)]"

definition Manifest_fields :: "(string \<times> manifest dec) list" where
  "Manifest_fields = [
     (''page_count'', fld dec_int32 page_count page_count_update),
     (''document_count'', fld dec_int64 document_count document_count_update),
     (''membership_sha256'', fld dec_string membership_sha256 membership_sha256_update),
     (''pages_sha256'', fld dec_string pages_sha256 pages_sha256_update)]"

definition PageDigest_fields :: "(string \<times> page_digest dec) list" where
  "PageDigest_fields = [
     (''page_index'', fld dec_int32 page_index page_index_update),
     (''content_sha256'', fld dec_string content_sha256 content_sha256_update)]"

definition parseCatalogEnd :: "ext \<Rightarrow> json \<Rightarrow> catalog_end option" where
  "parseCatalogEnd X raw =
     (case ObjectFields raw [''scope'', ''epoch'', ''generation'', ''page_count'', ''document_count'',
             ''membership_sha256'', ''pages_sha256''] [] [] of
        None \<Rightarrow> None
      | Some flds \<Rightarrow>
          (case dec_obj (emb e_identity e_identity_update (Identity_fields X)
                       @ emb e_manifest e_manifest_update Manifest_fields) raw
                  \<lparr> e_identity = zero_identity, e_manifest = zero_manifest \<rparr> of
             None \<Rightarrow> None
           | Some en \<Rightarrow>
               if \<not> validateCatalogIdentity X (e_identity en) flds then None
               else if Manifest_Validate (e_manifest en) \<noteq> Inr () then None
               else if page_count (e_manifest en) > MaxPages
                    \<or> document_count (e_manifest en) > MaxDocuments then None
               else Some en))"

section \<open>The page payload\<close>

record catalog_document =
  cd_video :: video_doc
  cd_eligible :: bool
  cd_suppressed_reason :: "string option"

definition catalogDocument_fields :: "ext \<Rightarrow> (string \<times> catalog_document dec) list" where
  "catalogDocument_fields X = [
     (''video'', fld (dec_video X) cd_video cd_video_update),
     (''eligible'', fld dec_bool cd_eligible cd_eligible_update),
     (''suppressed_reason'', fld (dec_ptr [] dec_string) cd_suppressed_reason cd_suppressed_reason_update)]"

record page_wire =
  pw_identity :: identity
  pw_digest :: page_digest

record catalog_page =
  p_identity :: identity
  p_digest :: page_digest
  p_documents :: "catalog_document list"
  p_canonical :: json

definition document_keys :: "string list" where
  "document_keys = [''video'', ''eligible'', ''suppressed_reason'']"

definition video_keys :: "string list" where
  "video_keys = [''id'', ''kind'', ''channel_id'', ''channel_handle'', ''channel_name'', ''owner_id'',
     ''title'', ''description'', ''tags'', ''is_sensitive'', ''privacy'', ''state'', ''created_at'',
     ''updated_at'', ''views'', ''likes'']"

definition video_nullable :: "string list" where
  "video_nullable = [''channel_id'', ''channel_handle'', ''channel_name'', ''owner_id'', ''tags'',
     ''created_at'', ''updated_at'']"

definition video_optional :: "string list" where
  "video_optional = [''category'', ''language'', ''license'', ''duration_seconds'', ''published_at'']"

text \<open>The three groups of checks on one typed document, in the order of the code.\<close>

definition canonical_numbers :: "(string \<times> json) list \<Rightarrow> video_doc \<Rightarrow> bool" where
  "canonical_numbers vf v =
     (canonicalCatalogInteger (map_of vf ''views'') (v_views v)
      \<and> canonicalCatalogInteger (map_of vf ''likes'') (v_likes v)
      \<and> (case v_duration_seconds v of None \<Rightarrow> True
         | Some d \<Rightarrow> canonicalCatalogInteger (map_of vf ''duration_seconds'') d))"

definition canonical_member :: "ext \<Rightarrow> identity \<Rightarrow> (string \<times> json) list \<Rightarrow> catalog_document \<Rightarrow> uuid list \<Rightarrow> bool" where
  "canonical_member X w vf doc seen =
     (let v = cd_video doc in
      cd_eligible doc \<and> cd_suppressed_reason doc = None \<and> v_kind v = i_scope w
      \<and> v_privacy v = ''public'' \<and> v_state v = ''published''
      \<and> canonicalCatalogUUID X (map_of vf ''id'') (v_id v) \<and> v_id v \<notin> set seen)"

definition sound_counters :: "video_doc \<Rightarrow> bool" where
  "sound_counters v =
     (v_views v \<ge> 0 \<and> v_likes v \<ge> 0
      \<and> (case v_duration_seconds v of None \<Rightarrow> True | Some d \<Rightarrow> d \<ge> 0)
      \<and> \<not> (v_created_at v = None \<and> v_updated_at v = None)
      \<and> v_created_at v \<noteq> Some zero_time \<and> v_updated_at v \<noteq> Some zero_time)"

definition canonical_owner :: "ext \<Rightarrow> (string \<times> json) list \<Rightarrow> string \<Rightarrow> uuid option \<Rightarrow> bool" where
  "canonical_owner X vf key u =
     (case u of None \<Rightarrow> True | Some i \<Rightarrow> canonicalCatalogUUID X (map_of vf key) i)"

definition zero_document :: catalog_document where
  "zero_document = \<lparr> cd_video = zero_video, cd_eligible = False, cd_suppressed_reason = None \<rparr>"

definition parse_document :: "ext \<Rightarrow> identity \<Rightarrow> uuid list \<Rightarrow> json \<Rightarrow> catalog_document option" where
  "parse_document X w seen raw =
     (case ObjectFields raw document_keys [''suppressed_reason''] [] of None \<Rightarrow> None
      | Some df \<Rightarrow>
        (case map_of df ''video'' of None \<Rightarrow> None
         | Some rawVideo \<Rightarrow>
           (case ObjectFields rawVideo video_keys video_nullable video_optional of None \<Rightarrow> None
            | Some vf \<Rightarrow>
              (case dec_obj (catalogDocument_fields X) raw zero_document of None \<Rightarrow> None
               | Some doc \<Rightarrow>
                   if canonical_numbers vf (cd_video doc) \<and> canonical_member X w vf doc seen
                      \<and> sound_counters (cd_video doc)
                      \<and> canonical_owner X vf ''channel_id'' (v_channel_id (cd_video doc))
                      \<and> canonical_owner X vf ''owner_id'' (v_owner_id (cd_video doc))
                   then Some doc else None))))"

fun parse_documents :: "ext \<Rightarrow> identity \<Rightarrow> uuid list \<Rightarrow> json list \<Rightarrow> catalog_document list option" where
  "parse_documents X w seen [] = Some []"
| "parse_documents X w seen (raw # raws) =
     (case parse_document X w seen raw of None \<Rightarrow> None
      | Some doc \<Rightarrow> (case parse_documents X w (v_id (cd_video doc) # seen) raws of None \<Rightarrow> None
         | Some docs \<Rightarrow> Some (doc # docs)))"

definition parseCatalogPage :: "ext \<Rightarrow> int \<Rightarrow> json \<Rightarrow> catalog_page option" where
  "parseCatalogPage X raw_len raw =
     (if raw_len > MaxRequestBytes then None
      else case ObjectFields raw [''scope'', ''epoch'', ''generation'', ''page_index'', ''documents'',
             ''content_sha256''] [] [] of
        None \<Rightarrow> None
      | Some flds \<Rightarrow>
          (case dec_obj (emb pw_identity pw_identity_update (Identity_fields X)
                       @ emb pw_digest pw_digest_update PageDigest_fields) raw
                  \<lparr> pw_identity = zero_identity, pw_digest = \<lparr> page_index = 0, content_sha256 = [] \<rparr> \<rparr> of
             None \<Rightarrow> None
           | Some w \<Rightarrow>
               if \<not> validateCatalogIdentity X (pw_identity w) flds then None
               else if page_index (pw_digest w) < 0 \<or> page_index (pw_digest w) \<ge> MaxPages then None
               else (case map_of flds ''documents'' of
                   Some (JArr raws) \<Rightarrow>
                     if raws = [] \<or> int (length raws) > MaxDocuments then None
                     else (case parse_documents X (pw_identity w) [] raws of None \<Rightarrow> None
                       | Some docs \<Rightarrow>
                           (case DocumentsDigest (JArr raws) of Inl e \<Rightarrow> None
                            | Inr (canonical, digest) \<Rightarrow>
                                if digest \<noteq> content_sha256 (pw_digest w) then None
                                else Some \<lparr> p_identity = pw_identity w, p_digest = pw_digest w,
                                  p_documents = docs, p_canonical = canonical \<rparr>))
                 | _ \<Rightarrow> None)))"

section \<open>The batch\<close>

definition MaxBatch :: int where "MaxBatch = 500"

fun decode_events :: "ext \<Rightarrow> (json \<Rightarrow> int) \<Rightarrow> json list \<Rightarrow> envelope list option" where
  "decode_events X raw_len [] = Some []"
| "decode_events X raw_len (item # items) =
     (case ObjectFields item [''event_id'', ''type'', ''occurred_at'', ''schema_version'', ''payload''] [] [] of
        None \<Rightarrow> None
      | Some flds \<Rightarrow>
          (case dec_obj (Envelope_fields X raw_len) item zero_envelope of None \<Rightarrow> None
           | Some ev \<Rightarrow>
               if \<not> canonicalCatalogUUID X (map_of flds ''event_id'') (ev_event_id ev) then None
               else (case decode_events X raw_len items of None \<Rightarrow> None
                     | Some evs \<Rightarrow> Some (ev # evs))))"

definition DecodeCatalogBatch :: "ext \<Rightarrow> (json \<Rightarrow> int) \<Rightarrow> body \<Rightarrow> envelope list option" where
  "DecodeCatalogBatch X raw_len raw =
     (if body_len raw > MaxRequestBytes then None
      else case body_json raw of None \<Rightarrow> None
      | Some j \<Rightarrow>
          (case ObjectFields j [''events''] [] [] of None \<Rightarrow> None
           | Some flds \<Rightarrow>
               (case map_of flds ''events'' of
                  Some (JArr items) \<Rightarrow>
                    if items = [] \<or> int (length items) > MaxBatch then None
                    else decode_events X raw_len items
                | _ \<Rightarrow> None)))"

section \<open>What an accepted page guarantees\<close>

text \<open>A raw document as it passes the parser, with the id it declares.\<close>

definition wire_doc :: "ext \<Rightarrow> json \<Rightarrow> uuid \<Rightarrow> bool" where
  "wire_doc X d u \<longleftrightarrow> plain d \<and> u \<noteq> 0 \<and>
     (\<exists>df vf. d = JObj df \<and> distinct (map fst df) \<and> fst ` set df \<subseteq> set document_keys
        \<and> map_of df ''video'' = Some (JObj vf) \<and> distinct (map fst vf)
        \<and> fst ` set vf \<subseteq> set video_keys \<union> set video_optional
        \<and> map_of vf ''id'' = Some (JStr (uuid_string X u)))"

lemma plain_dec_string: "dec_string j cur = Some x \<Longrightarrow> plain j"
  by (cases j) (auto simp: dec_string_def)

lemma plain_dec_bool: "dec_bool j cur = Some x \<Longrightarrow> plain j"
  by (cases j) (auto simp: dec_bool_def)

lemma plain_dec_text: "dec_text p j cur = Some x \<Longrightarrow> plain j"
  by (cases j) (auto simp: dec_text_def)

lemma plain_dec_time: "dec_time j cur = Some x \<Longrightarrow> plain j"
  by (cases j) (auto simp: dec_time_def)

lemma plain_dec_ptr: "(\<And>j cur x. d j cur = Some x \<Longrightarrow> plain j) \<Longrightarrow> dec_ptr z d j cur = Some x \<Longrightarrow> plain j"
  by (cases j) (fastforce simp: dec_ptr_def)+

lemma plain_dec_list: "(\<And>j cur x. d j cur = Some x \<Longrightarrow> plain j) \<Longrightarrow> dec_list z d js = Some xs \<Longrightarrow> \<forall>j \<in> set js. plain j"
  by (induction js arbitrary: xs) (fastforce split: option.splits)+

lemma plain_dec_slice: "(\<And>j cur x. d j cur = Some x \<Longrightarrow> plain j) \<Longrightarrow> dec_slice z d j cur = Some x \<Longrightarrow> plain j"
  by (cases j) (auto simp: dec_slice_def dest!: plain_dec_list [of d z, rotated])

lemma fld_Some: "fld d get upd j a = Some x \<Longrightarrow> \<exists>y. d j (get a) = Some y"
  by (auto simp: fld_def)

lemma plain_dec_ptr_string: "dec_ptr z dec_string j cur = Some x \<Longrightarrow> plain j"
  by (rule plain_dec_ptr [of dec_string]) (erule plain_dec_string)

lemma plain_dec_ptr_time: "dec_ptr z dec_time j cur = Some x \<Longrightarrow> plain j"
  by (rule plain_dec_ptr [of dec_time]) (erule plain_dec_time)

lemma plain_dec_ptr_text: "dec_ptr z (dec_text p) j cur = Some x \<Longrightarrow> plain j"
  by (rule plain_dec_ptr [of "dec_text p"]) (erule plain_dec_text)

lemma plain_dec_slice_string: "dec_slice z dec_string j cur = Some x \<Longrightarrow> plain j"
  by (rule plain_dec_slice [of dec_string]) (erule plain_dec_string)

lemmas plain_decoders = plain_dec_string plain_dec_bool plain_dec_text plain_dec_time
  plain_dec_ptr_string plain_dec_ptr_time plain_dec_ptr_text plain_dec_slice_string

lemma plain_integer:
  assumes "canonicalCatalogInteger (Some j) n"
    and "dec_int64 j cur = Some x \<or> dec_int32 j cur = Some x"
  shows "plain j"
proof -
  have j: "j = JNum (FormatInt n)" using assms(1) by (simp add: canonicalCatalogInteger_def)
  then obtain i where "ParseInt (FormatInt n) = Some i"
    using assms(2) by (auto simp: dec_int64_def dec_int32_def split: option.splits)
  then show ?thesis using j ParseInt_FormatInt_unique by auto
qed

text \<open>Every member of an accepted video object is plain: the text-like ones by their decoders.\<close>

lemma plain_fld: "(\<And>cur x. d j cur = Some x \<Longrightarrow> plain j) \<Longrightarrow> fld d get upd j a = Some x \<Longrightarrow> plain j"
  by (auto dest: fld_Some)

lemma video_decoders_plain:
  "\<forall>(k, d) \<in> set (VideoDoc_fields X). k \<in> {''views'', ''likes'', ''duration_seconds''}
     \<or> (\<forall>cur x. d j cur = Some x \<longrightarrow> plain j)"
  unfolding VideoDoc_fields_def dec_uuid_def
  apply (simp only: list.set ball_simps prod.case)
  apply (intro conjI TrueI)
  apply ((rule disjI2, intro allI impI, erule plain_fld [rotated], erule plain_decoders)
    | (rule disjI1, simp; fail))+
  done

lemma other_member_plain:
  assumes "k \<in> set video_keys \<union> set video_optional - {''views'', ''likes'', ''duration_seconds''}"
  shows "\<exists>d. map_of (VideoDoc_fields X) k = Some d \<and> (\<forall>cur x. d j cur = Some x \<longrightarrow> plain j)"
proof -
  have "set video_keys \<union> set video_optional \<subseteq> fst ` set (VideoDoc_fields X)"
    by (simp add: video_keys_def video_optional_def VideoDoc_fields_def)
  with assms have "k \<in> fst ` set (VideoDoc_fields X)" by blast
  then obtain d where d: "map_of (VideoDoc_fields X) k = Some d"
    by (metis map_of_eq_None_iff option.exhaust)
  then have "(k, d) \<in> set (VideoDoc_fields X)" by (rule map_of_SomeD)
  then show ?thesis using d assms video_decoders_plain [of X j] by blast
qed

lemma video_member_plain:
  assumes acc: "\<And>d. map_of (VideoDoc_fields X) k = Some d \<Longrightarrow> \<exists>cur x. d j cur = Some x"
    and k: "k \<in> set video_keys \<union> set video_optional"
    and ints: "k = ''views'' \<Longrightarrow> \<exists>n. canonicalCatalogInteger (Some j) n"
      "k = ''likes'' \<Longrightarrow> \<exists>n. canonicalCatalogInteger (Some j) n"
      "k = ''duration_seconds'' \<Longrightarrow> j = JNull \<or> (\<exists>n. canonicalCatalogInteger (Some j) n)"
  shows "plain j"
proof -
  have num: "plain j" if "\<exists>n. canonicalCatalogInteger (Some j) n" "dec_int64 j cur = Some x \<or> dec_int32 j cur = Some x"
    for cur x
    using plain_integer that by blast
  consider "k = ''views''" | "k = ''likes''" | "k = ''duration_seconds''"
    | "k \<in> set video_keys \<union> set video_optional - {''views'', ''likes'', ''duration_seconds''}"
    using k by blast
  then show ?thesis
  proof cases
    case 1
    then have "map_of (VideoDoc_fields X) k = Some (fld dec_int64 v_views v_views_update)"
      by (simp add: VideoDoc_fields_def)
    then obtain cur :: video_doc and x where "fld dec_int64 v_views v_views_update j cur = Some x" using acc by blast
    then show ?thesis using 1 ints(1) num by (blast dest: fld_Some)
  next
    case 2
    then have "map_of (VideoDoc_fields X) k = Some (fld dec_int32 v_likes v_likes_update)"
      by (simp add: VideoDoc_fields_def)
    then obtain cur :: video_doc and x where "fld dec_int32 v_likes v_likes_update j cur = Some x" using acc by blast
    then show ?thesis using 2 ints(2) num by (blast dest: fld_Some)
  next
    case 3
    then have "map_of (VideoDoc_fields X) k = Some (fld (dec_ptr 0 dec_int32) v_duration_seconds v_duration_seconds_update)"
      by (simp add: VideoDoc_fields_def)
    then obtain cur :: video_doc and x where "fld (dec_ptr 0 dec_int32) v_duration_seconds v_duration_seconds_update j cur = Some x" using acc by blast
    then obtain y where y: "dec_ptr 0 dec_int32 j (v_duration_seconds cur) = Some y"
      by (auto dest: fld_Some)
    show ?thesis
    proof (cases "j = JNull")
      case False
      then obtain cur' x' where "dec_int32 j cur' = Some x'"
        using y by (cases j) (auto simp: dec_ptr_def)
      moreover from False ints(3) [OF 3] obtain n where "canonicalCatalogInteger (Some j) n" by blast
      ultimately show ?thesis by (intro plain_integer [of j n cur' x']) simp_all
    qed simp
  next
    case 4
    then obtain d where d: "map_of (VideoDoc_fields X) k = Some d"
      and p: "\<forall>cur x. d j cur = Some x \<longrightarrow> plain j"
      using other_member_plain [of k X j] by auto
    from acc [OF d] p show ?thesis by blast
  qed
qed

lemma ObjectFields_is: "ObjectFields raw keys nullable optnl = Some r \<Longrightarrow> raw = JObj r"
  by (simp add: ObjectFields_Some)

lemma parse_documentD:
  assumes "parse_document X w seen raw = Some doc"
  obtains df vf where "raw = JObj df"
    and "ObjectFields raw document_keys [''suppressed_reason''] [] = Some df"
    and "map_of df ''video'' = Some (JObj vf)"
    and "ObjectFields (JObj vf) video_keys video_nullable video_optional = Some vf"
    and "dec_obj (catalogDocument_fields X) raw zero_document = Some doc"
    and "canonical_numbers vf (cd_video doc)" "canonical_member X w vf doc seen"
    and "sound_counters (cd_video doc)"
  using assms unfolding parse_document_def
  by (auto split: option.splits if_splits dest: ObjectFields_is)

lemma video_object_plain:
  assumes of: "ObjectFields (JObj vf) video_keys video_nullable video_optional = Some vf"
    and dec: "dec_video X (JObj vf) cur = Some v'"
    and num: "canonical_numbers vf v" and dur: "v_duration_seconds v = None \<Longrightarrow> map_of vf ''duration_seconds'' \<in> {None, Some JNull}"
  shows "plain (JObj vf)"
proof (simp, intro ballI)
  fix kv assume "kv \<in> set vf"
  moreover obtain k j where "kv = (k, j)" by (cases kv)
  ultimately have kv: "kv = (k, j)" "(k, j) \<in> set vf" by simp_all
  have d: "distinct (map fst vf)" "fst ` set vf \<subseteq> set video_keys \<union> set video_optional"
    using of by (simp_all add: ObjectFields_Some)
  have m: "map_of vf k = Some j" using d(1) kv(2) by simp
  have "dec_members (VideoDoc_fields X) vf cur = Some v'"
    using dec by (simp add: dec_video_def dec_obj_def)
  then have acc: "\<exists>c x. d' j c = Some x" if "map_of (VideoDoc_fields X) k = Some d'" for d'
    using dec_members_accepted [OF _ kv(2) that] by blast
  have k: "k \<in> set video_keys \<union> set video_optional" using d(2) kv(2) by force
  have "plain j"
  proof (rule video_member_plain [OF acc k])
    show "\<exists>n. canonicalCatalogInteger (Some j) n" if "k = ''views''"
      using num m that by (auto simp: canonical_numbers_def)
    show "\<exists>n. canonicalCatalogInteger (Some j) n" if "k = ''likes''"
      using num m that by (auto simp: canonical_numbers_def)
    show "j = JNull \<or> (\<exists>n. canonicalCatalogInteger (Some j) n)" if "k = ''duration_seconds''"
      using num m dur that by (cases "v_duration_seconds v") (auto simp: canonical_numbers_def)
  qed
  then show "plain (snd kv)" by (simp add: kv)
qed

text \<open>The decoded document against its raw members.\<close>

lemma document_video:
  assumes "ObjectFields raw document_keys [''suppressed_reason''] [] = Some df"
    and "map_of df ''video'' = Some rv"
    and "dec_obj (catalogDocument_fields X) raw zero_document = Some doc"
  shows "dec_video X rv zero_video = Some (cd_video doc)"
proof -
  have raw: "raw = JObj df" "distinct (map fst df)" "fst ` set df \<subseteq> set document_keys"
    using assms(1) by (simp_all add: ObjectFields_Some)
  have "dec_video X rv (cd_video zero_document) = Some (cd_video doc)"
  proof (rule dec_members_field [where upd = cd_video_update])
    show "keeps cd_video ''video'' (catalogDocument_fields X)"
      by (auto simp: keeps_def catalogDocument_fields_def fld_def)
    show "map_of (catalogDocument_fields X) ''video'' = Some (fld (dec_video X) cd_video cd_video_update)"
      by (simp add: catalogDocument_fields_def)
    show "fst ` set df \<subseteq> fst ` set (catalogDocument_fields X)"
      using raw(3) by (simp add: catalogDocument_fields_def document_keys_def)
    show "dec_members (catalogDocument_fields X) df zero_document = Some doc"
      using assms(3) raw(1) by (simp add: dec_obj_def)
  qed (use raw assms(2) in simp_all)
  then show ?thesis by (simp add: zero_document_def)
qed

lemma video_duration:
  assumes "ObjectFields (JObj vf) video_keys video_nullable video_optional = Some vf"
    and "dec_video X (JObj vf) zero_video = Some v" "v_duration_seconds v = None"
  shows "map_of vf ''duration_seconds'' \<in> {None, Some JNull}"
proof (cases "map_of vf ''duration_seconds''")
  case (Some j)
  have vf: "distinct (map fst vf)" "fst ` set vf \<subseteq> set video_keys \<union> set video_optional"
    using assms(1) by (simp_all add: ObjectFields_Some)
  have "dec_ptr 0 dec_int32 j (v_duration_seconds zero_video) = Some (v_duration_seconds v)"
  proof (rule dec_members_field [where upd = v_duration_seconds_update])
    show "keeps v_duration_seconds ''duration_seconds'' (VideoDoc_fields X)"
      unfolding keeps_def VideoDoc_fields_def by (auto simp: fld_def)
    show "map_of (VideoDoc_fields X) ''duration_seconds''
        = Some (fld (dec_ptr 0 dec_int32) v_duration_seconds v_duration_seconds_update)"
      by (simp add: VideoDoc_fields_def)
    show "fst ` set vf \<subseteq> fst ` set (VideoDoc_fields X)"
      by (rule subset_trans [OF vf(2)]) (simp add: VideoDoc_fields_def video_keys_def video_optional_def)
    show "dec_members (VideoDoc_fields X) vf zero_video = Some v"
      using assms(2) by (simp add: dec_video_def dec_obj_def)
  qed (use vf Some in simp_all)
  with assms(3) Some show ?thesis by (cases j) (auto simp: dec_ptr_def)
qed simp

lemma parse_document_wire:
  assumes "parse_document X w seen raw = Some doc"
  shows "wire_doc X raw (v_id (cd_video doc)) \<and> v_id (cd_video doc) \<notin> set seen"
  using assms
proof (rule parse_documentD)
  fix df vf
  assume raw: "raw = JObj df" and of: "ObjectFields raw document_keys [''suppressed_reason''] [] = Some df"
    and vid: "map_of df ''video'' = Some (JObj vf)"
    and ofv: "ObjectFields (JObj vf) video_keys video_nullable video_optional = Some vf"
    and dec: "dec_obj (catalogDocument_fields X) raw zero_document = Some doc"
    and num: "canonical_numbers vf (cd_video doc)" and mem: "canonical_member X w vf doc seen"
  have df: "distinct (map fst df)" "fst ` set df \<subseteq> set document_keys"
    using of by (simp_all add: ObjectFields_Some)
  have dv: "dec_video X (JObj vf) zero_video = Some (cd_video doc)"
    by (rule document_video [OF of vid dec])
  have pv: "plain (JObj vf)"
    using video_object_plain [OF ofv dv num] video_duration [OF ofv dv] by blast
  have "plain (snd kv)" if "kv \<in> set df" for kv
  proof -
    obtain k j where kv: "kv = (k, j)" by (cases kv)
    then have m: "map_of df k = Some j" using that df(1) by simp
    have k: "k \<in> set document_keys" using that df(2) kv by force
    have acc: "\<exists>cur x. d j cur = Some x" if "map_of (catalogDocument_fields X) k = Some d" for d
      using dec dec_members_accepted [of "catalogDocument_fields X" df zero_document doc k j d] that m
      by (auto simp: raw dec_obj_def dest: map_of_SomeD)
    consider "k = ''video''" | "k = ''eligible''" | "k = ''suppressed_reason''"
      using k by (auto simp: document_keys_def)
    then show ?thesis
    proof cases
      case 1
      with m vid pv kv show ?thesis by simp
    next
      case 2
      then obtain cur :: catalog_document and x where "fld dec_bool cd_eligible cd_eligible_update j cur = Some x"
        using acc by (auto simp: catalogDocument_fields_def)
      then show ?thesis using kv by (auto dest: fld_Some plain_dec_bool)
    next
      case 3
      then obtain cur :: catalog_document and x
        where "fld (dec_ptr [] dec_string) cd_suppressed_reason cd_suppressed_reason_update j cur = Some x"
        using acc by (auto simp: catalogDocument_fields_def)
      then show ?thesis using kv by (auto dest: fld_Some plain_dec_ptr_string)
    qed
  qed
  moreover have "map_of vf ''id'' = Some (JStr (uuid_string X (v_id (cd_video doc))))"
    using mem ofv
    by (auto simp: canonical_member_def Let_def canonicalCatalogUUID_def dec_string_def ObjectFields_Some
        video_keys_def video_nullable_def split: option.splits json.splits)
  moreover have "v_id (cd_video doc) \<noteq> 0" "v_id (cd_video doc) \<notin> set seen"
    using mem by (auto simp: canonical_member_def Let_def canonicalCatalogUUID_def)
  moreover have "distinct (map fst vf)" "fst ` set vf \<subseteq> set video_keys \<union> set video_optional"
    using ofv by (simp_all add: ObjectFields_Some)
  ultimately show ?thesis
    using df vid unfolding wire_doc_def raw by (auto simp del: map_of_eq_Some_iff)
qed

text \<open>The canonical form of such a document still declares its id, to both readers.\<close>

lemma length_foldName: "\<forall>c \<in> set k. (of_char c :: nat) < 128 \<Longrightarrow> length (foldName k) = length k"
  by (induction k rule: foldName.induct) auto

lemma find_field_other:
  assumes "\<forall>c \<in> set n. (of_char c :: nat) < 128" "\<forall>c \<in> set k. (of_char c :: nat) < 128" "length k \<noteq> length n"
  shows "find_field [(n, d)] k = None"
proof -
  have "foldName n \<noteq> foldName k" using assms length_foldName by metis
  then show ?thesis using assms(3) by (auto simp: find_field_def)
qed

lemma find_field_video: "k \<in> set document_keys \<Longrightarrow> k \<noteq> ''video'' \<Longrightarrow> find_field [(''video'', d)] k = None"
  by (rule find_field_other) (auto simp: document_keys_def)

lemma find_field_id: "k \<in> set video_keys \<union> set video_optional \<Longrightarrow> k \<noteq> ''id'' \<Longrightarrow> find_field [(''id'', d)] k = None"
  by (rule find_field_other) (auto simp: video_keys_def video_optional_def)

lemma wire_doc_canon:
  assumes "wire_doc X d u"
  obtains df vf where "canon d = JObj df" "map_of df ''video'' = Some (JObj vf)"
    "distinct (map fst df)" "fst ` set df \<subseteq> set document_keys"
    "distinct (map fst vf)" "fst ` set vf \<subseteq> set video_keys \<union> set video_optional"
    "map_of vf ''id'' = Some (JStr (uuid_string X u))"
proof -
  from assms obtain df vf where d: "d = JObj df" "distinct (map fst df)" "fst ` set df \<subseteq> set document_keys"
    "map_of df ''video'' = Some (JObj vf)" "distinct (map fst vf)"
    "fst ` set vf \<subseteq> set video_keys \<union> set video_optional"
    "map_of vf ''id'' = Some (JStr (uuid_string X u))"
    unfolding wire_doc_def by blast
  obtain df' where df': "canon (JObj df) = JObj df'" "distinct (map fst df')"
    "fst ` set df' = fst ` set df" "\<And>k. map_of df' k = map_option canon (map_of df k)"
    using canon_obj [OF d(2)] by metis
  obtain vf' where vf': "canon (JObj vf) = JObj vf'" "distinct (map fst vf')"
    "fst ` set vf' = fst ` set vf" "\<And>k. map_of vf' k = map_option canon (map_of vf k)"
    using canon_obj [OF d(5)] by metis
  show thesis
    by (rule that [of df' vf']) (use d df' vf' in simp_all)
qed

lemma wire_doc_member:
  assumes "ext_ok X" "wire_doc X d u"
  shows "dec_member X (canon d) 0 = Some u"
proof -
  obtain df vf where c: "canon d = JObj df" "map_of df ''video'' = Some (JObj vf)"
    "distinct (map fst df)" "fst ` set df \<subseteq> set document_keys"
    "distinct (map fst vf)" "fst ` set vf \<subseteq> set video_keys \<union> set video_optional"
    "map_of vf ''id'' = Some (JStr (uuid_string X u))"
    using wire_doc_canon [OF assms(2)] by metis
  let ?id = "[(''id'', dec_text (uuid_parse X))]"
  have "dec_members ?id vf 0 = dec_text (uuid_parse X) (JStr (uuid_string X u)) 0"
    using c find_field_id by (intro dec_members_single) auto
  then have inner: "dec_obj ?id (JObj vf) 0 = Some u"
    by (simp add: dec_obj_def dec_text_def ext_ok_uuid [OF assms(1)])
  have "dec_members [(''video'', dec_obj ?id)] df 0 = dec_obj ?id (JObj vf) 0"
    using c find_field_video by (intro dec_members_single) auto
  moreover have "dec_obj fs (JObj df) 0 = dec_members fs df 0" for fs :: "(string \<times> uuid dec) list"
    by (simp add: dec_obj_def)
  ultimately show ?thesis by (simp only: dec_member_def c(1) inner)
qed

definition wire_docs :: "ext \<Rightarrow> json list \<Rightarrow> uuid list \<Rightarrow> bool" where
  "wire_docs X raws ids \<longleftrightarrow> list_all2 (wire_doc X) raws ids \<and> distinct ids \<and> raws \<noteq> []"

lemma wire_docs_members:
  assumes "ext_ok X" "list_all2 (wire_doc X) raws ids"
  shows "member_ids X (canon (JArr raws)) = Some ids"
proof -
  have "dec_list 0 (dec_member X) (map canon raws) = Some ids"
    using assms(2) by (induction rule: list_all2_induct) (simp_all add: wire_doc_member [OF assms(1)])
  then show ?thesis by (simp add: member_ids_def)
qed

lemma wire_docs_nonzero: "list_all2 (wire_doc X) raws ids \<Longrightarrow> 0 \<notin> set ids"
  by (induction rule: list_all2_induct) (auto simp: wire_doc_def)

lemma wire_docs_plain: "list_all2 (wire_doc X) raws ids \<Longrightarrow> plain (JArr raws)"
  by (induction rule: list_all2_induct) (auto simp: wire_doc_def)

lemma parse_documents_wire:
  "parse_documents X w seen raws = Some docs \<Longrightarrow>
     list_all2 (wire_doc X) raws (map (v_id \<circ> cd_video) docs)
     \<and> distinct (map (v_id \<circ> cd_video) docs) \<and> set (map (v_id \<circ> cd_video) docs) \<inter> set seen = {}"
proof (induction raws arbitrary: seen docs)
  case (Cons raw raws)
  then obtain doc docs' where d: "docs = doc # docs'" "parse_document X w seen raw = Some doc"
    "parse_documents X w (v_id (cd_video doc) # seen) raws = Some docs'"
    by (auto split: option.splits)
  then show ?case using Cons.IH [OF d(3)] parse_document_wire [OF d(2)] by auto
qed simp

lemma parseCatalogPage_wire:
  assumes "parseCatalogPage X n raw = Some pg"
  obtains raws where "wire_docs X raws (map (v_id \<circ> cd_video) (p_documents pg))"
    and "p_canonical pg = canon (JArr raws)"
    and "content_sha256 (p_digest pg) = sha256_hex (marshal (JArr raws))"
    and "Identity_Validate (p_identity pg) = Inr ()"
    and "0 \<le> page_index (p_digest pg)" "page_index (p_digest pg) < MaxPages"
  using assms unfolding parseCatalogPage_def DocumentsDigest_def Let_def
  apply (clarsimp split: if_splits option.splits json.splits simp del: canon.simps)
  subgoal for fs w raws docs
    by (rule that [of raws]) (use parse_documents_wire [of X "pw_identity w" "[]" raws docs]
      in \<open>auto simp: wire_docs_def validateCatalogIdentity_def marshal_def simp del: canon.simps\<close>)
  done

end
