(* ===== verification/CatalogInv.thy ===== *)
theory CatalogInv
  imports CatalogStore CatalogPayload
begin

text \<open>
  The invariant of the catalog tables and its preservation by every operation of the store:
  what the \<open>CHECK\<close> and foreign-key clauses of migrations 0019 to 0021 demand, and beyond them
  what the code maintains by itself. A pending snapshot is always the newest observed and
  not yet completed generation of the epoch in force; its byte ledger is the sum of the
  canonical sizes of its pages; the pages are verbatim what the parser accepted; the quotas
  hold; no id is staged twice.
\<close>

named_theorems catalog_frame "which tables an operation leaves alone"

section \<open>The invariant\<close>

definition row_ids :: "ext \<Rightarrow> page_row \<Rightarrow> uuid list" where
  "row_ids X p = page_ids X (to_snapshot_page p)"

definition row_bytes :: "page_row \<Rightarrow> int" where
  "row_bytes p = page_bytes (to_snapshot_page p)"

definition row_ok :: "ext \<Rightarrow> page_row \<Rightarrow> bool" where
  "row_ok X p \<longleftrightarrow> 0 \<le> pr_page_index p \<and> pr_page_index p < MaxPages \<and>
     (\<exists>raws ids. wire_docs X raws ids \<and> pr_documents p = canon (JArr raws)
        \<and> pr_document_count p = int (length ids)
        \<and> pr_content_sha256 p = sha256_hex (marshal (JArr raws)))"

definition scope_ok :: "scope_row \<Rightarrow> bool" where
  "scope_ok c \<longleftrightarrow> 0 \<le> cs_completed c \<and> cs_completed c \<le> cs_highest c
     \<and> (if cs_completed c = 0 then cs_completed_at c = None \<and> cs_membership c = None \<and> cs_pages c = None
          \<and> cs_page_count c = 0 \<and> cs_document_count c = 0
        else cs_completed_at c \<noteq> None \<and> cs_membership c \<noteq> None \<and> cs_pages c \<noteq> None)"

definition pending_in :: "snapshot_row \<Rightarrow> scope_row \<Rightarrow> bool" where
  "pending_in n c \<longleftrightarrow> cs_scope c = sn_scope n \<and> cs_epoch c = sn_epoch n
     \<and> cs_highest c = sn_generation n \<and> cs_completed c < sn_generation n"

definition belongs :: "page_row \<Rightarrow> snapshot_row \<Rightarrow> bool" where
  "belongs p n \<longleftrightarrow> pr_scope p = sn_scope n \<and> pr_epoch p = sn_epoch n \<and> pr_generation p = sn_generation n"

definition declared :: "snapshot_row \<Rightarrow> manifest option" where
  "declared n = (case (sn_page_count n, sn_document_count n, sn_membership n, sn_pages n) of
     (Some pc, Some dc, Some ms, Some ps) \<Rightarrow>
       Some \<lparr> page_count = pc, document_count = dc, membership_sha256 = ms, pages_sha256 = ps \<rparr>
   | _ \<Rightarrow> None)"

definition ledger_ok :: "ext \<Rightarrow> page_row list \<Rightarrow> snapshot_row \<Rightarrow> bool" where
  "ledger_ok X ps n \<longleftrightarrow>
     sn_canonical_bytes n = sum_list (map row_bytes ps) \<and> sn_canonical_bytes n \<le> MaxSnapshotBytes
     \<and> int (length ps) \<le> MaxPages \<and> sum_list (map pr_document_count ps) \<le> MaxDocuments
     \<and> distinct (map pr_page_index ps) \<and> distinct (concat (map (row_ids X) ps))
     \<and> (case declared n of
          None \<Rightarrow> sn_page_count n = None
        | Some m \<Rightarrow> Manifest_Validate m = Inr () \<and> page_count m \<le> MaxPages
            \<and> document_count m \<le> MaxDocuments \<and> (\<forall>p \<in> set ps. pr_page_index p < page_count m)
            \<and> sum_list (map pr_document_count ps) \<le> document_count m)"

definition catalog_inv :: "ext \<Rightarrow> db \<Rightarrow> bool" where
  "catalog_inv X s \<longleftrightarrow>
     distinct (map cs_scope (catalog_scopes s)) \<and> (\<forall>c \<in> set (catalog_scopes s). scope_ok c)
     \<and> distinct (map sn_scope (catalog_snapshots s))
     \<and> (\<forall>n \<in> set (catalog_snapshots s). \<exists>c \<in> set (catalog_scopes s). pending_in n c)
     \<and> (\<forall>n \<in> set (catalog_snapshots s). ledger_ok X (pages_of s (sn_scope n)) n)
     \<and> (\<forall>p \<in> set (catalog_pages s). row_ok X p \<and> (\<exists>n \<in> set (catalog_snapshots s). belongs p n))"

lemma catalog_inv_empty: "catalog_inv X empty_db"
  by (simp add: catalog_inv_def empty_db_def)

section \<open>Rows by key\<close>

lemma same_key: "distinct (map f xs) \<Longrightarrow> x \<in> set xs \<Longrightarrow> y \<in> set xs \<Longrightarrow> f x = f y \<Longrightarrow> x = y"
  by (auto simp: distinct_map inj_on_def)

lemma catalog_invD:
  assumes "catalog_inv X s"
  shows inv_scopes: "distinct (map cs_scope (catalog_scopes s))"
    and inv_scope_ok: "\<And>c. c \<in> set (catalog_scopes s) \<Longrightarrow> scope_ok c"
    and inv_snapshots: "distinct (map sn_scope (catalog_snapshots s))"
    and inv_pending: "\<And>n. n \<in> set (catalog_snapshots s) \<Longrightarrow> \<exists>c \<in> set (catalog_scopes s). pending_in n c"
    and inv_ledger: "\<And>n. n \<in> set (catalog_snapshots s) \<Longrightarrow> ledger_ok X (pages_of s (sn_scope n)) n"
    and inv_row: "\<And>p. p \<in> set (catalog_pages s) \<Longrightarrow> row_ok X p"
    and inv_belongs: "\<And>p. p \<in> set (catalog_pages s) \<Longrightarrow> \<exists>n \<in> set (catalog_snapshots s). belongs p n"
  using assms by (simp_all add: catalog_inv_def)

lemma snapshot_unique:
  "catalog_inv X s \<Longrightarrow> n \<in> set (catalog_snapshots s) \<Longrightarrow> n' \<in> set (catalog_snapshots s) \<Longrightarrow>
   sn_scope n = sn_scope n' \<Longrightarrow> n = n'"
  by (rule same_key [OF inv_snapshots])

lemma scope_unique:
  "catalog_inv X s \<Longrightarrow> c \<in> set (catalog_scopes s) \<Longrightarrow> c' \<in> set (catalog_scopes s) \<Longrightarrow>
   cs_scope c = cs_scope c' \<Longrightarrow> c = c'"
  by (rule same_key [OF inv_scopes])

lemma scope_of_Some:
  "distinct (map cs_scope (catalog_scopes s)) \<Longrightarrow>
   scope_of s sc = Some c \<longleftrightarrow> c \<in> set (catalog_scopes s) \<and> cs_scope c = sc"
  using sql_get_Some [of "\<lambda>r. cs_scope r = sc"] sql_get_key [of cs_scope "catalog_scopes s" c]
  by (auto simp: scope_of_def)

lemma snapshot_of_Some:
  "distinct (map sn_scope (catalog_snapshots s)) \<Longrightarrow>
   snapshot_of s sc = Some n \<longleftrightarrow> n \<in> set (catalog_snapshots s) \<and> sn_scope n = sc"
  using sql_get_Some [of "\<lambda>r. sn_scope r = sc"] sql_get_key [of sn_scope "catalog_snapshots s" n]
  by (auto simp: snapshot_of_def)

lemma pages_of_iff: "p \<in> set (pages_of s sc) \<longleftrightarrow> p \<in> set (catalog_pages s) \<and> pr_scope p = sc"
  by (simp add: pages_of_def)

text \<open>All pages of a scope belong to its one pending snapshot.\<close>

lemma page_belongs:
  assumes "catalog_inv X s" "n \<in> set (catalog_snapshots s)" "p \<in> set (pages_of s (sn_scope n))"
  shows "belongs p n"
proof -
  obtain n' where n': "n' \<in> set (catalog_snapshots s)" "belongs p n'"
    using assms by (auto simp: catalog_inv_def pages_of_iff)
  have "sn_scope n' = sn_scope n" using n' assms(3) by (simp add: belongs_def pages_of_iff)
  then have "n' = n" using snapshot_unique [OF assms(1) n'(1) assms(2)] by simp
  then show ?thesis using n' by simp
qed

lemma no_snapshot_no_pages:
  assumes "catalog_inv X s" "snapshot_of s sc = None"
  shows "pages_of s sc = []"
proof -
  have "\<forall>n \<in> set (catalog_snapshots s). sn_scope n \<noteq> sc"
    using assms(2) by (simp add: snapshot_of_def sql_get_None)
  moreover have "\<forall>p \<in> set (catalog_pages s). \<exists>n \<in> set (catalog_snapshots s). belongs p n"
    using assms(1) by (simp add: catalog_inv_def)
  ultimately have "\<forall>p \<in> set (catalog_pages s). pr_scope p \<noteq> sc"
    by (metis belongs_def)
  then show ?thesis by (simp add: pages_of_def)
qed

section \<open>Deleting pending snapshots\<close>

lemma delete_snapshots_frame [simp, catalog_frame]:
  "documents (delete_snapshots P s) = documents s"
  "catalog_scopes (delete_snapshots P s) = catalog_scopes s"
  "catalog_epochs (delete_snapshots P s) = catalog_epochs s"
  "catalog_snapshots (delete_snapshots P s) = sql_delete P (catalog_snapshots s)"
  by (simp_all add: delete_snapshots_def Let_def)

lemma delete_snapshots_pages:
  assumes "catalog_inv X s"
  shows "catalog_pages (delete_snapshots P s)
    = filter (\<lambda>p. \<exists>n \<in> set (catalog_snapshots s). \<not> P n \<and> belongs p n) (catalog_pages s)"
proof -
  have "\<not> (\<exists>n \<in> set (filter P (catalog_snapshots s)). sn_scope n = pr_scope p
           \<and> sn_epoch n = pr_epoch p \<and> sn_generation n = pr_generation p)
      \<longleftrightarrow> (\<exists>n \<in> set (catalog_snapshots s). \<not> P n \<and> belongs p n)"
    if p: "p \<in> set (catalog_pages s)" for p
  proof -
    obtain n where n: "n \<in> set (catalog_snapshots s)" "belongs p n"
      using assms p by (auto simp: catalog_inv_def)
    have u: "n' = n" if "n' \<in> set (catalog_snapshots s)" "belongs p n'" for n'
    proof -
      have "sn_scope n' = sn_scope n" using that n by (simp add: belongs_def)
      then show ?thesis using that n snapshot_unique [OF assms] by blast
    qed
    have "(\<exists>n \<in> set (filter P (catalog_snapshots s)). sn_scope n = pr_scope p
           \<and> sn_epoch n = pr_epoch p \<and> sn_generation n = pr_generation p)
        \<longleftrightarrow> (\<exists>n' \<in> set (catalog_snapshots s). P n' \<and> belongs p n')"
      by (auto simp: belongs_def)
    also have "\<dots> \<longleftrightarrow> P n" using n u by metis
    finally show ?thesis using n u by metis
  qed
  then have "filter (\<lambda>p. \<not> (\<exists>n \<in> set (filter P (catalog_snapshots s)). sn_scope n = pr_scope p
           \<and> sn_epoch n = pr_epoch p \<and> sn_generation n = pr_generation p)) (catalog_pages s)
      = filter (\<lambda>p. \<exists>n \<in> set (catalog_snapshots s). \<not> P n \<and> belongs p n) (catalog_pages s)"
    by (rule filter_cong [OF refl])
  then show ?thesis
    by (simp only: delete_snapshots_def Let_def sql_delete_def) simp
qed

lemma delete_snapshots_pages_of:
  assumes "catalog_inv X s" "n \<in> set (catalog_snapshots s)" "\<not> P n"
  shows "pages_of (delete_snapshots P s) (sn_scope n) = pages_of s (sn_scope n)"
proof -
  have "\<exists>n \<in> set (catalog_snapshots s). \<not> P n \<and> belongs p n"
    if "p \<in> set (catalog_pages s)" "pr_scope p = sn_scope n" for p
    using page_belongs [OF assms(1,2)] assms(2,3) that by (auto simp: pages_of_iff)
  then show ?thesis
    by (auto simp: pages_of_def delete_snapshots_pages [OF assms(1)] intro!: filter_cong)
qed

lemma delete_snapshots_inv:
  assumes "catalog_inv X s"
  shows "catalog_inv X (delete_snapshots P s)"
proof -
  have "distinct (map sn_scope (sql_delete P (catalog_snapshots s)))"
    using assms by (simp add: catalog_inv_def distinct_sql_delete)
  then show ?thesis
    using assms delete_snapshots_pages_of [OF assms] delete_snapshots_pages [OF assms, of P]
    by (auto simp: catalog_inv_def set_sql_delete)
qed

text \<open>The invariant reads three tables.\<close>

lemma catalog_inv_cong:
  "catalog_scopes s' = catalog_scopes s \<Longrightarrow> catalog_snapshots s' = catalog_snapshots s \<Longrightarrow>
   catalog_pages s' = catalog_pages s \<Longrightarrow> catalog_inv X s' = catalog_inv X s"
  by (simp add: catalog_inv_def pages_of_def)

section \<open>Epochs\<close>

lemma kept_by_update: "x \<in> set xs \<Longrightarrow> \<not> P x \<Longrightarrow> x \<in> set (sql_update P f xs)"
  by (auto simp: set_sql_update)

lemma kept_by_upsert: "x \<in> set xs \<Longrightarrow> key x \<noteq> key new \<Longrightarrow> x \<in> set (sql_upsert key new f xs)"
  by (auto simp: sql_upsert_def set_sql_update)

lemma member_upsert:
  "x \<in> set (sql_upsert key new f xs) \<Longrightarrow> (x \<in> set xs \<and> key x \<noteq> key new) \<or> x = new \<or> (\<exists>y \<in> set xs. key y = key new \<and> x = f y)"
  by (cases "key new \<in> key ` set xs") (auto simp: sql_upsert_def set_sql_update image_iff)

lemma member_update:
  "x \<in> set (sql_update P f xs) \<Longrightarrow> (x \<in> set xs \<and> \<not> P x) \<or> (\<exists>y \<in> set xs. P y \<and> x = f y)"
  by (auto simp: set_sql_update)

lemma scope_ok_new [simp]: "scope_ok (new_scope sc e)"
  by (simp add: scope_ok_def new_scope_def)

lemma cs_scope_new [simp]: "cs_scope (new_scope sc e) = sc"
  by (simp add: new_scope_def)

lemma reset_epoch_inv:
  assumes inv: "catalog_inv X s" and r: "reset_epoch s scope epoch expected = Inr s'"
  shows "catalog_inv X s'"
proof -
  let ?P = "\<lambda>n. sn_scope n = scope"
  let ?s1 = "s\<lparr> catalog_epochs := catalog_epochs s
                 @ [\<lparr> ce_scope = scope, ce_epoch = epoch, ce_predecessor = expected \<rparr>] \<rparr>"
  let ?s2 = "delete_snapshots ?P ?s1"
  let ?sc = "sql_upsert cs_scope (new_scope scope epoch) (\<lambda>r. new_scope (cs_scope r) epoch) (catalog_scopes s)"
  have s': "s' = ?s2\<lparr> catalog_scopes := ?sc \<rparr>"
    using r by (auto simp: reset_epoch_def Let_def split: if_splits)
  have "catalog_inv X ?s1" using inv catalog_inv_cong [of ?s1 s X] by simp
  then have i2: "catalog_inv X ?s2" by (rule delete_snapshots_inv)
  have d: "distinct (map cs_scope ?sc)"
    using inv_scopes [OF inv] by (rule distinct_sql_upsert) simp
  have ok: "scope_ok c" if "c \<in> set ?sc" for c
    using member_upsert [OF that] inv_scope_ok [OF inv] by auto
  have pend: "\<exists>c \<in> set ?sc. pending_in n c" if n: "n \<in> set (catalog_snapshots ?s2)" for n
  proof -
    have "sn_scope n \<noteq> scope" using n by (simp add: set_sql_delete)
    moreover obtain c where "c \<in> set (catalog_scopes s)" "pending_in n c"
      using inv_pending [OF i2 n] by auto
    ultimately show ?thesis
      by (intro bexI [of _ c] kept_by_upsert) (auto simp: pending_in_def)
  qed
  show ?thesis
    using i2 d ok pend by (simp add: s' catalog_inv_def pages_of_def)
qed

lemma SetCatalogEpoch_inv:
  assumes "catalog_inv X s" "SetCatalogEpoch s scope epoch expected = Inr s'"
  shows "catalog_inv X s'"
  using assms reset_epoch_inv
  by (auto simp: SetCatalogEpoch_def split: if_splits option.splits)

section \<open>Admission\<close>

lemma Identity_Validate_Inr: "Identity_Validate v = Inr () \<longleftrightarrow> i_scope v = ScopeLocal \<and> i_epoch v \<noteq> 0 \<and> 0 < i_generation v"
  by (auto simp: Identity_Validate_def)

text \<open>The two ways to be admitted: the pending generation again, or a newer one.\<close>

lemma AdmitCatalogGeneration_cases:
  assumes "AdmitCatalogGeneration now clk s v = Inr s'"
  obtains (again) c n where "scope_of s (i_scope v) = Some c" "cs_epoch c = i_epoch v"
      "i_generation v = cs_highest c" "s' = s" "n \<in> set (catalog_snapshots s)"
      "sn_scope n = i_scope v" "sn_epoch n = i_epoch v" "sn_generation n = i_generation v"
      "sn_created_at n > clk - day"
  | (newer) c where "scope_of s (i_scope v) = Some c" "cs_epoch c = i_epoch v"
      "cs_highest c < i_generation v" "i_generation v \<noteq> cs_completed c"
      "s' = (delete_snapshots (\<lambda>n. sn_scope n = i_scope v) s)\<lparr>
         catalog_scopes := sql_update (\<lambda>r. cs_scope r = i_scope v)
            (\<lambda>r. r\<lparr> cs_highest := i_generation v \<rparr>) (catalog_scopes s),
         catalog_snapshots := sql_delete (\<lambda>n. sn_scope n = i_scope v) (catalog_snapshots s) @
            [\<lparr> sn_scope = i_scope v, sn_epoch = i_epoch v, sn_generation = i_generation v,
               sn_created_at = now, sn_page_count = None, sn_document_count = None,
               sn_membership = None, sn_pages = None, sn_canonical_bytes = 0 \<rparr>] \<rparr>"
  using assms unfolding AdmitCatalogGeneration_def
  by (auto simp: Let_def split: sum.splits option.splits if_splits)

lemma AdmitCatalogGeneration_inv:
  assumes inv: "catalog_inv X s" and a: "AdmitCatalogGeneration now clk s v = Inr s'"
  shows "catalog_inv X s'"
  using a
proof (cases rule: AdmitCatalogGeneration_cases)
  case again
  with inv show ?thesis by simp
next
  case (newer c)
  let ?P = "\<lambda>n. sn_scope n = i_scope v"
  let ?s1 = "delete_snapshots ?P s"
  let ?new = "\<lparr> sn_scope = i_scope v, sn_epoch = i_epoch v, sn_generation = i_generation v,
               sn_created_at = now, sn_page_count = None, sn_document_count = None,
               sn_membership = None, sn_pages = None, sn_canonical_bytes = 0 \<rparr>"
  let ?f = "\<lambda>r. r\<lparr> cs_highest := i_generation v \<rparr>"
  let ?sc = "sql_update (\<lambda>r. cs_scope r = i_scope v) ?f (catalog_scopes s)"
  have i1: "catalog_inv X ?s1" by (rule delete_snapshots_inv [OF inv])
  have c: "c \<in> set (catalog_scopes s)" "cs_scope c = i_scope v"
    using newer(1) scope_of_Some [OF inv_scopes [OF inv]] by auto
  have d: "distinct (map cs_scope ?sc)" using inv_scopes [OF inv] by (simp add: keys_sql_update)
  have ok: "scope_ok r" if r: "r \<in> set ?sc" for r
  proof -
    consider "r \<in> set (catalog_scopes s)" | r0 where "r0 \<in> set (catalog_scopes s)" "cs_scope r0 = i_scope v" "r = ?f r0"
      using member_update [OF r] by blast
    then show ?thesis
    proof cases
      case 2
      then have "r0 = c" using scope_unique [OF inv] c by simp
      with 2 newer(3) inv_scope_ok [OF inv c(1)] show ?thesis by (auto simp: scope_ok_def)
    qed (rule inv_scope_ok [OF inv])
  qed
  have snaps: "catalog_snapshots s' = catalog_snapshots ?s1 @ [?new]"
    and sc: "catalog_scopes s' = ?sc" and pg: "catalog_pages s' = catalog_pages ?s1"
    using newer(5) by simp_all
  have none: "pages_of ?s1 (i_scope v) = []"
    by (rule no_snapshot_no_pages [OF i1]) (simp add: snapshot_of_def sql_get_None set_sql_delete)
  have ds: "distinct (map sn_scope (catalog_snapshots s'))"
    using inv_snapshots [OF i1] by (auto simp: snaps set_sql_delete)
  have pend: "\<exists>r \<in> set ?sc. pending_in n r" if n: "n \<in> set (catalog_snapshots s')" for n
  proof (cases "n = ?new")
    case True
    have "?f c \<in> set ?sc" using c by (auto simp: set_sql_update)
    moreover have "cs_completed c < i_generation v"
      using inv_scope_ok [OF inv c(1)] newer(3) by (simp add: scope_ok_def)
    ultimately show ?thesis using True c newer(2) by (intro bexI [of _ "?f c"]) (auto simp: pending_in_def)
  next
    case False
    with n have m: "n \<in> set (catalog_snapshots ?s1)" by (simp add: snaps)
    then obtain r where r: "r \<in> set (catalog_scopes s)" "pending_in n r"
      using inv_pending [OF i1] by fastforce
    have "sn_scope n \<noteq> i_scope v" using m by (simp add: set_sql_delete)
    then have "r \<in> set ?sc" using r by (intro kept_by_update) (auto simp: pending_in_def)
    with r show ?thesis by blast
  qed
  have led: "ledger_ok X (pages_of s' (sn_scope n)) n" if n: "n \<in> set (catalog_snapshots s')" for n
  proof (cases "n = ?new")
    case True
    then show ?thesis using none
      by (simp add: ledger_ok_def pages_of_def pg declared_def MaxSnapshotBytes_def MaxPages_def MaxDocuments_def)
  next
    case False
    with n have "n \<in> set (catalog_snapshots ?s1)" by (simp add: snaps)
    from inv_ledger [OF i1 this] show ?thesis by (simp add: pages_of_def pg)
  qed
  show ?thesis
    unfolding catalog_inv_def sc
    using d ok ds pend led i1 by (auto simp: pg snaps catalog_inv_def simp del: delete_snapshots_frame)
qed

lemma AdmitCatalogGeneration_snapshot:
  assumes inv: "catalog_inv X s" and a: "AdmitCatalogGeneration now clk s v = Inr s'"
  obtains n where "n \<in> set (catalog_snapshots s')" "sn_scope n = i_scope v" "sn_epoch n = i_epoch v"
    "sn_generation n = i_generation v"
  using a
proof (cases rule: AdmitCatalogGeneration_cases)
  case (again c n)
  then show thesis by (intro that [of n]) simp_all
next
  case (newer c)
  then show thesis by (intro that) (simp_all, rule disjI1, rule refl, simp_all)
qed

lemma AdmitCatalogGeneration_frame [catalog_frame]:
  "AdmitCatalogGeneration now clk s v = Inr s' \<Longrightarrow> documents s' = documents s \<and> catalog_epochs s' = catalog_epochs s"
  by (erule AdmitCatalogGeneration_cases) simp_all

section \<open>Pages\<close>

lemma wire_doc_sql_uuid:
  assumes "ext_ok X" "wire_doc X d u"
  shows "sql_uuid X (jfield_text ''id'' (doc_video (canon d))) = Some (Some u)"
proof -
  obtain df vf where c: "canon d = JObj df" "map_of df ''video'' = Some (JObj vf)"
    "map_of vf ''id'' = Some (JStr (uuid_string X u))"
    using wire_doc_canon [OF assms(2)] by metis
  then show ?thesis
    by (simp add: doc_video_def jfield_text_def jfield_def jtext_def sql_uuid_def ext_ok_pg [OF assms(1)])
qed

lemma doc_ids_Some: "doc_ids X ds = Some us \<longleftrightarrow> map (\<lambda>d. sql_uuid X (jfield_text ''id'' (doc_video d))) ds = map Some us"
proof -
  have "map Some (map the xs) = xs" if "None \<notin> set xs" for xs :: "uuid option option list"
    using that by (simp add: o_def) (rule map_idI, metis option.collapse)
  then have "None \<notin> set xs \<and> map the xs = us \<longleftrightarrow> xs = map Some us" for xs :: "uuid option option list"
    by (auto simp: o_def)
  from this [of "map (\<lambda>d. sql_uuid X (jfield_text ''id'' (doc_video d))) ds"] show ?thesis
    unfolding doc_ids_def Let_def by (simp del: map_map set_map split: if_splits) blast
qed

lemma doc_ids_append: "doc_ids X ds = Some us \<Longrightarrow> doc_ids X es = Some ws \<Longrightarrow> doc_ids X (ds @ es) = Some (us @ ws)"
  by (simp add: doc_ids_Some)

lemma wire_docs_doc_ids:
  assumes "ext_ok X" "list_all2 (wire_doc X) raws ids"
  shows "doc_ids X (elements (canon (JArr raws))) = Some (map Some ids)"
  using assms(2) by (induction rule: list_all2_induct)
    (auto simp: elements_def doc_ids_Some wire_doc_sql_uuid [OF assms(1)])

lemma row_okE:
  assumes "ext_ok X" "row_ok X p"
  obtains raws where "wire_docs X raws (row_ids X p)" "pr_documents p = canon (JArr raws)"
    "pr_document_count p = int (length (row_ids X p))"
    "pr_content_sha256 p = sha256_hex (marshal (JArr raws))"
    "0 \<le> pr_page_index p" "pr_page_index p < MaxPages"
proof -
  obtain raws ids where r: "wire_docs X raws ids" "pr_documents p = canon (JArr raws)"
    "pr_document_count p = int (length ids)" "pr_content_sha256 p = sha256_hex (marshal (JArr raws))"
    "0 \<le> pr_page_index p" "pr_page_index p < MaxPages"
    using assms(2) by (auto simp: row_ok_def simp del: canon.simps)
  have "member_ids X (canon (JArr raws)) = Some ids"
    using r(1) wire_docs_members [OF assms(1)] by (simp add: wire_docs_def)
  then have "row_ids X p = ids"
    using r(2) by (simp add: row_ids_def page_ids_def to_snapshot_page_def del: canon.simps)
  with r that show thesis by simp
qed

lemma rows_doc_ids:
  assumes "ext_ok X" "\<forall>p \<in> set ps. row_ok X p"
  shows "doc_ids X (concat (map (elements \<circ> pr_documents) ps)) = Some (map Some (concat (map (row_ids X) ps)))"
  using assms(2)
proof (induction ps)
  case (Cons p ps)
  then obtain raws where "wire_docs X raws (row_ids X p)" "pr_documents p = canon (JArr raws)"
    using row_okE [OF assms(1), of p] by auto
  then have "doc_ids X (elements (pr_documents p)) = Some (map Some (row_ids X p))"
    using wire_docs_doc_ids [OF assms(1)] by (simp add: wire_docs_def del: canon.simps)
  with Cons show ?case by (simp add: doc_ids_append)
qed (simp add: doc_ids_Some)

text \<open>The two outcomes of staging a page that is accepted.\<close>

definition new_page :: "identity \<Rightarrow> page_digest \<Rightarrow> json \<Rightarrow> uuid list \<Rightarrow> page_row" where
  "new_page v page stored ids = \<lparr> pr_scope = i_scope v, pr_epoch = i_epoch v,
     pr_generation = i_generation v, pr_page_index = page_index page, pr_documents = stored,
     pr_document_count = int (length ids), pr_content_sha256 = content_sha256 page \<rparr>"

lemma StageCatalogPage_cases:
  assumes "StageCatalogPage X now clk s v page docs = Inr s'"
  obtains (replay) s1 stored old where "AdmitCatalogGeneration now clk s v = Inr s1"
      "jsonb_in X (canon docs) = Some stored" "s' = s1" "old \<in> set (catalog_pages s1)"
      "pr_scope old = i_scope v" "pr_generation old = i_generation v" "pr_page_index old = page_index page"
      "pr_content_sha256 old = content_sha256 page" "pr_documents old = stored"
  | (fresh) s1 stored ids where "AdmitCatalogGeneration now clk s v = Inr s1"
      "jsonb_in X (canon docs) = Some stored"
      "\<forall>p \<in> set (catalog_pages s1). \<not> (pr_scope p = i_scope v \<and> pr_generation p = i_generation v
          \<and> pr_page_index p = page_index page)"
      "insert_page X s1 v page (canon docs) stored ids = Inr s'"
      "content_sha256 page = sha256_hex (marshal docs)" "member_ids X (canon docs) = Some ids" "ids \<noteq> []"
      "MembershipDigest X ids \<noteq> Inl InvalidMembership" "0 \<le> page_index page" "page_index page < MaxPages"
  using assms unfolding StageCatalogPage_def
  by (auto simp: DocumentsDigest_def marshal_def Let_def sql_get_None
      split: if_splits sum.splits option.splits json.splits simp del: canon.simps dest!: sql_get_Some)

lemma insert_page_Inr:
  assumes "insert_page X s v page canonical stored ids = Inr s'"
  shows "\<exists>n staged. snapshot_of s (i_scope v) = Some n
    \<and> sn_canonical_bytes n + int (length (render canonical)) \<le> MaxSnapshotBytes
    \<and> sum_list (map pr_document_count (pages_of s (i_scope v))) + int (length ids) \<le> MaxDocuments
    \<and> int (length (pages_of s (i_scope v))) + 1 \<le> MaxPages
    \<and> (\<forall>pc dc. sn_page_count n = Some pc \<longrightarrow> sn_document_count n = Some dc \<longrightarrow> page_index page < pc
       \<and> sum_list (map pr_document_count (pages_of s (i_scope v))) + int (length ids) \<le> dc)
    \<and> doc_ids X (concat (map (elements \<circ> pr_documents) (pages_of s (i_scope v)))) = Some staged
    \<and> (\<forall>u \<in> set ids. Some u \<notin> set staged)
    \<and> (\<forall>d \<in> set (documents s). d_kind d = ''local'' \<or> d_video_id d \<notin> set ids)
    \<and> s' = s\<lparr> catalog_pages := catalog_pages s @ [new_page v page stored ids],
            catalog_snapshots := sql_update (\<lambda>n. sn_scope n = i_scope v)
              (\<lambda>n. n\<lparr> sn_canonical_bytes := sn_canonical_bytes n + int (length (render canonical)) \<rparr>)
              (catalog_snapshots s) \<rparr>"
  using assms unfolding insert_page_def Let_def new_page_def
  by (auto split: option.split_asm if_split_asm)

text \<open>The ledger of a snapshot after one more page.\<close>

lemma ledger_ok_add:
  assumes "ledger_ok X ps n"
    and "sn_canonical_bytes n + row_bytes r \<le> MaxSnapshotBytes"
    and "sum_list (map pr_document_count ps) + pr_document_count r \<le> MaxDocuments"
    and "int (length ps) + 1 \<le> MaxPages"
    and "\<forall>pc dc. sn_page_count n = Some pc \<longrightarrow> sn_document_count n = Some dc \<longrightarrow>
         pr_page_index r < pc \<and> sum_list (map pr_document_count ps) + pr_document_count r \<le> dc"
    and "set (concat (map (row_ids X) ps)) \<inter> set (row_ids X r) = {}" "distinct (row_ids X r)"
    and "pr_page_index r \<notin> pr_page_index ` set ps"
  shows "ledger_ok X (ps @ [r]) (n\<lparr> sn_canonical_bytes := sn_canonical_bytes n + row_bytes r \<rparr>)"
  using assms unfolding ledger_ok_def by (auto simp: declared_def split: option.splits)

lemma insert_page_inv:
  assumes X: "ext_ok X" and inv: "catalog_inv X s" and w: "wire_docs X raws ids"
    and ins: "insert_page X s v page (canon (JArr raws)) (canon (JArr raws)) ids = Inr s'"
    and dig: "content_sha256 page = sha256_hex (marshal (JArr raws))"
    and idx: "0 \<le> page_index page" "page_index page < MaxPages"
    and new: "\<forall>p \<in> set (catalog_pages s). \<not> (pr_scope p = i_scope v \<and> pr_generation p = i_generation v
                \<and> pr_page_index p = page_index page)"
    and adm: "n0 \<in> set (catalog_snapshots s)" "sn_scope n0 = i_scope v" "sn_epoch n0 = i_epoch v"
      "sn_generation n0 = i_generation v"
  shows "catalog_inv X s'"
proof -
  let ?c = "canon (JArr raws)" and ?ps = "pages_of s (i_scope v)"
  let ?r = "new_page v page ?c ids"
  let ?f = "\<lambda>n. n\<lparr> sn_canonical_bytes := sn_canonical_bytes n + int (length (render ?c)) \<rparr>"
  obtain n staged where n: "snapshot_of s (i_scope v) = Some n"
    and size: "sn_canonical_bytes n + int (length (render ?c)) \<le> MaxSnapshotBytes"
    and count: "sum_list (map pr_document_count ?ps) + int (length ids) \<le> MaxDocuments"
    and num: "int (length ?ps) + 1 \<le> MaxPages"
    and decl: "\<forall>pc dc. sn_page_count n = Some pc \<longrightarrow> sn_document_count n = Some dc \<longrightarrow>
         page_index page < pc \<and> sum_list (map pr_document_count ?ps) + int (length ids) \<le> dc"
    and staged: "doc_ids X (concat (map (elements \<circ> pr_documents) ?ps)) = Some staged"
    and fresh: "\<forall>u \<in> set ids. Some u \<notin> set staged"
    and s': "s' = s\<lparr> catalog_pages := catalog_pages s @ [?r],
            catalog_snapshots := sql_update (\<lambda>n. sn_scope n = i_scope v) ?f (catalog_snapshots s) \<rparr>"
    using insert_page_Inr [OF ins] by blast
  have n0: "n = n0"
    using n adm snapshot_of_Some [OF inv_snapshots [OF inv]] snapshot_unique [OF inv] by auto
  have r_ids: "row_ids X ?r = ids"
  proof -
    have "member_ids X ?c = Some ids" using wire_docs_members [OF X] w wire_docs_def by blast
    then show ?thesis by (simp add: row_ids_def page_ids_def to_snapshot_page_def new_page_def del: canon.simps)
  qed
  have r_bytes: "row_bytes ?r = int (length (render ?c))"
    by (simp add: row_bytes_def page_bytes_def to_snapshot_page_def new_page_def marshal_def del: canon.simps)
  have r_ok: "row_ok X ?r"
    using w dig idx by (auto simp: row_ok_def new_page_def simp del: canon.simps)
  have pages: "pages_of s' sc = pages_of s sc @ (if sc = i_scope v then [?r] else [])" for sc
    by (simp add: pages_of_def s' new_page_def)
  have rows: "\<forall>p \<in> set ?ps. row_ok X p" using inv_row [OF inv] by (simp add: pages_of_iff)
  have led: "ledger_ok X ?ps n" using inv_ledger [OF inv adm(1)] adm(2) n0 by simp
  have apart: "set (concat (map (row_ids X) ?ps)) \<inter> set ids = {}"
    using fresh rows_doc_ids [OF X rows] staged by auto
  have index: "pr_page_index ?r \<notin> pr_page_index ` set ?ps"
  proof
    assume "pr_page_index ?r \<in> pr_page_index ` set ?ps"
    then obtain p where p: "p \<in> set ?ps" "pr_page_index p = page_index page" by (auto simp: new_page_def)
    then have "belongs p n0" using page_belongs [OF inv adm(1)] adm(2) by simp
    with p adm new show False by (auto simp: belongs_def pages_of_iff)
  qed
  have led': "ledger_ok X (?ps @ [?r]) (?f n)"
    unfolding r_bytes [symmetric]
  proof (rule ledger_ok_add [OF led])
    show "distinct (row_ids X ?r)" using w by (simp add: r_ids wire_docs_def del: canon.simps)
  qed (use size count num decl apart index r_bytes r_ids in \<open>simp_all add: new_page_def del: canon.simps\<close>)
  have snaps: "catalog_snapshots s' = sql_update (\<lambda>n. sn_scope n = i_scope v) ?f (catalog_snapshots s)"
    by (simp add: s')
  have d: "distinct (map sn_scope (catalog_snapshots s'))"
    using inv_snapshots [OF inv] by (simp add: snaps keys_sql_update)
  have each: "\<exists>m0 \<in> set (catalog_snapshots s). sn_scope m = sn_scope m0 \<and> sn_epoch m = sn_epoch m0
      \<and> sn_generation m = sn_generation m0 \<and> m = (if sn_scope m0 = i_scope v then ?f m0 else m0)"
    if "m \<in> set (catalog_snapshots s')" for m
    using member_update [OF that [unfolded snaps]] by auto
  have led_all: "ledger_ok X (pages_of s' (sn_scope m)) m" if m: "m \<in> set (catalog_snapshots s')" for m
  proof -
    obtain m0 where m0: "m0 \<in> set (catalog_snapshots s)" "sn_scope m = sn_scope m0"
      "m = (if sn_scope m0 = i_scope v then ?f m0 else m0)"
      using each [OF m] by blast
    show ?thesis
    proof (cases "sn_scope m0 = i_scope v")
      case True
      then have "m0 = n" using n0 adm m0 snapshot_unique [OF inv] by auto
      with True m0 led' show ?thesis by (simp add: pages)
    next
      case False
      with m0 inv_ledger [OF inv m0(1)] show ?thesis by (simp add: pages)
    qed
  qed
  have pend: "\<exists>c \<in> set (catalog_scopes s'). pending_in m c" if m: "m \<in> set (catalog_snapshots s')" for m
    using each [OF m] inv_pending [OF inv] by (fastforce simp: pending_in_def s')
  have bel: "\<exists>m \<in> set (catalog_snapshots s'). belongs p m" if p: "p \<in> set (catalog_pages s')" for p
  proof -
    obtain m0 where m0: "m0 \<in> set (catalog_snapshots s)" "belongs p m0"
    proof (cases "p = ?r")
      case True
      then show thesis using adm by (intro that [of n0]) (simp_all add: belongs_def new_page_def)
    next
      case False
      with p have "p \<in> set (catalog_pages s)" by (simp add: s')
      with that inv_belongs [OF inv] show thesis by blast
    qed
    show ?thesis
    proof (cases "sn_scope m0 = i_scope v")
      case True
      then have "?f m0 \<in> set (catalog_snapshots s')" using m0 by (auto simp: snaps set_sql_update)
      with m0 show ?thesis by (intro bexI [of _ "?f m0"]) (simp_all add: belongs_def)
    next
      case False
      then have "m0 \<in> set (catalog_snapshots s')" using m0 by (simp add: snaps kept_by_update)
      with m0 show ?thesis by blast
    qed
  qed
  show ?thesis
    unfolding catalog_inv_def
    using d led_all pend bel inv r_ok by (auto simp: catalog_inv_def s')
qed

lemma StageCatalogPage_inv:
  assumes X: "ext_ok X" and inv: "catalog_inv X s" and w: "wire_docs X raws ids"
    and st: "StageCatalogPage X now clk s v page (canon (JArr raws)) = Inr s'"
  shows "catalog_inv X s'"
  using st
proof (cases rule: StageCatalogPage_cases)
  case (replay s1 stored old)
  then show ?thesis using AdmitCatalogGeneration_inv [OF inv] by blast
next
  case (fresh s1 stored ids')
  have inv1: "catalog_inv X s1" by (rule AdmitCatalogGeneration_inv [OF inv fresh(1)])
  have "plain (JArr raws)" using w wire_docs_plain wire_docs_def by blast
  then have stored: "stored = canon (JArr raws)"
    using fresh(2) jsonb_plain [OF plain_canon] by (simp del: canon.simps)
  have ids': "ids' = ids"
    using fresh(6) wire_docs_members [OF X] w by (auto simp: wire_docs_def simp del: canon.simps)
  obtain n where n: "n \<in> set (catalog_snapshots s1)" "sn_scope n = i_scope v" "sn_epoch n = i_epoch v"
    "sn_generation n = i_generation v"
    by (rule AdmitCatalogGeneration_snapshot [OF inv fresh(1)])
  show ?thesis
    by (rule insert_page_inv [OF X inv1 w _ _ fresh(9,10,3) n])
      (use fresh(4,5) in \<open>simp_all add: stored ids' del: canon.simps\<close>)
qed

lemma StageCatalogPage_frame [catalog_frame]:
  assumes "StageCatalogPage X now clk s v page docs = Inr s'"
  shows "documents s' = documents s"
  using assms
proof (cases rule: StageCatalogPage_cases)
  case replay
  then show ?thesis using AdmitCatalogGeneration_frame by blast
next
  case (fresh s1 stored ids)
  then have "documents s' = documents s1" using insert_page_Inr [OF fresh(4)] by auto
  then show ?thesis using AdmitCatalogGeneration_frame [OF fresh(1)] by simp
qed

section \<open>The end of a snapshot\<close>

definition declare_end :: "manifest \<Rightarrow> snapshot_row \<Rightarrow> snapshot_row" where
  "declare_end m n = n\<lparr> sn_page_count := Some (page_count m), sn_document_count := Some (document_count m),
     sn_membership := Some (membership_sha256 m), sn_pages := Some (pages_sha256 m) \<rparr>"

lemma StageCatalogEnd_cases:
  assumes "StageCatalogEnd now clk s v m = Inr s'"
  obtains (completed) c where "AdmitCatalogGeneration now clk s v = Inl CatalogAlreadyCompleted" "s' = s"
      "c \<in> set (catalog_scopes s)" "cs_scope c = i_scope v" "cs_epoch c = i_epoch v"
      "cs_completed c = i_generation v" "cs_page_count c = page_count m"
      "cs_document_count c = document_count m" "cs_membership c = Some (membership_sha256 m)"
      "cs_pages c = Some (pages_sha256 m)"
  | (again) n where "AdmitCatalogGeneration now clk s v = Inr s'" "snapshot_of s' (i_scope v) = Some n"
      "declared n = Some m"
  | (fresh) s1 n where "AdmitCatalogGeneration now clk s v = Inr s1" "snapshot_of s1 (i_scope v) = Some n"
      "sn_page_count n = None"
      "int (length (pages_of s1 (i_scope v))) \<le> page_count m"
      "sum_list (map pr_document_count (pages_of s1 (i_scope v))) \<le> document_count m"
      "\<forall>p \<in> set (pages_of s1 (i_scope v)). pr_page_index p < page_count m"
      "Manifest_Validate m = Inr ()" "page_count m \<le> MaxPages" "document_count m \<le> MaxDocuments"
      "s' = s1\<lparr> catalog_snapshots := sql_update (\<lambda>n. sn_scope n = i_scope v) (declare_end m)
         (catalog_snapshots s1) \<rparr>"
proof -
  have v: "Manifest_Validate m = Inr ()" "page_count m \<le> MaxPages" "document_count m \<le> MaxDocuments"
    using assms by (simp_all add: StageCatalogEnd_def split: sum.split_asm if_split_asm)
  show thesis
  proof (cases "AdmitCatalogGeneration now clk s v")
    case (Inl e)
    then have "e = CatalogAlreadyCompleted"
      using assms v by (simp add: StageCatalogEnd_def split: if_split_asm)
    moreover from this Inl obtain c where
      "sql_get (\<lambda>c. cs_scope c = i_scope v \<and> cs_epoch c = i_epoch v
         \<and> cs_completed c = i_generation v) (catalog_scopes s) = Some c"
      "cs_page_count c = page_count m \<and> cs_document_count c = document_count m
         \<and> cs_membership c = Some (membership_sha256 m) \<and> cs_pages c = Some (pages_sha256 m) \<and> s' = s"
      using assms v by (auto simp: StageCatalogEnd_def split: if_split_asm option.split_asm)
    ultimately show thesis using Inl by (intro completed [of c]) (auto dest: sql_get_Some)
  next
    case (Inr s1)
    then obtain n where n: "snapshot_of s1 (i_scope v) = Some n"
      using assms v by (auto simp: StageCatalogEnd_def split: option.split_asm)
    show thesis
    proof (cases "sn_page_count n")
      case None
      then show thesis
        using assms v Inr n
        by (intro fresh [OF Inr n None])
          (auto simp: StageCatalogEnd_def declare_end_def [abs_def] Let_def not_less not_le split: if_split_asm)
    next
      case (Some pc)
      then show thesis
        using assms v Inr n
        by (intro again [of n]) (auto simp: StageCatalogEnd_def declared_def split: if_split_asm)
    qed
  qed
qed

lemma declare_end_keys [simp]:
  "sn_scope (declare_end m n) = sn_scope n" "sn_epoch (declare_end m n) = sn_epoch n"
  "sn_generation (declare_end m n) = sn_generation n" "sn_created_at (declare_end m n) = sn_created_at n"
  "sn_canonical_bytes (declare_end m n) = sn_canonical_bytes n"
  by (simp_all add: declare_end_def)

lemma declared_end [simp]: "declared (declare_end m n) = Some m"
  by (simp add: declare_end_def declared_def)

text \<open>A change of the pending snapshots that keeps their keys and ledgers keeps the invariant.\<close>

lemma catalog_inv_snapshots:
  assumes inv: "catalog_inv X s"
    and keys: "\<And>n. sn_scope (f n) = sn_scope n \<and> sn_epoch (f n) = sn_epoch n \<and> sn_generation (f n) = sn_generation n"
    and led: "\<And>n. n \<in> set (catalog_snapshots s) \<Longrightarrow> P n \<Longrightarrow> ledger_ok X (pages_of s (sn_scope n)) (f n)"
  shows "catalog_inv X (s\<lparr> catalog_snapshots := sql_update P f (catalog_snapshots s) \<rparr>)"
proof -
  let ?s = "s\<lparr> catalog_snapshots := sql_update P f (catalog_snapshots s) \<rparr>"
  have d: "distinct (map sn_scope (catalog_snapshots ?s))"
    using inv_snapshots [OF inv] keys by (simp add: keys_sql_update)
  have pages: "pages_of ?s sc = pages_of s sc" for sc by (simp add: pages_of_def)
  have old: "\<exists>n0 \<in> set (catalog_snapshots s). n = (if P n0 then f n0 else n0)"
    if "n \<in> set (catalog_snapshots ?s)" for n
    using member_update [of n P f] that by auto
  have "ledger_ok X (pages_of ?s (sn_scope n)) n" if "n \<in> set (catalog_snapshots ?s)" for n
    using old [OF that] led keys inv_ledger [OF inv] by (auto simp: pages)
  moreover have "\<exists>c \<in> set (catalog_scopes s). pending_in n c" if "n \<in> set (catalog_snapshots ?s)" for n
    using old [OF that] keys inv_pending [OF inv] by (fastforce simp: pending_in_def)
  moreover have "\<exists>n \<in> set (catalog_snapshots ?s). belongs p n" if p: "p \<in> set (catalog_pages s)" for p
  proof -
    obtain n0 where n0: "n0 \<in> set (catalog_snapshots s)" "belongs p n0"
      using inv_belongs [OF inv p] by blast
    have "(if P n0 then f n0 else n0) \<in> set (catalog_snapshots ?s)"
      using n0 by (auto simp: set_sql_update)
    moreover have "belongs p (if P n0 then f n0 else n0)"
      using n0 keys by (simp add: belongs_def)
    ultimately show ?thesis by blast
  qed
  ultimately show ?thesis
    using d inv by (simp add: catalog_inv_def)
qed

lemma StageCatalogEnd_inv:
  assumes inv: "catalog_inv X s" and e: "StageCatalogEnd now clk s v m = Inr s'"
  shows "catalog_inv X s'"
  using e
proof (cases rule: StageCatalogEnd_cases)
  case (completed c)
  with inv show ?thesis by simp
next
  case (again n)
  then show ?thesis using AdmitCatalogGeneration_inv [OF inv] by blast
next
  case (fresh s1 n)
  have inv1: "catalog_inv X s1" by (rule AdmitCatalogGeneration_inv [OF inv fresh(1)])
  have n: "n \<in> set (catalog_snapshots s1)" "sn_scope n = i_scope v"
    using fresh(2) snapshot_of_Some [OF inv_snapshots [OF inv1]] by auto
  show ?thesis
    unfolding fresh(10)
  proof (rule catalog_inv_snapshots [OF inv1])
    fix k assume k: "k \<in> set (catalog_snapshots s1)" "sn_scope k = i_scope v"
    then have "k = n" using n snapshot_unique [OF inv1] by simp
    with k fresh inv_ledger [OF inv1 k(1)] show "ledger_ok X (pages_of s1 (sn_scope k)) (declare_end m k)"
      by (simp add: ledger_ok_def)
  qed simp
qed

lemma StageCatalogEnd_frame [catalog_frame]:
  assumes "StageCatalogEnd now clk s v m = Inr s'"
  shows "documents s' = documents s"
  using assms by (cases rule: StageCatalogEnd_cases) (auto dest: AdmitCatalogGeneration_frame)

section \<open>Verification and activation\<close>

lemma LoadVerified_Some:
  assumes "LoadVerifiedCatalogSnapshot X clk s v = Inr (Some m)"
  obtains c n where "scope_of s (i_scope v) = Some c" "cs_epoch c = i_epoch v"
    "cs_highest c = i_generation v" "cs_completed c \<noteq> i_generation v" "Identity_Validate v = Inr ()"
    "n \<in> set (catalog_snapshots s)" "sn_scope n = i_scope v" "sn_epoch n = i_epoch v"
    "sn_generation n = i_generation v" "sn_created_at n > clk - day" "declared n = Some m"
    "VerifySnapshot X m (map to_snapshot_page (sort_key pr_page_index (pages_at s v))) (sn_canonical_bytes n) = Inr ()"
proof -
  have v: "Identity_Validate v = Inr ()"
    using assms by (auto simp: LoadVerifiedCatalogSnapshot_def split: sum.split_asm)
  obtain c where c: "scope_of s (i_scope v) = Some c"
    using assms v by (auto simp: LoadVerifiedCatalogSnapshot_def split: option.split_asm)
  have g: "cs_epoch c = i_epoch v" "cs_completed c \<noteq> i_generation v" "cs_highest c = i_generation v"
    using assms v c by (auto simp: LoadVerifiedCatalogSnapshot_def split: if_split_asm)
  obtain n where n: "sql_get (\<lambda>n. sn_scope n = i_scope v \<and> sn_epoch n = i_epoch v
       \<and> sn_generation n = i_generation v) (catalog_snapshots s) = Some n"
    using assms v c g by (auto simp: LoadVerifiedCatalogSnapshot_def split: option.split_asm)
  have f: "sn_created_at n > clk - day"
    using assms v c g n by (auto simp: LoadVerifiedCatalogSnapshot_def split: if_split_asm)
  have "declared n = Some m"
    "VerifySnapshot X m (map to_snapshot_page (sort_key pr_page_index (pages_at s v))) (sn_canonical_bytes n) = Inr ()"
    using assms v c g n f
    by (auto simp: LoadVerifiedCatalogSnapshot_def declared_def Let_def
        split: option.split_asm if_split_asm sum.split_asm)
  with v c g n f that show thesis by (auto dest: sql_get_Some)
qed

lemma pages_at_pending:
  assumes inv: "catalog_inv X s" and "n \<in> set (catalog_snapshots s)" "sn_scope n = i_scope v"
    "sn_epoch n = i_epoch v" "sn_generation n = i_generation v"
  shows "pages_at s v = pages_of s (i_scope v)"
proof -
  have "pr_epoch p = i_epoch v \<and> pr_generation p = i_generation v"
    if "p \<in> set (catalog_pages s)" "pr_scope p = i_scope v" for p
    using page_belongs [OF inv assms(2), of p] that assms(3-5) by (simp add: pages_of_iff belongs_def)
  then show ?thesis by (auto simp: pages_at_def pages_of_def intro!: filter_cong)
qed

text \<open>A scope without a pending snapshot may be changed alone.\<close>

lemma catalog_inv_scopes:
  assumes inv: "catalog_inv X s"
    and keys: "\<And>c. cs_scope (f c) = cs_scope c"
    and ok: "\<And>c. c \<in> set (catalog_scopes s) \<Longrightarrow> P c \<Longrightarrow> scope_ok (f c)"
    and idle: "\<And>c n. c \<in> set (catalog_scopes s) \<Longrightarrow> P c \<Longrightarrow> n \<in> set (catalog_snapshots s) \<Longrightarrow> sn_scope n \<noteq> cs_scope c"
  shows "catalog_inv X (s\<lparr> catalog_scopes := sql_update P f (catalog_scopes s) \<rparr>)"
proof -
  have d: "distinct (map cs_scope (sql_update P f (catalog_scopes s)))"
    using inv_scopes [OF inv] keys by (simp add: keys_sql_update)
  have okall: "scope_ok c" if c: "c \<in> set (sql_update P f (catalog_scopes s))" for c
    using member_update [OF c] ok inv_scope_ok [OF inv] by auto
  have "\<exists>c \<in> set (sql_update P f (catalog_scopes s)). pending_in n c"
    if n: "n \<in> set (catalog_snapshots s)" for n
  proof -
    obtain c where c: "c \<in> set (catalog_scopes s)" "pending_in n c" using inv_pending [OF inv n] by blast
    then have "\<not> P c" using idle [of c n] n by (auto simp: pending_in_def)
    then have "c \<in> set (sql_update P f (catalog_scopes s))" by (rule kept_by_update [OF c(1)])
    then show ?thesis using c(2) by blast
  qed
  with d okall inv show ?thesis by (simp add: catalog_inv_def pages_of_def)
qed

lemma delete_snapshots_commute:
  "delete_snapshots P (s\<lparr> documents := ds, catalog_scopes := cs \<rparr>)
     = (delete_snapshots P s)\<lparr> documents := ds, catalog_scopes := cs \<rparr>"
  by (simp add: delete_snapshots_def Let_def)

definition publish :: "int \<Rightarrow> identity \<Rightarrow> manifest \<Rightarrow> scope_row \<Rightarrow> scope_row" where
  "publish now v m c = c\<lparr> cs_completed := i_generation v, cs_completed_at := Some now,
     cs_page_count := page_count m, cs_document_count := document_count m,
     cs_membership := Some (membership_sha256 m), cs_pages := Some (pages_sha256 m) \<rparr>"

lemma activate_Inr:
  assumes "activate now s v m rows = Inr s'"
  shows "s' = (delete_snapshots (\<lambda>n. sn_scope n = i_scope v \<and> sn_epoch n = i_epoch v
                   \<and> sn_generation n = i_generation v) s)
     \<lparr> documents := sql_update (\<lambda>d. d_kind d = ''local'' \<and> d_eligible d \<and> d_video_id d \<notin> d_video_id ` set rows)
         (orphan_row now) (project_all now rows (documents s)),
       catalog_scopes := sql_update (\<lambda>c. cs_scope c = i_scope v \<and> cs_epoch c = i_epoch v
           \<and> cs_highest c = i_generation v \<and> cs_completed c < i_generation v)
         (publish now v m) (catalog_scopes s) \<rparr>"
  using assms unfolding activate_def Let_def publish_def
  by (simp add: delete_snapshots_commute split: if_split_asm)

lemma activate_inv:
  assumes inv: "catalog_inv X s" and a: "activate now s v m rows = Inr s'"
    and v: "Identity_Validate v = Inr ()"
  shows "catalog_inv X s'"
proof -
  let ?P = "\<lambda>n. sn_scope n = i_scope v \<and> sn_epoch n = i_epoch v \<and> sn_generation n = i_generation v"
  let ?F = "\<lambda>c. cs_scope c = i_scope v \<and> cs_epoch c = i_epoch v
     \<and> cs_highest c = i_generation v \<and> cs_completed c < i_generation v"
  let ?s1 = "delete_snapshots ?P s"
  have i1: "catalog_inv X ?s1" by (rule delete_snapshots_inv [OF inv])
  have "catalog_inv X (?s1\<lparr> catalog_scopes := sql_update ?F (publish now v m) (catalog_scopes ?s1) \<rparr>)"
  proof (rule catalog_inv_scopes [OF i1])
    fix c n assume c: "c \<in> set (catalog_scopes ?s1)" "?F c" and n: "n \<in> set (catalog_snapshots ?s1)"
    obtain c' where c': "c' \<in> set (catalog_scopes s)" "pending_in n c'" using inv_pending [OF i1 n] by auto
    show "sn_scope n \<noteq> cs_scope c"
    proof
      assume e: "sn_scope n = cs_scope c"
      then have "c' = c" using c c' scope_unique [OF inv] by (auto simp: pending_in_def)
      moreover have "\<not> ?P n" using n by (simp add: set_sql_delete)
      ultimately show False using c(2) c'(2) by (auto simp: pending_in_def)
    qed
  qed (use v inv_scope_ok [OF i1] in \<open>auto simp: publish_def scope_ok_def Identity_Validate_Inr\<close>)
  moreover have "catalog_inv X s' = catalog_inv X (?s1\<lparr> catalog_scopes := sql_update ?F (publish now v m) (catalog_scopes ?s1) \<rparr>)"
    unfolding activate_Inr [OF a] by (rule catalog_inv_cong) simp_all
  ultimately show ?thesis by simp
qed

text \<open>What a completion went through.\<close>

lemma CompleteCatalogSnapshot_True:
  assumes "CompleteCatalogSnapshot X now clk s v = Inr (True, s')"
  obtains m ids rows where "LoadVerifiedCatalogSnapshot X clk s v = Inr (Some m)"
    "doc_ids X (concat (map (elements \<circ> pr_documents) (pages_at s v))) = Some ids"
    "\<forall>d \<in> set (concat (map (elements \<circ> pr_documents) (pages_at s v))). \<not> ineligible_doc d"
    "\<forall>d \<in> set (documents s). d_kind d = ''local'' \<or> Some (d_video_id d) \<notin> set ids"
    "map (incoming_row X now) (concat (map (elements \<circ> pr_documents) (pages_at s v))) = map Some rows"
    "activate now s v m rows = Inr s'"
proof -
  let ?inc = "concat (map (elements \<circ> pr_documents) (pages_at s v))"
  obtain m where m: "LoadVerifiedCatalogSnapshot X clk s v = Inr (Some m)"
    using assms by (auto simp: CompleteCatalogSnapshot_def split: sum.split_asm option.split_asm)
  obtain ids where ids: "doc_ids X ?inc = Some ids"
    using assms m by (auto simp: CompleteCatalogSnapshot_def Let_def split: option.split_asm)
  have ok: "\<forall>d \<in> set ?inc. \<not> ineligible_doc d"
    "\<forall>d \<in> set (documents s). d_kind d = ''local'' \<or> Some (d_video_id d) \<notin> set ids"
    and some: "None \<notin> set (map (incoming_row X now) ?inc)"
    using assms m ids by (auto simp: CompleteCatalogSnapshot_def Let_def split: if_split_asm)
  then have act: "activate now s v m (map the (map (incoming_row X now) ?inc)) = Inr s'"
    using assms m ids by (auto simp: CompleteCatalogSnapshot_def Let_def split: if_split_asm sum.split_asm)
  have "map Some (map the xs) = xs" if "None \<notin> set xs" for xs :: "document option list"
    using that by (simp add: o_def) (rule map_idI, metis option.collapse)
  then have "map (incoming_row X now) ?inc = map Some (map the (map (incoming_row X now) ?inc))"
    using some by presburger
  with m ids ok act that show thesis by blast
qed

lemma CompleteCatalogSnapshot_False:
  "CompleteCatalogSnapshot X now clk s v = Inr (False, s') \<Longrightarrow> s' = s"
  by (auto simp: CompleteCatalogSnapshot_def Let_def split: sum.split_asm option.split_asm if_split_asm)

lemma CompleteCatalogSnapshot_inv:
  assumes inv: "catalog_inv X s" and c: "CompleteCatalogSnapshot X now clk s v = Inr (b, s')"
  shows "catalog_inv X s'"
proof (cases b)
  case True
  with c have "CompleteCatalogSnapshot X now clk s v = Inr (True, s')" by simp
  then show ?thesis
  proof (rule CompleteCatalogSnapshot_True)
    fix m ids rows
    assume l: "LoadVerifiedCatalogSnapshot X clk s v = Inr (Some m)" and a: "activate now s v m rows = Inr s'"
    from l have "Identity_Validate v = Inr ()" by (rule LoadVerified_Some)
    then show ?thesis by (rule activate_inv [OF inv a])
  qed
next
  case False
  with c have "CompleteCatalogSnapshot X now clk s v = Inr (False, s')" by simp
  then have "s' = s" by (rule CompleteCatalogSnapshot_False)
  then show ?thesis using inv by simp
qed

lemma PruneCatalogSnapshots_inv: "catalog_inv X s \<Longrightarrow> catalog_inv X (snd (PruneCatalogSnapshots clk s))"
  by (simp add: PruneCatalogSnapshots_def Let_def delete_snapshots_inv)

end
