(* ===== verification/CatalogActivation.thy ===== *)
theory CatalogActivation
  imports CatalogInv
begin

text \<open>
  What an activation does to the live documents, stated on the lookup by video id: every
  member of the snapshot becomes a local, eligible document, every other local eligible
  document is hidden as an orphan, remote documents are not touched, and the counters of a
  document that already existed are kept.
\<close>

definition lookup :: "document list \<Rightarrow> uuid \<Rightarrow> document option" where
  "lookup docs u = sql_get (\<lambda>d. d_video_id d = u) docs"

lemma lookup_member:
  "distinct (map d_video_id docs) \<Longrightarrow> d \<in> set docs \<longleftrightarrow> lookup docs (d_video_id d) = Some d"
  by (simp add: lookup_def sql_get_member [of d_video_id])

lemma lookup_Some: "lookup docs u = Some d \<Longrightarrow> d \<in> set docs \<and> d_video_id d = u"
  unfolding lookup_def by (drule sql_get_Some)

lemma lookup_None: "lookup docs u = None \<longleftrightarrow> u \<notin> d_video_id ` set docs"
  by (force simp: lookup_def sql_get_None)

lemma refresh_row_id [simp]: "d_video_id (refresh_row new live) = d_video_id live"
  by (simp add: refresh_row_def)

lemma project_row_id [simp]: "d_video_id (project_row now new live) = d_video_id live"
  by (simp add: project_row_def)

lemma orphan_row_id [simp]: "d_video_id (orphan_row now d) = d_video_id d"
  by (simp add: orphan_row_def)

lemma distinct_project_all:
  "distinct (map d_video_id docs) \<Longrightarrow> distinct (map d_video_id (project_all now rows docs))"
  by (induction rows arbitrary: docs) (simp_all add: distinct_sql_upsert)

lemma lookup_upsert:
  "lookup (sql_upsert d_video_id r (project_row now r) docs) u =
     (if d_video_id r = u then Some (case lookup docs u of None \<Rightarrow> r | Some live \<Rightarrow> project_row now r live)
      else lookup docs u)"
  unfolding lookup_def by (subst sql_get_upsert) auto

lemma lookup_project_all:
  "distinct (map d_video_id rows) \<Longrightarrow>
   lookup (project_all now rows docs) u =
     (case lookup rows u of None \<Rightarrow> lookup docs u
      | Some r \<Rightarrow> Some (case lookup docs u of None \<Rightarrow> r | Some live \<Rightarrow> project_row now r live))"
proof (induction rows arbitrary: docs)
  case Nil
  then show ?case by (simp add: lookup_def sql_get_def)
next
  case (Cons r rows)
  let ?docs = "sql_upsert d_video_id r (project_row now r) docs"
  have cons: "lookup (r # rows) u = (if d_video_id r = u then Some r else lookup rows u)"
    by (simp add: lookup_def sql_get_def)
  have none: "d_video_id r = u \<Longrightarrow> lookup rows u = None"
    using Cons.prems by (auto simp: lookup_None)
  have "lookup (project_all now (r # rows) docs) u =
     (case lookup rows u of None \<Rightarrow> lookup ?docs u
      | Some r' \<Rightarrow> Some (case lookup ?docs u of None \<Rightarrow> r' | Some live \<Rightarrow> project_row now r' live))"
    using Cons by simp
  then show ?case using none by (cases "lookup rows u") (auto simp: lookup_upsert cons)
qed

text \<open>The whole effect of the two document statements on one id.\<close>

lemma lookup_activated:
  assumes a: "activate now s v m rows = Inr s'" and d: "distinct (map d_video_id rows)"
  shows "lookup (documents s') u =
     (case lookup rows u of
        Some r \<Rightarrow> Some (case lookup (documents s) u of None \<Rightarrow> r | Some live \<Rightarrow> project_row now r live)
      | None \<Rightarrow> map_option (\<lambda>live. if d_kind live = ''local'' \<and> d_eligible live then orphan_row now live else live)
                  (lookup (documents s) u))"
proof -
  let ?P = "\<lambda>d. d_kind d = ''local'' \<and> d_eligible d \<and> d_video_id d \<notin> d_video_id ` set rows"
  have "lookup (documents s') u
      = map_option (\<lambda>r. if ?P r then orphan_row now r else r) (lookup (project_all now rows (documents s)) u)"
    using activate_Inr [OF a] unfolding lookup_def by (simp add: sql_get_update)
  also have "\<dots> = map_option (\<lambda>r. if d_kind r = ''local'' \<and> d_eligible r \<and> lookup rows u = None
        then orphan_row now r else r) (lookup (project_all now rows (documents s)) u)"
  proof (cases "lookup (project_all now rows (documents s)) u")
    case (Some x)
    then have "d_video_id x = u" by (simp add: lookup_Some)
    with Some show ?thesis by (simp add: lookup_None)
  qed simp
  also have "\<dots> = (case lookup rows u of
        Some r \<Rightarrow> Some (case lookup (documents s) u of None \<Rightarrow> r | Some live \<Rightarrow> project_row now r live)
      | None \<Rightarrow> map_option (\<lambda>live. if d_kind live = ''local'' \<and> d_eligible live then orphan_row now live else live)
                  (lookup (documents s) u))"
    by (simp add: lookup_project_all [OF d] split: option.splits)
  finally show ?thesis .
qed

lemma refresh_row_view [simp]:
  "d_eligible (refresh_row r live)" "d_kind (refresh_row r live) = d_kind live"
  "d_views (refresh_row r live) = d_views live" "d_likes (refresh_row r live) = d_likes live"
  by (simp_all add: refresh_row_def)

lemma project_row_local:
  assumes "d_kind live = ''local''"
  shows "d_kind (project_row now r live) = ''local'' \<and> d_eligible (project_row now r live)"
proof -
  have "d_eligible live" if "refresh_row r live = live"
    using arg_cong [OF that, of d_eligible] by simp
  with assms show ?thesis by (auto simp: project_row_def)
qed

lemma project_row_counters [simp]:
  "d_views (project_row now r live) = d_views live" "d_likes (project_row now r live) = d_likes live"
  by (simp_all add: project_row_def)

section \<open>Exactness\<close>

lemma incoming_row_Some:
  assumes "incoming_row X now d = Some r"
  shows "sql_uuid X (jfield_text ''id'' (doc_video d)) = Some (Some (d_video_id r))
    \<and> d_kind r = ''local'' \<and> d_eligible r \<and> d_suppressed_reason r = None"
  using assms unfolding incoming_row_def Let_def by (auto split: option.splits)

lemma incoming_rows_ids:
  assumes "map (incoming_row X now) ds = map Some rows" "doc_ids X ds = Some (map Some ids)"
  shows "map d_video_id rows = ids"
proof -
  have "map (\<lambda>d. sql_uuid X (jfield_text ''id'' (doc_video d))) ds = map (Some \<circ> Some \<circ> d_video_id) rows"
    using assms(1) incoming_row_Some by (auto simp: list_eq_iff_nth_eq)
  then have "map (Some \<circ> Some) (map d_video_id rows) = map (Some \<circ> Some) ids"
    using assms(2) by (simp add: doc_ids_Some comp_assoc)
  moreover have "inj (Some \<circ> Some :: uuid \<Rightarrow> uuid option option)" by (simp add: inj_def)
  ultimately show ?thesis using map_injective by blast
qed

definition pending_ids :: "ext \<Rightarrow> db \<Rightarrow> string \<Rightarrow> uuid list" where
  "pending_ids X s scope = concat (map (row_ids X) (pages_of s scope))"

text \<open>The parts of a completed activation, on the invariant.\<close>

lemma completed_parts:
  assumes X: "ext_ok X" and inv: "catalog_inv X s"
    and c: "CompleteCatalogSnapshot X now clk s v = Inr (True, s')"
  obtains m rows n where "activate now s v m rows = Inr s'"
    "map d_video_id rows = pending_ids X s (i_scope v)" "distinct (map d_video_id rows)"
    "\<forall>r \<in> set rows. d_kind r = ''local'' \<and> d_eligible r"
    "\<forall>d \<in> set (documents s). d_kind d = ''local'' \<or> d_video_id d \<notin> d_video_id ` set rows"
    "n \<in> set (catalog_snapshots s)" "sn_scope n = i_scope v" "sn_generation n = i_generation v"
    "declared n = Some m" "LoadVerifiedCatalogSnapshot X clk s v = Inr (Some m)"
  using c
proof (rule CompleteCatalogSnapshot_True)
  let ?inc = "concat (map (elements \<circ> pr_documents) (pages_at s v))"
  fix m ids rows
  assume l: "LoadVerifiedCatalogSnapshot X clk s v = Inr (Some m)" and ids: "doc_ids X ?inc = Some ids"
    and foreign: "\<forall>d \<in> set (documents s). d_kind d = ''local'' \<or> Some (d_video_id d) \<notin> set ids"
    and rows: "map (incoming_row X now) ?inc = map Some rows" and a: "activate now s v m rows = Inr s'"
  obtain n where n: "n \<in> set (catalog_snapshots s)" "sn_scope n = i_scope v" "sn_epoch n = i_epoch v"
    "sn_generation n = i_generation v" "declared n = Some m"
    by (rule LoadVerified_Some [OF l])
  have at: "pages_at s v = pages_of s (i_scope v)" by (rule pages_at_pending [OF inv n(1-4)])
  have ok: "\<forall>p \<in> set (pages_of s (i_scope v)). row_ok X p" using inv_row [OF inv] by (simp add: pages_of_iff)
  have ids': "ids = map Some (pending_ids X s (i_scope v))"
    using ids rows_doc_ids [OF X ok] by (simp add: at pending_ids_def)
  have r: "map d_video_id rows = pending_ids X s (i_scope v)"
    using incoming_rows_ids [OF rows] ids ids' by simp
  have "distinct (pending_ids X s (i_scope v))"
    using inv_ledger [OF inv n(1)] n(2) by (simp add: ledger_ok_def pending_ids_def)
  then have d: "distinct (map d_video_id rows)" by (simp add: r)
  have loc: "\<forall>r \<in> set rows. d_kind r = ''local'' \<and> d_eligible r"
  proof
    fix x assume "x \<in> set rows"
    then have "Some x \<in> set (map (incoming_row X now) ?inc)" by (simp add: rows)
    then obtain d where "incoming_row X now d = Some x" by auto
    then show "d_kind x = ''local'' \<and> d_eligible x" using incoming_row_Some by blast
  qed
  have f: "\<forall>d \<in> set (documents s). d_kind d = ''local'' \<or> d_video_id d \<notin> d_video_id ` set rows"
    using foreign arg_cong [OF r, of set] by (auto simp: ids' image_iff)
  show thesis by (rule that [OF a r d loc f n(1,2,4,5) l])
qed

text \<open>C1. Completing a snapshot makes the searchable local catalogue exactly the membership that
  was staged: after it, a video id is served as a local eligible document if and only if the
  pending pages declared it. Remote documents are left as they were, and a document that
  already existed keeps its view and like counters.\<close>

theorem activation_exact:
  assumes "ext_ok X" and "catalog_inv X s" and "distinct (map d_video_id (documents s))"
    and "CompleteCatalogSnapshot X now clk s v = Inr (True, s')"
  shows "(\<forall>u. (\<exists>d. lookup (documents s') u = Some d \<and> d_kind d = ''local'' \<and> d_eligible d)
            \<longleftrightarrow> u \<in> set (pending_ids X s (i_scope v)))
    \<and> (\<forall>u d. lookup (documents s) u = Some d \<longrightarrow> d_kind d \<noteq> ''local'' \<longrightarrow> lookup (documents s') u = Some d)
    \<and> (\<forall>u d. lookup (documents s) u = Some d \<longrightarrow>
         (\<exists>d'. lookup (documents s') u = Some d' \<and> d_views d' = d_views d \<and> d_likes d' = d_likes d))"
proof -
  obtain m rows where p: "activate now s v m rows = Inr s'"
    "map d_video_id rows = pending_ids X s (i_scope v)" "distinct (map d_video_id rows)"
    "\<forall>r \<in> set rows. d_kind r = ''local'' \<and> d_eligible r"
    "\<forall>d \<in> set (documents s). d_kind d = ''local'' \<or> d_video_id d \<notin> d_video_id ` set rows"
    by (rule completed_parts [OF assms(1,2,4)])
  note L = lookup_activated [OF p(1,3)]
  have rows: "u \<in> set (pending_ids X s (i_scope v)) \<longleftrightarrow> lookup rows u \<noteq> None" for u
    using arg_cong [OF p(2), of set] by (auto simp: lookup_None)
  have live: "d_kind d = ''local''" if "lookup (documents s) u = Some d" "lookup rows u = Some r" for u d r
  proof -
    have "u \<in> d_video_id ` set rows" using that(2) lookup_None [of rows u] by auto
    then show ?thesis using p(5) lookup_Some [OF that(1)] by auto
  qed
  have one: "(\<exists>d. lookup (documents s') u = Some d \<and> d_kind d = ''local'' \<and> d_eligible d)
      \<longleftrightarrow> lookup rows u \<noteq> None" for u
    using L p(4) live
    by (cases "lookup rows u"; cases "lookup (documents s) u")
      (auto simp: orphan_row_def project_row_local dest: lookup_Some)
  have two: "lookup (documents s') u = Some d" if "lookup (documents s) u = Some d" "d_kind d \<noteq> ''local''" for u d
    using L that live by (cases "lookup rows u") auto
  have three: "\<exists>d'. lookup (documents s') u = Some d' \<and> d_views d' = d_views d \<and> d_likes d' = d_likes d"
    if "lookup (documents s) u = Some d" for u d
    using L that by (cases "lookup rows u") (auto simp: orphan_row_def)
  show ?thesis using one two three rows by blast
qed

section \<open>A completed snapshot\<close>

text \<open>A document in canonical form, the database with its one page and the declared end
  pending, and what completing it makes.\<close>

definition sample_video :: json where
  "sample_video = JObj [(''description'', JStr ''d''), (''id'', JStr ''7''), (''is_sensitive'', JBool False),
     (''kind'', JStr ''local''), (''likes'', JNum ''2''), (''privacy'', JStr ''public''),
     (''state'', JStr ''published''), (''title'', JStr ''t''), (''updated_at'', JStr ''2024-01-02T03:04:05Z''),
     (''views'', JNum ''9'')]"

definition sample_doc :: json where
  "sample_doc = JObj [(''eligible'', JBool True), (''suppressed_reason'', JNull), (''video'', sample_video)]"

definition sample_identity :: identity where
  "sample_identity = \<lparr> i_scope = ScopeLocal, i_epoch = 5, i_generation = 1 \<rparr>"

definition sample_row :: page_row where
  "sample_row = \<lparr> pr_scope = ScopeLocal, pr_epoch = 5, pr_generation = 1, pr_page_index = 0,
     pr_documents = JArr [sample_doc], pr_document_count = 1,
     pr_content_sha256 = sha256_hex (marshal (JArr [sample_doc])) \<rparr>"

definition sample_snapshot :: snapshot_row where
  "sample_snapshot = declare_end (sample_manifest (JArr [sample_doc]))
     \<lparr> sn_scope = ScopeLocal, sn_epoch = 5, sn_generation = 1, sn_created_at = 1000, sn_page_count = None,
       sn_document_count = None, sn_membership = None, sn_pages = None,
       sn_canonical_bytes = row_bytes sample_row \<rparr>"

definition sample_scope :: scope_row where
  "sample_scope = (new_scope ScopeLocal 5)\<lparr> cs_highest := 1 \<rparr>"

definition sample_pending :: db where
  "sample_pending = empty_db
     \<lparr> catalog_epochs := [\<lparr> ce_scope = ScopeLocal, ce_epoch = 5, ce_predecessor = None \<rparr>],
       catalog_scopes := [sample_scope], catalog_snapshots := [sample_snapshot], catalog_pages := [sample_row] \<rparr>"

lemma sample_doc_canon: "canon sample_doc = sample_doc"
proof -
  have "sorted [''description'', ''id'', ''is_sensitive'', ''kind'', ''likes'', ''privacy'', ''state'',
      ''title'', ''updated_at'', ''views'']" "sorted [''eligible'', ''suppressed_reason'', ''video'']"
    by code_simp+
  then show ?thesis
    by (simp add: sample_doc_def sample_video_def last_members_fixed del: sorted_simps)
qed

lemma sample_doc_members: "member_ids sample_ext (canon (JArr [sample_doc])) = Some [7]"
proof -
  have "member_ids sample_ext (JArr [sample_doc]) = Some [7]" by code_simp
  then show ?thesis by (simp add: sample_doc_canon)
qed

lemma sample_doc_bytes: "row_bytes sample_row \<le> MaxSnapshotBytes"
proof -
  have "int (length (marshal (JArr [sample_doc]))) \<le> MaxSnapshotBytes" by code_simp
  then show ?thesis by (simp add: row_bytes_def page_bytes_def to_snapshot_page_def sample_row_def)
qed

lemma sample_row_page: "to_snapshot_page sample_row = sample_page (JArr [sample_doc])"
  by (simp add: to_snapshot_page_def sample_row_def sample_page_def)

lemma sample_row_ids: "row_ids sample_ext sample_row = [7]"
  using sample_doc_members
  by (simp add: row_ids_def sample_row_page page_ids_def sample_page_def del: canon.simps)

lemma sample_verifies: "VerifySnapshot sample_ext (sample_manifest (JArr [sample_doc]))
    [to_snapshot_page sample_row] (row_bytes sample_row) = Inr ()"
  using sample_verified_page [OF sample_doc_members] sample_doc_bytes
  by (simp add: sample_row_page row_bytes_def)

lemma sample_wire: "wire_docs sample_ext [sample_doc] [7]"
proof -
  have "plain sample_doc" "uuid_string sample_ext 7 = ''7''" by code_simp+
  then show ?thesis
    by (simp add: wire_docs_def wire_doc_def) (simp add: sample_doc_def sample_video_def document_keys_def
        video_keys_def video_optional_def)
qed

lemma sample_pending_inv: "catalog_inv sample_ext sample_pending"
proof -
  have c: "JArr [sample_doc] = canon (JArr [sample_doc])" by (simp add: sample_doc_canon)
  have row: "row_ok sample_ext sample_row"
    unfolding row_ok_def
    by (intro conjI exI [of _ "[sample_doc]"] exI [of _ "[7]"])
      (simp_all add: sample_row_def MaxPages_def sample_wire sample_doc_canon)
  have pages: "pages_of sample_pending ScopeLocal = [sample_row]"
    by (simp add: pages_of_def sample_pending_def sample_row_def)
  have led: "ledger_ok sample_ext [sample_row] sample_snapshot"
    using sample_doc_bytes
    by (simp add: ledger_ok_def sample_row_ids sample_snapshot_def sample_manifest_ok)
      (simp add: sample_row_def MaxPages_def MaxDocuments_def sample_manifest_def)
  have scope: "scope_ok sample_scope" by (simp add: scope_ok_def sample_scope_def new_scope_def)
  have pend: "pending_in sample_snapshot sample_scope"
    by (simp add: pending_in_def sample_snapshot_def sample_scope_def new_scope_def)
  have bel: "belongs sample_row sample_snapshot"
    by (simp add: belongs_def sample_row_def sample_snapshot_def)
  have "sn_scope sample_snapshot = ScopeLocal" by (simp add: sample_snapshot_def)
  then show ?thesis
    using row pages led scope pend bel
    by (simp add: catalog_inv_def) (simp add: sample_pending_def)
qed

lemma sample_loaded:
  "LoadVerifiedCatalogSnapshot sample_ext 2000 sample_pending sample_identity
     = Inr (Some (sample_manifest (JArr [sample_doc])))"
proof -
  let ?m = "sample_manifest (JArr [sample_doc])"
  have at: "pages_at sample_pending sample_identity = [sample_row]"
    by (simp add: pages_at_def sample_pending_def sample_identity_def sample_row_def)
  have sc: "scope_of sample_pending ScopeLocal = Some sample_scope"
    by (simp add: scope_of_def sample_pending_def sql_get_def sample_scope_def new_scope_def)
  have sn: "sql_get (\<lambda>n. sn_scope n = ScopeLocal \<and> sn_epoch n = 5 \<and> sn_generation n = 1)
      (catalog_snapshots sample_pending) = Some sample_snapshot"
    by (simp add: sample_pending_def sql_get_def sample_snapshot_def)
  have d: "sn_page_count sample_snapshot = Some (page_count ?m)" "sn_document_count sample_snapshot = Some (document_count ?m)"
    "sn_membership sample_snapshot = Some (membership_sha256 ?m)" "sn_pages sample_snapshot = Some (pages_sha256 ?m)"
    "sn_canonical_bytes sample_snapshot = row_bytes sample_row" "sn_created_at sample_snapshot = 1000"
    by (simp_all add: sample_snapshot_def declare_end_def)
  have pc: "page_count ?m = 1" by (simp add: sample_manifest_def)
  have m: "\<lparr> page_count = 1, document_count = document_count ?m,
      membership_sha256 = membership_sha256 ?m, pages_sha256 = pages_sha256 ?m \<rparr> = ?m"
    by (simp add: sample_manifest_def)
  have id: "i_scope sample_identity = ScopeLocal" "i_epoch sample_identity = 5" "i_generation sample_identity = 1"
    "Identity_Validate sample_identity = Inr ()"
    by (simp_all add: sample_identity_def Identity_Validate_Inr)
  show ?thesis
    unfolding LoadVerifiedCatalogSnapshot_def id
    using sample_verifies
    by (simp add: sc sn d at m Let_def sample_scope_def new_scope_def day_def hours_def nanos_def pc)
qed

lemma sample_incoming:
  "\<exists>r. incoming_row sample_ext 3000 sample_doc = Some r \<and> d_video_id r = 7"
proof -
  have "map_option d_video_id (incoming_row sample_ext 3000 sample_doc) = Some 7" by code_simp
  then show ?thesis by auto
qed

lemma sample_completes: "\<exists>s'. CompleteCatalogSnapshot sample_ext 3000 2000 sample_pending sample_identity = Inr (True, s')"
proof -
  obtain r where r: "incoming_row sample_ext 3000 sample_doc = Some r" using sample_incoming by blast
  have at: "pages_at sample_pending sample_identity = [sample_row]"
    by (simp add: pages_at_def sample_pending_def sample_identity_def sample_row_def)
  have inc: "concat (map (elements \<circ> pr_documents) [sample_row]) = [sample_doc]"
    by (simp add: elements_def sample_row_def)
  have ids: "doc_ids sample_ext [sample_doc] = Some [Some 7]" by code_simp
  have elig: "\<not> ineligible_doc sample_doc" by code_simp
  have docs: "documents sample_pending = []" by (simp add: sample_pending_def empty_db_def)
  have "filter (\<lambda>c. cs_scope c = i_scope sample_identity \<and> cs_epoch c = i_epoch sample_identity
      \<and> cs_highest c = i_generation sample_identity \<and> cs_completed c < i_generation sample_identity)
      (catalog_scopes sample_pending) = [sample_scope]"
    by (simp add: sample_pending_def sample_scope_def new_scope_def sample_identity_def)
  then obtain s' where a: "activate 3000 sample_pending sample_identity (sample_manifest (JArr [sample_doc])) [r] = Inr s'"
    unfolding activate_def Let_def by simp
  show ?thesis
    unfolding CompleteCatalogSnapshot_def sample_loaded
    by (simp only: sum.case option.case Let_def at inc ids docs) (simp add: r elig a)
qed

definition sample_completed :: db where
  "sample_completed = (case CompleteCatalogSnapshot sample_ext 3000 2000 sample_pending sample_identity of
     Inr (b, s) \<Rightarrow> s | Inl e \<Rightarrow> sample_pending)"

lemma sample_completed_ok:
  "CompleteCatalogSnapshot sample_ext 3000 2000 sample_pending sample_identity = Inr (True, sample_completed)"
  using sample_completes by (auto simp: sample_completed_def)

text \<open>The one member becomes searchable, with nothing else.\<close>

lemma activation_exact_witness:
  "(\<exists>d. lookup (documents sample_completed) 7 = Some d \<and> d_kind d = ''local'' \<and> d_eligible d)
   \<and> \<not> (\<exists>d. lookup (documents sample_completed) 8 = Some d \<and> d_kind d = ''local'' \<and> d_eligible d)"
proof -
  have "distinct (map d_video_id (documents sample_pending))" by (simp add: sample_pending_def empty_db_def)
  note exact = activation_exact [OF ext_ok_sample sample_pending_inv this sample_completed_ok]
  have "pending_ids sample_ext sample_pending ScopeLocal = [7]"
    using sample_row_ids by (simp add: pending_ids_def pages_of_def sample_pending_def)
      (simp add: sample_row_def)
  then have "set (pending_ids sample_ext sample_pending (i_scope sample_identity)) = {7}"
    by (simp add: sample_identity_def)
  with exact show ?thesis by simp
qed

end
