(* ===== verification/CatalogEvents.thy ===== *)
theory CatalogEvents
  imports CatalogActivation
begin

text \<open>
  \<open>internal/event/catalog_service.go\<close>: the ingestion of full catalogue observations. Each
  event runs in its own savepoint: it parses, stages, tries to complete, and is rolled back
  as a whole when any step fails; the batch commits once at the end.

  The contract both ingestion loops of the service share is the locale \<open>savepoint_batch\<close>.
\<close>

section \<open>Batches of savepoints\<close>

text \<open>
  \<open>one i ev s\<close> applies the \<open>i\<close>-th event and reports an outcome; \<open>kept\<close> tells the outcomes whose
  writes stay. \<open>loop\<close> is the loop over the batch.
\<close>

locale savepoint_batch =
  fixes one :: "nat \<Rightarrow> 'ev \<Rightarrow> 's \<Rightarrow> 'o \<times> 's"
    and kept :: "'o \<Rightarrow> bool"
    and inv :: "'s \<Rightarrow> bool"
    and loop :: "nat \<Rightarrow> 'ev list \<Rightarrow> 's \<Rightarrow> 'o list \<times> 's"
  assumes rollback: "\<not> kept (fst (one i ev s)) \<Longrightarrow> snd (one i ev s) = s"
    and preserves: "inv s \<Longrightarrow> inv (snd (one i ev s))"
    and loop_Nil: "loop i [] s = ([], s)"
    and loop_Cons: "loop i (ev # evs) s =
      (let (r, s1) = one i ev s; (rs, s2) = loop (Suc i) evs s1 in (r # rs, s2))"
begin

lemma loop_step:
  "loop i (ev # evs) s = (fst (one i ev s) # fst (loop (Suc i) evs (snd (one i ev s))),
     snd (loop (Suc i) evs (snd (one i ev s))))"
  by (simp add: loop_Cons split_beta Let_def)

lemma outcome_per_event: "length (fst (loop i evs s)) = length evs"
  by (induction evs arbitrary: i s) (simp_all add: loop_Nil loop_step)

lemma loop_preserves: "inv s \<Longrightarrow> inv (snd (loop i evs s))"
proof (induction evs arbitrary: i s)
  case (Cons ev evs)
  have "inv (snd (one i ev s))" using Cons.prems by (rule preserves)
  then have "inv (snd (loop (Suc i) evs (snd (one i ev s))))" by (rule Cons.IH)
  then show ?case by (simp add: loop_step)
qed (simp add: loop_Nil)

lemma nothing_kept: "\<forall>r \<in> set (fst (loop i evs s)). \<not> kept r \<Longrightarrow> snd (loop i evs s) = s"
proof (induction evs arbitrary: i s)
  case (Cons ev evs)
  then have "\<not> kept (fst (one i ev s))" by (simp add: loop_step)
  then have same: "snd (one i ev s) = s" by (rule rollback)
  have "\<forall>r \<in> set (fst (loop (Suc i) evs s)). \<not> kept r" using Cons.prems by (simp add: loop_step same)
  then have "snd (loop (Suc i) evs s) = s" by (rule Cons.IH)
  then show ?case by (simp only: loop_step same snd_conv)
qed (simp add: loop_Nil)

lemma loop_append:
  "loop i (xs @ ys) s =
     (fst (loop i xs s) @ fst (loop (i + length xs) ys (snd (loop i xs s))),
      snd (loop (i + length xs) ys (snd (loop i xs s))))"
  by (induction xs arbitrary: i s) (simp_all add: loop_Nil loop_step)

text \<open>A relation every event establishes, and that composes, holds across the batch.\<close>

lemma loop_relates:
  assumes "\<And>i ev s. inv s \<Longrightarrow> R s (snd (one i ev s))" and "\<And>s. R s s"
    and "\<And>a b c. R a b \<Longrightarrow> R b c \<Longrightarrow> inv b \<Longrightarrow> inv c \<Longrightarrow> R a c"
  shows "inv s \<Longrightarrow> R s (snd (loop i evs s))"
proof (induction evs arbitrary: i s)
  case (Cons ev evs)
  have i1: "inv (snd (one i ev s))" using Cons.prems by (rule preserves)
  have "R s (snd (one i ev s))" using Cons.prems by (rule assms(1))
  moreover have "R (snd (one i ev s)) (snd (loop (Suc i) evs (snd (one i ev s))))"
    using i1 by (rule Cons.IH)
  ultimately show ?case using i1 loop_preserves [OF i1] assms(3) by (simp add: loop_step)
qed (simp add: loop_Nil assms(2))

text \<open>An event that is not kept leaves no trace: the rest of the batch runs as if it were
  absent (its position still counts for the clock).\<close>

lemma isolated:
  "\<not> kept (fst (one i ev s)) \<Longrightarrow> snd (loop i (ev # evs) s) = snd (loop (Suc i) evs s)
     \<and> fst (loop i (ev # evs) s) = fst (one i ev s) # fst (loop (Suc i) evs s)"
  by (simp add: loop_step rollback)

end

section \<open>Results\<close>

text \<open>The outcome of one event, and the \<open>Result\<close> the loop accumulates. The message of a failure
  is the text of the error and is not modelled; its code is.\<close>

datatype outcome = Accepted | Duplicate | Failed string

record failure =
  f_event_id :: uuid
  f_code :: string

record result =
  r_accepted :: int
  r_duplicates :: int
  r_failed :: "failure list"

definition empty_result :: result where
  "empty_result = \<lparr> r_accepted = 0, r_duplicates = 0, r_failed = [] \<rparr>"

definition add_outcome :: "result \<Rightarrow> envelope \<times> outcome \<Rightarrow> result" where
  "add_outcome res x = (case snd x of
     Accepted \<Rightarrow> res\<lparr> r_accepted := r_accepted res + 1 \<rparr>
   | Duplicate \<Rightarrow> res\<lparr> r_duplicates := r_duplicates res + 1 \<rparr>
   | Failed code \<Rightarrow> res\<lparr> r_failed := r_failed res @ [\<lparr> f_event_id = ev_event_id (fst x), f_code = code \<rparr>] \<rparr>)"

definition collect_result :: "envelope list \<Rightarrow> outcome list \<Rightarrow> result" where
  "collect_result evs rs = foldl add_outcome empty_result (zip evs rs)"

lemma add_outcome_total:
  "r_accepted (add_outcome res x) + r_duplicates (add_outcome res x) + int (length (r_failed (add_outcome res x)))
     = r_accepted res + r_duplicates res + int (length (r_failed res)) + 1"
  by (simp add: add_outcome_def split: outcome.split)

lemma collect_result_total:
  assumes "length rs = length evs"
  shows "r_accepted (collect_result evs rs) + r_duplicates (collect_result evs rs)
     + int (length (r_failed (collect_result evs rs))) = int (length evs)"
proof -
  have "r_accepted (foldl add_outcome res xs) + r_duplicates (foldl add_outcome res xs)
      + int (length (r_failed (foldl add_outcome res xs)))
    = r_accepted res + r_duplicates res + int (length (r_failed res)) + int (length xs)" for res xs
  proof (induction xs arbitrary: res)
    case (Cons x xs)
    then show ?case using add_outcome_total [of res x] by simp
  qed simp
  from this [of empty_result "zip evs rs"] assms show ?thesis
    by (simp add: collect_result_def empty_result_def)
qed

section \<open>One catalogue event\<close>

definition TypeSnapshotPage :: string where "TypeSnapshotPage = ''catalog.snapshot.page''"

definition TypeSnapshotEnd :: string where "TypeSnapshotEnd = ''catalog.snapshot.end''"

text \<open>\<open>applyCatalogOne\<close>: a payload that is absent does not parse.\<close>

definition stage_event :: "ext \<Rightarrow> int \<Rightarrow> int \<Rightarrow> db \<Rightarrow> envelope \<Rightarrow> store_error + (identity \<times> db)" where
  "stage_event X now clk s ev =
     (if ev_type ev = TypeSnapshotPage then
        (case Option.bind (ev_payload ev) (parseCatalogPage X (ev_payload_len ev)) of
           None \<Rightarrow> Inl CatalogInvalid
         | Some page \<Rightarrow>
             (case StageCatalogPage X now clk s (p_identity page) (p_digest page) (p_canonical page) of
                Inl e \<Rightarrow> Inl e | Inr s' \<Rightarrow> Inr (p_identity page, s')))
      else if ev_type ev = TypeSnapshotEnd then
        (case Option.bind (ev_payload ev) (parseCatalogEnd X) of
           None \<Rightarrow> Inl CatalogInvalid
         | Some en \<Rightarrow>
             (case StageCatalogEnd now clk s (e_identity en) (e_manifest en) of
                Inl e \<Rightarrow> Inl e | Inr s' \<Rightarrow> Inr (e_identity en, s')))
      else Inl CatalogInvalid)"

definition applyCatalogOne :: "ext \<Rightarrow> int \<Rightarrow> int \<Rightarrow> envelope \<Rightarrow> db \<Rightarrow> store_error + db" where
  "applyCatalogOne X now clk ev s =
     (if ev_event_id ev = 0 \<or> ev_schema_version ev \<noteq> 2 \<or> ev_occurred_at ev = zero_time then Inl CatalogInvalid
      else case stage_event X now clk s ev of
        Inl e \<Rightarrow> Inl e
      | Inr (v, s1) \<Rightarrow>
          (case CompleteCatalogSnapshot X now clk s1 v of
             Inl e \<Rightarrow> Inl e | Inr (done_, s2) \<Rightarrow> Inr s2))"

definition catalog_code :: "store_error \<Rightarrow> string" where
  "catalog_code e = (case e of
     CatalogAlreadyCompleted \<Rightarrow> ''catalog_already_completed''
   | CatalogQuota \<Rightarrow> ''catalog_quota''
   | CatalogConflict \<Rightarrow> ''catalog_conflict''
   | _ \<Rightarrow> ''catalog_invalid'')"

definition catalog_one :: "ext \<Rightarrow> int \<Rightarrow> (nat \<Rightarrow> int) \<Rightarrow> nat \<Rightarrow> envelope \<Rightarrow> db \<Rightarrow> outcome \<times> db" where
  "catalog_one X now clk i ev s = (case applyCatalogOne X now (clk i) ev s of
     Inl e \<Rightarrow> (Failed (catalog_code e), s) | Inr s' \<Rightarrow> (Accepted, s'))"

fun catalog_loop :: "ext \<Rightarrow> int \<Rightarrow> (nat \<Rightarrow> int) \<Rightarrow> nat \<Rightarrow> envelope list \<Rightarrow> db \<Rightarrow> outcome list \<times> db" where
  "catalog_loop X now clk i [] s = ([], s)"
| "catalog_loop X now clk i (ev # evs) s =
     (let (r, s1) = catalog_one X now clk i ev s; (rs, s2) = catalog_loop X now clk (Suc i) evs s1
      in (r # rs, s2))"

text \<open>
  \<open>IngestCatalog\<close>; \<open>tx\<close> tells whether the transaction begins and takes the lock, and whether it
  commits. \<open>None\<close> is the error the call returns; nothing is written then.
\<close>

definition IngestCatalog ::
  "ext \<Rightarrow> bool \<times> bool \<Rightarrow> int \<Rightarrow> (nat \<Rightarrow> int) \<Rightarrow> envelope list \<Rightarrow> db \<Rightarrow> result option \<times> db" where
  "IngestCatalog X tx now clk evs s =
     (if evs = [] \<or> int (length evs) > MaxBatch \<or> \<not> fst tx then (None, s)
      else (let (rs, s') = catalog_loop X now clk 0 evs s
            in if snd tx then (Some (collect_result evs rs), s') else (None, s)))"

section \<open>The loop keeps the invariant\<close>

lemma stage_event_cases:
  assumes st: "stage_event X now clk s ev = Inr (v, s')"
  obtains (page) page where "ev_type ev = TypeSnapshotPage" "p_identity page = v"
      "Option.bind (ev_payload ev) (parseCatalogPage X (ev_payload_len ev)) = Some page"
      "StageCatalogPage X now clk s (p_identity page) (p_digest page) (p_canonical page) = Inr s'"
  | (ending) en where "ev_type ev = TypeSnapshotEnd" "e_identity en = v"
      "Option.bind (ev_payload ev) (parseCatalogEnd X) = Some en"
      "StageCatalogEnd now clk s (e_identity en) (e_manifest en) = Inr s'"
proof (cases "ev_type ev = TypeSnapshotPage")
  case True
  then show thesis
    using st page by (simp add: stage_event_def split: option.split_asm sum.split_asm)
next
  case False
  then show thesis
    using st that(2) by (simp add: stage_event_def split: if_split_asm option.split_asm sum.split_asm)
qed

lemma stage_event_inv:
  assumes X: "ext_ok X" and inv: "catalog_inv X s" and st: "stage_event X now clk s ev = Inr (v, s')"
  shows "catalog_inv X s'"
proof (rule stage_event_cases [OF st])
  fix page
  assume pg: "Option.bind (ev_payload ev) (parseCatalogPage X (ev_payload_len ev)) = Some page"
    and sp: "StageCatalogPage X now clk s (p_identity page) (p_digest page) (p_canonical page) = Inr s'"
  from pg obtain j where "parseCatalogPage X (ev_payload_len ev) j = Some page"
    by (auto simp: bind_eq_Some_conv)
  then show ?thesis
  proof (rule parseCatalogPage_wire)
    fix raws
    assume "wire_docs X raws (map (v_id \<circ> cd_video) (p_documents page))" "p_canonical page = canon (JArr raws)"
    then show ?thesis using StageCatalogPage_inv [OF X inv] sp by metis
  qed
next
  fix en
  assume "StageCatalogEnd now clk s (e_identity en) (e_manifest en) = Inr s'"
  then show ?thesis by (rule StageCatalogEnd_inv [OF inv])
qed

lemma applyCatalogOne_inv:
  assumes X: "ext_ok X" and inv: "catalog_inv X s" and a: "applyCatalogOne X now clk ev s = Inr s'"
  shows "catalog_inv X s'"
proof -
  obtain v s1 b where "stage_event X now clk s ev = Inr (v, s1)"
    "CompleteCatalogSnapshot X now clk s1 v = Inr (b, s')"
    using a by (auto simp: applyCatalogOne_def split: if_split_asm sum.split_asm)
  then show ?thesis using stage_event_inv [OF X inv] CompleteCatalogSnapshot_inv by blast
qed

lemma catalog_one_inv:
  "ext_ok X \<Longrightarrow> catalog_inv X s \<Longrightarrow> catalog_inv X (snd (catalog_one X now clk i ev s))"
  by (auto simp: catalog_one_def applyCatalogOne_inv split: sum.split)

end
