(* ===== verification/CatalogMachine.thy ===== *)
theory CatalogMachine
  imports CatalogEvents
begin

text \<open>
  The catalog receiver as a state machine: the epoch compare-and-swap, the batch ingestion and
  the retention sweep are its steps, each one a transaction under the advisory lock. The
  properties here speak of every reachable state and of any run of steps: authority only
  moves forward, an epoch that was left never returns, and a read that sees the same fence
  before and after its queries saw one catalogue.
\<close>

section \<open>Authority\<close>

definition epochs_of :: "db \<Rightarrow> uuid list" where
  "epochs_of s = map ce_epoch (filter (\<lambda>r. ce_scope r = ScopeLocal) (catalog_epochs s))"

definition authority :: "db \<Rightarrow> scope_row option" where
  "authority s = scope_of s ScopeLocal"

text \<open>The pair of identity headers a consistent read pins.\<close>

definition fence_of :: "db \<Rightarrow> (uuid \<times> int) option" where
  "fence_of s = map_option (\<lambda>c. (cs_epoch c, cs_completed c)) (authority s)"

definition history_ok :: "db \<Rightarrow> bool" where
  "history_ok s \<longleftrightarrow> distinct (epochs_of s)
     \<and> (case authority s of None \<Rightarrow> epochs_of s = []
        | Some c \<Rightarrow> epochs_of s \<noteq> [] \<and> last (epochs_of s) = cs_epoch c)"

definition within_epoch :: "scope_row \<Rightarrow> scope_row \<Rightarrow> bool" where
  "within_epoch c c' \<longleftrightarrow> cs_epoch c' = cs_epoch c \<and> cs_highest c \<le> cs_highest c' \<and> cs_completed c \<le> cs_completed c'"

definition advances :: "db \<Rightarrow> db \<Rightarrow> bool" where
  "advances s s' \<longleftrightarrow>
     (\<exists>es. epochs_of s' = epochs_of s @ es)
     \<and> (\<forall>c. authority s = Some c \<longrightarrow>
          (\<exists>c'. authority s' = Some c' \<and> (epochs_of s' = epochs_of s \<longrightarrow> within_epoch c c')))
     \<and> (epochs_of s' = epochs_of s \<longrightarrow> fence_of s' = fence_of s \<longrightarrow> documents s' = documents s)"

lemma within_epoch_refl [simp]: "within_epoch c c"
  by (simp add: within_epoch_def)

lemma within_epoch_trans: "within_epoch a b \<Longrightarrow> within_epoch b c \<Longrightarrow> within_epoch a c"
  by (simp add: within_epoch_def)

lemma advances_refl [simp]: "advances s s"
  by (simp add: advances_def)

lemma history_empty: "history_ok empty_db"
  by (simp add: history_ok_def empty_db_def authority_def epochs_of_def scope_of_def sql_get_def)

lemma fence_same:
  "within_epoch a b \<Longrightarrow> within_epoch b c \<Longrightarrow> cs_completed c = cs_completed a \<Longrightarrow> cs_completed b = cs_completed a"
  by (simp add: within_epoch_def)

text \<open>An authority that is present stays, and while the epoch history stands still it moves within its epoch.\<close>

lemma advances_within:
  "advances s s' \<Longrightarrow> authority s = Some c \<Longrightarrow> epochs_of s' = epochs_of s \<Longrightarrow>
   \<exists>c'. authority s' = Some c' \<and> within_epoch c c'"
  by (simp add: advances_def)

lemma epochs_grow: "advances s s' \<Longrightarrow> \<exists>es. epochs_of s' = epochs_of s @ es"
  by (simp add: advances_def)

lemma epochs_between:
  assumes "advances s t" "advances t s'" "epochs_of s' = epochs_of s"
  shows "epochs_of t = epochs_of s"
proof -
  obtain es es' where "epochs_of t = epochs_of s @ es" "epochs_of s' = epochs_of t @ es'"
    using epochs_grow [OF assms(1)] epochs_grow [OF assms(2)] by blast
  then show ?thesis using assms(3) by (metis append.assoc append_self_conv append_is_Nil_conv)
qed

lemma fence_between:
  assumes st: "advances s t" and ts: "advances t s'" and e: "epochs_of s' = epochs_of s"
    and f: "fence_of s' = fence_of s" and h: "history_ok t" "history_ok s'"
  shows "fence_of t = fence_of s"
proof -
  have et: "epochs_of t = epochs_of s" by (rule epochs_between [OF st ts e])
  show ?thesis
  proof (cases "authority s")
    case None
    then have "authority s' = None" using f by (simp add: fence_of_def)
    then have "epochs_of t = []" using h e et by (simp add: history_ok_def)
    then have "authority t = None" using h by (auto simp: history_ok_def split: option.splits)
    then show ?thesis using None by (simp add: fence_of_def)
  next
    case (Some c)
    obtain b where b: "authority t = Some b" "within_epoch c b"
      using advances_within [OF st Some et] by blast
    obtain a where a: "authority s' = Some a" "within_epoch b a"
      using advances_within [OF ts b(1)] e et by auto
    have "cs_completed a = cs_completed c" using f Some a by (simp add: fence_of_def)
    then have "cs_completed b = cs_completed c" using fence_same [OF b(2) a(2)] by simp
    then show ?thesis using Some b by (simp add: fence_of_def within_epoch_def)
  qed
qed

lemma advances_trans:
  assumes st: "advances s t" and ts: "advances t s'" and h: "history_ok t" "history_ok s'"
  shows "advances s s'"
proof -
  have 1: "\<exists>es. epochs_of s' = epochs_of s @ es"
    using epochs_grow [OF st] epochs_grow [OF ts] by force
  have 2: "\<exists>c'. authority s' = Some c' \<and> (epochs_of s' = epochs_of s \<longrightarrow> within_epoch c c')"
    if c: "authority s = Some c" for c
  proof -
    obtain b where "authority t = Some b" using st c by (auto simp: advances_def)
    then obtain a where a: "authority s' = Some a" using ts by (auto simp: advances_def)
    have "within_epoch c a" if e: "epochs_of s' = epochs_of s"
    proof -
      have et: "epochs_of t = epochs_of s" by (rule epochs_between [OF st ts e])
      obtain b where "authority t = Some b" "within_epoch c b" using advances_within [OF st c et] by blast
      then show ?thesis using advances_within [OF ts] e et a within_epoch_trans by fastforce
    qed
    with a show ?thesis by blast
  qed
  have 3: "documents s' = documents s" if e: "epochs_of s' = epochs_of s" and f: "fence_of s' = fence_of s"
  proof -
    have "epochs_of t = epochs_of s" by (rule epochs_between [OF st ts e])
    moreover have "fence_of t = fence_of s" by (rule fence_between [OF st ts e f h])
    ultimately show ?thesis using st ts e f by (simp add: advances_def)
  qed
  show ?thesis unfolding advances_def using 1 2 3 by blast
qed

text \<open>The epoch in force is the last of the history; equal fences mean equal histories.\<close>

lemma same_epoch_same_history:
  assumes a: "advances s s'" and h: "history_ok s" "history_ok s'" and f: "fence_of s' = fence_of s"
  shows "epochs_of s' = epochs_of s"
proof -
  obtain es where es: "epochs_of s' = epochs_of s @ es" using a by (auto simp: advances_def)
  show ?thesis
  proof (cases "authority s")
    case None
    then have "authority s' = None" using f by (simp add: fence_of_def)
    then show ?thesis using None h by (simp add: history_ok_def)
  next
    case (Some c)
    then obtain c' where c': "authority s' = Some c'" "cs_epoch c' = cs_epoch c"
      using f by (auto simp: fence_of_def)
    have l: "last (epochs_of s') = last (epochs_of s)" "epochs_of s \<noteq> []" "distinct (epochs_of s')"
      using h Some c' by (simp_all add: history_ok_def)
    then have "last (epochs_of s) \<in> set (epochs_of s)" by simp
    then have "es = []" using l es by (metis IntI disjoint_iff distinct_append last_append last_in_set)
    then show ?thesis using es by simp
  qed
qed

section \<open>Every operation moves forward\<close>

lemma unchanged:
  assumes "catalog_scopes s' = catalog_scopes s" "catalog_epochs s' = catalog_epochs s" "documents s' = documents s"
  shows "advances s s'" and "history_ok s' = history_ok s"
proof -
  have e: "epochs_of s' = epochs_of s" "authority s' = authority s"
    using assms by (simp_all add: authority_def epochs_of_def scope_of_def)
  show "advances s s'" using assms(3) by (simp add: advances_def e)
  show "history_ok s' = history_ok s" by (simp add: history_ok_def e split: option.split)
qed

lemma reset_epoch_moves:
  assumes h: "history_ok s" and r: "reset_epoch s ScopeLocal epoch expected = Inr s'"
  shows "advances s s' \<and> history_ok s'"
proof -
  let ?sc = "sql_upsert cs_scope (new_scope ScopeLocal epoch) (\<lambda>r. new_scope (cs_scope r) epoch) (catalog_scopes s)"
  have fresh: "epoch \<notin> set (epochs_of s)"
    using r by (auto simp: reset_epoch_def epochs_of_def split: if_split_asm)
  have e: "catalog_epochs s' = catalog_epochs s @ [\<lparr> ce_scope = ScopeLocal, ce_epoch = epoch, ce_predecessor = expected \<rparr>]"
    and c: "catalog_scopes s' = ?sc"
    using r by (auto simp: reset_epoch_def Let_def split: if_split_asm option.split_asm)
  have es: "epochs_of s' = epochs_of s @ [epoch]" by (simp add: epochs_of_def e)
  have "authority s' = Some (new_scope ScopeLocal epoch)"
    unfolding authority_def scope_of_def c
    by (subst sql_get_upsert) (auto split: option.split dest: sql_get_Some)
  then show ?thesis
    using h fresh by (auto simp: advances_def history_ok_def es new_scope_def)
qed

lemma SetCatalogEpoch_moves:
  assumes h: "history_ok s" and a: "SetCatalogEpoch s scope epoch expected = Inr s'"
  shows "advances s s' \<and> history_ok s'"
proof -
  have "scope = ScopeLocal \<and> (s' = s \<or> reset_epoch s scope epoch expected = Inr s')"
    using a by (auto simp: SetCatalogEpoch_def split: if_split_asm option.split_asm)
  then show ?thesis using reset_epoch_moves [OF h] h by auto
qed

text \<open>A change of the authority row alone.\<close>

lemma authority_update:
  assumes h: "history_ok s" and e: "catalog_epochs s' = catalog_epochs s"
    and c: "catalog_scopes s' = sql_update P f (catalog_scopes s)"
    and keys: "\<And>c. cs_scope (f c) = cs_scope c"
    and mono: "\<And>c. authority s = Some c \<Longrightarrow> P c \<Longrightarrow> within_epoch c (f c)"
    and docs: "documents s' = documents s \<or> fence_of s' \<noteq> fence_of s"
  shows "advances s s' \<and> history_ok s'"
proof -
  have es: "epochs_of s' = epochs_of s" by (simp add: epochs_of_def e)
  have au: "authority s' = map_option (\<lambda>c. if P c then f c else c) (authority s)"
    unfolding authority_def scope_of_def c using keys by (rule sql_get_update)
  have "history_ok s'"
  proof (cases "authority s")
    case (Some c)
    then have "cs_epoch (if P c then f c else c) = cs_epoch c"
      using mono by (simp add: within_epoch_def)
    with Some h show ?thesis by (simp add: history_ok_def es au)
  qed (use h in \<open>simp add: history_ok_def es au\<close>)
  moreover have "\<exists>c'. authority s' = Some c' \<and> within_epoch c c'" if "authority s = Some c" for c
    using that mono by (auto simp: au)
  ultimately show ?thesis using docs by (auto simp: advances_def es)
qed

lemma AdmitCatalogGeneration_moves:
  assumes h: "history_ok s" and a: "AdmitCatalogGeneration now clk s v = Inr s'"
  shows "advances s s' \<and> history_ok s'"
  using a
proof (cases rule: AdmitCatalogGeneration_cases)
  case again
  then show ?thesis using h by simp
next
  case (newer c)
  show ?thesis
  proof (rule authority_update [OF h])
    fix k assume k: "authority s = Some k" "cs_scope k = i_scope v"
    then have "i_scope v = ScopeLocal" using sql_get_Some by (fastforce simp: authority_def scope_of_def)
    then have "k = c" using newer(1) k(1) by (simp add: authority_def)
    then show "within_epoch k (k\<lparr> cs_highest := i_generation v \<rparr>)"
      using newer(3) by (simp add: within_epoch_def)
  qed (simp_all add: newer(5))
qed

lemma stage_moves:
  assumes h: "history_ok s" and st: "stage_event X now clk s ev = Inr (v, s')"
  shows "advances s s' \<and> history_ok s'"
proof -
  have page: ?thesis if "StageCatalogPage X now clk s u pd docs = Inr s'" for u pd docs
    using that
  proof (cases rule: StageCatalogPage_cases)
    case replay
    then show ?thesis using AdmitCatalogGeneration_moves [OF h] by blast
  next
    case (fresh s1 stored ids)
    have "catalog_scopes s' = catalog_scopes s1" "catalog_epochs s' = catalog_epochs s1" "documents s' = documents s1"
      using insert_page_Inr [OF fresh(4)] by auto
    note u = unchanged [OF this]
    have m: "advances s s1 \<and> history_ok s1" by (rule AdmitCatalogGeneration_moves [OF h fresh(1)])
    then show ?thesis using u advances_trans by blast
  qed
  have fin: ?thesis if "StageCatalogEnd now clk s u m = Inr s'" for u m
    using that
  proof (cases rule: StageCatalogEnd_cases)
    case (fresh s1 n)
    have "catalog_scopes s' = catalog_scopes s1" "catalog_epochs s' = catalog_epochs s1" "documents s' = documents s1"
      by (simp_all add: fresh(10))
    note u = unchanged [OF this]
    have m: "advances s s1 \<and> history_ok s1" by (rule AdmitCatalogGeneration_moves [OF h fresh(1)])
    then show ?thesis using u advances_trans by blast
  qed (use h AdmitCatalogGeneration_moves [OF h] in auto)
  show ?thesis using page fin by (rule stage_event_cases [OF st])
qed

lemma Complete_moves:
  assumes inv: "catalog_inv X s" and h: "history_ok s"
    and c: "CompleteCatalogSnapshot X now clk s v = Inr (b, s')"
  shows "advances s s' \<and> history_ok s'"
proof (cases b)
  case False
  with c CompleteCatalogSnapshot_False [of X now clk s v s'] h show ?thesis by auto
next
  case True
  with c have "CompleteCatalogSnapshot X now clk s v = Inr (True, s')" by simp
  then show ?thesis
  proof (rule CompleteCatalogSnapshot_True)
    fix m ids rows
    assume l: "LoadVerifiedCatalogSnapshot X clk s v = Inr (Some m)" and a: "activate now s v m rows = Inr s'"
    let ?P = "\<lambda>c. cs_scope c = i_scope v \<and> cs_epoch c = i_epoch v
           \<and> cs_highest c = i_generation v \<and> cs_completed c < i_generation v"
    obtain c where c: "scope_of s (i_scope v) = Some c" "cs_epoch c = i_epoch v"
      "cs_highest c = i_generation v" "cs_completed c \<noteq> i_generation v" "Identity_Validate v = Inr ()"
      by (rule LoadVerified_Some [OF l])
    have loc: "i_scope v = ScopeLocal" using c(5) by (simp add: Identity_Validate_Inr)
    have au: "authority s = Some c" using c(1) loc by (simp add: authority_def)
    have "c \<in> set (catalog_scopes s)" using c(1) by (auto simp: scope_of_def dest: sql_get_Some)
    then have "cs_completed c \<le> cs_highest c" using inv_scope_ok [OF inv] by (auto simp: scope_ok_def)
    then have P: "?P c" using c loc by (auto simp: scope_of_def dest: sql_get_Some)
    have au': "authority s' = Some (publish now v m c)"
    proof -
      have "authority s' = map_option (\<lambda>c. if ?P c then publish now v m c else c) (authority s)"
        unfolding authority_def scope_of_def activate_Inr [OF a]
        by (simp del: db.surjective, rule sql_get_update) (simp add: publish_def)
      then show ?thesis using au P by simp
    qed
    show ?thesis
    proof (rule authority_update [OF h])
      show "catalog_epochs s' = catalog_epochs s" by (simp add: activate_Inr [OF a])
      show "catalog_scopes s' = sql_update ?P (publish now v m) (catalog_scopes s)"
        by (simp add: activate_Inr [OF a])
      show "documents s' = documents s \<or> fence_of s' \<noteq> fence_of s"
        using P by (simp add: fence_of_def au au' publish_def)
    next
      fix k assume "authority s = Some k" "?P k"
      then show "within_epoch k (publish now v m k)" by (simp add: within_epoch_def publish_def)
    qed (simp add: publish_def)
  qed
qed

section \<open>Batches\<close>

definition catalog_kept :: "outcome \<Rightarrow> bool" where
  "catalog_kept r = (case r of Failed code \<Rightarrow> False | _ \<Rightarrow> True)"

definition receiver_ok :: "ext \<Rightarrow> db \<Rightarrow> bool" where
  "receiver_ok X s \<longleftrightarrow> catalog_inv X s \<and> history_ok s"

lemma catalog_one_moves:
  assumes X: "ext_ok X" and ok: "receiver_ok X s"
  shows "receiver_ok X (snd (catalog_one X now clk i ev s)) \<and> advances s (snd (catalog_one X now clk i ev s))"
proof (cases "applyCatalogOne X now (clk i) ev s")
  case (Inl e)
  then show ?thesis using ok by (simp add: catalog_one_def)
next
  case (Inr s')
  obtain v s1 b where st: "stage_event X now (clk i) s ev = Inr (v, s1)"
    and c: "CompleteCatalogSnapshot X now (clk i) s1 v = Inr (b, s')"
    using Inr by (auto simp: applyCatalogOne_def split: if_split_asm sum.split_asm)
  have inv: "catalog_inv X s" "history_ok s" using ok by (simp_all add: receiver_ok_def)
  have i1: "catalog_inv X s1" by (rule stage_event_inv [OF X inv(1) st])
  have m1: "advances s s1 \<and> history_ok s1" by (rule stage_moves [OF inv(2) st])
  have m2: "advances s1 s' \<and> history_ok s'" using Complete_moves [OF i1 _ c] m1 by blast
  have "advances s s'" using m1 m2 advances_trans by blast
  with m2 CompleteCatalogSnapshot_inv [OF i1 c] show ?thesis
    by (simp add: catalog_one_def Inr receiver_ok_def)
qed

interpretation catalog_batch: savepoint_batch "catalog_one X now clk" catalog_kept
    "\<lambda>s. ext_ok X \<longrightarrow> receiver_ok X s" "catalog_loop X now clk" for X now clk
proof
  fix i ev s
  show "snd (catalog_one X now clk i ev s) = s" if "\<not> catalog_kept (fst (catalog_one X now clk i ev s))"
    using that by (auto simp: catalog_one_def catalog_kept_def split: sum.split_asm)
  show "ext_ok X \<longrightarrow> receiver_ok X (snd (catalog_one X now clk i ev s))" if "ext_ok X \<longrightarrow> receiver_ok X s"
    using that catalog_one_moves by blast
qed (simp_all add: Let_def split_beta)

lemma catalog_loop_moves:
  assumes X: "ext_ok X" and ok: "receiver_ok X s"
  shows "receiver_ok X (snd (catalog_loop X now clk i evs s)) \<and> advances s (snd (catalog_loop X now clk i evs s))"
proof
  show "receiver_ok X (snd (catalog_loop X now clk i evs s))"
    using catalog_batch.loop_preserves [of X s] X ok by blast
  show "advances s (snd (catalog_loop X now clk i evs s))"
  proof (rule catalog_batch.loop_relates [of X advances])
    show "advances s (snd (catalog_one X now clk i ev s))" if "ext_ok X \<longrightarrow> receiver_ok X s" for i ev s
      using that X catalog_one_moves by blast
    show "advances a c" if "advances a b" "advances b c" "ext_ok X \<longrightarrow> receiver_ok X b"
        "ext_ok X \<longrightarrow> receiver_ok X c" for a b c
      using that X advances_trans by (auto simp: receiver_ok_def)
  qed (use ok in auto)
qed

section \<open>The machine\<close>

inductive catalog_step :: "ext \<Rightarrow> db \<Rightarrow> db \<Rightarrow> bool" for X where
  set_epoch: "SetCatalogEpoch s scope epoch expected = Inr s' \<Longrightarrow> catalog_step X s s'"
| ingest: "IngestCatalog X tx now clk evs s = (res, s') \<Longrightarrow> catalog_step X s s'"
| prune: "PruneCatalogSnapshots clk s = (n, s') \<Longrightarrow> catalog_step X s s'"

inductive_cases catalog_stepE: "catalog_step X s s'"

abbreviation catalog_run :: "ext \<Rightarrow> db \<Rightarrow> db \<Rightarrow> bool" where
  "catalog_run X \<equiv> (catalog_step X)\<^sup>*\<^sup>*"

lemma catalog_step_moves:
  assumes X: "ext_ok X" and ok: "receiver_ok X s" and st: "catalog_step X s s'"
  shows "receiver_ok X s' \<and> advances s s'"
  using st
proof cases
  case (set_epoch scope epoch expected)
  then show ?thesis
    using ok SetCatalogEpoch_inv SetCatalogEpoch_moves by (auto simp: receiver_ok_def)
next
  case (ingest tx now clk evs res)
  have "s' = s \<or> s' = snd (catalog_loop X now clk 0 evs s)"
    using ingest by (auto simp: IngestCatalog_def Let_def split_beta split: if_split_asm)
  then show ?thesis using catalog_loop_moves [OF X ok] ok by auto
next
  case (prune clk n)
  then have s': "s' = delete_snapshots (\<lambda>n. sn_created_at n \<le> clk - day) s"
    by (simp add: PruneCatalogSnapshots_def Let_def)
  have "catalog_scopes s' = catalog_scopes s" "catalog_epochs s' = catalog_epochs s" "documents s' = documents s"
    by (simp_all add: s')
  then show ?thesis
    using unchanged [of s' s] ok delete_snapshots_inv by (auto simp: receiver_ok_def s')
qed

lemma catalog_run_moves:
  assumes X: "ext_ok X" and run: "catalog_run X s s'" and ok: "receiver_ok X s"
  shows "receiver_ok X s' \<and> advances s s'"
  using run
proof (induction rule: rtranclp_induct)
  case base
  then show ?case using ok by simp
next
  case (step t s')
  then have m: "receiver_ok X s' \<and> advances t s'" using catalog_step_moves [OF X] by blast
  then show ?case using step.IH advances_trans [of s t s'] by (auto simp: receiver_ok_def)
qed

lemma receiver_empty: "receiver_ok X empty_db"
  by (simp add: receiver_ok_def catalog_inv_empty history_empty)

end
