(* ===== verification/Http.thy ===== *)
theory Http
  imports Schema
begin

text \<open>
  \<open>internal/api\<close>, the parts every route passes through: the error envelope (\<open>errors.go\<close>), the
  HMAC authentication of internal calls (\<open>auth.go\<close>), the correlation id (\<open>correlation.go\<close>),
  readiness and draining (\<open>health.go\<close>) and the query helpers of \<open>handlers.go\<close>. A handler
  returns \<open>Inl\<close> an error for the central error handler, or \<open>Inr\<close> its result. Logging and
  metrics are left out.
\<close>

section \<open>Errors\<close>

record field_error =
  fe_field :: string
  fe_message :: string

text \<open>\<open>HTTPError\<close> is \<open>*echo.HTTPError\<close> with its message; \<open>Deadline\<close> wraps
  \<open>context.DeadlineExceeded\<close>.\<close>

datatype api_error =
    ValidationError "field_error list"
  | HTTPError int "string option"
  | Deadline
  | OtherError

definition newValidation :: "string \<Rightarrow> string \<Rightarrow> api_error" where
  "newValidation field message = ValidationError [\<lparr> fe_field = field, fe_message = message \<rparr>]"

record error_body =
  eb_status :: int
  eb_code :: string
  eb_message :: string
  eb_request_id :: string
  eb_fields :: "field_error list"

definition codeForStatus :: "int \<Rightarrow> string" where
  "codeForStatus status =
     (if status = 400 then ''bad_request''
      else if status = 401 then ''unauthorized''
      else if status = 403 then ''forbidden''
      else if status = 404 then ''not_found''
      else if status = 405 then ''method_not_allowed''
      else if status = 409 then ''conflict''
      else if status = 413 then ''request_entity_too_large''
      else if status = 422 then ''unprocessable_entity''
      else if status = 429 then ''rate_limited''
      else if status = 503 then ''service_unavailable''
      else if status = 501 then ''not_implemented''
      else if status = 500 then ''internal_error''
      else if status \<ge> 500 then ''server_error''
      else if status \<ge> 400 then ''client_error''
      else ''error'')"

definition unexpected :: string where
  "unexpected = ''an unexpected error occurred''"

text \<open>\<open>httpErrorHandler\<close>: \<open>None\<close> when the response is already committed.\<close>

definition httpErrorHandler :: "bool \<Rightarrow> string \<Rightarrow> api_error \<Rightarrow> error_body option" where
  "httpErrorHandler committed reqID err =
     (if committed then None
      else let (status, message, code, flds) = (case err of
          ValidationError fs \<Rightarrow> (422, ''validation failed'', ''unprocessable_entity'', fs)
        | HTTPError c m \<Rightarrow> (c, case m of Some t \<Rightarrow> t | None \<Rightarrow> unexpected,
            if c = 501 then ''not_implemented'' else [], [])
        | Deadline \<Rightarrow> (503, ''the request timed out'', ''request_timeout'', [])
        | OtherError \<Rightarrow> (500, unexpected, [], []));
        message = (if status \<ge> 500 \<and> code = [] then unexpected else message);
        code = (if code = [] then codeForStatus status else code)
      in Some \<lparr> eb_status = status, eb_code = code, eb_message = message, eb_request_id = reqID,
                eb_fields = flds \<rparr>)"

section \<open>Query helpers\<close>

definition qInt :: "string \<Rightarrow> int" where
  "qInt v = (if v = [] then 0 else case ParseInt v of Some n \<Rightarrow> n | None \<Rightarrow> 0)"

definition ParseBool :: "string \<Rightarrow> bool option" where
  "ParseBool s =
     (if s \<in> {''1'', ''t'', ''T'', ''true'', ''TRUE'', ''True''} then Some True
      else if s \<in> {''0'', ''f'', ''F'', ''false'', ''FALSE'', ''False''} then Some False else None)"

definition qBool :: "string \<Rightarrow> bool" where
  "qBool v = (case ParseBool v of Some b \<Rightarrow> b | None \<Rightarrow> False)"

definition pathUUID :: "ext \<Rightarrow> string \<Rightarrow> string \<Rightarrow> api_error + uuid" where
  "pathUUID X name v = (case uuid_parse X v of
     Some u \<Rightarrow> Inr u | None \<Rightarrow> Inl (newValidation name ''must be a valid UUID''))"

definition queryUUID :: "ext \<Rightarrow> string \<Rightarrow> string \<Rightarrow> api_error + uuid" where
  "queryUUID X name v = (case uuid_parse X v of
     Some u \<Rightarrow> Inr u | None \<Rightarrow> Inl (newValidation name ''must be a valid UUID''))"

lemma qInt_in_int64: "in_int64 (qInt v)"
proof -
  have "in_int64 i" if "ParseInt v = Some i" for i
    using that by (auto simp: ParseInt_def Let_def split: option.split_asm if_split_asm prod.split_asm)
  then show ?thesis by (simp add: qInt_def in_int64_def split: option.split)
qed

section \<open>Correlation ids\<close>

definition maxCorrelationIDLen :: nat where
  "maxCorrelationIDLen = 128"

definition token_char :: "char \<Rightarrow> bool" where
  "token_char c \<longleftrightarrow> (let n = of_char c :: nat in
     97 \<le> n \<and> n \<le> 122 \<or> 65 \<le> n \<and> n \<le> 90 \<or> 48 \<le> n \<and> n \<le> 57
     \<or> c = CHR ''-'' \<or> c = CHR ''_'' \<or> c = CHR ''.'')"

text \<open>The bytes of a rune outside ASCII are all above 127, so dropping the rune is dropping them.\<close>

definition sanitizeCorrelationID :: "string \<Rightarrow> string" where
  "sanitizeCorrelationID s = filter token_char (take maxCorrelationIDLen s)"

text \<open>The middleware: the id it puts on the response and into the context.\<close>

definition correlationID :: "string \<Rightarrow> string \<Rightarrow> string" where
  "correlationID requestID inbound =
     (let cid = sanitizeCorrelationID inbound in if cid = [] then requestID else cid)"

section \<open>Authentication\<close>

definition internalAuthSkew :: int where
  "internalAuthSkew = 120 * nanos"

definition InternalSignature :: "string \<Rightarrow> int \<Rightarrow> string \<Rightarrow> string \<Rightarrow> string" where
  "InternalSignature secret ts method path =
     EncodeToString (hmac_sha256 secret (FormatInt ts @ [CHR 0x0A] @ method @ [CHR 0x0A] @ path))"

definition BuildInternalAuthHeader :: "string \<Rightarrow> int \<Rightarrow> string \<Rightarrow> string \<Rightarrow> string" where
  "BuildInternalAuthHeader secret ts method path =
     ''v1:'' @ FormatInt ts @ '':'' @ InternalSignature secret ts method path"

text \<open>\<open>strings.SplitN(s, ":", n)\<close> for positive \<open>n\<close>.\<close>

fun SplitN :: "char \<Rightarrow> string \<Rightarrow> nat \<Rightarrow> string list" where
  "SplitN c s 0 = []"
| "SplitN c s (Suc 0) = [s]"
| "SplitN c s (Suc (Suc n)) =
     (if c \<in> set s
      then takeWhile (\<lambda>x. x \<noteq> c) s # SplitN c (tl (dropWhile (\<lambda>x. x \<noteq> c) s)) (Suc n)
      else [s])"

text \<open>\<open>time.Unix(ts, 0)\<close>: the seconds are kept as an offset from the year 1 in an \<open>int64\<close>.\<close>

definition unixToInternal :: int where
  "unixToInternal = 62135596800"

definition time_Unix :: "int \<Rightarrow> int" where
  "time_Unix ts = (int64 (ts + unixToInternal) - unixToInternal) * nanos"

text \<open>The skew of a time stamp; \<open>-skew\<close> is the negation of an \<open>int64\<close>.\<close>

definition skew_of :: "int \<Rightarrow> int \<Rightarrow> int" where
  "skew_of now ts =
     (let skew = time_Sub now (time_Unix ts) in if skew < 0 then int64 (- skew) else skew)"

text \<open>\<open>internalAuth\<close>: True when the request goes on to its handler, False for the 401.\<close>

definition internalAuth :: "string \<Rightarrow> int \<Rightarrow> string \<Rightarrow> string \<Rightarrow> string \<Rightarrow> bool" where
  "internalAuth secret now method path raw =
     (if raw = [] then False
      else (case SplitN (CHR '':'') raw 3 of
          [v, t, sig] \<Rightarrow>
            if v \<noteq> ''v1'' then False
            else (case ParseInt t of
                None \<Rightarrow> False
              | Some ts \<Rightarrow>
                  if skew_of now ts > internalAuthSkew then False
                  else sig = InternalSignature secret ts method path)
        | _ \<Rightarrow> False))"

section \<open>Readiness\<close>

text \<open>A dependency: not configured, answering, or down.\<close>

datatype component = NotConfigured | Up | Down

record snap =
  rd_status :: string
  rd_postgres :: component
  rd_redis :: component
  rd_code :: int
  rd_at :: int

record server =
  draining :: bool
  readinessCached :: "snap option"

definition readinessCacheTTL :: int where
  "readinessCacheTTL = 2 * nanos"

definition check_component :: "bool option \<Rightarrow> component" where
  "check_component p = (case p of None \<Rightarrow> NotConfigured | Some ok \<Rightarrow> if ok then Up else Down)"

definition componentHealth :: "bool option \<Rightarrow> bool option \<Rightarrow> (component \<times> component) \<times> bool" where
  "componentHealth db rdb =
     ((check_component db, check_component rdb), check_component db \<noteq> Down \<and> check_component rdb \<noteq> Down)"

definition anyComponentDown :: "component \<times> component \<Rightarrow> bool" where
  "anyComponentDown cs = (fst cs = Down \<or> snd cs = Down)"

definition readiness :: "int \<Rightarrow> bool option \<Rightarrow> bool option \<Rightarrow> server \<Rightarrow> snap \<times> server" where
  "readiness now db rdb s =
     (let fresh = (let cs = fst (componentHealth db rdb);
            (st, code) = (if fst cs = Down then (''unavailable'', 503)
                          else if anyComponentDown cs then (''degraded'', 200) else (''ok'', 200));
            sp = \<lparr> rd_status = st, rd_postgres = fst cs, rd_redis = snd cs, rd_code = code, rd_at = now \<rparr>
          in (sp, s\<lparr> readinessCached := Some sp \<rparr>))
      in case readinessCached s of
           Some cached \<Rightarrow> if time_Sub now (rd_at cached) < readinessCacheTTL then (cached, s) else fresh
         | None \<Rightarrow> fresh)"

text \<open>The code and status text of \<open>GET /readyz\<close>.\<close>

definition handleReady :: "int \<Rightarrow> bool option \<Rightarrow> bool option \<Rightarrow> server \<Rightarrow> (int \<times> string) \<times> server" where
  "handleReady now db rdb s =
     (if draining s then ((503, ''draining''), s)
      else (let (sp, s') = readiness now db rdb s in ((rd_code sp, rd_status sp), s')))"

definition Drain :: "server \<Rightarrow> server" where
  "Drain s = s\<lparr> draining := True \<rparr>"

section \<open>Correlation: what is echoed\<close>

text \<open>The correlation id that is echoed into a header and into the log is at most 128 bytes of
  URL-safe token characters whatever was sent; an id that already is one passes unchanged, and
  sanitising twice changes nothing.\<close>

theorem correlation_id_safe:
  "list_all token_char (sanitizeCorrelationID s) \<and> length (sanitizeCorrelationID s) \<le> 128
   \<and> (sanitizeCorrelationID s = s \<longleftrightarrow> list_all token_char s \<and> length s \<le> 128)
   \<and> sanitizeCorrelationID (sanitizeCorrelationID s) = sanitizeCorrelationID s"
proof -
  have len: "length (filter token_char (take 128 s)) \<le> 128" for s :: string
    using length_filter_le [of token_char "take 128 s"] by simp
  have all: "list_all token_char (filter token_char s)" for s
    by (simp add: list_all_iff)
  have id: "filter token_char (take 128 s) = s" if "list_all token_char s" "length s \<le> 128" for s
    using that by (simp add: list_all_iff)
  show ?thesis
    using len [of s] all [of "take 128 s"] id id [of "filter token_char (take 128 s)"]
    unfolding sanitizeCorrelationID_def maxCorrelationIDLen_def by metis
qed

section \<open>Authentication: what is accepted\<close>

lemma ParseInt_no_colon: "ParseInt t = Some i \<Longrightarrow> CHR '':'' \<notin> set t"
proof
  assume p: "ParseInt t = Some i" and c: "CHR '':'' \<in> set t"
  have none: "foldl parse_step acc s = None" if "CHR '':'' \<in> set s" for acc s
    using that
  proof (induction s arbitrary: acc)
    case (Cons x s)
    have nil: "foldl parse_step None s = None" for s by (induction s) (simp_all add: parse_step_def)
    show ?case
    proof (cases "x = CHR '':''")
      case True
      then have "parse_step acc x = None" by (simp add: parse_step_def digit_val_def split: option.split)
      then show ?thesis by (simp add: nil)
    qed (use Cons in simp)
  qed simp
  have "parse_digits s = None" if "CHR '':'' \<in> set s" for s
    using none [OF that] by (simp add: parse_digits_def)
  then show False
    using p c by (cases t) (auto simp: ParseInt_def Let_def split: if_split_asm option.split_asm)
qed

lemma SplitN_3:
  "SplitN c s 3 = [x, y, z] \<longleftrightarrow> s = x @ c # y @ c # z \<and> c \<notin> set x \<and> c \<notin> set y"
proof -
  have step: "SplitN c s (Suc (Suc n)) = x # rest \<and> rest \<noteq> []
      \<longleftrightarrow> (\<exists>t. s = x @ c # t \<and> c \<notin> set x \<and> rest = SplitN c t (Suc n))" for s x rest n
  proof
    assume a: "SplitN c s (Suc (Suc n)) = x # rest \<and> rest \<noteq> []"
    then have m: "c \<in> set s" by (auto split: if_split_asm)
    then have "dropWhile (\<lambda>x. x \<noteq> c) s \<noteq> []" by (simp add: dropWhile_eq_Nil_conv)
    then have "s = takeWhile (\<lambda>x. x \<noteq> c) s @ c # tl (dropWhile (\<lambda>x. x \<noteq> c) s)"
      using hd_dropWhile [of "\<lambda>x. x \<noteq> c" s] takeWhile_dropWhile_id [of "\<lambda>x. x \<noteq> c" s]
      by (metis (mono_tags) list.collapse)
    moreover have "c \<notin> set (takeWhile (\<lambda>x. x \<noteq> c) s)" by (auto dest: set_takeWhileD)
    ultimately show "\<exists>t. s = x @ c # t \<and> c \<notin> set x \<and> rest = SplitN c t (Suc n)"
      using a m by auto
  next
    assume "\<exists>t. s = x @ c # t \<and> c \<notin> set x \<and> rest = SplitN c t (Suc n)"
    then obtain t where t: "s = x @ c # t" "c \<notin> set x" "rest = SplitN c t (Suc n)" by blast
    have "takeWhile (\<lambda>y. y \<noteq> c) s = x" "dropWhile (\<lambda>y. y \<noteq> c) s = c # t"
      using t by (simp_all add: takeWhile_append dropWhile_append)
    moreover have "rest \<noteq> []" using t by (cases n) auto
    ultimately show "SplitN c s (Suc (Suc n)) = x # rest \<and> rest \<noteq> []" using t by simp
  qed
  have two: "SplitN c t (Suc (Suc 0)) = [y, z] \<longleftrightarrow> t = y @ c # z \<and> c \<notin> set y" for t
    using step [of t 0 y "[z]"] by (simp only: SplitN.simps) blast
  have "SplitN c s (Suc (Suc (Suc 0))) = [x, y, z]
      \<longleftrightarrow> (\<exists>t. s = x @ c # t \<and> c \<notin> set x \<and> SplitN c t (Suc (Suc 0)) = [y, z])"
    using step [of s "Suc 0" x "[y, z]"] by (metis list.distinct(1))
  then show ?thesis unfolding two numeral_3_eq_3 by blast
qed

definition in_window :: "int \<Rightarrow> int \<Rightarrow> bool" where
  "in_window now ts \<longleftrightarrow> \<bar>now - time_Unix ts\<bar> \<le> internalAuthSkew"

text \<open>More than about 292 years ahead of the clock.\<close>

definition far_future :: "int \<Rightarrow> int \<Rightarrow> bool" where
  "far_future now ts \<longleftrightarrow> 2 ^ 63 \<le> time_Unix ts - now"

lemma int64_min: "int64 (2 ^ 63) = - (2 ^ 63)"
  by (simp add: int64_def signed_take_bit_eq_take_bit_shift take_bit_eq_mod)

lemma skew_of_small: "\<not> skew_of now ts > internalAuthSkew \<longleftrightarrow> in_window now ts \<or> far_future now ts"
proof -
  let ?d = "now - time_Unix ts"
  consider "?d \<le> - (2 ^ 63)" | "- (2 ^ 63) < ?d" "?d < 0" | "0 \<le> ?d" by linarith
  then show ?thesis
  proof cases
    case 1
    then have "time_Sub now (time_Unix ts) = - (2 ^ 63)" by (simp add: time_Sub_def)
    then have "skew_of now ts = int64 (2 ^ 63)" unfolding skew_of_def Let_def by simp
    then have "skew_of now ts = - (2 ^ 63)" by (simp only: int64_min)
    with 1 show ?thesis by (simp add: far_future_def internalAuthSkew_def nanos_def)
  next
    case 2
    then have t: "time_Sub now (time_Unix ts) = ?d" by (simp add: time_Sub_def)
    have "in_int64 (- ?d)" using 2 by (simp add: in_int64_def)
    then have "skew_of now ts = - ?d" unfolding skew_of_def Let_def t using 2 by (simp add: int64_id)
    with 2 show ?thesis by (auto simp: far_future_def in_window_def)
  next
    case 3
    then have t: "time_Sub now (time_Unix ts) = min (2 ^ 63 - 1) ?d" by (simp add: time_Sub_def)
    have "skew_of now ts = min (2 ^ 63 - 1) ?d" unfolding skew_of_def Let_def t using 3 by (simp add: min_def)
    with 3 show ?thesis
      by (auto simp: far_future_def in_window_def internalAuthSkew_def nanos_def min_def)
  qed
qed

text \<open>C19. A request passes the internal authentication exactly when its header is
  \<open>v1:{ts}:{sig}\<close> with the HMAC of its own time stamp, method and path under the shared secret,
  and the time stamp is within 120 seconds of the clock - or so far in the future that the
  negation of the saturated difference overflows, in which case the window does not apply.\<close>

theorem auth_accepts_iff:
  "internalAuth secret now method path raw \<longleftrightarrow>
     (\<exists>t ts. raw = ''v1:'' @ t @ '':'' @ InternalSignature secret ts method path
        \<and> ParseInt t = Some ts \<and> (in_window now ts \<or> far_future now ts))"
proof -
  have "internalAuth secret now method path raw \<longleftrightarrow>
     (\<exists>t sig ts. SplitN (CHR '':'') raw 3 = [''v1'', t, sig] \<and> ParseInt t = Some ts
        \<and> \<not> skew_of now ts > internalAuthSkew \<and> sig = InternalSignature secret ts method path)"
    by (auto simp: internalAuth_def numeral_3_eq_3 split: list.splits option.splits if_splits)
  also have "\<dots> \<longleftrightarrow> (\<exists>t ts. raw = ''v1:'' @ t @ '':'' @ InternalSignature secret ts method path
        \<and> ParseInt t = Some ts \<and> (in_window now ts \<or> far_future now ts))"
    unfolding SplitN_3 skew_of_small using ParseInt_no_colon by auto
  finally show ?thesis .
qed

text \<open>The header the reference client builds is accepted while it is fresh.\<close>

theorem built_header_accepted:
  assumes "in_int64 ts" and "in_window now ts"
  shows "internalAuth secret now method path (BuildInternalAuthHeader secret ts method path)"
  unfolding auth_accepts_iff BuildInternalAuthHeader_def
  using assms ParseInt_FormatInt [OF assms(1)] by blast

lemma built_header_accepted_witness:
  "internalAuth ''k'' (1000 * nanos) ''GET'' ''/internal/v1/search''
     (BuildInternalAuthHeader ''k'' 900 ''GET'' ''/internal/v1/search'')"
  by (rule built_header_accepted)
    (simp_all add: in_int64_def in_window_def time_Unix_def unixToInternal_def int64_id nanos_def internalAuthSkew_def)

text \<open>A signed header with a time stamp in the year 2603 is accepted now: the replay
  window is not enforced on it.\<close>

theorem far_future_header_accepted:
  "\<not> in_window (1700000000 * nanos) 20000000000
   \<and> internalAuth secret (1700000000 * nanos) method path (BuildInternalAuthHeader secret 20000000000 method path)"
proof
  have t: "time_Unix 20000000000 = 20000000000 * nanos"
    by (simp add: time_Unix_def unixToInternal_def int64_id in_int64_def)
  show "\<not> in_window (1700000000 * nanos) 20000000000"
    by (simp add: in_window_def t nanos_def internalAuthSkew_def)
  have "far_future (1700000000 * nanos) 20000000000" by (simp add: far_future_def t nanos_def)
  moreover have "ParseInt (FormatInt 20000000000) = Some 20000000000"
    by (rule ParseInt_FormatInt) (simp add: in_int64_def)
  ultimately show "internalAuth secret (1700000000 * nanos) method path
      (BuildInternalAuthHeader secret 20000000000 method path)"
    unfolding auth_accepts_iff BuildInternalAuthHeader_def by blast
qed

section \<open>Readiness: what the balancer sees\<close>

text \<open>What the process goes through: probes by the watchers, and the start of draining.\<close>

datatype ready_op = Probe int "bool option" "bool option" | BeginDrain

definition fresh_server :: server where
  "fresh_server = \<lparr> draining = False, readinessCached = None \<rparr>"

definition ready_op :: "ready_op \<Rightarrow> server \<Rightarrow> server" where
  "ready_op a s = (case a of Probe now db rdb \<Rightarrow> snd (handleReady now db rdb s) | BeginDrain \<Rightarrow> Drain s)"

definition ready_run :: "ready_op list \<Rightarrow> server" where
  "ready_run ops = foldl (\<lambda>s a. ready_op a s) fresh_server ops"

text \<open>The answer a fresh probe calls for.\<close>

definition ready_answer :: "bool option \<Rightarrow> bool option \<Rightarrow> int \<times> string" where
  "ready_answer db rdb =
     (if db = Some False then (503, ''unavailable'')
      else if rdb = Some False then (200, ''degraded'') else (200, ''ok''))"

definition probed :: "ready_op list \<Rightarrow> snap \<Rightarrow> bool" where
  "probed ops sp \<longleftrightarrow> (\<exists>db rdb. Probe (rd_at sp) db rdb \<in> set ops \<and> (rd_code sp, rd_status sp) = ready_answer db rdb)"

lemma probed_mono: "probed ops sp \<Longrightarrow> probed (ops @ ops2) sp"
  unfolding probed_def by auto

definition probe_snap :: "int \<Rightarrow> bool option \<Rightarrow> bool option \<Rightarrow> snap" where
  "probe_snap now db rdb = \<lparr> rd_status = snd (ready_answer db rdb), rd_postgres = check_component db,
     rd_redis = check_component rdb, rd_code = fst (ready_answer db rdb), rd_at = now \<rparr>"

lemma readiness_eq:
  "readiness now db rdb s = (case readinessCached s of
       Some c \<Rightarrow> if time_Sub now (rd_at c) < readinessCacheTTL then (c, s)
                 else (probe_snap now db rdb, s\<lparr> readinessCached := Some (probe_snap now db rdb) \<rparr>)
     | None \<Rightarrow> (probe_snap now db rdb, s\<lparr> readinessCached := Some (probe_snap now db rdb) \<rparr>))"
proof -
  have down: "check_component p = Down \<longleftrightarrow> p = Some False" for p
    by (simp add: check_component_def split: option.split)
  show ?thesis
    by (cases "readinessCached s"; cases "db = Some False"; cases "rdb = Some False")
      (simp_all add: readiness_def Let_def componentHealth_def anyComponentDown_def down probe_snap_def
        ready_answer_def)
qed

lemma readiness_cases:
  assumes "readiness now db rdb s = (sp, s')"
  obtains (cached) "readinessCached s = Some sp" "s' = s" "time_Sub now (rd_at sp) < readinessCacheTTL"
  | (fresh) "sp = probe_snap now db rdb" "s' = s\<lparr> readinessCached := Some sp \<rparr>"
  using assms by (auto simp: readiness_eq split: option.split_asm if_split_asm)

lemma probed_fresh: "probed (ops @ [Probe now db rdb]) (probe_snap now db rdb)"
  unfolding probed_def by (rule exI [of _ db], rule exI [of _ rdb]) (simp add: probe_snap_def)

lemma ready_run_cached:
  "(draining (ready_run ops) \<longleftrightarrow> BeginDrain \<in> set ops)
   \<and> (\<forall>sp. readinessCached (ready_run ops) = Some sp \<longrightarrow> probed ops sp)"
proof (induction ops rule: rev_induct)
  case Nil
  then show ?case by (simp add: ready_run_def fresh_server_def)
next
  case (snoc a ops)
  have run: "ready_run (ops @ [b]) = ready_op b (ready_run ops)" for b by (simp add: ready_run_def)
  have old: "probed (ops @ [a]) c" if "readinessCached (ready_run ops) = Some c" for c
    using snoc.IH that probed_mono by blast
  show ?case
  proof (cases a)
    case BeginDrain
    then show ?thesis using snoc.IH old by (simp add: run ready_op_def Drain_def)
  next
    case (Probe now db rdb)
    obtain sp s' where r: "readiness now db rdb (ready_run ops) = (sp, s')" by fastforce
    then show ?thesis
    proof (cases rule: readiness_cases)
      case cached
      then show ?thesis using snoc.IH old r by (simp add: run Probe ready_op_def handleReady_def)
    next
      case fresh
      then show ?thesis
        using snoc.IH old r probed_fresh [of ops now db rdb] by (simp add: run Probe ready_op_def handleReady_def)
    qed
  qed
qed

text \<open>Whatever the process has been through, \<open>/readyz\<close> answers from a probe less than two
  seconds old: 503 once draining has begun, 503 when PostgreSQL was down, and 200 when it was
  not, degraded if only Redis was down. Draining is never undone.\<close>

theorem readyz_answer:
  "\<exists>t d r. Probe t d r \<in> set (ops @ [Probe now db rdb]) \<and> time_Sub now t < readinessCacheTTL
     \<and> fst (handleReady now db rdb (ready_run ops)) =
         (if BeginDrain \<in> set ops then (503, ''draining'') else ready_answer d r)"
proof -
  obtain sp s' where r: "readiness now db rdb (ready_run ops) = (sp, s')" by fastforce
  have z: "time_Sub now now < readinessCacheTTL" by (simp add: time_Sub_def readinessCacheTTL_def nanos_def)
  have sp: "probed (ops @ [Probe now db rdb]) sp \<and> time_Sub now (rd_at sp) < readinessCacheTTL"
    using r
  proof (cases rule: readiness_cases)
    case cached
    then show ?thesis using ready_run_cached probed_mono by blast
  next
    case fresh
    then show ?thesis using probed_fresh z by (simp add: probe_snap_def)
  qed
  have "draining (ready_run ops) \<longleftrightarrow> BeginDrain \<in> set ops" using ready_run_cached by blast
  then have "fst (handleReady now db rdb (ready_run ops))
      = (if BeginDrain \<in> set ops then (503, ''draining'') else (rd_code sp, rd_status sp))"
    by (simp add: handleReady_def r)
  with sp show ?thesis unfolding probed_def by metis
qed

end
