(* ===== verification/CatalogHttp.thy ===== *)
theory CatalogHttp
  imports CatalogMachine Http
begin

text \<open>
  The catalog routes (\<open>internal/api/catalog_handlers.go\<close>) and the read fence
  (\<open>internal/api/catalog_read.go\<close>): a reader pins the epoch and the generation it knows in two
  headers, and the service checks them before and after it runs its queries, without a lock
  in between. A database that cannot be read is the error \<open>SqlFailed\<close> of the status.
\<close>

section \<open>The routes\<close>

text \<open>\<open>readCatalogBody\<close>; \<open>None\<close> is a body that could not be read.\<close>

definition readCatalogBody :: "body option \<Rightarrow> api_error + body" where
  "readCatalogBody b = (case b of None \<Rightarrow> Inl OtherError
     | Some raw \<Rightarrow> if body_len raw > MaxRequestBytes
         then Inl (HTTPError 413 (Some ''catalog request exceeds byte budget'')) else Inr raw)"

text \<open>\<open>reader\<close> is what the status query returns, \<open>None\<close> when the server has no catalog store.\<close>

definition handleCatalogStatus :: "string list \<Rightarrow> (store_error + status) option \<Rightarrow> api_error + status" where
  "handleCatalogStatus scopes reader =
     (if scopes \<noteq> [''local''] then Inl (newValidation ''scope'' ''one supported local scope is required'')
      else (case reader of
          None \<Rightarrow> Inl (HTTPError 503 (Some ''catalog authority unavailable''))
        | Some (Inl e) \<Rightarrow> Inl OtherError
        | Some (Inr st) \<Rightarrow> Inr st))"

record epoch_request =
  er_scope :: string
  er_epoch :: uuid
  er_expected :: "uuid option"

definition EpochRequest_fields :: "ext \<Rightarrow> (string \<times> epoch_request dec) list" where
  "EpochRequest_fields X = [
     (''scope'', fld dec_string er_scope er_scope_update),
     (''epoch'', fld (dec_uuid X) er_epoch er_epoch_update),
     (''expected_epoch'', fld (dec_ptr 0 (dec_uuid X)) er_expected er_expected_update)]"

definition parseCatalogEpoch :: "ext \<Rightarrow> body \<Rightarrow> api_error + epoch_request" where
  "parseCatalogEpoch X raw =
     (case Option.bind (body_json raw)
             (\<lambda>j. ObjectFields j [''scope'', ''epoch'', ''expected_epoch''] [''expected_epoch''] []) of
        None \<Rightarrow> Inl (newValidation ''catalog_epoch'' ''invalid exact epoch request'')
      | Some flds \<Rightarrow>
          (case dec_obj (EpochRequest_fields X) (JObj flds) \<lparr> er_scope = [], er_epoch = 0, er_expected = None \<rparr> of
             None \<Rightarrow> Inl (newValidation ''catalog_epoch'' ''invalid local epoch request'')
           | Some r \<Rightarrow>
               if er_scope r \<noteq> ''local'' then Inl (newValidation ''catalog_epoch'' ''invalid local epoch request'')
               else if \<not> canonicalCatalogUUID X (map_of flds ''epoch'') (er_epoch r)
                    \<or> (case er_expected r of None \<Rightarrow> False
                       | Some u \<Rightarrow> \<not> canonicalCatalogUUID X (map_of flds ''expected_epoch'') u)
               then Inl (newValidation ''catalog_epoch'' ''noncanonical epoch identity'')
               else Inr r))"

text \<open>\<open>store\<close> tells whether the server has a catalog store. Success is the empty 204.\<close>

definition handleCatalogEpoch :: "ext \<Rightarrow> bool \<Rightarrow> body option \<Rightarrow> db \<Rightarrow> (api_error + unit) \<times> db" where
  "handleCatalogEpoch X store b s =
     (case readCatalogBody b of Inl e \<Rightarrow> (Inl e, s)
      | Inr raw \<Rightarrow>
        (case parseCatalogEpoch X raw of Inl e \<Rightarrow> (Inl e, s)
         | Inr r \<Rightarrow>
             if \<not> store then (Inl (HTTPError 503 (Some ''catalog authority unavailable'')), s)
             else (case SetCatalogEpoch s (er_scope r) (er_epoch r) (er_expected r) of
                 Inl e \<Rightarrow> (Inl (if e = CatalogConflict then HTTPError 409 (Some ''catalog epoch conflict'')
                               else OtherError), s)
               | Inr s' \<Rightarrow> (Inr (), s'))))"

definition handleCatalogEvents ::
  "ext \<Rightarrow> (json \<Rightarrow> int) \<Rightarrow> bool \<times> bool \<Rightarrow> int \<Rightarrow> (nat \<Rightarrow> int) \<Rightarrow> body option \<Rightarrow> db \<Rightarrow> (api_error + result) \<times> db" where
  "handleCatalogEvents X raw_len tx now clk b s =
     (case readCatalogBody b of Inl e \<Rightarrow> (Inl e, s)
      | Inr raw \<Rightarrow>
        (case DecodeCatalogBatch X raw_len raw of
           None \<Rightarrow> (Inl (newValidation ''events'' ''invalid exact catalog event batch''), s)
         | Some evs \<Rightarrow>
             (case IngestCatalog X tx now clk evs s of
                (None, s') \<Rightarrow> (Inl OtherError, s')
              | (Some r, s') \<Rightarrow> (Inr r, s'))))"

text \<open>A request of either kind is a step of the machine, or leaves the database alone.\<close>

lemma handleCatalogEpoch_step:
  "handleCatalogEpoch X store b s = (r, s') \<Longrightarrow> catalog_run X s s'"
  by (auto simp: handleCatalogEpoch_def split: sum.split_asm if_split_asm intro!: r_into_rtranclp catalog_step.set_epoch)

lemma handleCatalogEvents_step:
  assumes "handleCatalogEvents X raw_len tx now clk b s = (r, s')"
  shows "catalog_run X s s'"
proof -
  have "s' = s \<or> (\<exists>evs res. IngestCatalog X tx now clk evs s = (res, s'))"
    using assms by (auto simp: handleCatalogEvents_def split: sum.split_asm option.split_asm prod.split_asm)
  then show ?thesis using catalog_step.ingest by blast
qed

section \<open>The read fence\<close>

type_synonym fence = "string \<times> string"

text \<open>The request headers, by canonical name; \<open>Header.Get\<close> returns the first value.\<close>

definition Header_Get :: "(string \<times> string) list \<Rightarrow> string \<Rightarrow> string" where
  "Header_Get hs name = (case map_of hs name of Some v \<Rightarrow> v | None \<Rightarrow> [])"

definition unavailable :: api_error where
  "unavailable = HTTPError 503 (Some ''catalog authority unavailable'')"

definition beginCatalogRead ::
  "ext \<Rightarrow> (string \<times> string) list \<Rightarrow> (store_error + status) option \<Rightarrow> api_error + fence" where
  "beginCatalogRead X hs reader =
     (case reader of
        None \<Rightarrow> Inl unavailable
      | Some (Inl e) \<Rightarrow> Inl unavailable
      | Some (Inr st) \<Rightarrow>
          (case st_epoch st of
             None \<Rightarrow>
               if \<exists>h \<in> set hs. ascii_lower (fst h) = ''x-vidra-catalog-epoch''
                    \<or> ascii_lower (fst h) = ''x-vidra-catalog-generation''
               then Inl unavailable else Inr ([], [])
           | Some e \<Rightarrow>
               if \<not> st_ready st \<or> st_foreign_eligible st \<or> st_completed st = ''0''
                  \<or> Header_Get hs ''X-Vidra-Catalog-Epoch'' \<noteq> uuid_string X e
                  \<or> Header_Get hs ''X-Vidra-Catalog-Generation'' \<noteq> st_completed st
               then Inl unavailable
               else Inr (uuid_string X e, st_completed st)))"

definition finishCatalogRead ::
  "ext \<Rightarrow> (string \<times> string) list \<Rightarrow> (store_error + status) option \<Rightarrow> fence \<Rightarrow> api_error + unit" where
  "finishCatalogRead X hs reader before =
     (case beginCatalogRead X hs reader of Inl e \<Rightarrow> Inl e
      | Inr after \<Rightarrow>
          if before \<noteq> after then Inl (HTTPError 503 (Some ''catalog authority changed'')) else Inr ())"

text \<open>The status a read sees in state \<open>s\<close>.\<close>

abbreviation status_in :: "db \<Rightarrow> (store_error + status) option" where
  "status_in s \<equiv> Some (ReadCatalogStatus s ''local'')"

lemma FormatInt_nonneg_inject: "0 \<le> i \<Longrightarrow> 0 \<le> j \<Longrightarrow> FormatInt i = FormatInt j \<Longrightarrow> i = j"
  by (metis FormatInt_def linorder_not_less option.inject parse_digits_dec_nat)

lemma FormatInt_nonempty: "0 \<le> i \<Longrightarrow> FormatInt i \<noteq> []"
  by (simp add: FormatInt_def)

lemma beginCatalogRead_fence:
  assumes "beginCatalogRead X hs (status_in s) = Inr f"
  shows "case fence_of s of None \<Rightarrow> f = ([], [])
     | Some (e, g) \<Rightarrow> f = (uuid_string X e, FormatInt g) \<and> g > 0
         \<and> list_all (\<lambda>d. d_eligible d \<longrightarrow> d_kind d = ''local'') (documents s)"
proof (cases "scope_of s ''local''")
  case None
  then show ?thesis
    using assms by (simp add: beginCatalogRead_def ReadCatalogStatus_def fence_of_def authority_def
        ScopeLocal_def split: if_split_asm)
next
  case (Some c)
  then show ?thesis
    using assms by (auto simp: beginCatalogRead_def ReadCatalogStatus_def fence_of_def authority_def
        ScopeLocal_def Let_def list_all_iff split: if_split_asm)
qed

lemma same_fence:
  assumes X: "ext_ok X" and "beginCatalogRead X hs (status_in s) = Inr f" "beginCatalogRead X hs (status_in s') = Inr f"
  shows "fence_of s' = fence_of s"
proof -
  note b = beginCatalogRead_fence [OF assms(2)] beginCatalogRead_fence [OF assms(3)]
  show ?thesis
  proof (cases "fence_of s")
    case None
    then show ?thesis using b by (cases "fence_of s'") (auto dest: FormatInt_nonempty [OF less_imp_le])
  next
    case (Some p)
    then obtain e g where p: "fence_of s = Some (e, g)" by (cases p) auto
    then obtain q where q: "fence_of s' = Some q" using b by (cases "fence_of s'") (auto dest: FormatInt_nonempty [OF less_imp_le])
    obtain e' g' where "q = (e', g')" by fastforce
    with p q b have "uuid_string X e' = uuid_string X e" "FormatInt g' = FormatInt g" "g > 0" "g' > 0" by auto
    then show ?thesis
      using uuid_string_inject [OF X] FormatInt_nonneg_inject [of g' g] by (simp add: p q \<open>q = (e', g')\<close>)
  qed
qed

end
