(* ===== verification/CatalogProps.thy ===== *)
theory CatalogProps
  imports CatalogHttp
begin

text \<open>The properties of the catalog receiver as a whole, with instances of each.\<close>

section \<open>Sample states\<close>

text \<open>The receiver under its first epoch, and under a second one.\<close>

definition epoch5 :: db where
  "epoch5 = (case SetCatalogEpoch empty_db ScopeLocal 5 None of Inr s \<Rightarrow> s | Inl e \<Rightarrow> empty_db)"

definition epoch6 :: db where
  "epoch6 = (case SetCatalogEpoch epoch5 ScopeLocal 6 (Some 5) of Inr s \<Rightarrow> s | Inl e \<Rightarrow> epoch5)"

lemma epoch5_eq: "epoch5 = empty_db
   \<lparr> catalog_epochs := [\<lparr> ce_scope = ScopeLocal, ce_epoch = 5, ce_predecessor = None \<rparr>],
     catalog_scopes := [new_scope ScopeLocal 5] \<rparr>"
  by (simp add: epoch5_def SetCatalogEpoch_def scope_of_def sql_get_def empty_db_def reset_epoch_def
      delete_snapshots_def sql_delete_def sql_upsert_def Let_def)

lemma epoch6_eq: "epoch6 = empty_db
   \<lparr> catalog_epochs := [\<lparr> ce_scope = ScopeLocal, ce_epoch = 5, ce_predecessor = None \<rparr>,
       \<lparr> ce_scope = ScopeLocal, ce_epoch = 6, ce_predecessor = Some 5 \<rparr>],
     catalog_scopes := [new_scope ScopeLocal 6] \<rparr>"
  by (simp add: epoch6_def epoch5_eq SetCatalogEpoch_def scope_of_def sql_get_def empty_db_def reset_epoch_def
      delete_snapshots_def sql_delete_def sql_upsert_def sql_update_def new_scope_def Let_def)

lemma epoch5_ok: "SetCatalogEpoch empty_db ScopeLocal 5 None = Inr epoch5"
  by (simp add: epoch5_def SetCatalogEpoch_def scope_of_def sql_get_def empty_db_def reset_epoch_def Let_def)

lemma epoch6_ok: "SetCatalogEpoch epoch5 ScopeLocal 6 (Some 5) = Inr epoch6"
  by (simp add: epoch6_def epoch5_eq SetCatalogEpoch_def scope_of_def sql_get_def empty_db_def reset_epoch_def
      new_scope_def Let_def)

lemma run_epoch5: "catalog_run X empty_db epoch5"
  using catalog_step.set_epoch [OF epoch5_ok] by blast

lemma run_epoch6: "catalog_run X empty_db epoch6"
  using run_epoch5 [of X] catalog_step.set_epoch [OF epoch6_ok] by (rule rtranclp.rtrancl_into_rtrancl)

section \<open>Every reachable state\<close>

text \<open>Every state the receiver can reach keeps its invariant: at most one pending snapshot per
  scope, always the newest observed and not yet completed generation of the epoch in force; its
  byte ledger equal to the canonical size of its pages and within the quotas; every stored page
  verbatim what the parser accepted; no id staged twice. And the epoch in force is the last of a
  history without repetitions.\<close>

theorem receiver_invariant:
  assumes "ext_ok X" and "catalog_run X empty_db s"
  shows "catalog_inv X s \<and> history_ok s"
  using catalog_run_moves [OF assms receiver_empty] by (simp add: receiver_ok_def)

lemma receiver_invariant_witness: "catalog_inv sample_ext epoch6 \<and> history_ok epoch6"
  by (rule receiver_invariant [OF ext_ok_sample run_epoch6])

lemma authority_moves:
  assumes "ext_ok X" and "catalog_run X empty_db s" and "catalog_run X s s'" and "authority s = Some c"
  shows "\<exists>c' es. authority s' = Some c' \<and> epochs_of s' = epochs_of s @ es
     \<and> (if es = [] then cs_epoch c' = cs_epoch c \<and> cs_highest c \<le> cs_highest c' \<and> cs_completed c \<le> cs_completed c'
        else cs_epoch c' \<notin> set (epochs_of s))"
proof -
  have ok: "receiver_ok X s" using catalog_run_moves [OF assms(1,2) receiver_empty] by blast
  have m: "receiver_ok X s'" "advances s s'" using catalog_run_moves [OF assms(1,3) ok] by blast+
  obtain es where es: "epochs_of s' = epochs_of s @ es" using epochs_grow [OF m(2)] by blast
  obtain c' where c': "authority s' = Some c'" "epochs_of s' = epochs_of s \<longrightarrow> within_epoch c c'"
    using m(2) assms(4) by (auto simp: advances_def)
  have last: "distinct (epochs_of s')" "last (epochs_of s') = cs_epoch c'"
    using m(1) c'(1) by (simp_all add: receiver_ok_def history_ok_def)
  have "cs_epoch c' \<notin> set (epochs_of s)" if "es \<noteq> []"
  proof -
    have "cs_epoch c' \<in> set es" using last(2) es that by (metis last_appendR last_in_set)
    then show ?thesis using last(1) es by auto
  qed
  with c' es show ?thesis by (auto simp: within_epoch_def)
qed

lemma current_epoch_listed: "history_ok s \<Longrightarrow> authority s = Some c \<Longrightarrow> cs_epoch c \<in> set (epochs_of s)"
  by (auto simp: history_ok_def) (metis last_in_set)

text \<open>Authority only moves forward, over any run from any reachable state: the epoch history
  is only appended to, and while it stands still the highest observed and the completed
  generation never decrease.\<close>

theorem authority_monotone:
  assumes "ext_ok X" and "catalog_run X empty_db s" and "catalog_run X s s'" and "authority s = Some c"
  shows "\<exists>c' es. authority s' = Some c' \<and> epochs_of s' = epochs_of s @ es
     \<and> (if es = [] then cs_epoch c' = cs_epoch c \<and> cs_highest c \<le> cs_highest c' \<and> cs_completed c \<le> cs_completed c'
        else cs_epoch c' \<notin> set (epochs_of s))"
  by (rule authority_moves [OF assms])

lemma authority_monotone_witness:
  "\<exists>c' es. authority epoch6 = Some c' \<and> epochs_of epoch6 = epochs_of epoch5 @ es
     \<and> (if es = [] then cs_epoch c' = cs_epoch (new_scope ScopeLocal 5)
          \<and> cs_highest (new_scope ScopeLocal 5) \<le> cs_highest c' \<and> cs_completed (new_scope ScopeLocal 5) \<le> cs_completed c'
        else cs_epoch c' \<notin> set (epochs_of epoch5))"
  by (rule authority_monotone [OF ext_ok_sample run_epoch5])
    (use catalog_step.set_epoch [OF epoch6_ok] in \<open>auto simp: authority_def scope_of_def sql_get_def epoch5_eq\<close>)

text \<open>C25. Superseded observations stay rejected. Once an epoch was replaced, or a newer generation
  of the epoch in force was observed, no page of the old epoch or generation is ever staged
  again, at whatever time and in whatever state is reached later.\<close>

theorem stale_observation_rejected:
  assumes "ext_ok X" and "catalog_run X empty_db s" and "catalog_run X s s'" and "authority s = Some c"
    and "(i_epoch v \<in> set (epochs_of s) \<and> i_epoch v \<noteq> cs_epoch c)
       \<or> (i_epoch v = cs_epoch c \<and> i_generation v < cs_highest c)"
  shows "\<exists>e. StageCatalogPage X now clk s' v page docs = Inl e"
proof (rule ccontr)
  assume "\<not> ?thesis"
  then obtain s'' where "StageCatalogPage X now clk s' v page docs = Inr s''"
    by (cases "StageCatalogPage X now clk s' v page docs") auto
  then obtain s1 where a: "AdmitCatalogGeneration now clk s' v = Inr s1"
    by (cases rule: StageCatalogPage_cases)
  then have "Identity_Validate v = Inr ()" by (auto simp: AdmitCatalogGeneration_def split: sum.split_asm)
  then have loc: "i_scope v = ScopeLocal" by (simp add: Identity_Validate_Inr)
  obtain k where k: "authority s' = Some k" "cs_epoch k = i_epoch v" "cs_highest k \<le> i_generation v"
    using a by (cases rule: AdmitCatalogGeneration_cases) (auto simp: authority_def loc)
  have ok: "receiver_ok X s" using catalog_run_moves [OF assms(1,2) receiver_empty] by blast
  then have cur: "cs_epoch c \<in> set (epochs_of s)"
    using assms(4) current_epoch_listed by (simp add: receiver_ok_def)
  have "cs_epoch k = cs_epoch c \<and> cs_highest c \<le> cs_highest k \<or> cs_epoch k \<notin> set (epochs_of s)"
    using authority_moves [OF assms(1-4)] k(1) by (auto split: if_split_asm)
  then show False using assms(5) k cur by auto
qed

lemma stale_observation_rejected_witness:
  "\<exists>e. StageCatalogPage sample_ext 0 0 epoch6 \<lparr> i_scope = ScopeLocal, i_epoch = 5, i_generation = 1 \<rparr>
     (sp_digest (sample_page sample_docs)) sample_docs = Inl e"
  by (rule stale_observation_rejected [OF ext_ok_sample run_epoch6 rtranclp.rtrancl_refl, of "new_scope ScopeLocal 6"])
    (simp_all add: epoch6_eq authority_def scope_of_def sql_get_def epochs_of_def new_scope_def)

section \<open>Batches\<close>

text \<open>A batch that is committed reports every event exactly once, accepted or failed, never
  duplicate; and when every event failed the database is as it was.\<close>

theorem catalog_batch_accounted:
  assumes "IngestCatalog X tx now clk evs s = (Some res, s')"
  shows "r_duplicates res = 0 \<and> r_accepted res + int (length (r_failed res)) = int (length evs)
    \<and> (r_accepted res = 0 \<longrightarrow> s' = s)"
proof -
  define rs where "rs = fst (catalog_loop X now clk 0 evs s)"
  have loop: "catalog_loop X now clk 0 evs s = (rs, s')" and res: "res = collect_result evs rs"
    using assms by (auto simp: rs_def IngestCatalog_def Let_def split_beta split: if_split_asm)
  have len: "length rs = length evs" using catalog_batch.outcome_per_event [of X now clk 0 evs s] by (simp add: loop)
  have kinds: "Duplicate \<notin> set (fst (catalog_loop X now clk i evs s))" for i s
    by (induction evs arbitrary: i s) (auto simp: Let_def split_beta catalog_one_def split: sum.splits)
  have counts: "r_duplicates (foldl add_outcome r xs) = r_duplicates r
      \<and> r_accepted (foldl add_outcome r xs) = r_accepted r + int (length (filter (\<lambda>x. snd x = Accepted) xs))"
    if "Duplicate \<notin> snd ` set xs" for r xs
    using that by (induction xs arbitrary: r) (auto simp: add_outcome_def split: outcome.split)
  have dup: "Duplicate \<notin> snd ` set (zip evs rs)"
    using kinds [of 0 s] loop by (auto dest: set_zip_rightD)
  have none: "s' = s" if "r_accepted res = 0"
  proof -
    have "filter (\<lambda>x. snd x = Accepted) (zip evs rs) = []"
      using that counts [OF dup, of empty_result] by (simp add: res collect_result_def empty_result_def)
    then have "Accepted \<notin> snd ` set (zip evs rs)" by (auto simp: filter_empty_conv)
    then have "\<forall>r \<in> set rs. \<not> catalog_kept r"
      using len dup by (auto simp: catalog_kept_def in_set_conv_nth image_iff set_zip split: outcome.split)
    then show ?thesis using catalog_batch.nothing_kept [of X now clk 0 evs s] by (simp add: loop)
  qed
  have d0: "r_duplicates res = 0"
    using counts [OF dup, of empty_result] by (simp add: res collect_result_def empty_result_def)
  have "r_accepted res + r_duplicates res + int (length (r_failed res)) = int (length evs)"
    unfolding res by (rule collect_result_total [OF len])
  with d0 none show ?thesis by simp
qed

lemma sample_batch: "IngestCatalog sample_ext (True, True) 0 (\<lambda>i. 0) [zero_envelope] epoch5
    = (Some \<lparr> r_accepted = 0, r_duplicates = 0, r_failed = [\<lparr> f_event_id = 0, f_code = ''catalog_invalid'' \<rparr>] \<rparr>, epoch5)"
  by (simp add: IngestCatalog_def MaxBatch_def catalog_one_def applyCatalogOne_def zero_envelope_def
      catalog_code_def collect_result_def add_outcome_def empty_result_def)

lemma catalog_batch_accounted_witness:
  "snd (IngestCatalog sample_ext (True, True) 0 (\<lambda>i. 0) [zero_envelope] epoch5) = epoch5
   \<and> map_option (\<lambda>r. r_accepted r + int (length (r_failed r)))
       (fst (IngestCatalog sample_ext (True, True) 0 (\<lambda>i. 0) [zero_envelope] epoch5)) = Some 1"
  using catalog_batch_accounted [OF sample_batch] by (simp add: sample_batch)

end
