(* ===== verification/Payloads.thy ===== *)
theory Payloads
  imports CatalogPayload
begin

text \<open>
  \<open>internal/event/types.go\<close> and \<open>history_rule.go\<close>: the event types, the payload of each, and
  the rule that decides which events may write a personal projection. A payload that does
  not decode is \<open>None\<close>. \<open>map[string]any\<close> is the list of members, the last of each name.
\<close>

section \<open>Types\<close>

definition TypeVideoUpsert :: string where "TypeVideoUpsert = ''video.upsert''"
definition TypeVideoSuppress :: string where "TypeVideoSuppress = ''video.suppress''"
definition TypeVideoStats :: string where "TypeVideoStats = ''video.stats''"
definition TypeChannelUpsert :: string where "TypeChannelUpsert = ''channel.upsert''"
definition TypeChannelDelete :: string where "TypeChannelDelete = ''channel.delete''"
definition TypeUserSuppress :: string where "TypeUserSuppress = ''user.suppress''"
definition TypeUserHistoryDel :: string where "TypeUserHistoryDel = ''user.history_deleted''"
definition TypeConfigUpdated :: string where "TypeConfigUpdated = ''search.config_updated''"
definition TypeReconcileBegin :: string where "TypeReconcileBegin = ''reconcile.begin''"
definition TypeReconcilePage :: string where "TypeReconcilePage = ''reconcile.page''"
definition TypeReconcileEnd :: string where "TypeReconcileEnd = ''reconcile.end''"
definition TypeSearchSubmitted :: string where "TypeSearchSubmitted = ''search.submitted''"
definition TypeSearchSuggShown :: string where "TypeSearchSuggShown = ''search.suggestions_shown''"
definition TypeSearchSuggSelected :: string where "TypeSearchSuggSelected = ''search.suggestion_selected''"
definition TypeSearchResultClicked :: string where "TypeSearchResultClicked = ''search.result_clicked''"
definition TypeVideoImpression :: string where "TypeVideoImpression = ''video.impression''"
definition TypeVideoPlayStarted :: string where "TypeVideoPlayStarted = ''video.play_started''"
definition TypeVideoWatchProgress :: string where "TypeVideoWatchProgress = ''video.watch_progress''"
definition TypeVideoCompleted :: string where "TypeVideoCompleted = ''video.completed''"
definition TypeVideoMeaningfulWatch :: string where "TypeVideoMeaningfulWatch = ''video.meaningful_watch''"
definition TypeSearchReformulated :: string where "TypeSearchReformulated = ''search.reformulated''"
definition TypeSearchAbandoned :: string where "TypeSearchAbandoned = ''search.abandoned''"

lemmas event_types = TypeVideoUpsert_def TypeVideoSuppress_def TypeVideoStats_def TypeChannelUpsert_def
  TypeChannelDelete_def TypeUserSuppress_def TypeUserHistoryDel_def TypeConfigUpdated_def
  TypeReconcileBegin_def TypeReconcilePage_def TypeReconcileEnd_def TypeSearchSubmitted_def
  TypeSearchSuggShown_def TypeSearchSuggSelected_def TypeSearchResultClicked_def TypeVideoImpression_def
  TypeVideoPlayStarted_def TypeVideoWatchProgress_def TypeVideoCompleted_def
  TypeVideoMeaningfulWatch_def TypeSearchReformulated_def TypeSearchAbandoned_def

definition isBehavioral :: "string \<Rightarrow> bool" where
  "isBehavioral t = (t \<in> {TypeSearchSubmitted, TypeSearchSuggShown, TypeSearchSuggSelected,
     TypeSearchResultClicked, TypeVideoImpression, TypeVideoPlayStarted, TypeVideoWatchProgress,
     TypeVideoCompleted})"

definition isLegacyCatalogType :: "string \<Rightarrow> bool" where
  "isLegacyCatalogType t = (t \<in> {TypeVideoUpsert, TypeVideoSuppress, TypeChannelUpsert, TypeChannelDelete,
     TypeUserSuppress, TypeReconcileBegin, TypeReconcilePage, TypeReconcileEnd})"

section \<open>Payloads\<close>

definition decode :: "(string \<times> 'a dec) list \<Rightarrow> 'a \<Rightarrow> json option \<Rightarrow> 'a option" where
  "decode fs z payload = Option.bind payload (\<lambda>j. dec_obj fs j z)"

definition opt_uuid :: "ext \<Rightarrow> uuid option dec" where
  "opt_uuid X = dec_ptr 0 (dec_uuid X)"

definition opt_string :: "string option dec" where
  "opt_string = dec_ptr [] dec_string"

definition opt_int32 :: "int option dec" where
  "opt_int32 = dec_ptr 0 dec_int32"

record video_suppress = vs_video_id :: uuid  vs_reason :: string

definition videoSuppress :: "ext \<Rightarrow> json option \<Rightarrow> video_suppress option" where
  "videoSuppress X = decode [
     (''video_id'', fld (dec_uuid X) vs_video_id vs_video_id_update),
     (''reason'', fld dec_string vs_reason vs_reason_update)] \<lparr> vs_video_id = 0, vs_reason = [] \<rparr>"

record video_stats = vt_video_id :: uuid  vt_views :: int  vt_likes :: int

definition videoStats :: "ext \<Rightarrow> json option \<Rightarrow> video_stats option" where
  "videoStats X = decode [
     (''video_id'', fld (dec_uuid X) vt_video_id vt_video_id_update),
     (''views'', fld dec_int64 vt_views vt_views_update),
     (''likes'', fld dec_int32 vt_likes vt_likes_update)] \<lparr> vt_video_id = 0, vt_views = 0, vt_likes = 0 \<rparr>"

definition videoUpsert :: "ext \<Rightarrow> json option \<Rightarrow> video_doc option" where
  "videoUpsert X = decode [(''video'', dec_video X)] zero_video"

record channel = ch_id :: uuid  ch_handle :: string  ch_display_name :: string  ch_owner_id :: "uuid option"

definition channelUpsert :: "ext \<Rightarrow> json option \<Rightarrow> channel option" where
  "channelUpsert X = decode [(''channel'', dec_obj [
     (''id'', fld (dec_uuid X) ch_id ch_id_update),
     (''handle'', fld dec_string ch_handle ch_handle_update),
     (''display_name'', fld dec_string ch_display_name ch_display_name_update),
     (''owner_id'', fld (opt_uuid X) ch_owner_id ch_owner_id_update)])]
     \<lparr> ch_id = 0, ch_handle = [], ch_display_name = [], ch_owner_id = None \<rparr>"

definition channelDelete :: "ext \<Rightarrow> json option \<Rightarrow> uuid option" where
  "channelDelete X = decode [(''channel_id'', dec_uuid X)] 0"

record user_suppress = us_user_id :: uuid  us_unlisted :: bool

definition userSuppress :: "ext \<Rightarrow> json option \<Rightarrow> user_suppress option" where
  "userSuppress X = decode [
     (''user_id'', fld (dec_uuid X) us_user_id us_user_id_update),
     (''unlisted'', fld dec_bool us_unlisted us_unlisted_update)] \<lparr> us_user_id = 0, us_unlisted = False \<rparr>"

text \<open>A number must be in the range of a \<open>float64\<close>, at any depth. Decoding into a map that is
  there adds to it.\<close>

fun any_ok :: "ext \<Rightarrow> json \<Rightarrow> bool" where
  "any_ok X (JNum n) = (float_text X n \<noteq> None)"
| "any_ok X (JArr xs) = (\<forall>x \<in> set xs. any_ok X x)"
| "any_ok X (JObj kvs) = (\<forall>kv \<in> set kvs. any_ok X (snd kv))"
| "any_ok X _ = True"

definition dec_settings :: "ext \<Rightarrow> (string \<times> json) list dec" where
  "dec_settings X j cur = (case j of
      JNull \<Rightarrow> Some []
    | JObj kvs \<Rightarrow> if any_ok X j then Some (last_members (cur @ kvs)) else None
    | _ \<Rightarrow> None)"

definition configUpdated :: "ext \<Rightarrow> json option \<Rightarrow> (string \<times> json) list option" where
  "configUpdated X = decode [(''settings'', dec_settings X)] []"

record reconcile_page = rp_run_id :: uuid  rp_videos :: "video_doc list option"

definition reconcilePage :: "ext \<Rightarrow> json option \<Rightarrow> reconcile_page option" where
  "reconcilePage X = decode [
     (''run_id'', fld (dec_uuid X) rp_run_id rp_run_id_update),
     (''videos'', fld (dec_slice zero_video (dec_video X)) rp_videos rp_videos_update)]
     \<lparr> rp_run_id = 0, rp_videos = None \<rparr>"

record reconcile_end = re_run_id :: uuid  re_total :: int

definition reconcileEnd :: "ext \<Rightarrow> json option \<Rightarrow> reconcile_end option" where
  "reconcileEnd X = decode [
     (''run_id'', fld (dec_uuid X) re_run_id re_run_id_update),
     (''total'', fld dec_int64 re_total re_total_update)] \<lparr> re_run_id = 0, re_total = 0 \<rparr>"

record history_deleted = hd_user_id :: uuid  hd_scope :: string

definition userHistoryDeleted :: "ext \<Rightarrow> json option \<Rightarrow> history_deleted option" where
  "userHistoryDeleted X = decode [
     (''user_id'', fld (dec_uuid X) hd_user_id hd_user_id_update),
     (''scope'', fld dec_string hd_scope hd_scope_update)] \<lparr> hd_user_id = 0, hd_scope = [] \<rparr>"

text \<open>The behavioural payloads decode a subset of these members each.\<close>

record behavior =
  b_query :: "string option"
  b_video_id :: uuid
  b_user_id :: "uuid option"
  b_session_id :: "string option"
  b_subject_id :: "string option"
  b_results_count :: "int option"
  b_position :: "int option"
  b_model_version :: "string option"
  b_context :: string
  b_allow_history :: bool
  b_allow_personalization :: "bool option"

definition zero_behavior :: behavior where
  "zero_behavior = \<lparr> b_query = None, b_video_id = 0, b_user_id = None, b_session_id = None, b_subject_id = None,
     b_results_count = None, b_position = None, b_model_version = None, b_context = [], b_allow_history = False,
     b_allow_personalization = None \<rparr>"

definition f_query :: "(string \<times> behavior dec)" where
  "f_query = (''query'', fld opt_string b_query b_query_update)"

text \<open>A query that is a plain \<open>string\<close>: the zero value is the empty query.\<close>

definition f_query_string :: "(string \<times> behavior dec)" where
  "f_query_string = (''query'', \<lambda>j b. map_option (\<lambda>q. b\<lparr> b_query := Some q \<rparr>) (dec_string j (DerefStr (b_query b))))"

definition f_user :: "ext \<Rightarrow> (string \<times> behavior dec)" where
  "f_user X = (''user_id'', fld (opt_uuid X) b_user_id b_user_id_update)"

definition f_session :: "(string \<times> behavior dec)" where
  "f_session = (''session_id'', fld opt_string b_session_id b_session_id_update)"

definition f_subject :: "(string \<times> behavior dec)" where
  "f_subject = (''subject_id'', fld opt_string b_subject_id b_subject_id_update)"

definition f_video :: "ext \<Rightarrow> (string \<times> behavior dec)" where
  "f_video X = (''video_id'', fld (dec_uuid X) b_video_id b_video_id_update)"

definition f_position :: "(string \<times> behavior dec)" where
  "f_position = (''position'', fld opt_int32 b_position b_position_update)"

definition f_model :: "(string \<times> behavior dec)" where
  "f_model = (''model_version'', fld opt_string b_model_version b_model_version_update)"

definition f_history :: "(string \<times> behavior dec)" where
  "f_history = (''allow_history'', fld dec_bool b_allow_history b_allow_history_update)"

definition f_personalization :: "(string \<times> behavior dec)" where
  "f_personalization = (''allow_personalization'',
     fld (dec_ptr False dec_bool) b_allow_personalization b_allow_personalization_update)"

definition f_context :: "string \<Rightarrow> (string \<times> behavior dec)" where
  "f_context k = (k, fld dec_string b_context b_context_update)"

definition searchSubmitted :: "ext \<Rightarrow> json option \<Rightarrow> behavior option" where
  "searchSubmitted X = decode [f_query_string, f_user X, f_session, f_subject,
     (''results_count'', fld opt_int32 b_results_count b_results_count_update), f_context ''source'', f_history]
     zero_behavior"

definition resultClicked :: "ext \<Rightarrow> json option \<Rightarrow> behavior option" where
  "resultClicked X = decode [f_query_string, f_video X, f_position, f_user X, f_session, f_model] zero_behavior"

definition impression :: "ext \<Rightarrow> json option \<Rightarrow> behavior option" where
  "impression X = decode [f_video X, f_query, f_position, f_user X, f_session, f_model] zero_behavior"

definition playStarted :: "ext \<Rightarrow> json option \<Rightarrow> behavior option" where
  "playStarted X = decode [f_video X, f_user X, f_session, f_subject, f_context ''context'', f_query, f_history,
     f_personalization] zero_behavior"

definition watchProgress :: "ext \<Rightarrow> json option \<Rightarrow> behavior option" where
  "watchProgress X = decode [f_video X, f_user X, f_session] zero_behavior"

definition videoCompleted :: "ext \<Rightarrow> json option \<Rightarrow> behavior option" where
  "videoCompleted X = decode [f_video X, f_user X, f_session, f_history, f_personalization] zero_behavior"

definition suggestionEvent :: "ext \<Rightarrow> json option \<Rightarrow> behavior option" where
  "suggestionEvent X = decode [f_user X, f_session, f_position] zero_behavior"

section \<open>The history rule\<close>

definition projectionConsent :: "bool option \<Rightarrow> bool \<Rightarrow> bool" where
  "projectionConsent allowPersonalization allowHistory =
     (case allowPersonalization of Some b \<Rightarrow> b | None \<Rightarrow> allowHistory)"

definition personalizationAllowed :: "behavior \<Rightarrow> bool" where
  "personalizationAllowed p = projectionConsent (b_allow_personalization p) (b_allow_history p)"

definition CollectsSearchHistory :: "ext \<Rightarrow> string \<Rightarrow> json option \<Rightarrow> bool" where
  "CollectsSearchHistory X typ payload =
     (typ = TypeSearchSubmitted \<and> (case searchSubmitted X payload of None \<Rightarrow> False
        | Some p \<Rightarrow> b_allow_history p \<and> b_user_id p \<noteq> None))"

definition FeedsWatchProjection :: "ext \<Rightarrow> string \<Rightarrow> json option \<Rightarrow> bool" where
  "FeedsWatchProjection X typ payload =
     (if typ = TypeVideoPlayStarted then
        (case playStarted X payload of None \<Rightarrow> False | Some p \<Rightarrow> personalizationAllowed p \<and> b_user_id p \<noteq> None)
      else if typ = TypeVideoCompleted then
        (case videoCompleted X payload of None \<Rightarrow> False | Some p \<Rightarrow> personalizationAllowed p \<and> b_user_id p \<noteq> None)
      else False)"

definition CollectsHistory :: "ext \<Rightarrow> string \<Rightarrow> json option \<Rightarrow> bool" where
  "CollectsHistory X typ payload = (CollectsSearchHistory X typ payload \<or> FeedsWatchProjection X typ payload)"

end
