(* ===== verification/Statements.thy ===== *)
theory Statements
  imports Tables
begin

text \<open>
  The statements of \<open>internal/store/queries\<close> that write documents, events, configuration,
  history and bans, as the generated functions of \<open>internal/store/sqlcgen\<close> run them. \<open>now\<close> is
  the start of the transaction. A statement returns the new database, or \<open>SqlError\<close> where a
  \<open>CHECK\<close> fails or a text value holds a NUL byte. The ids of the two ledgers are drawn in
  insertion order; the gaps a sequence leaves after a rollback are not modelled, and neither
  are storage limits.
\<close>

named_theorems stmt_frame "the tables a statement leaves alone"

section \<open>Documents\<close>

definition doc_texts :: "document \<Rightarrow> string option list" where
  "doc_texts d = [Some (d_kind d), d_channel_handle d, d_channel_name d, Some (d_title d),
     Some (d_description d), d_category d, d_language d, d_license d, d_suppressed_reason d] @ d_tags d"

definition doc_valid :: "document \<Rightarrow> bool" where
  "doc_valid d \<longleftrightarrow> d_kind d \<in> {''local'', ''remote''} \<and> list_all pg_text_opt (doc_texts d)"

text \<open>\<open>arg\<close> holds the parameters; its \<open>indexed_at\<close> is ignored.\<close>

definition UpsertDocument :: "int \<Rightarrow> document \<Rightarrow> db \<Rightarrow> sql_error + db" where
  "UpsertDocument now arg s =
     (let new = arg\<lparr> d_published_at := map_option pg_ts (d_published_at arg),
                     d_source_updated_at := pg_ts (d_source_updated_at arg), d_indexed_at := now \<rparr>
      in if \<not> doc_valid new then Inl SqlError
         else Inr (s\<lparr> documents := sql_upsert d_video_id new
           (\<lambda>old. new\<lparr> d_video_id := d_video_id old,
             d_reconcile_run_id := (case d_reconcile_run_id new of None \<Rightarrow> d_reconcile_run_id old | r \<Rightarrow> r) \<rparr>)
           (documents s) \<rparr>))"

text \<open>The stub that \<open>SuppressDocument\<close> inserts for an unknown video.\<close>

definition stub_document :: "int \<Rightarrow> uuid \<Rightarrow> string option \<Rightarrow> document" where
  "stub_document now vid reason = \<lparr> d_video_id = vid, d_kind = ''local'', d_channel_id = None,
     d_channel_handle = None, d_channel_name = None, d_owner_id = None, d_title = [], d_description = [],
     d_tags = [], d_category = None, d_language = None, d_license = None, d_duration_seconds = None,
     d_is_sensitive = False, d_eligible = False, d_suppressed_reason = reason, d_views = 0, d_likes = 0,
     d_published_at = None, d_source_updated_at = now, d_indexed_at = now, d_reconcile_run_id = None \<rparr>"

definition hide :: "int \<Rightarrow> string option \<Rightarrow> document \<Rightarrow> document" where
  "hide now reason d = d\<lparr> d_eligible := False, d_suppressed_reason := reason, d_indexed_at := now \<rparr>"

definition SuppressDocument :: "int \<Rightarrow> uuid \<Rightarrow> string option \<Rightarrow> db \<Rightarrow> sql_error + db" where
  "SuppressDocument now vid reason s =
     (if \<not> pg_text_opt reason then Inl SqlError
      else Inr (s\<lparr> documents := sql_upsert d_video_id (stub_document now vid reason) (hide now reason)
             (documents s) \<rparr>))"

definition UpdateDocumentStats :: "int \<Rightarrow> uuid \<Rightarrow> int \<Rightarrow> int \<Rightarrow> db \<Rightarrow> db" where
  "UpdateDocumentStats now vid views likes s = s\<lparr> documents :=
     sql_update (\<lambda>d. d_video_id d = vid)
       (\<lambda>d. d\<lparr> d_views := views, d_likes := likes, d_indexed_at := now \<rparr>) (documents s) \<rparr>"

definition UpdateChannelDocuments ::
  "int \<Rightarrow> uuid \<Rightarrow> string option \<Rightarrow> string option \<Rightarrow> uuid option \<Rightarrow> db \<Rightarrow> sql_error + db" where
  "UpdateChannelDocuments now channel handle name owner s =
     (if \<not> pg_text_opt handle \<or> \<not> pg_text_opt name then Inl SqlError
      else Inr (s\<lparr> documents := sql_update (\<lambda>d. d_channel_id d = Some channel)
        (\<lambda>d. d\<lparr> d_channel_handle := handle, d_channel_name := name, d_owner_id := owner,
               d_indexed_at := now \<rparr>) (documents s) \<rparr>))"

definition SuppressChannelDocuments :: "int \<Rightarrow> uuid \<Rightarrow> string option \<Rightarrow> db \<Rightarrow> db" where
  "SuppressChannelDocuments now channel reason s = s\<lparr> documents :=
     sql_update (\<lambda>d. d_channel_id d = Some channel) (hide now reason) (documents s) \<rparr>"

definition SuppressOwnerDocuments :: "int \<Rightarrow> uuid \<Rightarrow> string option \<Rightarrow> db \<Rightarrow> db" where
  "SuppressOwnerDocuments now owner reason s = s\<lparr> documents :=
     sql_update (\<lambda>d. d_owner_id d = Some owner \<and> d_eligible d) (hide now reason) (documents s) \<rparr>"

text \<open>\<open>suppressed_reason = @reason\<close> is not true of NULL.\<close>

definition RestoreOwnerDocuments :: "int \<Rightarrow> uuid \<Rightarrow> string option \<Rightarrow> db \<Rightarrow> db" where
  "RestoreOwnerDocuments now owner reason s = s\<lparr> documents :=
     sql_update (\<lambda>d. d_owner_id d = Some owner \<and> d_suppressed_reason d \<noteq> None \<and> d_suppressed_reason d = reason)
       (\<lambda>d. d\<lparr> d_eligible := True, d_suppressed_reason := None, d_indexed_at := now \<rparr>) (documents s) \<rparr>"

section \<open>Events and configuration\<close>

text \<open>\<open>Inr None\<close> is \<open>pgx.ErrNoRows\<close>: the id was there.\<close>

definition InsertInboxEvent :: "int \<Rightarrow> uuid \<Rightarrow> string \<Rightarrow> db \<Rightarrow> sql_error + db option" where
  "InsertInboxEvent now eid typ s =
     (if \<not> pg_text typ then Inl SqlError
      else (let (rows, fresh) = sql_insert_ignore ib_event_id
                  \<lparr> ib_event_id = eid, ib_type = typ, ib_received_at = now \<rparr> (events_inbox s)
            in if fresh then Inr (Some (s\<lparr> events_inbox := rows \<rparr>)) else Inr None))"

definition UpsertServiceConfig :: "int \<Rightarrow> string \<Rightarrow> string \<Rightarrow> db \<Rightarrow> sql_error + db" where
  "UpsertServiceConfig now key val s =
     (if \<not> pg_text key \<or> \<not> pg_text val then Inl SqlError
      else Inr (s\<lparr> service_config := sql_upsert sc_key \<lparr> sc_key = key, sc_text = val, sc_updated_at = now \<rparr>
        (\<lambda>r. r\<lparr> sc_text := val, sc_updated_at := now \<rparr>) (service_config s) \<rparr>))"

section \<open>The ledgers\<close>

text \<open>\<open>row\<close> holds the parameters; its id is ignored and drawn from the sequence.\<close>

definition InsertBehaviorEvent :: "ext \<Rightarrow> behavior_row \<Rightarrow> db \<Rightarrow> sql_error + db" where
  "InsertBehaviorEvent X row s =
     (case jsonb_in X (be_props row) of None \<Rightarrow> Inl SqlError
      | Some props \<Rightarrow>
          if \<not> pg_text (be_type row) \<or> \<not> list_all pg_text_opt [be_session_id row, be_normalized_query row, be_model_version row]
          then Inl SqlError
          else (let new = row\<lparr> be_id := seq_behavior s, be_props := props, be_occurred_at := pg_ts (be_occurred_at row) \<rparr>
                in Inr (s\<lparr> behavior_events := fst (sql_insert_ignore be_event_id new (behavior_events s)),
                          seq_behavior := seq_behavior s + 1 \<rparr>)))"

text \<open>\<open>event_id\<close> is UNIQUE; two NULLs are not a conflict.\<close>

definition AppendQueryLog :: "query_log_row \<Rightarrow> db \<Rightarrow> sql_error + db" where
  "AppendQueryLog row s =
     (if \<not> list_all pg_text_opt [Some (ql_normalized_query row), Some (ql_display_query row), ql_session_id row, ql_subject_id row]
      then Inl SqlError
      else (let new = row\<lparr> ql_id := seq_query_log s, ql_submitted_at := pg_ts (ql_submitted_at row) \<rparr>;
                seen = (ql_event_id row \<noteq> None \<and> ql_event_id row \<in> ql_event_id ` set (query_log s))
            in Inr (s\<lparr> query_log := (if seen then query_log s else query_log s @ [new]),
                      seq_query_log := seq_query_log s + 1 \<rparr>)))"

definition uh_key :: "history_row \<Rightarrow> uuid \<times> string" where
  "uh_key r = (uh_user_id r, uh_normalized_query r)"

definition UpsertUserSearchHistory :: "uuid \<Rightarrow> string \<Rightarrow> string \<Rightarrow> int \<Rightarrow> db \<Rightarrow> sql_error + db" where
  "UpsertUserSearchHistory user nq display used s =
     (if \<not> pg_text nq \<or> \<not> pg_text display then Inl SqlError
      else Inr (s\<lparr> user_search_history := sql_upsert uh_key
        \<lparr> uh_user_id = user, uh_normalized_query = nq, uh_display_query = display, uh_use_count = 1,
          uh_last_used_at = pg_ts used, uh_hidden = False \<rparr>
        (\<lambda>r. r\<lparr> uh_use_count := uh_use_count r + 1, uh_display_query := display,
               uh_last_used_at := max (uh_last_used_at r) (pg_ts used), uh_hidden := False \<rparr>)
        (user_search_history s) \<rparr>))"

definition wp_key :: "projection_row \<Rightarrow> uuid \<times> uuid" where
  "wp_key r = (wp_user_id r, wp_video_id r)"

text \<open>The share of a weight that is left after \<open>elapsed\<close>, for a half-life in hours. Both times of the projection are
  clocks of the server, so \<open>power\<close> underflows only for a row that was left more than a thousand half-lives; that
  error, and the rounding of the weight to single precision, are not modelled.\<close>

definition decay :: "int \<Rightarrow> real \<Rightarrow> real" where
  "decay elapsed half_life =
     2 powr (- (max 0 (real_of_int elapsed / real_of_int nanos) / (3600 * half_life)))"

definition UpsertWatchProjection :: "int \<Rightarrow> real \<Rightarrow> uuid \<Rightarrow> uuid \<Rightarrow> real \<Rightarrow> db \<Rightarrow> db" where
  "UpsertWatchProjection now half_life user vid delta s =
     s\<lparr> user_watch_projection := sql_upsert wp_key
        \<lparr> wp_user_id = user, wp_video_id = vid, wp_weight = delta, wp_last_watched_at = now \<rparr>
        (\<lambda>r. r\<lparr> wp_weight := wp_weight r * decay (now - wp_last_watched_at r) half_life + delta,
               wp_last_watched_at := now \<rparr>) (user_watch_projection s) \<rparr>"

section \<open>History and privacy\<close>

text \<open>What is visible of one user, latest first; rows that tie are in table order. PostgreSQL
  rejects a negative \<open>LIMIT\<close> or \<open>OFFSET\<close>.\<close>

definition page_of :: "int \<Rightarrow> int \<Rightarrow> 'a list \<Rightarrow> sql_error + 'a list" where
  "page_of lmt off xs = (if lmt < 0 \<or> off < 0 then Inl SqlError else Inr (take (nat lmt) (drop (nat off) xs)))"

definition ListUserSearchHistory :: "uuid \<Rightarrow> int \<Rightarrow> int \<Rightarrow> db \<Rightarrow> sql_error + history_row list" where
  "ListUserSearchHistory user lmt off s =
     page_of lmt off (SliceStable (\<lambda>a b. uh_last_used_at a > uh_last_used_at b)
       (filter (\<lambda>r. uh_user_id r = user \<and> \<not> uh_hidden r) (user_search_history s)))"

definition DeleteUserSearchHistory :: "uuid \<Rightarrow> db \<Rightarrow> db" where
  "DeleteUserSearchHistory user s =
     s\<lparr> user_search_history := sql_delete (\<lambda>r. uh_user_id r = user) (user_search_history s) \<rparr>"

definition DeleteUserSearchHistoryEntry :: "uuid \<Rightarrow> string \<Rightarrow> db \<Rightarrow> db" where
  "DeleteUserSearchHistoryEntry user nq s =
     s\<lparr> user_search_history := sql_delete (\<lambda>r. uh_key r = (user, nq)) (user_search_history s) \<rparr>"

definition PurgeUserWatchProjection :: "uuid \<Rightarrow> db \<Rightarrow> db" where
  "PurgeUserWatchProjection user s =
     s\<lparr> user_watch_projection := sql_delete (\<lambda>r. wp_user_id r = user) (user_watch_projection s) \<rparr>"

definition ListUserSessionIDs :: "uuid \<Rightarrow> db \<Rightarrow> string list" where
  "ListUserSessionIDs user s =
     remdups (List.map_filter ql_session_id (filter (\<lambda>r. ql_user_id r = Some user) (query_log s))
            @ List.map_filter be_session_id (filter (\<lambda>r. be_user_id r = Some user) (behavior_events s)))"

definition DeleteQueryLogForUser :: "uuid \<Rightarrow> db \<Rightarrow> db" where
  "DeleteQueryLogForUser user s =
     s\<lparr> query_log := sql_delete (\<lambda>r. ql_user_id r = Some user) (query_log s) \<rparr>"

definition names_user :: "ext \<Rightarrow> uuid \<Rightarrow> behavior_row \<Rightarrow> bool" where
  "names_user X user r \<longleftrightarrow> be_user_id r = Some user
     \<or> jfield_text ''user_id'' (be_props r) = Some (uuid_string X user)"

definition DeleteBehaviorEventsForUser :: "ext \<Rightarrow> uuid \<Rightarrow> db \<Rightarrow> db" where
  "DeleteBehaviorEventsForUser X user s =
     s\<lparr> behavior_events := sql_delete (names_user X user) (behavior_events s) \<rparr>"

definition DeleteQueryLogForUserQuery :: "uuid \<Rightarrow> string \<Rightarrow> db \<Rightarrow> db" where
  "DeleteQueryLogForUserQuery user nq s =
     s\<lparr> query_log := sql_delete (\<lambda>r. ql_user_id r = Some user \<and> ql_normalized_query r = nq) (query_log s) \<rparr>"

definition DeleteBehaviorEventsForUserQuery :: "ext \<Rightarrow> uuid \<Rightarrow> string \<Rightarrow> db \<Rightarrow> db" where
  "DeleteBehaviorEventsForUserQuery X user nq s =
     s\<lparr> behavior_events := sql_delete (\<lambda>r. names_user X user r \<and> be_normalized_query r = Some nq) (behavior_events s) \<rparr>"

section \<open>Bans\<close>

definition BanSuggestion :: "int \<Rightarrow> string \<Rightarrow> db \<Rightarrow> sql_error + db" where
  "BanSuggestion now nq s =
     (if \<not> pg_text nq then Inl SqlError
      else Inr (s\<lparr> query_aggregates := sql_upsert qa_normalized_query
        \<lparr> qa_normalized_query = nq, qa_display_query = nq, qa_total_count = 0, qa_distinct_users = 0,
          qa_decayed_freq = 0, qa_first_seen = now, qa_last_seen = now, qa_suggestible = False,
          qa_banned = True \<rparr>
        (\<lambda>r. r\<lparr> qa_suggestible := False, qa_banned := True \<rparr>) (query_aggregates s) \<rparr>))"

definition UnbanSuggestion :: "string \<Rightarrow> db \<Rightarrow> sql_error + db" where
  "UnbanSuggestion nq s =
     (if \<not> pg_text nq then Inl SqlError
      else Inr (s\<lparr> query_aggregates := sql_update (\<lambda>r. qa_normalized_query r = nq)
             (\<lambda>r. r\<lparr> qa_banned := False \<rparr>) (query_aggregates s) \<rparr>))"

text \<open>Ordered by the key (the database's collation is the byte order here).\<close>

definition ListBannedSuggestions :: "int \<Rightarrow> int \<Rightarrow> db \<Rightarrow> sql_error + aggregate_row list" where
  "ListBannedSuggestions lmt off s =
     page_of lmt off (sort_key qa_normalized_query (filter qa_banned (query_aggregates s)))"

section \<open>Transactions\<close>

text \<open>A transaction the code opens, runs and commits; \<open>tx\<close> says whether it could be opened and committed.
  What fails is rolled back.\<close>

definition inTx :: "bool \<times> bool \<Rightarrow> (db \<Rightarrow> sql_error + 'a \<times> db) \<Rightarrow> db \<Rightarrow> (sql_error + 'a) \<times> db" where
  "inTx tx fn s =
     (if \<not> fst tx then (Inl SqlError, s)
      else (case fn s of Inl e \<Rightarrow> (Inl e, s)
        | Inr (x, s') \<Rightarrow> if snd tx then (Inr x, s') else (Inl SqlError, s)))"

lemma inTx_Inr: "inTx tx fn s = (Inr x, s') \<longleftrightarrow> tx = (True, True) \<and> fn s = Inr (x, s')"
  by (cases tx) (auto simp: inTx_def split: sum.splits)

lemma inTx_Inl: "fst (inTx tx fn s) = Inl e \<Longrightarrow> snd (inTx tx fn s) = s"
  by (auto simp: inTx_def split: sum.splits if_split_asm)

end
