(* ===== verification/EventIngest.thy ===== *)
theory EventIngest
  imports Payloads Statements CatalogMachine
begin

text \<open>
  \<open>internal/event/service.go\<close>: the ingestion of event batches. Each event runs in a savepoint,
  after its id was entered in the inbox; a redelivered id is a duplicate and does nothing. The
  Redis effects of the accepted events are collected and run after the commit.

  \<open>now\<close> is the start of the transaction and \<open>wall i\<close> the process clock at the \<open>i\<close>-th event. Keys of
  a settings map are handled in their order (Go's order is random; the keys differ, so the
  effect is the same). Metrics and logging are left out.
\<close>

section \<open>Configuration\<close>

record event_config =
  TrendingHalfLifeSeconds :: real
  TrendCapWindow :: int
  WatchHalfLifeHours :: real

definition withDefaults :: "event_config \<Rightarrow> event_config" where
  "withDefaults c =
     (let c = (if TrendingHalfLifeSeconds c \<le> 0 then c\<lparr> TrendingHalfLifeSeconds := 6 * 3600 \<rparr> else c);
          c = (if TrendCapWindow c \<le> 0 then c\<lparr> TrendCapWindow := hours 1 \<rparr> else c)
      in if WatchHalfLifeHours c \<le> 0 then c\<lparr> WatchHalfLifeHours := 720 \<rparr> else c)"

definition weightPlayStarted :: real where "weightPlayStarted = 3 / 10"

definition weightMeaningfulWatch :: real where "weightMeaningfulWatch = 1"

definition weightCompleted :: real where "weightCompleted = 3 / 2"

section \<open>Deferred effects\<close>

datatype effect =
    SessionQuery string string
  | SessionVideo string string
  | TrendBump string string string

definition subjectOf :: "ext \<Rightarrow> uuid option \<Rightarrow> string option \<Rightarrow> string option \<Rightarrow> string" where
  "subjectOf X userID subjectID sessionID =
     (case userID of Some u \<Rightarrow> uuid_string X u
      | None \<Rightarrow> if DerefStr subjectID \<noteq> [] then DerefStr subjectID else DerefStr sessionID)"

definition eventTime :: "int \<Rightarrow> envelope \<Rightarrow> int" where
  "eventTime wall ev = (if ev_occurred_at ev = zero_time then wall else ev_occurred_at ev)"

text \<open>\<open>strings.TrimSpace\<close>: the white space at both ends; a space is one rune of \<open>space_width\<close> bytes.\<close>

function trim_left :: "string \<Rightarrow> string" where
  "trim_left s = (if space_width s = 0 then s else trim_left (drop (space_width s) s))"
  by auto
termination
proof (relation "measure length")
  fix s :: string assume "space_width s \<noteq> 0"
  then have "s \<noteq> []" by auto
  with \<open>space_width s \<noteq> 0\<close> show "(drop (space_width s) s, s) \<in> measure length" by simp
qed simp

declare trim_left.simps [simp del]

text \<open>Cut the string where nothing but white space is left.\<close>

fun trim_right :: "string \<Rightarrow> string" where
  "trim_right [] = []"
| "trim_right (c # s) = (if trim_left (c # s) = [] then [] else c # trim_right s)"

definition TrimSpace :: "string \<Rightarrow> string" where
  "TrimSpace s = trim_right (trim_left s)"

section \<open>The ledger row\<close>

definition insertBehavior ::
  "ext \<Rightarrow> int \<Rightarrow> envelope \<Rightarrow> uuid option \<Rightarrow> string option \<Rightarrow> string option \<Rightarrow> uuid option \<Rightarrow> int option
     \<Rightarrow> string option \<Rightarrow> db \<Rightarrow> sql_error + db" where
  "insertBehavior X wall ev user session nq vid position model s =
     InsertBehaviorEvent X \<lparr> be_id = 0, be_event_id = ev_event_id ev, be_type = ev_type ev,
       be_user_id = user, be_session_id = session, be_normalized_query = nq, be_video_id = vid,
       be_position = position, be_model_version = model, be_occurred_at = eventTime wall ev,
       be_props = (case ev_payload ev of Some j \<Rightarrow> j | None \<Rightarrow> JNull) \<rparr> s"

definition upsertProjection :: "event_config \<Rightarrow> int \<Rightarrow> uuid \<Rightarrow> uuid \<Rightarrow> real \<Rightarrow> db \<Rightarrow> db" where
  "upsertProjection cfg now user vid delta s = UpsertWatchProjection now (WatchHalfLifeHours cfg) user vid delta s"

text \<open>Sequencing: the next statement runs on the database the last one left.\<close>

definition andThen :: "sql_error + 'a \<Rightarrow> ('a \<Rightarrow> sql_error + 'b) \<Rightarrow> sql_error + 'b" where
  "andThen r f = (case r of Inl e \<Rightarrow> Inl e | Inr s \<Rightarrow> f s)"

definition decoded :: "'a option \<Rightarrow> sql_error + 'a" where
  "decoded p = (case p of None \<Rightarrow> Inl SqlError | Some x \<Rightarrow> Inr x)"

section \<open>Behavioural events\<close>

definition applySearchSubmitted ::
  "ext \<Rightarrow> int \<Rightarrow> envelope \<Rightarrow> behavior \<Rightarrow> db \<Rightarrow> sql_error + (effect list \<times> db)" where
  "applySearchSubmitted X wall ev p s =
     (let query = DerefStr (b_query p); nq = normalize X query; display = TrimSpace query in
      andThen (insertBehavior X wall ev (b_user_id p) (b_session_id p) (OptStr nq) None None None s) (\<lambda>s1.
      andThen (if nq \<noteq> []
               then AppendQueryLog \<lparr> ql_id = 0, ql_event_id = Some (ev_event_id ev), ql_normalized_query = nq,
                 ql_display_query = display, ql_user_id = b_user_id p, ql_session_id = b_session_id p,
                 ql_subject_id = b_subject_id p, ql_results_count = b_results_count p,
                 ql_submitted_at = eventTime wall ev \<rparr> s1
               else Inr s1) (\<lambda>s2.
      andThen (case b_user_id p of
                 Some u \<Rightarrow> if b_allow_history p \<and> nq \<noteq> []
                   then UpsertUserSearchHistory u nq display (eventTime wall ev) s2 else Inr s2
               | None \<Rightarrow> Inr s2) (\<lambda>s3.
      Inr ((if DerefStr (b_session_id p) \<noteq> [] \<and> nq \<noteq> [] then [SessionQuery (DerefStr (b_session_id p)) nq] else [])
           @ (if nq \<noteq> [] then [TrendBump ''q'' nq (subjectOf X (b_user_id p) (b_subject_id p) (b_session_id p))] else []),
           s3)))))"

definition applyPlayStarted ::
  "ext \<Rightarrow> event_config \<Rightarrow> int \<Rightarrow> int \<Rightarrow> envelope \<Rightarrow> behavior \<Rightarrow> db \<Rightarrow> sql_error + (effect list \<times> db)" where
  "applyPlayStarted X cfg now wall ev p s =
     (let nq = (case b_query p of None \<Rightarrow> [] | Some q \<Rightarrow> normalize X q); vid = b_video_id p in
      andThen (insertBehavior X wall ev (b_user_id p) (b_session_id p) (OptStr nq) (Some vid) None None s) (\<lambda>s1.
      let s2 = (case b_user_id p of
                  Some u \<Rightarrow> if personalizationAllowed p then upsertProjection cfg now u vid weightPlayStarted s1 else s1
                | None \<Rightarrow> s1)
      in Inr ((if DerefStr (b_session_id p) \<noteq> [] then [SessionVideo (DerefStr (b_session_id p)) (uuid_string X vid)] else [])
              @ [TrendBump ''v'' (uuid_string X vid) (subjectOf X (b_user_id p) (b_subject_id p) (b_session_id p))], s2)))"

definition applyCompleted ::
  "ext \<Rightarrow> event_config \<Rightarrow> int \<Rightarrow> int \<Rightarrow> envelope \<Rightarrow> behavior \<Rightarrow> db \<Rightarrow> sql_error + (effect list \<times> db)" where
  "applyCompleted X cfg now wall ev p s =
     andThen (insertBehavior X wall ev (b_user_id p) (b_session_id p) None (Some (b_video_id p)) None None s) (\<lambda>s1.
     Inr ([], case b_user_id p of
                Some u \<Rightarrow> if personalizationAllowed p then upsertProjection cfg now u (b_video_id p) weightCompleted s1 else s1
              | None \<Rightarrow> s1))"

definition applyBehavioral ::
  "ext \<Rightarrow> event_config \<Rightarrow> int \<Rightarrow> int \<Rightarrow> envelope \<Rightarrow> db \<Rightarrow> sql_error + (effect list \<times> db)" where
  "applyBehavioral X cfg now wall ev s =
     (let only = (\<lambda>r. andThen r (\<lambda>s1. Inr ([], s1))) in
      if ev_type ev = TypeSearchSubmitted then
        andThen (decoded (searchSubmitted X (ev_payload ev))) (\<lambda>p. applySearchSubmitted X wall ev p s)
      else if ev_type ev = TypeVideoPlayStarted then
        andThen (decoded (playStarted X (ev_payload ev))) (\<lambda>p. applyPlayStarted X cfg now wall ev p s)
      else if ev_type ev = TypeVideoCompleted then
        andThen (decoded (videoCompleted X (ev_payload ev))) (\<lambda>p. applyCompleted X cfg now wall ev p s)
      else if ev_type ev = TypeVideoWatchProgress then
        andThen (decoded (watchProgress X (ev_payload ev))) (\<lambda>p.
          only (insertBehavior X wall ev (b_user_id p) (b_session_id p) None (Some (b_video_id p)) None None s))
      else if ev_type ev = TypeSearchResultClicked then
        andThen (decoded (resultClicked X (ev_payload ev))) (\<lambda>p.
          only (insertBehavior X wall ev (b_user_id p) (b_session_id p) (OptStr (normalize X (DerefStr (b_query p))))
            (Some (b_video_id p)) (b_position p) (b_model_version p) s))
      else if ev_type ev = TypeVideoImpression then
        andThen (decoded (impression X (ev_payload ev))) (\<lambda>p.
          only (insertBehavior X wall ev (b_user_id p) (b_session_id p)
            (OptStr (case b_query p of None \<Rightarrow> [] | Some q \<Rightarrow> normalize X q))
            (Some (b_video_id p)) (b_position p) (b_model_version p) s))
      else if ev_type ev = TypeSearchSuggShown \<or> ev_type ev = TypeSearchSuggSelected then
        andThen (decoded (suggestionEvent X (ev_payload ev))) (\<lambda>p.
          only (insertBehavior X wall ev (b_user_id p) (b_session_id p) None None (b_position p) None s))
      else Inr ([], s))"

section \<open>Domain events\<close>

definition applyVideoUpsert :: "int \<Rightarrow> int \<Rightarrow> video_doc \<Rightarrow> uuid option \<Rightarrow> db \<Rightarrow> sql_error + db" where
  "applyVideoUpsert now wall v run s =
     (let (eligible, reason) = Eligible (v_privacy v) (v_state v);
          src = (case v_updated_at v of Some t \<Rightarrow> Some t | None \<Rightarrow> v_created_at v)
      in UpsertDocument now \<lparr> d_video_id = v_id v, d_kind = (if v_kind v = [] then ''local'' else v_kind v),
           d_channel_id = v_channel_id v, d_channel_handle = v_channel_handle v,
           d_channel_name = v_channel_name v, d_owner_id = v_owner_id v, d_title = v_title v,
           d_description = v_description v,
           d_tags = map Some (case v_tags v of None \<Rightarrow> [] | Some ts \<Rightarrow> ts),
           d_category = v_category v, d_language = v_language v, d_license = v_license v,
           d_duration_seconds = v_duration_seconds v, d_is_sensitive = v_is_sensitive v,
           d_eligible = eligible, d_suppressed_reason = (if eligible then None else Some reason),
           d_views = v_views v, d_likes = v_likes v, d_published_at = v_published_at v,
           d_source_updated_at = (case src of Some t \<Rightarrow> t | None \<Rightarrow> wall), d_indexed_at = now,
           d_reconcile_run_id = run \<rparr> s)"

fun applyVideoUpserts :: "int \<Rightarrow> int \<Rightarrow> uuid \<Rightarrow> video_doc list \<Rightarrow> db \<Rightarrow> sql_error + db" where
  "applyVideoUpserts now wall run [] s = Inr s"
| "applyVideoUpserts now wall run (v # vs) s =
     andThen (applyVideoUpsert now wall v (Some run) s) (applyVideoUpserts now wall run vs)"

definition applyHistoryDeleted :: "ext \<Rightarrow> history_deleted \<Rightarrow> db \<Rightarrow> db" where
  "applyHistoryDeleted X p s =
     (let u = hd_user_id p; scope = hd_scope p;
          s1 = (if scope = ''watch'' \<or> scope = ''all'' then PurgeUserWatchProjection u s else s)
      in if scope = ''search'' \<or> scope = ''all''
         then DeleteBehaviorEventsForUser X u (DeleteQueryLogForUser u (DeleteUserSearchHistory u s1))
         else s1)"

text \<open>An integer literal up to \<open>2 ^ 53\<close> is exact as a \<open>float64\<close>.\<close>

definition stringifyConfigValue :: "ext \<Rightarrow> json \<Rightarrow> string" where
  "stringifyConfigValue X v = (case v of
      JStr t \<Rightarrow> t
    | JBool b \<Rightarrow> (if b then ''true'' else ''false'')
    | JNum n \<Rightarrow> (case ParseInt n of
          Some i \<Rightarrow> if \<bar>i\<bar> \<le> 2 ^ 53 then FormatInt i else DerefStr (float_text X n)
        | None \<Rightarrow> DerefStr (float_text X n))
    | JNull \<Rightarrow> []
    | _ \<Rightarrow> tree_text X v)"

fun upsert_settings :: "ext \<Rightarrow> int \<Rightarrow> (string \<times> json) list \<Rightarrow> db \<Rightarrow> sql_error + db" where
  "upsert_settings X now [] s = Inr s"
| "upsert_settings X now ((k, v) # kvs) s =
     andThen (UpsertServiceConfig now k (stringifyConfigValue X v) s) (upsert_settings X now kvs)"

text \<open>\<open>dispatch\<close>, without the label it returns for the metrics.\<close>

definition dispatch ::
  "ext \<Rightarrow> event_config \<Rightarrow> int \<Rightarrow> int \<Rightarrow> envelope \<Rightarrow> db \<Rightarrow> sql_error + (effect list \<times> db)" where
  "dispatch X cfg now wall ev s =
     (let typ = ev_type ev; payload = ev_payload ev; quiet = (\<lambda>r. andThen r (\<lambda>s1. Inr ([], s1))) in
      if typ = TypeVideoUpsert then
        andThen (decoded (videoUpsert X payload)) (\<lambda>v. quiet (applyVideoUpsert now wall v None s))
      else if typ = TypeVideoSuppress then
        andThen (decoded (videoSuppress X payload)) (\<lambda>p.
          quiet (SuppressDocument now (vs_video_id p) (Some (vs_reason p)) s))
      else if typ = TypeVideoStats then
        andThen (decoded (videoStats X payload)) (\<lambda>p.
          Inr ([], UpdateDocumentStats now (vt_video_id p) (vt_views p) (vt_likes p) s))
      else if typ = TypeChannelUpsert then
        andThen (decoded (channelUpsert X payload)) (\<lambda>c.
          quiet (UpdateChannelDocuments now (ch_id c) (Some (ch_handle c)) (Some (ch_display_name c)) (ch_owner_id c) s))
      else if typ = TypeChannelDelete then
        andThen (decoded (channelDelete X payload)) (\<lambda>c.
          Inr ([], SuppressChannelDocuments now c (Some ''channel_deleted'') s))
      else if typ = TypeUserSuppress then
        andThen (decoded (userSuppress X payload)) (\<lambda>p.
          Inr ([], if us_unlisted p then SuppressOwnerDocuments now (us_user_id p) (Some ''owner_unlisted'') s
                   else RestoreOwnerDocuments now (us_user_id p) (Some ''owner_unlisted'') s))
      else if typ = TypeConfigUpdated then
        andThen (decoded (configUpdated X payload)) (\<lambda>kvs. quiet (upsert_settings X now kvs s))
      else if typ = TypeReconcileBegin then Inr ([], s)
      else if typ = TypeReconcilePage then
        andThen (decoded (reconcilePage X payload)) (\<lambda>p.
          quiet (applyVideoUpserts now wall (rp_run_id p) (case rp_videos p of None \<Rightarrow> [] | Some vs \<Rightarrow> vs) s))
      else if typ = TypeReconcileEnd then
        andThen (decoded (reconcileEnd X payload)) (\<lambda>p. Inr ([], s))
      else if typ = TypeUserHistoryDel then
        andThen (decoded (userHistoryDeleted X payload)) (\<lambda>p. Inr ([], applyHistoryDeleted X p s))
      else if isBehavioral typ then applyBehavioral X cfg now wall ev s
      else Inr ([], s))"

section \<open>The batch\<close>

definition applyOne ::
  "ext \<Rightarrow> event_config \<Rightarrow> int \<Rightarrow> int \<Rightarrow> envelope \<Rightarrow> db \<Rightarrow> (outcome \<times> effect list) \<times> db" where
  "applyOne X cfg now wall ev s =
     (case InsertInboxEvent now (ev_event_id ev) (ev_type ev) s of
        Inl e \<Rightarrow> ((Failed ''apply_failed'', []), s)
      | Inr None \<Rightarrow> ((Duplicate, []), s)
      | Inr (Some s1) \<Rightarrow>
          (case dispatch X cfg now wall ev s1 of
             Inl e \<Rightarrow> ((Failed ''apply_failed'', []), s)
           | Inr (effects, s2) \<Rightarrow> ((Accepted, effects), s2)))"

definition legacyCatalogBlocked :: "envelope list \<Rightarrow> db \<Rightarrow> bool" where
  "legacyCatalogBlocked evs s = ((\<exists>ev \<in> set evs. isLegacyCatalogType (ev_type ev)) \<and> scope_of s ''local'' \<noteq> None)"

definition ingest_one ::
  "ext \<Rightarrow> event_config \<Rightarrow> bool \<Rightarrow> int \<Rightarrow> (nat \<Rightarrow> int) \<Rightarrow> nat \<Rightarrow> envelope \<Rightarrow> db \<Rightarrow> (outcome \<times> effect list) \<times> db" where
  "ingest_one X cfg blocked now wall i ev s =
     (if blocked \<and> isLegacyCatalogType (ev_type ev) then ((Failed ''catalog_legacy_disabled'', []), s)
      else applyOne X cfg now (wall i) ev s)"

fun ingest_loop ::
  "ext \<Rightarrow> event_config \<Rightarrow> bool \<Rightarrow> int \<Rightarrow> (nat \<Rightarrow> int) \<Rightarrow> nat \<Rightarrow> envelope list \<Rightarrow> db
     \<Rightarrow> (outcome \<times> effect list) list \<times> db" where
  "ingest_loop X cfg blocked now wall i [] s = ([], s)"
| "ingest_loop X cfg blocked now wall i (ev # evs) s =
     (let (r, s1) = ingest_one X cfg blocked now wall i ev s;
          (rs, s2) = ingest_loop X cfg blocked now wall (Suc i) evs s1
      in (r # rs, s2))"

text \<open>\<open>Ingest\<close>; \<open>tx\<close> tells whether the transaction begins (and the admission is read) and whether it
  commits. The effects are those the caller runs after the commit.\<close>

definition Ingest ::
  "ext \<Rightarrow> event_config \<Rightarrow> bool \<times> bool \<Rightarrow> int \<Rightarrow> (nat \<Rightarrow> int) \<Rightarrow> envelope list \<Rightarrow> db
     \<Rightarrow> (result \<times> effect list) option \<times> db" where
  "Ingest X cfg tx now wall evs s =
     (if evs = [] then (Some (empty_result, []), s)
      else if \<not> fst tx then (None, s)
      else (let (rs, s') = ingest_loop X cfg (legacyCatalogBlocked evs s) now wall 0 evs s
            in if snd tx then (Some (collect_result evs (map fst rs), concat (map snd rs)), s') else (None, s)))"

end
