(* ===== verification/EventLemmas.thy ===== *)
theory EventLemmas
  imports EventIngest
begin

text \<open>
  What the ingestion of events keeps and when it fails. The relations that every statement of
  the intake establishes and that compose are the locale \<open>statement_relation\<close>; its lemmas
  carry such a relation through an event and through a batch. The loop is a batch of
  savepoints in the sense of \<open>savepoint_batch\<close>.
\<close>

section \<open>Sequencing\<close>

lemma andThen_Inr: "andThen r f = Inr y \<longleftrightarrow> (\<exists>x. r = Inr x \<and> f x = Inr y)"
  by (simp add: andThen_def split: sum.split)

lemma decoded_Inr: "decoded p = Inr x \<longleftrightarrow> p = Some x"
  by (simp add: decoded_def split: option.split)

lemma andThen_E:
  assumes "andThen r f = Inr y"
  obtains x where "r = Inr x" "f x = Inr y"
  using assms by (auto simp: andThen_Inr)

text \<open>Failure does not depend on the state: a statement is rejected for its arguments alone.\<close>

lemma isl_andThen:
  "isl r = isl r' \<Longrightarrow> (\<And>x y. isl (f x) = isl (f' y)) \<Longrightarrow> isl (andThen r f) = isl (andThen r' f')"
  by (cases r; cases r') (auto simp: andThen_def)

lemma isl_decoded:
  "(\<And>x. isl (f x) = isl (f' x)) \<Longrightarrow> isl (andThen (decoded p) f) = isl (andThen (decoded p) f')"
  by (simp add: andThen_def decoded_def split: option.split)

lemma isl_UpsertDocument: "isl (UpsertDocument now arg s) \<longleftrightarrow> \<not> doc_valid arg"
  by (simp add: UpsertDocument_def Let_def doc_valid_def doc_texts_def)

lemma isl_InsertBehaviorEvent:
  "isl (InsertBehaviorEvent X row s) \<longleftrightarrow> jsonb_in X (be_props row) = None
     \<or> \<not> pg_text (be_type row) \<or> \<not> list_all pg_text_opt [be_session_id row, be_normalized_query row, be_model_version row]"
  by (simp add: InsertBehaviorEvent_def Let_def split: option.split)

lemma isl_statements:
  "isl (SuppressDocument now vid reason s) \<longleftrightarrow> \<not> pg_text_opt reason"
  "isl (UpdateChannelDocuments now ch h n ow s) \<longleftrightarrow> \<not> pg_text_opt h \<or> \<not> pg_text_opt n"
  "isl (UpsertServiceConfig now k v s) \<longleftrightarrow> \<not> pg_text k \<or> \<not> pg_text v"
  "isl (UpsertUserSearchHistory u nq dq t s) \<longleftrightarrow> \<not> pg_text nq \<or> \<not> pg_text dq"
  "isl (AppendQueryLog row s) \<longleftrightarrow>
     \<not> list_all pg_text_opt [Some (ql_normalized_query row), Some (ql_display_query row), ql_session_id row, ql_subject_id row]"
  by (simp_all add: SuppressDocument_def UpdateChannelDocuments_def UpsertServiceConfig_def
      UpsertUserSearchHistory_def AppendQueryLog_def Let_def)

lemma isl_insertBehavior:
  "isl (insertBehavior X wall ev u se nq v p m s) = isl (insertBehavior X wall' ev u se nq v p m s')"
  by (simp add: insertBehavior_def isl_InsertBehaviorEvent)

lemma isl_applyVideoUpsert: "isl (applyVideoUpsert now wall v run s) = isl (applyVideoUpsert now' wall' v run s')"
  by (simp add: applyVideoUpsert_def Let_def isl_UpsertDocument doc_valid_def doc_texts_def split: prod.split)

lemma isl_applyVideoUpserts:
  "isl (applyVideoUpserts now wall run vs s) = isl (applyVideoUpserts now' wall' run vs s')"
proof (induction vs arbitrary: s s')
  case (Cons v vs)
  show ?case
    unfolding applyVideoUpserts.simps by (rule isl_andThen) (rule isl_applyVideoUpsert, rule Cons.IH)
qed simp

lemma isl_upsert_settings: "isl (upsert_settings X now kvs s) = isl (upsert_settings X now' kvs s')"
proof (induction kvs arbitrary: s s')
  case (Cons kv kvs)
  obtain k v where kv: "kv = (k, v)" by fastforce
  show ?case
    unfolding kv upsert_settings.simps by (rule isl_andThen) (simp add: isl_statements, rule Cons.IH)
qed simp

lemma isl_applySearchSubmitted:
  "isl (applySearchSubmitted X wall ev p s) = isl (applySearchSubmitted X wall' ev p s')"
  unfolding applySearchSubmitted_def Let_def
  by (intro isl_andThen isl_insertBehavior) (auto simp: isl_statements split: option.split)

lemma isl_applyPlayStarted:
  "isl (applyPlayStarted X cfg now wall ev p s) = isl (applyPlayStarted X cfg now' wall' ev p s')"
  unfolding applyPlayStarted_def Let_def by (intro isl_andThen isl_insertBehavior) simp

lemma isl_applyCompleted:
  "isl (applyCompleted X cfg now wall ev p s) = isl (applyCompleted X cfg now' wall' ev p s')"
  unfolding applyCompleted_def by (intro isl_andThen isl_insertBehavior) simp

lemma isl_if: "(b \<Longrightarrow> isl x = isl x') \<Longrightarrow> (\<not> b \<Longrightarrow> isl y = isl y') \<Longrightarrow> isl (if b then x else y) = isl (if b then x' else y')"
  by simp

lemma isl_applyBehavioral:
  "isl (applyBehavioral X cfg now wall ev s) = isl (applyBehavioral X cfg now' wall' ev s')"
  unfolding applyBehavioral_def Let_def
  by (intro isl_if isl_decoded isl_applySearchSubmitted isl_applyPlayStarted isl_applyCompleted)
    ((rule isl_andThen, rule isl_insertBehavior, simp) | simp)+

lemma isl_dispatch: "isl (dispatch X cfg now wall ev s) = isl (dispatch X cfg now' wall' ev s')"
  unfolding dispatch_def Let_def
  by (intro isl_if isl_decoded isl_applyBehavioral)
    ((rule isl_andThen, (rule isl_applyVideoUpsert isl_applyVideoUpserts isl_upsert_settings | simp add: isl_statements), simp) | simp)+

section \<open>Relations that hold across every statement\<close>

text \<open>\<open>reaches\<close> speaks of a statement, \<open>leads\<close> of a step that also returns effects.\<close>

definition reaches :: "(db \<Rightarrow> db \<Rightarrow> bool) \<Rightarrow> db \<Rightarrow> sql_error + db \<Rightarrow> bool" where
  "reaches R s r \<longleftrightarrow> (\<forall>s'. r = Inr s' \<longrightarrow> R s s')"

definition leads :: "(db \<Rightarrow> db \<Rightarrow> bool) \<Rightarrow> db \<Rightarrow> sql_error + (effect list \<times> db) \<Rightarrow> bool" where
  "leads R s r \<longleftrightarrow> (\<forall>e s'. r = Inr (e, s') \<longrightarrow> R s s')"

lemma leads_if: "(b \<Longrightarrow> leads R s x) \<Longrightarrow> (\<not> b \<Longrightarrow> leads R s y) \<Longrightarrow> leads R s (if b then x else y)"
  by simp

lemma leads_decoded: "(\<And>p. q = Some p \<Longrightarrow> leads R s (f p)) \<Longrightarrow> leads R s (andThen (decoded q) f)"
  by (simp add: leads_def andThen_Inr decoded_Inr) blast

text \<open>Whose history and whose projection an event may write.\<close>

definition history_user :: "ext \<Rightarrow> envelope \<Rightarrow> uuid option" where
  "history_user X ev = (if CollectsSearchHistory X (ev_type ev) (ev_payload ev)
     then Option.bind (searchSubmitted X (ev_payload ev)) b_user_id else None)"

definition projection_user :: "ext \<Rightarrow> envelope \<Rightarrow> uuid option" where
  "projection_user X ev = (if FeedsWatchProjection X (ev_type ev) (ev_payload ev)
     then Option.bind (if ev_type ev = TypeVideoPlayStarted then playStarted X (ev_payload ev)
            else videoCompleted X (ev_payload ev)) b_user_id else None)"

definition permitted :: "ext \<Rightarrow> (uuid \<Rightarrow> bool) \<Rightarrow> (uuid \<Rightarrow> bool) \<Rightarrow> envelope \<Rightarrow> bool" where
  "permitted X hist proj ev \<longleftrightarrow> pred_option hist (history_user X ev) \<and> pred_option proj (projection_user X ev)"

lemma permitted_all [simp]: "permitted X (\<lambda>u. True) (\<lambda>u. True) ev"
  by (simp add: permitted_def option.pred_True)

lemma permitted_search:
  assumes "permitted X hist proj ev" "ev_type ev = TypeSearchSubmitted" "searchSubmitted X (ev_payload ev) = Some p"
    "b_user_id p = Some u" "b_allow_history p"
  shows "hist u"
  using assms by (simp add: permitted_def history_user_def CollectsSearchHistory_def)

lemma permitted_play:
  assumes "permitted X hist proj ev" "ev_type ev = TypeVideoPlayStarted" "playStarted X (ev_payload ev) = Some p"
    "b_user_id p = Some u" "personalizationAllowed p"
  shows "proj u"
  using assms by (simp add: permitted_def projection_user_def FeedsWatchProjection_def)

lemma permitted_completed:
  assumes "permitted X hist proj ev" "ev_type ev \<noteq> TypeVideoPlayStarted" "ev_type ev = TypeVideoCompleted"
    "videoCompleted X (ev_payload ev) = Some p" "b_user_id p = Some u" "personalizationAllowed p"
  shows "proj u"
  using assms by (simp add: permitted_def projection_user_def FeedsWatchProjection_def)

text \<open>The statements the intake may run beside a catalog authority: every write but those of the
  legacy document events.\<close>

locale observation_relation =
  fixes R :: "db \<Rightarrow> db \<Rightarrow> bool" and hist :: "uuid \<Rightarrow> bool" and proj :: "uuid \<Rightarrow> bool"
  assumes refl: "R s s"
    and trans: "R s s1 \<Longrightarrow> R s1 s2 \<Longrightarrow> R s s2"
    and UpdateDocumentStats: "R s (UpdateDocumentStats now vid vs ls s)"
    and InsertInboxEvent: "InsertInboxEvent now eid typ s = Inr (Some s') \<Longrightarrow> R s s'"
    and UpsertServiceConfig: "UpsertServiceConfig now k cv s = Inr s' \<Longrightarrow> R s s'"
    and InsertBehaviorEvent: "InsertBehaviorEvent X row s = Inr s' \<Longrightarrow> R s s'"
    and AppendQueryLog: "AppendQueryLog qrow s = Inr s' \<Longrightarrow> R s s'"
    and UpsertUserSearchHistory: "hist u \<Longrightarrow> UpsertUserSearchHistory u nq dq t s = Inr s' \<Longrightarrow> R s s'"
    and UpsertWatchProjection: "proj u \<Longrightarrow> R s (UpsertWatchProjection now hl u v delta s)"
    and DeleteUserSearchHistory: "R s (DeleteUserSearchHistory u s)"
    and PurgeUserWatchProjection: "R s (PurgeUserWatchProjection u s)"
    and DeleteQueryLogForUser: "R s (DeleteQueryLogForUser u s)"
    and DeleteBehaviorEventsForUser: "R s (DeleteBehaviorEventsForUser X u s)"
begin

lemma reaches_andThen: "reaches R s r \<Longrightarrow> (\<And>x. reaches R x (f x)) \<Longrightarrow> reaches R s (andThen r f)"
  unfolding reaches_def andThen_Inr using trans by blast

lemma leads_andThen: "reaches R s r \<Longrightarrow> (\<And>x. leads R x (f x)) \<Longrightarrow> leads R s (andThen r f)"
  unfolding reaches_def leads_def andThen_Inr using trans by blast

lemma leads_quiet: "reaches R s r \<Longrightarrow> leads R s (andThen r (\<lambda>x. Inr ([], x)))"
  by (rule leads_andThen) (simp_all add: leads_def refl)

lemma leads_same: "leads R s (Inr (e, s))"
  by (simp add: leads_def refl)

lemma reaches_same: "reaches R s (Inr s)"
  by (simp add: reaches_def refl)

lemma insertBehavior_reaches: "reaches R s (insertBehavior X wall ev u se nq v p m s)"
  unfolding insertBehavior_def reaches_def using InsertBehaviorEvent by blast

lemma applySearchSubmitted_leads:
  assumes "\<And>u. b_user_id p = Some u \<Longrightarrow> b_allow_history p \<Longrightarrow> hist u"
  shows "leads R s (applySearchSubmitted X wall ev p s)"
proof -
  have log: "reaches R s (if b then AppendQueryLog row s else Inr s)" for b row s
    using AppendQueryLog refl by (simp add: reaches_def)
  have own: "reaches R s (case b_user_id p of None \<Rightarrow> Inr s
      | Some u \<Rightarrow> if b_allow_history p \<and> b then UpsertUserSearchHistory u nq dq t s else Inr s)" for b nq dq t s
    using UpsertUserSearchHistory assms refl by (simp add: reaches_def split: option.split) blast
  show ?thesis
    unfolding applySearchSubmitted_def Let_def
    by (rule leads_andThen [OF insertBehavior_reaches], rule leads_andThen [OF log],
        rule leads_andThen [OF own], rule leads_same)
qed

lemma projection_leads:
  assumes "\<And>u. b_user_id p = Some u \<Longrightarrow> personalizationAllowed p \<Longrightarrow> proj u"
  shows "leads R s (Inr (e, case b_user_id p of None \<Rightarrow> s
    | Some u \<Rightarrow> if personalizationAllowed p then upsertProjection cfg now u v w s else s))"
  using assms UpsertWatchProjection refl by (simp add: leads_def upsertProjection_def split: option.split)

lemma applyPlayStarted_leads:
  assumes "\<And>u. b_user_id p = Some u \<Longrightarrow> personalizationAllowed p \<Longrightarrow> proj u"
  shows "leads R s (applyPlayStarted X cfg now wall ev p s)"
  unfolding applyPlayStarted_def Let_def
  by (rule leads_andThen [OF insertBehavior_reaches], rule projection_leads [OF assms])

lemma applyCompleted_leads:
  assumes "\<And>u. b_user_id p = Some u \<Longrightarrow> personalizationAllowed p \<Longrightarrow> proj u"
  shows "leads R s (applyCompleted X cfg now wall ev p s)"
  unfolding applyCompleted_def
  by (rule leads_andThen [OF insertBehavior_reaches], rule projection_leads [OF assms])

lemma applyBehavioral_leads:
  assumes "permitted X hist proj ev"
  shows "leads R s (applyBehavioral X cfg now wall ev s)"
  unfolding applyBehavioral_def Let_def
  using permitted_search [OF assms] permitted_play [OF assms] permitted_completed [OF assms]
  by (intro leads_if leads_decoded applySearchSubmitted_leads applyPlayStarted_leads applyCompleted_leads
      leads_quiet insertBehavior_reaches leads_same) blast+

lemma upsert_settings_reaches: "reaches R s (upsert_settings X now kvs s)"
proof (induction kvs arbitrary: s)
  case (Cons kv kvs)
  obtain k v where kv: "kv = (k, v)" by fastforce
  have "reaches R s (UpsertServiceConfig now k (stringifyConfigValue X v) s)"
    using UpsertServiceConfig by (simp add: reaches_def)
  then show ?case
    unfolding kv upsert_settings.simps by (rule reaches_andThen) (rule Cons.IH)
qed (simp add: reaches_same)

lemma applyHistoryDeleted_rel: "R s (applyHistoryDeleted X p s)"
proof -
  have w: "R s (if b then PurgeUserWatchProjection u s else s)" for b u
    using PurgeUserWatchProjection refl by simp
  have d: "R t (DeleteBehaviorEventsForUser X u (DeleteQueryLogForUser u (DeleteUserSearchHistory u t)))" for u t
    using trans [OF DeleteUserSearchHistory trans [OF DeleteQueryLogForUser DeleteBehaviorEventsForUser]] .
  have two: "R s (if c then DeleteBehaviorEventsForUser X u (DeleteQueryLogForUser u (DeleteUserSearchHistory u t)) else t)"
    if "R s t" for c u t
    using that trans [OF that d] by simp
  show ?thesis
    unfolding applyHistoryDeleted_def Let_def by (rule two [OF w])
qed

lemma dispatch_kept:
  assumes "permitted X hist proj ev" "\<not> isLegacyCatalogType (ev_type ev)"
  shows "leads R s (dispatch X cfg now wall ev s)"
proof -
  have stmts: "leads R s (Inr ([], UpdateDocumentStats now vid vs ls s))"
    "leads R s (Inr ([], applyHistoryDeleted X p s))" for vid vs ls p
    using UpdateDocumentStats applyHistoryDeleted_rel by (simp_all add: leads_def)
  have types: "ev_type ev \<noteq> TypeVideoUpsert" "ev_type ev \<noteq> TypeVideoSuppress" "ev_type ev \<noteq> TypeChannelUpsert"
    "ev_type ev \<noteq> TypeChannelDelete" "ev_type ev \<noteq> TypeUserSuppress" "ev_type ev \<noteq> TypeReconcilePage"
    using assms(2) by (simp_all add: isLegacyCatalogType_def)
  show ?thesis
    unfolding dispatch_def Let_def if_not_P [OF types(1)] if_not_P [OF types(2)] if_not_P [OF types(3)]
      if_not_P [OF types(4)] if_not_P [OF types(5)] if_not_P [OF types(6)]
    by (intro leads_if leads_decoded leads_quiet upsert_settings_reaches applyBehavioral_leads [OF assms(1)]
        leads_same stmts)
qed

lemma applyOne_rel:
  assumes "\<And>s w. leads R s (dispatch X cfg now w ev s)"
  shows "R s (snd (applyOne X cfg now wall ev s))"
proof -
  have "R s s2" if "InsertInboxEvent now (ev_event_id ev) (ev_type ev) s = Inr (Some s1)"
      "dispatch X cfg now wall ev s1 = Inr (e, s2)" for s1 s2 e
    using trans [OF InsertInboxEvent [OF that(1)]] assms [of s1 wall] that(2) by (simp add: leads_def)
  then show ?thesis
    using refl by (auto simp: applyOne_def split: sum.split option.split prod.split)
qed

lemma ingest_one_kept:
  assumes "permitted X hist proj ev"
  shows "R s (snd (ingest_one X cfg True now wall i ev s))"
  using applyOne_rel [OF dispatch_kept [OF assms]] refl by (simp add: ingest_one_def)

lemma loop_rel:
  assumes "\<And>ev i s. ev \<in> set evs \<Longrightarrow> R s (snd (ingest_one X cfg blocked now wall i ev s))"
  shows "R s (snd (ingest_loop X cfg blocked now wall i evs s))"
  using assms
proof (induction evs arbitrary: i s)
  case (Cons ev evs)
  then show ?case
    using trans [OF Cons.prems [of ev s i] Cons.IH] by (simp add: Let_def split_beta)
qed (simp add: refl)

end

text \<open>\<open>hist\<close> and \<open>proj\<close> are the users whose personal rows may be written.\<close>

locale statement_relation = observation_relation +
  assumes UpsertDocument: "UpsertDocument now arg s = Inr s' \<Longrightarrow>
      (d_eligible arg \<longleftrightarrow> d_suppressed_reason arg = None) \<Longrightarrow> R s s'"
    and SuppressDocument: "SuppressDocument now vid (Some r) s = Inr s' \<Longrightarrow> R s s'"
    and UpdateChannelDocuments: "UpdateChannelDocuments now ch h n owner s = Inr s' \<Longrightarrow> R s s'"
    and SuppressChannelDocuments: "R s (SuppressChannelDocuments now ch (Some r) s)"
    and SuppressOwnerDocuments: "R s (SuppressOwnerDocuments now ow (Some r) s)"
    and RestoreOwnerDocuments: "R s (RestoreOwnerDocuments now ow (Some r) s)"
begin

lemma applyVideoUpsert_reaches: "reaches R s (applyVideoUpsert now wall v run s)"
  unfolding reaches_def applyVideoUpsert_def Let_def using UpsertDocument by (auto split: prod.split_asm)

lemma applyVideoUpserts_reaches: "reaches R s (applyVideoUpserts now wall run vs s)"
proof (induction vs arbitrary: s)
  case (Cons v vs)
  show ?case
    unfolding applyVideoUpserts.simps
    by (rule reaches_andThen [OF applyVideoUpsert_reaches]) (rule Cons.IH)
qed (simp add: reaches_same)

lemma dispatch_leads:
  assumes "permitted X hist proj ev"
  shows "leads R s (dispatch X cfg now wall ev s)"
proof -
  have stmts: "reaches R s (SuppressDocument now vid (Some r) s)"
    "reaches R s (UpdateChannelDocuments now ch h n ow s)"
    "leads R s (Inr ([], UpdateDocumentStats now vid vs ls s))"
    "leads R s (Inr ([], SuppressChannelDocuments now ch (Some r) s))"
    "leads R s (Inr ([], if b then SuppressOwnerDocuments now u (Some r) s else RestoreOwnerDocuments now u (Some r) s))"
    "leads R s (Inr ([], applyHistoryDeleted X p s))" for vid r ch h n ow vs ls b u p
    using SuppressDocument UpdateChannelDocuments UpdateDocumentStats SuppressChannelDocuments
      SuppressOwnerDocuments RestoreOwnerDocuments applyHistoryDeleted_rel
    by (simp_all add: reaches_def leads_def)
  show ?thesis
    unfolding dispatch_def Let_def
    by (intro leads_if leads_decoded leads_quiet applyVideoUpsert_reaches applyVideoUpserts_reaches
        upsert_settings_reaches applyBehavioral_leads [OF assms] leads_same stmts)
qed

lemma ingest_one_rel:
  assumes "permitted X hist proj ev"
  shows "R s (snd (ingest_one X cfg blocked now wall i ev s))"
  using applyOne_rel [OF dispatch_leads [OF assms]] refl by (simp add: ingest_one_def)

lemma ingest_loop_rel:
  "\<forall>ev \<in> set evs. permitted X hist proj ev \<Longrightarrow> R s (snd (ingest_loop X cfg blocked now wall i evs s))"
  by (rule loop_rel) (simp add: ingest_one_rel)

lemma Ingest_rel:
  "\<forall>ev \<in> set evs. permitted X hist proj ev \<Longrightarrow> R s (snd (Ingest X cfg tx now wall evs s))"
  using ingest_loop_rel refl by (simp add: Ingest_def Let_def split_beta)

end

text \<open>A relation that does not depend on whose rows are written holds across every batch.\<close>

locale free_relation = statement_relation R "\<lambda>u. True" "\<lambda>u. True" for R
begin

lemma dispatch_free: "leads R s (dispatch X cfg now wall ev s)"
  by (rule dispatch_leads) simp

lemma ingest_one_free: "R s (snd (ingest_one X cfg blocked now wall i ev s))"
  by (rule ingest_one_rel) simp

lemma ingest_loop_free: "R s (snd (ingest_loop X cfg blocked now wall i evs s))"
  by (rule ingest_loop_rel) simp

lemma Ingest_free: "R s (snd (Ingest X cfg tx now wall evs s))"
  by (rule Ingest_rel) simp

end

section \<open>What the intake leaves alone\<close>

text \<open>The catalog tables.\<close>

definition same_catalog :: "db \<Rightarrow> db \<Rightarrow> bool" where
  "same_catalog s s' \<longleftrightarrow> catalog_epochs s' = catalog_epochs s \<and> catalog_scopes s' = catalog_scopes s
     \<and> catalog_snapshots s' = catalog_snapshots s \<and> catalog_pages s' = catalog_pages s"

lemmas statements = UpsertDocument_def SuppressDocument_def UpdateDocumentStats_def UpdateChannelDocuments_def
  SuppressChannelDocuments_def SuppressOwnerDocuments_def RestoreOwnerDocuments_def InsertInboxEvent_def
  UpsertServiceConfig_def InsertBehaviorEvent_def AppendQueryLog_def UpsertUserSearchHistory_def
  UpsertWatchProjection_def DeleteUserSearchHistory_def PurgeUserWatchProjection_def
  DeleteQueryLogForUser_def DeleteBehaviorEventsForUser_def

interpretation catalog_untouched: free_relation same_catalog
  by unfold_locales
    (auto simp: same_catalog_def statements Let_def split: if_split_asm option.split_asm prod.split_asm)

text \<open>The inbox only grows.\<close>

definition inbox_grows :: "db \<Rightarrow> db \<Rightarrow> bool" where
  "inbox_grows s s' \<longleftrightarrow> ib_event_id ` set (events_inbox s) \<subseteq> ib_event_id ` set (events_inbox s')"

interpretation inbox: free_relation inbox_grows
  by unfold_locales
    (auto simp: inbox_grows_def statements Let_def sql_insert_ignore_def split: if_split_asm option.split_asm prod.split_asm)

section \<open>What the intake keeps\<close>

text \<open>A document is searchable exactly when no reason to hide it is recorded.\<close>

definition visible_doc :: "document \<Rightarrow> bool" where
  "visible_doc d \<longleftrightarrow> (d_eligible d \<longleftrightarrow> d_suppressed_reason d = None)"

definition visible_ok :: "db \<Rightarrow> bool" where
  "visible_ok s \<longleftrightarrow> (\<forall>d \<in> set (documents s). visible_doc d)"

lemma visible_update:
  "(\<And>d. visible_doc d \<Longrightarrow> visible_doc (f d)) \<Longrightarrow> visible_ok s \<Longrightarrow>
   visible_ok (s\<lparr> documents := sql_update P f (documents s) \<rparr>)"
  by (auto simp: visible_ok_def set_sql_update)

lemma visible_upsert:
  "visible_doc new \<Longrightarrow> (\<And>d. visible_doc d \<Longrightarrow> visible_doc (f d)) \<Longrightarrow> visible_ok s \<Longrightarrow>
   visible_ok (s\<lparr> documents := sql_upsert key new f (documents s) \<rparr>)"
  by (auto simp: visible_ok_def dest!: member_upsert)

lemma visible_same: "documents s' = documents s \<Longrightarrow> visible_ok s \<Longrightarrow> visible_ok s'"
  by (simp add: visible_ok_def)

lemma visible_doc_simps [simp]:
  "visible_doc (hide now (Some r) d)" "visible_doc (stub_document now vid (Some r))"
  "visible_doc (d\<lparr> d_views := vs, d_likes := ls, d_indexed_at := now \<rparr>) = visible_doc d"
  "visible_doc (d\<lparr> d_channel_handle := h, d_channel_name := n, d_owner_id := ow, d_indexed_at := now \<rparr>) = visible_doc d"
  "visible_doc (d\<lparr> d_eligible := True, d_suppressed_reason := None, d_indexed_at := now \<rparr>)"
  by (simp_all add: visible_doc_def hide_def stub_document_def)

lemma UpsertDocument_visible:
  assumes "UpsertDocument now arg s = Inr s'" "d_eligible arg \<longleftrightarrow> d_suppressed_reason arg = None" "visible_ok s"
  shows "visible_ok s'"
proof -
  have v: "visible_doc (arg\<lparr> d_published_at := a, d_source_updated_at := b, d_indexed_at := c, d_video_id := i,
      d_reconcile_run_id := r \<rparr>)" for i a b c r
    using assms(2) by (simp add: visible_doc_def)
  have w: "visible_doc (arg\<lparr> d_published_at := a, d_source_updated_at := b, d_indexed_at := c \<rparr>)" for a b c
    using assms(2) by (simp add: visible_doc_def)
  show ?thesis
    using assms(1,3) v w by (auto simp: UpsertDocument_def Let_def split: if_split_asm intro!: visible_upsert)
qed

lemma other_tables_visible:
  "InsertInboxEvent now eid typ s = Inr (Some s') \<Longrightarrow> documents s' = documents s"
  "UpsertServiceConfig now k cv s = Inr s' \<Longrightarrow> documents s' = documents s"
  "InsertBehaviorEvent X row s = Inr s' \<Longrightarrow> documents s' = documents s"
  "AppendQueryLog qrow s = Inr s' \<Longrightarrow> documents s' = documents s"
  "UpsertUserSearchHistory u nq dq t s = Inr s' \<Longrightarrow> documents s' = documents s"
  by (auto simp: statements Let_def split: if_split_asm option.split_asm prod.split_asm)

interpretation visible: free_relation "\<lambda>s s'. visible_ok s \<longrightarrow> visible_ok s'"
proof (unfold_locales, goal_cases)
  case (14 now arg s s')
  from UpsertDocument_visible [OF 14] show ?case by simp
next
  case (15 now vid r s s')
  then show ?case by (auto simp: SuppressDocument_def split: if_split_asm intro!: visible_upsert)
next
  case (16 now ch h n owner s s')
  then show ?case by (auto simp: UpdateChannelDocuments_def split: if_split_asm intro!: visible_update)
qed (auto simp: UpdateDocumentStats_def SuppressChannelDocuments_def SuppressOwnerDocuments_def
    RestoreOwnerDocuments_def UpsertWatchProjection_def DeleteUserSearchHistory_def
    PurgeUserWatchProjection_def DeleteQueryLogForUser_def DeleteBehaviorEventsForUser_def
    dest: other_tables_visible intro: visible_update visible_same)

text \<open>The unique keys.\<close>

lemma distinct_insert_ignore:
  "distinct (map key rows) \<Longrightarrow> distinct (map key (fst (sql_insert_ignore key new rows)))"
  by (auto simp: sql_insert_ignore_def)

lemma map_filter_Cons: "List.map_filter f (x # xs) = (case f x of None \<Rightarrow> List.map_filter f xs | Some y \<Rightarrow> y # List.map_filter f xs)"
  by (simp add: map_filter_simps)

lemma set_map_filter_eq: "y \<in> set (List.map_filter f xs) \<longleftrightarrow> Some y \<in> f ` set xs"
  by (induction xs) (auto simp: map_filter_simps split: option.split)

lemma map_filter_snoc:
  "distinct (List.map_filter f rows) \<Longrightarrow> f new \<notin> f ` set rows \<or> f new = None \<Longrightarrow>
   distinct (List.map_filter f (rows @ [new]))"
  by (induction rows)
    (auto simp: map_filter_simps set_map_filter_eq image_iff split: option.splits)

lemma map_filter_delete: "distinct (List.map_filter f rows) \<Longrightarrow> distinct (List.map_filter f (sql_delete P rows))"
  by (induction rows)
    (auto simp: map_filter_simps set_map_filter_eq sql_delete_def image_iff split: option.splits)

lemma keys_okD:
  assumes "keys_ok s"
  shows "distinct (map d_video_id (documents s))" "distinct (map ib_event_id (events_inbox s))"
    "distinct (map sc_key (service_config s))" "distinct (List.map_filter ql_event_id (query_log s))"
    "distinct (map qa_normalized_query (query_aggregates s))" "distinct (map uh_key (user_search_history s))"
    "distinct (map wp_key (user_watch_projection s))" "distinct (map be_event_id (behavior_events s))"
  using assms by (simp_all add: keys_ok_def uh_key_def [abs_def] wp_key_def [abs_def])

lemma keys_documents: "keys_ok s \<Longrightarrow> distinct (map d_video_id ds) \<Longrightarrow> keys_ok (s\<lparr> documents := ds \<rparr>)"
  by (simp add: keys_ok_def)

lemma hide_id [simp]: "d_video_id (hide now r d) = d_video_id d"
  by (simp add: hide_def)

lemma keys_doc_update:
  "keys_ok s \<Longrightarrow> (\<And>d. d_video_id (f d) = d_video_id d) \<Longrightarrow> keys_ok (s\<lparr> documents := sql_update P f (documents s) \<rparr>)"
  by (simp add: keys_documents keys_sql_update keys_okD)

lemma keys_doc_upsert:
  "keys_ok s \<Longrightarrow> (\<And>d. d_video_id (f d) = d_video_id d) \<Longrightarrow>
   keys_ok (s\<lparr> documents := sql_upsert d_video_id new f (documents s) \<rparr>)"
  by (simp add: keys_documents distinct_sql_upsert keys_okD)

lemma keys_history: "keys_ok s \<Longrightarrow> distinct (map uh_key rows) \<Longrightarrow> keys_ok (s\<lparr> user_search_history := rows \<rparr>)"
  by (simp add: keys_ok_def uh_key_def [abs_def])

lemma keys_projection: "keys_ok s \<Longrightarrow> distinct (map wp_key rows) \<Longrightarrow> keys_ok (s\<lparr> user_watch_projection := rows \<rparr>)"
  by (simp add: keys_ok_def wp_key_def [abs_def])

interpretation keys: free_relation "\<lambda>s s'. keys_ok s \<longrightarrow> keys_ok s'"
proof (unfold_locales, goal_cases)
  case (14 now arg s s')
  then show ?case by (auto simp: UpsertDocument_def Let_def split: if_split_asm intro!: keys_doc_upsert)
next
  case (15 now vid r s s')
  then show ?case by (auto simp: SuppressDocument_def split: if_split_asm intro!: keys_doc_upsert)
next
  case (16 now ch h n owner s s')
  then show ?case by (auto simp: UpdateChannelDocuments_def split: if_split_asm intro!: keys_doc_update)
next
  case (4 now eid ty s s')
  then have "s' = s\<lparr> events_inbox := fst (sql_insert_ignore ib_event_id
      \<lparr> ib_event_id = eid, ib_type = ty, ib_received_at = now \<rparr> (events_inbox s)) \<rparr>"
    by (auto simp: InsertInboxEvent_def split: if_split_asm prod.split_asm)
  then show ?case using distinct_insert_ignore by (fastforce simp: keys_ok_def)
next
  case (5 now k cv s s')
  then show ?case
    by (auto simp: UpsertServiceConfig_def keys_ok_def split: if_split_asm intro!: distinct_sql_upsert)
next
  case (6 X row s s')
  then show ?case
    by (auto simp: InsertBehaviorEvent_def Let_def keys_ok_def split: if_split_asm option.split_asm
        intro!: distinct_insert_ignore)
next
  case (7 qrow s s')
  have log: "distinct (List.map_filter ql_event_id (query_log s'))" if "keys_ok s"
  proof -
    have "query_log s' = query_log s \<or> (\<exists>new. query_log s' = query_log s @ [new]
        \<and> (ql_event_id new \<notin> ql_event_id ` set (query_log s) \<or> ql_event_id new = None))"
      using 7 unfolding AppendQueryLog_def Let_def by (simp split: if_split_asm) auto
    then show ?thesis using keys_okD(4) [OF that] map_filter_snoc [of ql_event_id "query_log s"] by metis
  qed
  have "documents s' = documents s" "events_inbox s' = events_inbox s" "service_config s' = service_config s"
    "query_aggregates s' = query_aggregates s" "user_search_history s' = user_search_history s"
    "user_watch_projection s' = user_watch_projection s" "behavior_events s' = behavior_events s"
    using 7 by (auto simp: AppendQueryLog_def Let_def split: if_split_asm)
  with log show ?case by (simp add: keys_ok_def)
next
  case (8 u nq dq t s s')
  then show ?case
    by (auto simp: UpsertUserSearchHistory_def split: if_split_asm
        intro!: keys_history distinct_sql_upsert keys_okD simp: uh_key_def)
next
  case (9 s now hl u v delta)
  then show ?case
    by (auto simp: UpsertWatchProjection_def intro!: keys_projection distinct_sql_upsert keys_okD simp: wp_key_def)
qed (auto simp: UpdateDocumentStats_def SuppressChannelDocuments_def SuppressOwnerDocuments_def
    RestoreOwnerDocuments_def DeleteUserSearchHistory_def PurgeUserWatchProjection_def
    DeleteQueryLogForUser_def DeleteBehaviorEventsForUser_def keys_ok_def keys_sql_update
    intro: keys_doc_update distinct_sql_delete map_filter_delete)

end
