(* ===== verification/EventProps.thy ===== *)
theory EventProps
  imports EventLemmas
begin

text \<open>The properties of event ingestion, with an instance of each.\<close>

section \<open>A search to try them on\<close>

definition sample_config :: event_config where
  "sample_config = withDefaults \<lparr> TrendingHalfLifeSeconds = 0, TrendCapWindow = 0, WatchHalfLifeHours = 0 \<rparr>"

definition sample_search :: envelope where
  "sample_search = zero_envelope\<lparr> ev_event_id := 5, ev_type := TypeSearchSubmitted, ev_occurred_at := 1000000,
     ev_payload := Some (JObj [(''query'', JStr ''cats''), (''user_id'', JStr ''7''), (''allow_history'', JBool True)]) \<rparr>"

lemma sample_search_eqs:
  "ev_event_id sample_search = 5" "ev_type sample_search = TypeSearchSubmitted"
  by (simp_all add: sample_search_def)

lemma sample_search_user: "history_user sample_ext sample_search = Some 7"
  by code_simp

lemma sample_search_projection: "projection_user sample_ext sample_search = None"
  by code_simp

section \<open>The batch\<close>

definition ingest_kept :: "outcome \<times> effect list \<Rightarrow> bool" where
  "ingest_kept r = (fst r = Accepted)"

definition intake_ok :: "db \<Rightarrow> bool" where
  "intake_ok s \<longleftrightarrow> keys_ok s \<and> visible_ok s"

lemma ingest_one_ok: "intake_ok s \<Longrightarrow> intake_ok (snd (ingest_one X cfg blocked now wall i ev s))"
  using keys.ingest_one_free visible.ingest_one_free by (simp add: intake_ok_def)

interpretation event_batch: savepoint_batch "ingest_one X cfg blocked now wall" ingest_kept intake_ok
    "ingest_loop X cfg blocked now wall" for X cfg blocked now wall
proof
  fix i ev s
  show "snd (ingest_one X cfg blocked now wall i ev s) = s"
    if "\<not> ingest_kept (fst (ingest_one X cfg blocked now wall i ev s))"
    using that by (auto simp: ingest_kept_def ingest_one_def applyOne_def
        split: if_split_asm sum.split_asm option.split_asm prod.split_asm)
qed (simp_all add: ingest_one_ok Let_def split_beta)

lemma Ingest_Some:
  assumes "Ingest X cfg tx now wall evs s = (Some (res, eff), s')"
  obtains rs where "ingest_loop X cfg (legacyCatalogBlocked evs s) now wall 0 evs s = (rs, s')"
    "res = collect_result evs (map fst rs)" "eff = concat (map snd rs)" "length rs = length evs"
proof -
  let ?l = "ingest_loop X cfg (legacyCatalogBlocked evs s) now wall 0 evs s"
  have len: "length (fst ?l) = length evs" by (rule event_batch.outcome_per_event)
  show thesis
  proof (cases "evs = []")
    case True
    then show thesis using assms that [of "[]"] by (simp add: Ingest_def collect_result_def)
  next
    case False
    then show thesis
      using assms len by (intro that [of "fst ?l"])
        (auto simp: Ingest_def Let_def split_beta split: if_split_asm)
  qed
qed

lemma visible_ok_empty: "visible_ok empty_db"
  by (simp add: visible_ok_def empty_db_def)

text \<open>Every state that batches of events can reach has unique keys, and in it a document is
  searchable exactly when no reason to hide it is recorded.\<close>

theorem intake_invariant:
  assumes "keys_ok s" and "visible_ok s"
  shows "keys_ok (snd (Ingest X cfg tx now wall evs s)) \<and> visible_ok (snd (Ingest X cfg tx now wall evs s))"
  using assms keys.Ingest_free visible.Ingest_free by blast

lemma intake_invariant_witness:
  "keys_ok (snd (Ingest sample_ext sample_config (True, True) 0 (\<lambda>i. 0) [sample_search] empty_db))
   \<and> visible_ok (snd (Ingest sample_ext sample_config (True, True) 0 (\<lambda>i. 0) [sample_search] empty_db))"
  by (rule intake_invariant [OF keys_ok_empty visible_ok_empty])

text \<open>A committed batch reports every event exactly once, as accepted, duplicate or failed; and
  when none was accepted the database is as it was.\<close>

theorem ingest_accounted:
  assumes "Ingest X cfg tx now wall evs s = (Some (res, eff), s')"
  shows "r_accepted res + r_duplicates res + int (length (r_failed res)) = int (length evs)
    \<and> (r_accepted res = 0 \<longrightarrow> s' = s)"
proof (rule Ingest_Some [OF assms])
  fix rs
  assume l: "ingest_loop X cfg (legacyCatalogBlocked evs s) now wall 0 evs s = (rs, s')"
    and res: "res = collect_result evs (map fst rs)" and len: "length rs = length evs"
  have counts: "r_accepted (foldl add_outcome r xs)
      = r_accepted r + int (length (filter (\<lambda>x. snd x = Accepted) xs))" for r xs
    by (induction xs arbitrary: r) (auto simp: add_outcome_def split: outcome.split)
  have "s' = s" if "r_accepted res = 0"
  proof -
    have none: "filter (\<lambda>x. snd x = Accepted) (zip evs (map fst rs)) = []"
      using that counts [of empty_result] by (simp add: res collect_result_def empty_result_def)
    have "\<not> ingest_kept r" if r: "r \<in> set rs" for r
    proof -
      obtain k where "k < length rs" "r = rs ! k" using r by (auto simp: in_set_conv_nth)
      then have "(evs ! k, fst r) \<in> set (zip evs (map fst rs))" using len by (auto simp: set_zip)
      then show ?thesis using none by (auto simp: filter_empty_conv ingest_kept_def)
    qed
    then show ?thesis using event_batch.nothing_kept [of X cfg "legacyCatalogBlocked evs s" now wall 0 evs s] l by simp
  qed
  then show ?thesis using collect_result_total [of "map fst rs" evs] len res by simp
qed

lemma ingest_accounted_witness:
  "\<exists>res eff s'. Ingest sample_ext sample_config (True, True) 0 (\<lambda>i. 0) [sample_search] empty_db = (Some (res, eff), s')
     \<and> r_accepted res + r_duplicates res + int (length (r_failed res)) = 1"
proof -
  obtain res eff s' where i: "Ingest sample_ext sample_config (True, True) 0 (\<lambda>i. 0) [sample_search] empty_db = (Some (res, eff), s')"
    by (simp add: Ingest_def Let_def split_beta)
  from ingest_accounted [OF i] i show ?thesis by auto
qed

section \<open>Redelivery\<close>

text \<open>What is left to do for an event: nothing, when its id is in the inbox or when it fails.\<close>

definition settled :: "ext \<Rightarrow> event_config \<Rightarrow> bool \<Rightarrow> envelope \<Rightarrow> db \<Rightarrow> bool" where
  "settled X cfg blocked ev s \<longleftrightarrow> ev_event_id ev \<in> ib_event_id ` set (events_inbox s)
     \<or> (blocked \<and> isLegacyCatalogType (ev_type ev)) \<or> \<not> pg_text (ev_type ev)
     \<or> (\<forall>now wall t. isl (dispatch X cfg now wall ev t))"

lemma settled_mono: "settled X cfg blocked ev s \<Longrightarrow> inbox_grows s s' \<Longrightarrow> settled X cfg blocked ev s'"
  by (auto simp: settled_def inbox_grows_def)

lemma settled_after: "settled X cfg blocked ev (snd (ingest_one X cfg blocked now wall i ev s))"
proof (cases "settled X cfg blocked ev s")
  case True
  then show ?thesis by (rule settled_mono) (rule inbox.ingest_one_free)
next
  case False
  then have new: "ev_event_id ev \<notin> ib_event_id ` set (events_inbox s)" "\<not> (blocked \<and> isLegacyCatalogType (ev_type ev))"
    "pg_text (ev_type ev)" "\<exists>now wall t. \<not> isl (dispatch X cfg now wall ev t)"
    by (auto simp: settled_def)
  let ?s1 = "s\<lparr> events_inbox := events_inbox s @ [\<lparr> ib_event_id = ev_event_id ev, ib_type = ev_type ev, ib_received_at = now \<rparr>] \<rparr>"
  have ins: "InsertInboxEvent now (ev_event_id ev) (ev_type ev) s = Inr (Some ?s1)"
    using new by (simp add: InsertInboxEvent_def sql_insert_ignore_def)
  have "\<not> isl (dispatch X cfg now (wall i) ev ?s1)" using new(4) isl_dispatch by metis
  then obtain e s2 where d: "dispatch X cfg now (wall i) ev ?s1 = Inr (e, s2)"
    by (cases "dispatch X cfg now (wall i) ev ?s1") auto
  have "inbox_grows ?s1 s2" using inbox.dispatch_free d by (auto simp: leads_def)
  then have "ev_event_id ev \<in> ib_event_id ` set (events_inbox s2)" by (auto simp: inbox_grows_def)
  then show ?thesis using new(2) ins d by (auto simp: settled_def ingest_one_def applyOne_def)
qed

lemma settled_idle:
  assumes "settled X cfg blocked ev s"
  shows "snd (ingest_one X cfg blocked now wall i ev s) = s
    \<and> fst (fst (ingest_one X cfg blocked now wall i ev s)) \<noteq> Accepted
    \<and> snd (fst (ingest_one X cfg blocked now wall i ev s)) = []"
proof -
  have dup: "InsertInboxEvent now (ev_event_id ev) (ev_type ev) s \<noteq> Inr (Some t)"
    if "ev_event_id ev \<in> ib_event_id ` set (events_inbox s)" for t
    using that by (simp add: InsertInboxEvent_def sql_insert_ignore_def)
  have bad: "InsertInboxEvent now (ev_event_id ev) (ev_type ev) s = Inl SqlError" if "\<not> pg_text (ev_type ev)"
    using that by (simp add: InsertInboxEvent_def)
  have fails: "dispatch X cfg now w ev t \<noteq> Inr y" if "\<forall>now wall t. isl (dispatch X cfg now wall ev t)" for w t y
    using that by (metis isl_def sum.distinct(1))
  show ?thesis
    using assms dup bad fails [of "wall i"]
    by (auto simp: settled_def ingest_one_def applyOne_def split: sum.split option.split prod.split)
qed

lemma loop_settles: "\<forall>ev \<in> set evs. settled X cfg blocked ev (snd (ingest_loop X cfg blocked now wall i evs s))"
proof (induction evs arbitrary: i s)
  case (Cons ev evs)
  let ?s1 = "snd (ingest_one X cfg blocked now wall i ev s)"
  have "settled X cfg blocked ev (snd (ingest_loop X cfg blocked now wall (Suc i) evs ?s1))"
    by (rule settled_mono [OF settled_after]) (rule inbox.ingest_loop_free)
  then show ?case using Cons.IH [of "Suc i" ?s1] by (simp add: Let_def split_beta)
qed simp

lemma loop_idle:
  "\<forall>ev \<in> set evs. settled X cfg blocked ev s \<Longrightarrow>
   snd (ingest_loop X cfg blocked now wall i evs s) = s
   \<and> (\<forall>r \<in> set (fst (ingest_loop X cfg blocked now wall i evs s)). fst r \<noteq> Accepted \<and> snd r = [])"
proof (induction evs arbitrary: i)
  case (Cons ev evs)
  then have one: "settled X cfg blocked ev s" by simp
  note idle = settled_idle [OF this, of now wall i]
  have "\<forall>ev \<in> set evs. settled X cfg blocked ev s" using Cons.prems by simp
  note rest = Cons.IH [OF this, of "Suc i"]
  show ?case using idle rest by (simp add: Let_def split_beta)
qed simp

lemma blocked_same: "same_catalog s s' \<Longrightarrow> legacyCatalogBlocked evs s' = legacyCatalogBlocked evs s"
  by (simp add: legacyCatalogBlocked_def same_catalog_def scope_of_def)

text \<open>C7. Redelivering a batch changes nothing: after a committed batch, the same batch - at any
  later time, in the state it left - accepts no event, writes nothing and has no effect on
  the caches. (A failure is a property of the event: no statement of the intake fails for the
  state it meets.)\<close>

theorem ingest_replay_idle:
  assumes "Ingest X cfg tx now wall evs s = (Some (res, eff), s')"
    and "Ingest X cfg tx2 now2 wall2 evs s' = (Some (res2, eff2), s2)"
  shows "s2 = s' \<and> eff2 = [] \<and> r_accepted res2 = 0"
proof (rule Ingest_Some [OF assms(1)], rule Ingest_Some [OF assms(2)])
  fix rs rs2
  let ?b = "legacyCatalogBlocked evs s"
  assume l: "ingest_loop X cfg ?b now wall 0 evs s = (rs, s')"
    and l2: "ingest_loop X cfg (legacyCatalogBlocked evs s') now2 wall2 0 evs s' = (rs2, s2)"
    and res2: "res2 = collect_result evs (map fst rs2)" and eff2: "eff2 = concat (map snd rs2)"
  have "same_catalog s s'" using catalog_untouched.ingest_loop_free [of s X cfg ?b now wall 0 evs] l by simp
  then have b: "legacyCatalogBlocked evs s' = ?b" by (rule blocked_same)
  have "\<forall>ev \<in> set evs. settled X cfg ?b ev s'" using loop_settles [of evs X cfg ?b now wall 0 s] l by simp
  note idle = loop_idle [OF this, of now2 wall2 0]
  have s2: "s2 = s'" "\<forall>r \<in> set rs2. fst r \<noteq> Accepted \<and> snd r = []" using idle l2 b by simp_all
  have counts: "Accepted \<notin> snd ` set xs \<Longrightarrow> r_accepted (foldl add_outcome r xs) = r_accepted r" for r xs
    by (induction xs arbitrary: r) (auto simp: add_outcome_def split: outcome.split)
  have "Accepted \<notin> snd ` set (zip evs (map fst rs2))" using s2(2) by (fastforce dest!: set_zip_rightD)
  then have "r_accepted res2 = 0" using counts by (simp add: res2 collect_result_def empty_result_def)
  with s2 show ?thesis by (auto simp: eff2)
qed

lemma ingest_replay_idle_witness:
  "\<exists>s1 s2 res2 eff2. Ingest sample_ext sample_config (True, True) 0 (\<lambda>i. 0) [sample_search] empty_db = (Some s1, s2)
     \<and> Ingest sample_ext sample_config (True, True) 9 (\<lambda>i. 9) [sample_search] s2 = (Some (res2, eff2), s2)
     \<and> eff2 = [] \<and> r_accepted res2 = 0"
proof -
  have some: "\<exists>r e s'. Ingest sample_ext sample_config (True, True) t w [sample_search] s = (Some (r, e), s')" for t w s
    by (simp add: Ingest_def Let_def split_beta)
  obtain r e s1 where 1: "Ingest sample_ext sample_config (True, True) 0 (\<lambda>i. 0) [sample_search] empty_db = (Some (r, e), s1)"
    using some by blast
  obtain r2 e2 s2 where 2: "Ingest sample_ext sample_config (True, True) 9 (\<lambda>i. 9) [sample_search] s1 = (Some (r2, e2), s2)"
    using some by blast
  from ingest_replay_idle [OF 1 2] 1 2 show ?thesis by auto
qed

section \<open>Consent\<close>

text \<open>Rows of the two personal tables are new only for the users \<open>H\<close> and \<open>P\<close>.\<close>

definition consented :: "uuid set \<Rightarrow> uuid set \<Rightarrow> db \<Rightarrow> db \<Rightarrow> bool" where
  "consented H P s s' \<longleftrightarrow>
     (\<forall>r \<in> set (user_search_history s'). r \<in> set (user_search_history s) \<or> uh_user_id r \<in> H)
     \<and> (\<forall>r \<in> set (user_watch_projection s'). r \<in> set (user_watch_projection s) \<or> wp_user_id r \<in> P)"

lemma consented_trans: "consented H P s s1 \<Longrightarrow> consented H P s1 s2 \<Longrightarrow> consented H P s s2"
  unfolding consented_def by metis

lemma consented_same:
  "user_search_history s' = user_search_history s \<Longrightarrow> user_watch_projection s' = user_watch_projection s \<Longrightarrow> consented H P s s'"
  by (simp add: consented_def)

lemma sql_upsert_new:
  assumes "r \<in> set (sql_upsert key new upd rows)" "\<And>x. key x = key new \<Longrightarrow> key (upd x) = key x"
  shows "r \<in> set rows \<or> key r = key new"
  using assms by (auto simp: sql_upsert_def sql_update_def split: if_split_asm)

interpretation consent: statement_relation "consented H P" "\<lambda>u. u \<in> H" "\<lambda>u. u \<in> P" for H P
proof (unfold_locales, goal_cases)
  case (2 s s1 s2)
  then show ?case by (rule consented_trans)
next
  case (8 u nq dq t s s')
  then show ?case
    by (auto simp: consented_def UpsertUserSearchHistory_def uh_key_def dest!: sql_upsert_new split: if_split_asm)
next
  case (9 u now hl v delta s)
  then show ?case
    by (auto simp: consented_def UpsertWatchProjection_def wp_key_def dest!: sql_upsert_new)
qed (auto simp: consented_def statements sql_delete_def Let_def split: if_split_asm option.split_asm prod.split_asm)

text \<open>C17. Personal rows need consent: a batch changes or adds a row of a user's search history only when
  it holds a search of that user with \<open>allow_history\<close>, and a row of the watch projection only
  when it holds a play or a completion of that user whose personalization is allowed.\<close>

theorem personal_rows_need_consent:
  "(\<forall>r \<in> set (user_search_history (snd (Ingest X cfg tx now wall evs s))).
      r \<in> set (user_search_history s) \<or> Some (uh_user_id r) \<in> history_user X ` set evs)
   \<and> (\<forall>r \<in> set (user_watch_projection (snd (Ingest X cfg tx now wall evs s))).
      r \<in> set (user_watch_projection s) \<or> Some (wp_user_id r) \<in> projection_user X ` set evs)"
proof -
  let ?H = "{u. Some u \<in> history_user X ` set evs}" and ?P = "{u. Some u \<in> projection_user X ` set evs}"
  have "permitted X (\<lambda>u. u \<in> ?H) (\<lambda>u. u \<in> ?P) ev" if "ev \<in> set evs" for ev
    using that by (auto simp: permitted_def pred_option_def intro!: image_eqI [where x = ev])
  then have "consented ?H ?P s (snd (Ingest X cfg tx now wall evs s))"
    by (intro consent.Ingest_rel) blast
  then show ?thesis by (simp add: consented_def)
qed

lemma personal_rows_need_consent_witness:
  "map uh_user_id (user_search_history (snd (Ingest sample_ext sample_config (True, True) 0 (\<lambda>i. 0) [sample_search] empty_db))) = [7]
   \<and> user_watch_projection (snd (Ingest sample_ext sample_config (True, True) 0 (\<lambda>i. 0) [sample_search] empty_db)) = []"
proof -
  let ?s = "snd (Ingest sample_ext sample_config (True, True) 0 (\<lambda>i. 0) [sample_search] empty_db)"
  have one: "length (user_search_history ?s) = 1" by code_simp
  have "\<forall>r \<in> set (user_search_history ?s). uh_user_id r = 7" "set (user_watch_projection ?s) = {}"
    using personal_rows_need_consent [of sample_ext sample_config "(True, True)" 0 "\<lambda>i. 0" "[sample_search]" empty_db]
    by (auto simp: sample_search_user sample_search_projection empty_db_def)
  with one show ?thesis by (auto simp: length_Suc_conv)
qed

section \<open>Hiding and showing documents\<close>

text \<open>Relisting an owner undoes unlisting: hiding the owner's documents and restoring them leaves
  every document as it was, but for the time stamp, and shows those of the owner that were
  visible or hidden for that same reason - no document hidden for another reason comes back.\<close>

theorem relist_undoes_unlist:
  "documents (RestoreOwnerDocuments t2 owner (Some r) (SuppressOwnerDocuments t1 owner (Some r) s)) =
   map (\<lambda>d. if d_owner_id d = Some owner \<and> (d_eligible d \<or> d_suppressed_reason d = Some r)
            then d\<lparr> d_eligible := True, d_suppressed_reason := None, d_indexed_at := t2 \<rparr> else d) (documents s)"
proof -
  let ?restore = "\<lambda>d. if d_owner_id d = Some owner \<and> d_suppressed_reason d \<noteq> None \<and> d_suppressed_reason d = Some r
      then d\<lparr> d_eligible := True, d_suppressed_reason := None, d_indexed_at := t2 \<rparr> else d"
  have "?restore (if d_owner_id d = Some owner \<and> d_eligible d then hide t1 (Some r) d else d)
     = (if d_owner_id d = Some owner \<and> (d_eligible d \<or> d_suppressed_reason d = Some r)
        then d\<lparr> d_eligible := True, d_suppressed_reason := None, d_indexed_at := t2 \<rparr> else d)" for d
    by (cases "d_owner_id d = Some owner"; cases "d_eligible d"; cases "d_suppressed_reason d = Some r")
      (simp_all add: hide_def)
  then show ?thesis
    unfolding RestoreOwnerDocuments_def SuppressOwnerDocuments_def sql_update_def by (simp add: o_def cong: map_cong)
qed

text \<open>A suppression does not outlive the next \<open>video.upsert\<close>: a video that was hidden before its
  first upsert arrived - the row is a placeholder that only says it is hidden - becomes
  searchable with it when the upsert says public and published.\<close>

theorem upsert_overrides_suppression:
  assumes "SuppressDocument t1 (v_id v) reason s = Inr s1" and "applyVideoUpsert t2 wall v None s1 = Inr s2"
    and "v_privacy v = ''public''" and "v_state v = ''published''"
  shows "\<exists>d. sql_get (\<lambda>d. d_video_id d = v_id v) (documents s2) = Some d \<and> d_eligible d \<and> d_suppressed_reason d = None"
proof -
  have "Eligible (v_privacy v) (v_state v) = (True, [])"
    using assms(3,4) by (simp add: Eligible_def)
  then show ?thesis
    using assms(2) by (auto simp: applyVideoUpsert_def UpsertDocument_def Let_def sql_get_upsert split: option.split if_split_asm)
qed

definition sample_published :: video_doc where
  "sample_published = zero_video\<lparr> v_id := 3, v_privacy := ''public'', v_state := ''published'' \<rparr>"

lemma upsert_overrides_suppression_witness:
  "\<exists>s1 s2. SuppressDocument 1 3 (Some ''blocked'') empty_db = Inr s1 \<and> applyVideoUpsert 9 9 sample_published None s1 = Inr s2
     \<and> (\<exists>d. sql_get (\<lambda>d. d_video_id d = 3) (documents s2) = Some d \<and> d_eligible d \<and> d_suppressed_reason d = None)"
proof -
  have "\<not> isl (SuppressDocument 1 3 (Some ''blocked'') empty_db)" by code_simp
  then obtain s1 where 1: "SuppressDocument 1 3 (Some ''blocked'') empty_db = Inr s1" by (metis sum.collapse(2))
  have "\<not> isl (applyVideoUpsert 9 9 sample_published None empty_db)" by code_simp
  then have "\<not> isl (applyVideoUpsert 9 9 sample_published None s1)" using isl_applyVideoUpsert by blast
  then obtain s2 where 2: "applyVideoUpsert 9 9 sample_published None s1 = Inr s2" by (metis sum.collapse(2))
  have "v_id sample_published = 3" "v_privacy sample_published = ''public''" "v_state sample_published = ''published''"
    by (simp_all add: sample_published_def)
  with upsert_overrides_suppression [OF _ 2] 1 2 show ?thesis by auto
qed

end
