(* ===== verification/Rollups.thy ===== *)
theory Rollups
  imports Statements
begin

text \<open>
  The statements of \<open>queries/rollups.sql\<close> and \<open>queries/reevaluation.sql\<close> on the query log, its
  aggregates and the worker cursors. Text compares by bytes. \<open>power(2, -x)\<close> in double precision
  is an error of PostgreSQL (\<open>value out of range: underflow\<close>) when the result is zero, which it
  is from \<open>x = 1075\<close> on; half-lives are positive.
\<close>

section \<open>Cursors\<close>

definition GetWorkerCursor :: "string \<Rightarrow> db \<Rightarrow> int option" where
  "GetWorkerCursor name s = map_option wc_pos (sql_get (\<lambda>c. wc_name c = name) (worker_cursors s))"

definition SetWorkerCursor :: "int \<Rightarrow> string \<Rightarrow> int \<Rightarrow> db \<Rightarrow> db" where
  "SetWorkerCursor now name pos s = s\<lparr> worker_cursors := sql_upsert wc_name
     \<lparr> wc_name = name, wc_pos = pos, wc_updated_at = now \<rparr>
     (\<lambda>c. c\<lparr> wc_pos := pos, wc_updated_at := now \<rparr>) (worker_cursors s) \<rparr>"

definition max_or_zero :: "int list \<Rightarrow> int" where
  "max_or_zero xs = (if xs = [] then 0 else Max (set xs))"

definition MaxQueryLogID :: "db \<Rightarrow> int" where
  "MaxQueryLogID s = max_or_zero (map ql_id (query_log s))"

definition MaxBehaviorEventID :: "db \<Rightarrow> int" where
  "MaxBehaviorEventID s = max_or_zero (map be_id (behavior_events s))"

definition MaxSettledQueryLogID :: "int \<Rightarrow> db \<Rightarrow> int" where
  "MaxSettledQueryLogID cutoff s =
     max_or_zero (map ql_id (filter (\<lambda>r. ql_submitted_at r \<le> pg_ts cutoff) (query_log s)))"

section \<open>The recount\<close>

text \<open>\<open>count(DISTINCT e)\<close>, and the subject an anonymous row counts for.\<close>

definition count_distinct :: "'a option list \<Rightarrow> int" where
  "count_distinct xs = int (length (remdups (List.map_filter id xs)))"

definition anon_subject :: "query_log_row \<Rightarrow> string option" where
  "anon_subject r = (if ql_user_id r = None
     then (case ql_subject_id r of None \<Rightarrow> ql_session_id r | Some x \<Rightarrow> Some x) else None)"

definition distinct_subjects :: "query_log_row list \<Rightarrow> int" where
  "distinct_subjects rows = count_distinct (map ql_user_id rows) + count_distinct (map anon_subject rows)"

text \<open>The rows a query still has in the window.\<close>

definition retained :: "int \<Rightarrow> query_log_row list \<Rightarrow> string \<Rightarrow> query_log_row list" where
  "retained ws ledger nq = filter (\<lambda>r. ql_normalized_query r = nq \<and> ws \<le> ql_submitted_at r) ledger"

definition first_of :: "query_log_row list \<Rightarrow> int" where
  "first_of rows = Min (set (map ql_submitted_at rows))"

definition last_of :: "query_log_row list \<Rightarrow> int" where
  "last_of rows = Max (set (map ql_submitted_at rows))"

text \<open>How many half-lives a row is older than the newest one.\<close>

definition half_lives :: "real \<Rightarrow> query_log_row list \<Rightarrow> query_log_row \<Rightarrow> real" where
  "half_lives hl rows r = max 0 (real_of_int (last_of rows - ql_submitted_at r) / real_of_int nanos) / hl"

definition underflows :: "real \<Rightarrow> query_log_row list \<Rightarrow> bool" where
  "underflows hl rows \<longleftrightarrow> list_ex (\<lambda>r. 1075 \<le> half_lives hl rows r) rows"

definition decayed_freq :: "real \<Rightarrow> query_log_row list \<Rightarrow> real" where
  "decayed_freq hl rows = sum_list (map (\<lambda>r. 2 powr (- half_lives hl rows r)) rows)"

section \<open>The rollup\<close>

definition later :: "query_log_row \<Rightarrow> query_log_row \<Rightarrow> bool" where
  "later a b \<longleftrightarrow> ql_submitted_at a > ql_submitted_at b \<or> (ql_submitted_at a = ql_submitted_at b \<and> ql_id a > ql_id b)"

definition display_of :: "query_log_row list \<Rightarrow> string \<Rightarrow> string" where
  "display_of ledger nq = ql_display_query (hd (SliceStable later (filter (\<lambda>r. ql_normalized_query r = nq) ledger)))"

definition is_banned :: "aggregate_row list \<Rightarrow> string \<Rightarrow> bool" where
  "is_banned aggs nq = (case sql_get (\<lambda>a. qa_normalized_query a = nq) aggs of None \<Rightarrow> False | Some a \<Rightarrow> qa_banned a)"

definition rollup_row ::
  "real \<Rightarrow> int \<Rightarrow> int \<Rightarrow> query_log_row list \<Rightarrow> aggregate_row list \<Rightarrow> string \<Rightarrow> aggregate_row" where
  "rollup_row hl mn ws ledger aggs nq = (let rows = retained ws ledger nq; banned = is_banned aggs nq in
     \<lparr> qa_normalized_query = nq, qa_display_query = display_of ledger nq, qa_total_count = int (length rows),
       qa_distinct_users = distinct_subjects rows, qa_decayed_freq = decayed_freq hl rows,
       qa_first_seen = first_of rows, qa_last_seen = last_of rows,
       qa_suggestible = (distinct_subjects rows \<ge> mn \<and> \<not> banned), qa_banned = banned \<rparr>)"

text \<open>The queries with new rows; those whose every row is out of the window drop out of the join.\<close>

definition rollup_batch :: "int \<Rightarrow> int \<Rightarrow> int \<Rightarrow> query_log_row list \<Rightarrow> string list" where
  "rollup_batch ws from maxid ledger = filter (\<lambda>nq. retained ws ledger nq \<noteq> [])
     (remdups (map ql_normalized_query (filter (\<lambda>r. from < ql_id r \<and> ql_id r \<le> maxid \<and> ql_normalized_query r \<noteq> []) ledger)))"

definition put_aggregate :: "aggregate_row \<Rightarrow> aggregate_row list \<Rightarrow> aggregate_row list" where
  "put_aggregate row = sql_upsert qa_normalized_query row
     (\<lambda>old. row\<lparr> qa_normalized_query := qa_normalized_query old \<rparr>)"

definition RollupQueryAggregates :: "real \<Rightarrow> int \<Rightarrow> int \<Rightarrow> int \<Rightarrow> int \<Rightarrow> db \<Rightarrow> sql_error + db" where
  "RollupQueryAggregates hl mn from maxid windowStart s =
     (let ws = pg_ts windowStart; ledger = query_log s; batch = rollup_batch ws from maxid ledger
      in if list_ex (\<lambda>nq. underflows hl (retained ws ledger nq)) batch then Inl SqlError
         else Inr (s\<lparr> query_aggregates :=
           fold (\<lambda>nq. put_aggregate (rollup_row hl mn ws ledger (query_aggregates s) nq)) batch (query_aggregates s) \<rparr>))"

section \<open>The re-evaluation\<close>

definition QueryLogHasRowsInWindow :: "int \<Rightarrow> db \<Rightarrow> bool" where
  "QueryLogHasRowsInWindow windowStart s =
     list_ex (\<lambda>r. pg_ts windowStart \<le> ql_submitted_at r \<and> ql_normalized_query r \<noteq> []) (query_log s)"

text \<open>No row survives of the empty query.\<close>

definition survivors :: "int \<Rightarrow> query_log_row list \<Rightarrow> string \<Rightarrow> query_log_row list" where
  "survivors ws ledger nq = (if nq = [] then [] else retained ws ledger nq)"

definition want :: "int \<Rightarrow> int \<Rightarrow> query_log_row list \<Rightarrow> aggregate_row \<Rightarrow> bool" where
  "want mn ws ledger a \<longleftrightarrow> distinct_subjects (survivors ws ledger (qa_normalized_query a)) \<ge> mn \<and> \<not> qa_banned a"

definition moves :: "int \<Rightarrow> int \<Rightarrow> query_log_row list \<Rightarrow> aggregate_row \<Rightarrow> bool" where
  "moves mn ws ledger a \<longleftrightarrow>
     (let rows = survivors ws ledger (qa_normalized_query a)
      in want mn ws ledger a \<noteq> qa_suggestible a \<or> int (length rows) \<noteq> qa_total_count a
         \<or> distinct_subjects rows \<noteq> qa_distinct_users a)"

definition reeval_row :: "real \<Rightarrow> int \<Rightarrow> int \<Rightarrow> query_log_row list \<Rightarrow> aggregate_row \<Rightarrow> aggregate_row" where
  "reeval_row hl mn ws ledger a =
     (let rows = survivors ws ledger (qa_normalized_query a)
      in a\<lparr> qa_suggestible := want mn ws ledger a, qa_distinct_users := distinct_subjects rows,
            qa_total_count := int (length rows), qa_decayed_freq := decayed_freq hl rows,
            qa_first_seen := (if rows = [] then qa_first_seen a else first_of rows),
            qa_last_seen := (if rows = [] then qa_last_seen a else last_of rows) \<rparr>)"

record preview_row =
  pvNormalizedQuery :: string
  pvDistinctUsers :: int
  pvTotalCount :: int
  pvSuggestible :: bool

definition PreviewSuggestibleReevaluation :: "int \<Rightarrow> int \<Rightarrow> string \<Rightarrow> int \<Rightarrow> db \<Rightarrow> preview_row list" where
  "PreviewSuggestibleReevaluation windowStart mn after lmt s =
     (let ws = pg_ts windowStart; ledger = query_log s
      in map (\<lambda>a. \<lparr> pvNormalizedQuery = qa_normalized_query a,
             pvDistinctUsers = distinct_subjects (survivors ws ledger (qa_normalized_query a)),
             pvTotalCount = int (length (survivors ws ledger (qa_normalized_query a))), pvSuggestible = want mn ws ledger a \<rparr>)
           (take (nat lmt) (sort_key qa_normalized_query
             (filter (\<lambda>a. after < qa_normalized_query a \<and> moves mn ws ledger a) (query_aggregates s)))))"

definition ReevaluateSuggestible :: "int \<Rightarrow> real \<Rightarrow> int \<Rightarrow> int \<Rightarrow> db \<Rightarrow> sql_error + (int \<times> db)" where
  "ReevaluateSuggestible windowStart hl mn lmt s =
     (let ws = pg_ts windowStart; ledger = query_log s;
          changed = map qa_normalized_query (take (nat lmt) (sort_key qa_normalized_query
            (filter (moves mn ws ledger) (query_aggregates s))))
      in if list_ex (\<lambda>nq. underflows hl (survivors ws ledger nq)) (map ql_normalized_query ledger) then Inl SqlError
         else Inr (int (length changed), s\<lparr> query_aggregates :=
           sql_update (\<lambda>a. qa_normalized_query a \<in> set changed) (reeval_row hl mn ws ledger) (query_aggregates s) \<rparr>))"

section \<open>Retention\<close>

definition days :: "int \<Rightarrow> int" where
  "days n = n * 86400 * nanos"

definition DeleteOldQueryLog :: "int \<Rightarrow> int \<Rightarrow> db \<Rightarrow> db" where
  "DeleteOldQueryLog now retentionDays s =
     s\<lparr> query_log := sql_delete (\<lambda>r. ql_submitted_at r < now - days retentionDays) (query_log s) \<rparr>"

definition DeleteOldBehaviorEvents :: "int \<Rightarrow> int \<Rightarrow> db \<Rightarrow> db" where
  "DeleteOldBehaviorEvents now retentionDays s =
     s\<lparr> behavior_events := sql_delete (\<lambda>r. be_occurred_at r < now - days retentionDays) (behavior_events s) \<rparr>"

definition PruneEventsInbox :: "int \<Rightarrow> int \<Rightarrow> db \<Rightarrow> db" where
  "PruneEventsInbox now n s =
     s\<lparr> events_inbox := sql_delete (\<lambda>r. ib_received_at r < now - days n) (events_inbox s) \<rparr>"

text \<open>As in \<open>UpsertWatchProjection\<close>, the underflow of \<open>power\<close> and the single precision of the weight are left out.\<close>

definition PruneWatchProjection :: "int \<Rightarrow> real \<Rightarrow> real \<Rightarrow> db \<Rightarrow> db" where
  "PruneWatchProjection now half_life flr s = s\<lparr> user_watch_projection :=
     sql_delete (\<lambda>r. wp_weight r * decay (now - wp_last_watched_at r) half_life < flr) (user_watch_projection s) \<rparr>"

text \<open>Seconds, or -1.\<close>

definition LastReconcileEndAgeSeconds :: "int \<Rightarrow> db \<Rightarrow> real" where
  "LastReconcileEndAgeSeconds now s =
     (let ts = map ib_received_at (filter (\<lambda>r. ib_type r = ''reconcile.end'') (events_inbox s))
      in if ts = [] then -1 else real_of_int (now - Max (set ts)) / real_of_int nanos)"

section \<open>Counting subjects\<close>

lemma count_distinct_card: "count_distinct xs = int (card {x. Some x \<in> set xs})"
proof -
  have "set (List.map_filter id xs) = {x. Some x \<in> set xs}"
    by (force simp: map_filter_def image_iff)
  then show ?thesis by (simp add: count_distinct_def length_remdups_card_conv)
qed

lemma finite_Some: "finite {x. Some x \<in> set xs}"
proof -
  have "{x. Some x \<in> set xs} = set (List.map_filter id xs)" by (force simp: map_filter_def image_iff)
  then show ?thesis by simp
qed

lemma count_distinct_mono: "set xs \<subseteq> set ys \<Longrightarrow> count_distinct xs \<le> count_distinct ys"
  unfolding count_distinct_card by (intro iffD2 [OF of_nat_le_iff] card_mono finite_Some) auto

lemma distinct_subjects_mono: "set xs \<subseteq> set ys \<Longrightarrow> distinct_subjects xs \<le> distinct_subjects ys"
  unfolding distinct_subjects_def by (intro add_mono count_distinct_mono) auto

lemma distinct_subjects_nonneg: "0 \<le> distinct_subjects xs"
  by (simp add: distinct_subjects_def count_distinct_def)

text \<open>One subject per row: the account, or what stands for an anonymous one.\<close>

definition subject_key :: "query_log_row \<Rightarrow> (uuid + string) option" where
  "subject_key r = (case ql_user_id r of Some u \<Rightarrow> Some (Inl u) | None \<Rightarrow> map_option Inr (anon_subject r))"

lemma distinct_subjects_card: "distinct_subjects rows = int (card {k. Some k \<in> subject_key ` set rows})"
proof -
  let ?U = "{u. Some u \<in> set (map ql_user_id rows)}" and ?A = "{a. Some a \<in> set (map anon_subject rows)}"
  have "{k. Some k \<in> subject_key ` set rows} = Inl ` ?U \<union> Inr ` ?A"
  proof (rule set_eqI)
    fix k
    show "k \<in> {k. Some k \<in> subject_key ` set rows} \<longleftrightarrow> k \<in> Inl ` ?U \<union> Inr ` ?A"
    proof (cases k)
      case (Inl u)
      have "Some (Inl u) = subject_key r \<longleftrightarrow> ql_user_id r = Some u" for r
        by (cases "anon_subject r") (auto simp: subject_key_def split: option.split)
      then show ?thesis by (auto simp: Inl image_iff) (metis)+
    next
      case (Inr a)
      have "Some (Inr a) = subject_key r \<longleftrightarrow> anon_subject r = Some a" for r
        by (cases "ql_user_id r"; cases "anon_subject r") (auto simp: subject_key_def anon_subject_def)
      then show ?thesis by (auto simp: Inr image_iff) (metis)+
    qed
  qed
  moreover have "card (Inl ` ?U \<union> Inr ` ?A) = card ?U + card ?A"
    using finite_Some [of "map ql_user_id rows"] finite_Some [of "map anon_subject rows"]
    by (subst card_Un_disjoint) (auto simp: card_image)
  ultimately show ?thesis by (simp add: distinct_subjects_def count_distinct_card)
qed

lemma retained_mono: "set l \<subseteq> set l' \<Longrightarrow> ws' \<le> ws \<Longrightarrow> set (retained ws l nq) \<subseteq> set (retained ws' l' nq)"
  by (auto simp: retained_def)

lemma survivors_mono: "set l \<subseteq> set l' \<Longrightarrow> set (survivors ws l nq) \<subseteq> set (survivors ws l' nq)"
  using retained_mono [of l l' ws ws] by (simp add: survivors_def)

section \<open>Aggregates by key\<close>

abbreviation agg_at :: "aggregate_row list \<Rightarrow> string \<Rightarrow> aggregate_row option" where
  "agg_at aggs nq \<equiv> sql_get (\<lambda>a. qa_normalized_query a = nq) aggs"

lemma agg_at_put:
  "agg_at (put_aggregate row aggs) nq = (if nq = qa_normalized_query row then Some row else agg_at aggs nq)"
  unfolding put_aggregate_def by (subst sql_get_upsert) (auto split: option.split dest: sql_get_Some)

lemma distinct_put: "distinct (map qa_normalized_query aggs) \<Longrightarrow> distinct (map qa_normalized_query (put_aggregate row aggs))"
  unfolding put_aggregate_def by (rule distinct_sql_upsert) simp_all

lemma agg_at_fold:
  assumes "\<And>q. qa_normalized_query (R q) = q"
  shows "agg_at (fold (\<lambda>q. put_aggregate (R q)) qs aggs) nq = (if nq \<in> set qs then Some (R nq) else agg_at aggs nq)"
  by (induction qs arbitrary: aggs) (auto simp: agg_at_put assms)

lemma distinct_fold_put:
  "distinct (map qa_normalized_query aggs) \<Longrightarrow> distinct (map qa_normalized_query (fold (\<lambda>q. put_aggregate (R q)) qs aggs))"
  by (induction qs arbitrary: aggs) (simp_all add: distinct_put)

lemma qa_key_rollup_row [simp]: "qa_normalized_query (rollup_row hl mn ws l aggs nq) = nq"
  by (simp add: rollup_row_def Let_def)

lemma rollup_batch_evidence: "nq \<in> set (rollup_batch ws from maxid l) \<Longrightarrow> nq \<noteq> [] \<and> retained ws l nq \<noteq> []"
  by (auto simp: rollup_batch_def)

lemma RollupQueryAggregates_Inr:
  assumes "RollupQueryAggregates hl mn from maxid w s = Inr s'"
  shows "query_log s' = query_log s"
    and "agg_at (query_aggregates s') nq =
      (if nq \<in> set (rollup_batch (pg_ts w) from maxid (query_log s))
       then Some (rollup_row hl mn (pg_ts w) (query_log s) (query_aggregates s) nq) else agg_at (query_aggregates s) nq)"
    and "distinct (map qa_normalized_query (query_aggregates s)) \<Longrightarrow> distinct (map qa_normalized_query (query_aggregates s'))"
  using assms by (auto simp: RollupQueryAggregates_def Let_def agg_at_fold distinct_fold_put split: if_split_asm)

section \<open>One recount\<close>

lemma reeval_row_key [simp]: "qa_normalized_query (reeval_row hl mn ws l a) = qa_normalized_query a"
  by (simp add: reeval_row_def Let_def)

lemma reeval_row_banned [simp]: "qa_banned (reeval_row hl mn ws l a) = qa_banned a"
  by (simp add: reeval_row_def Let_def)

lemma reeval_row_still: "\<not> moves mn ws l (reeval_row hl mn ws l a)"
  by (simp add: moves_def want_def reeval_row_def Let_def)

lemma still_counts: "\<not> moves mn ws l a \<Longrightarrow>
    qa_distinct_users a = distinct_subjects (survivors ws l (qa_normalized_query a))
    \<and> qa_total_count a = int (length (survivors ws l (qa_normalized_query a))) \<and> qa_suggestible a = want mn ws l a"
  by (auto simp: moves_def Let_def)

text \<open>What the rollup writes for a query with evidence is what the re-evaluation writes, but for the display form.\<close>

lemma rollup_row_reeval:
  assumes "nq \<noteq> []" "retained ws l nq \<noteq> []" "agg_at aggs nq = Some a"
  shows "rollup_row hl mn ws l aggs nq = (reeval_row hl mn ws l a)\<lparr> qa_display_query := display_of l nq \<rparr>"
proof -
  have k: "qa_normalized_query a = nq" using sql_get_Some [OF assms(3)] by simp
  have "survivors ws l nq = retained ws l nq" using assms(1) by (simp add: survivors_def)
  then show ?thesis
    using assms by (simp add: rollup_row_def reeval_row_def want_def is_banned_def k Let_def)
qed

lemma rollup_row_fixed:
  assumes "nq \<noteq> []" "retained ws l nq \<noteq> []"
  shows "reeval_row hl mn ws l (rollup_row hl mn ws l aggs nq) = rollup_row hl mn ws l aggs nq"
proof -
  have "survivors ws l nq = retained ws l nq" using assms(1) by (simp add: survivors_def)
  then show ?thesis using assms(2) by (simp add: rollup_row_def reeval_row_def want_def Let_def)
qed

section \<open>Batches of the re-evaluation\<close>

definition movers :: "int \<Rightarrow> int \<Rightarrow> db \<Rightarrow> aggregate_row list" where
  "movers mn ws s = filter (moves mn ws (query_log s)) (query_aggregates s)"

definition reeval_table :: "real \<Rightarrow> int \<Rightarrow> int \<Rightarrow> db \<Rightarrow> aggregate_row list" where
  "reeval_table hl mn ws s =
     map (\<lambda>a. if moves mn ws (query_log s) a then reeval_row hl mn ws (query_log s) a else a) (query_aggregates s)"

text \<open>One batch takes the first \<open>lmt\<close> movers; what is left moves as before.\<close>

lemma batch_step:
  assumes "ReevaluateSuggestible w hl mn lmt s = Inr (n, s')" and "distinct (map qa_normalized_query (query_aggregates s))"
  shows "n = int (min (nat lmt) (length (movers mn (pg_ts w) s)))"
    and "length (movers mn (pg_ts w) s') = length (movers mn (pg_ts w) s) - nat n"
    and "reeval_table hl mn (pg_ts w) s' = reeval_table hl mn (pg_ts w) s"
    and "query_log s' = query_log s" and "s' = s\<lparr> query_aggregates := query_aggregates s' \<rparr>"
    and "map qa_normalized_query (query_aggregates s') = map qa_normalized_query (query_aggregates s)"
proof -
  let ?ws = "pg_ts w" and ?aggs = "query_aggregates s"
  let ?mv = "moves mn ?ws (query_log s)" and ?re = "reeval_row hl mn ?ws (query_log s)"
  define M where "M = sort_key qa_normalized_query (filter ?mv ?aggs)"
  define C where "C = set (map qa_normalized_query (take (nat lmt) M))"
  define f where "f = (\<lambda>a. if qa_normalized_query a \<in> C then ?re a else a)"
  have n: "n = int (length (take (nat lmt) M))" and s': "s' = s\<lparr> query_aggregates := map f ?aggs \<rparr>"
    using assms(1) by (auto simp: ReevaluateSuggestible_def Let_def M_def C_def f_def sql_update_def split: if_split_asm)
  have lenM: "length M = length (movers mn ?ws s)" by (simp add: M_def movers_def)
  show "n = int (min (nat lmt) (length (movers mn ?ws s)))" by (simp add: n lenM min.commute)
  show "query_log s' = query_log s" "s' = s\<lparr> query_aggregates := query_aggregates s' \<rparr>" by (simp_all add: s')
  show "map qa_normalized_query (query_aggregates s') = map qa_normalized_query ?aggs" by (simp add: s' f_def)
  have dM: "distinct (map qa_normalized_query M)"
  proof -
    have "mset (map qa_normalized_query M) = mset (map qa_normalized_query (filter ?mv ?aggs))" by (simp add: M_def)
    then show ?thesis using distinct_map_filter [OF assms(2)] by (metis mset_eq_imp_distinct_iff)
  qed
  have inC: "?mv a" if mem: "a \<in> set ?aggs" "qa_normalized_query a \<in> C" for a
  proof -
    obtain b where b: "b \<in> set M" "qa_normalized_query b = qa_normalized_query a"
      using mem(2) by (auto simp: C_def dest: in_set_takeD)
    then have "b \<in> set ?aggs" "?mv b" by (simp_all add: M_def)
    then show ?thesis using assms(2) mem(1) b(2) by (metis distinct_map inj_onD)
  qed
  have mvf: "?mv (f a) \<longleftrightarrow> ?mv a \<and> qa_normalized_query a \<notin> C" if "a \<in> set ?aggs" for a
    using inC [OF that] reeval_row_still by (auto simp: f_def)
  show "reeval_table hl mn ?ws s' = reeval_table hl mn ?ws s"
    using inC mvf by (auto simp: reeval_table_def s' f_def)
  have "length (movers mn ?ws s') = length (filter (\<lambda>a. ?mv (f a)) ?aggs)"
    by (simp add: movers_def s' filter_map comp_def)
  also have "\<dots> = length (filter (\<lambda>a. qa_normalized_query a \<notin> C) (filter ?mv ?aggs))"
    using mvf by (simp add: conj_commute cong: filter_cong)
  also have "\<dots> = length (filter ?mv ?aggs) - length (filter (\<lambda>a. qa_normalized_query a \<in> C) (filter ?mv ?aggs))"
    using sum_length_filter_compl [of "\<lambda>a. qa_normalized_query a \<in> C" "filter ?mv ?aggs"] by simp
  also have "length (filter (\<lambda>a. qa_normalized_query a \<in> C) (filter ?mv ?aggs))
      = length (filter (\<lambda>a. qa_normalized_query a \<in> C) M)"
    unfolding M_def by (metis mset_filter mset_sort size_mset)
  also have "filter (\<lambda>a. qa_normalized_query a \<in> C) M = take (nat lmt) M"
  proof -
    have "qa_normalized_query a \<notin> C" if "a \<in> set (drop (nat lmt) M)" for a
    proof -
      have "distinct (map qa_normalized_query (take (nat lmt) M) @ map qa_normalized_query (drop (nat lmt) M))"
        using dM by (metis append_take_drop_id map_append)
      then show ?thesis using that by (auto simp: C_def)
    qed
    then have "filter (\<lambda>a. qa_normalized_query a \<in> C) (take (nat lmt) M @ drop (nat lmt) M) = take (nat lmt) M"
      by (simp del: append_take_drop_id add: C_def)
    then show ?thesis by simp
  qed
  finally show "length (movers mn ?ws s') = length (movers mn ?ws s) - nat n"
    by (simp add: movers_def n)
qed

lemma no_movers: "movers mn ws s = [] \<Longrightarrow> reeval_table hl mn ws s = query_aggregates s"
  by (simp add: movers_def reeval_table_def filter_empty_conv map_idI)

section \<open>The two passes agree\<close>

text \<open>C16. The minute rollup and the daily re-evaluation are one computation: every row the rollup writes is
  a fixed point of the re-evaluation over the same window and floor, and is the row the re-evaluation
  would have made of the old one, but for the display form; every other row is left alone.\<close>

theorem rollup_reeval_agree:
  assumes "distinct (map qa_normalized_query (query_aggregates s))"
    and "RollupQueryAggregates hl mn from maxid w s = Inr s'" and "a \<in> set (query_aggregates s')"
  shows "if qa_normalized_query a \<in> set (rollup_batch (pg_ts w) from maxid (query_log s)) then
      reeval_row hl mn (pg_ts w) (query_log s') a = a \<and> \<not> moves mn (pg_ts w) (query_log s') a
      \<and> (\<forall>old \<in> set (query_aggregates s). qa_normalized_query old = qa_normalized_query a \<longrightarrow>
           a = (reeval_row hl mn (pg_ts w) (query_log s') old)
             \<lparr> qa_display_query := display_of (query_log s) (qa_normalized_query a) \<rparr>)
     else a \<in> set (query_aggregates s)"
proof -
  let ?k = "qa_normalized_query a" and ?l = "query_log s"
  note r = RollupQueryAggregates_Inr [OF assms(2)]
  have at: "agg_at (query_aggregates s') ?k = Some a"
    using sql_get_key [OF r(3) [OF assms(1)] assms(3)] .
  show ?thesis
  proof (cases "?k \<in> set (rollup_batch (pg_ts w) from maxid ?l)")
    case True
    then have a: "a = rollup_row hl mn (pg_ts w) ?l (query_aggregates s) ?k" using at r(2) [of ?k] by simp
    have ev: "?k \<noteq> []" "retained (pg_ts w) ?l ?k \<noteq> []" using rollup_batch_evidence [OF True] by simp_all
    have fp: "reeval_row hl mn (pg_ts w) ?l a = a" using rollup_row_fixed [OF ev] a by metis
    then have "\<not> moves mn (pg_ts w) ?l a" using reeval_row_still by metis
    moreover have "a = (reeval_row hl mn (pg_ts w) ?l old)\<lparr> qa_display_query := display_of ?l ?k \<rparr>"
      if "old \<in> set (query_aggregates s)" "qa_normalized_query old = ?k" for old
      using rollup_row_reeval [OF ev] sql_get_key [OF assms(1) that(1)] that(2) a by metis
    ultimately show ?thesis using True fp r(1) by simp
  next
    case False
    then have "agg_at (query_aggregates s) ?k = Some a" using at r(2) [of ?k] by simp
    then show ?thesis using False sql_get_Some by fastforce
  qed
qed

definition sample_rollup_row :: query_log_row where
  "sample_rollup_row = \<lparr> ql_id = 1, ql_event_id = None, ql_normalized_query = ''cats'', ql_display_query = ''Cats'',
     ql_user_id = Some 1, ql_session_id = None, ql_subject_id = None, ql_results_count = None, ql_submitted_at = 0 \<rparr>"

definition sample_unrolled :: db where
  "sample_unrolled = empty_db \<lparr> query_log := [sample_rollup_row] \<rparr>"

lemma sample_rollup: "RollupQueryAggregates 604800 1 0 1 0 sample_unrolled = Inr (sample_unrolled\<lparr> query_aggregates :=
    [rollup_row 604800 1 0 [sample_rollup_row] [] ''cats''] \<rparr>)"
  by (simp add: RollupQueryAggregates_def Let_def sample_unrolled_def sample_rollup_row_def rollup_batch_def retained_def
      pg_ts_def underflows_def half_lives_def last_of_def put_aggregate_def sql_upsert_def empty_db_def)

lemma rollup_reeval_agree_witness:
  "reeval_row 604800 1 0 [sample_rollup_row] (rollup_row 604800 1 0 [sample_rollup_row] [] ''cats'')
     = rollup_row 604800 1 0 [sample_rollup_row] [] ''cats''"
proof -
  have "distinct (map qa_normalized_query (query_aggregates sample_unrolled))" by (simp add: sample_unrolled_def empty_db_def)
  from rollup_reeval_agree [OF this sample_rollup, of "rollup_row 604800 1 0 [sample_rollup_row] [] ''cats''"]
  show ?thesis by (simp add: pg_ts_def sample_unrolled_def rollup_batch_def retained_def sample_rollup_row_def)
qed

section \<open>Underflow\<close>

lemma underflows_old:
  assumes "r \<in> set rows" "r' \<in> set rows" "0 < hl"
    and "1075 * hl * real_of_int nanos \<le> real_of_int (ql_submitted_at r' - ql_submitted_at r)"
  shows "underflows hl rows"
proof -
  have "ql_submitted_at r' \<le> last_of rows" using assms(2) by (simp add: last_of_def)
  then have "real_of_int (ql_submitted_at r' - ql_submitted_at r) \<le> real_of_int (last_of rows - ql_submitted_at r)" by simp
  then have "1075 * hl * real_of_int nanos \<le> real_of_int (last_of rows - ql_submitted_at r)" using assms(4) by linarith
  then have "1075 * hl \<le> real_of_int (last_of rows - ql_submitted_at r) / real_of_int nanos"
    by (simp add: nanos_def pos_le_divide_eq)
  then have "1075 * hl \<le> max 0 (real_of_int (last_of rows - ql_submitted_at r) / real_of_int nanos)" by linarith
  then have "1075 \<le> half_lives hl rows r" unfolding half_lives_def by (simp only: pos_le_divide_eq [OF assms(3)])
  then show ?thesis using assms(1) by (auto simp: underflows_def list_ex_iff)
qed

lemma MaxQueryLogID_ge: "r \<in> set (query_log s) \<Longrightarrow> ql_id r \<le> MaxQueryLogID s"
  by (auto simp: MaxQueryLogID_def max_or_zero_def)

end
