(* ===== verification/Redis.thy ===== *)
theory Redis
  imports Schema "HOL-Library.AList"
begin

text \<open>
  The keyspace of the Redis server and the commands the code sends: a key holds a value and
  the time it expires, if any. \<open>t\<close> is the server's clock. A command on a key that holds a
  value of another kind sees nothing there; the keys of \<open>internal/cache\<close> of different kinds
  have different prefixes. A HyperLogLog is the set of the members added to it; how many it
  reports is a parameter of the operations that ask.
\<close>

datatype rvalue =
    RFlag
  | RInt int
  | RList "string list"
  | RZSet "(string \<times> real) list"
  | RHash "(string \<times> int) list"
  | RHll "string list"
  | RScored "(string \<times> real) list"

type_synonym redis = "string \<Rightarrow> (rvalue \<times> int option) option"

definition empty_redis :: redis where
  "empty_redis = (\<lambda>k. None)"

text \<open>The value of a key that has not expired.\<close>

definition live :: "int \<Rightarrow> redis \<Rightarrow> string \<Rightarrow> (rvalue \<times> int option) option" where
  "live t m k = (case m k of None \<Rightarrow> None
     | Some (v, e) \<Rightarrow> if (case e of None \<Rightarrow> True | Some x \<Rightarrow> t < x) then Some (v, e) else None)"

text \<open>A write keeps the expiry of a key that is there; a new key has none.\<close>

definition put :: "int \<Rightarrow> string \<Rightarrow> rvalue \<Rightarrow> redis \<Rightarrow> redis" where
  "put t k v m = m(k \<mapsto> (v, case live t m k of None \<Rightarrow> None | Some (w, e) \<Rightarrow> e))"

definition expire :: "int \<Rightarrow> string \<Rightarrow> int \<Rightarrow> redis \<Rightarrow> redis" where
  "expire t k ttl m = (case live t m k of None \<Rightarrow> m | Some (v, e) \<Rightarrow> m(k \<mapsto> (v, Some (t + ttl))))"

definition set_ex :: "int \<Rightarrow> string \<Rightarrow> rvalue \<Rightarrow> int \<Rightarrow> redis \<Rightarrow> redis" where
  "set_ex t k v ttl m = m(k \<mapsto> (v, if ttl > 0 then Some (t + ttl) else None))"

definition set_nx :: "int \<Rightarrow> string \<Rightarrow> rvalue \<Rightarrow> int \<Rightarrow> redis \<Rightarrow> bool \<times> redis" where
  "set_nx t k v ttl m = (case live t m k of None \<Rightarrow> (True, set_ex t k v ttl m) | Some w \<Rightarrow> (False, m))"

definition del :: "string list \<Rightarrow> redis \<Rightarrow> redis" where
  "del ks m = (\<lambda>k. if k \<in> set ks then None else m k)"

definition list_at :: "int \<Rightarrow> redis \<Rightarrow> string \<Rightarrow> string list" where
  "list_at t m k = (case live t m k of Some (RList xs, e) \<Rightarrow> xs | _ \<Rightarrow> [])"

definition zset_at :: "int \<Rightarrow> redis \<Rightarrow> string \<Rightarrow> (string \<times> real) list" where
  "zset_at t m k = (case live t m k of Some (RZSet xs, e) \<Rightarrow> xs | _ \<Rightarrow> [])"

definition hash_at :: "int \<Rightarrow> redis \<Rightarrow> string \<Rightarrow> (string \<times> int) list" where
  "hash_at t m k = (case live t m k of Some (RHash xs, e) \<Rightarrow> xs | _ \<Rightarrow> [])"

definition hll_at :: "int \<Rightarrow> redis \<Rightarrow> string \<Rightarrow> string list" where
  "hll_at t m k = (case live t m k of Some (RHll xs, e) \<Rightarrow> xs | _ \<Rightarrow> [])"

definition int_at :: "int \<Rightarrow> redis \<Rightarrow> string \<Rightarrow> int option" where
  "int_at t m k = (case live t m k of Some (RInt n, e) \<Rightarrow> Some n | _ \<Rightarrow> None)"

definition lpush :: "int \<Rightarrow> string \<Rightarrow> string \<Rightarrow> redis \<Rightarrow> redis" where
  "lpush t k v m = put t k (RList (v # list_at t m k)) m"

text \<open>\<open>LTRIM key 0 (n - 1)\<close> of a list that is there; an empty list is no key.\<close>

definition ltrim :: "int \<Rightarrow> string \<Rightarrow> nat \<Rightarrow> redis \<Rightarrow> redis" where
  "ltrim t k n m = (if list_at t m k = [] then m else put t k (RList (take n (list_at t m k))) m)"

definition incr :: "int \<Rightarrow> string \<Rightarrow> redis \<Rightarrow> redis" where
  "incr t k m = put t k (RInt ((case int_at t m k of None \<Rightarrow> 0 | Some n \<Rightarrow> n) + 1)) m"

definition pfadd :: "int \<Rightarrow> string \<Rightarrow> string \<Rightarrow> redis \<Rightarrow> redis" where
  "pfadd t k v m = put t k (RHll (List.insert v (hll_at t m k))) m"

definition zadd :: "int \<Rightarrow> string \<Rightarrow> real \<Rightarrow> string \<Rightarrow> redis \<Rightarrow> redis" where
  "zadd t k score member m = put t k (RZSet (AList.update member score (zset_at t m k))) m"

definition hset :: "int \<Rightarrow> string \<Rightarrow> string \<Rightarrow> int \<Rightarrow> redis \<Rightarrow> redis" where
  "hset t k field v m = put t k (RHash (AList.update field v (hash_at t m k))) m"

definition zrem :: "int \<Rightarrow> string \<Rightarrow> string \<Rightarrow> redis \<Rightarrow> redis" where
  "zrem t k member m = (case AList.delete member (zset_at t m k) of [] \<Rightarrow> del [k] m | xs \<Rightarrow> put t k (RZSet xs) m)"

definition hdel :: "int \<Rightarrow> string \<Rightarrow> string \<Rightarrow> redis \<Rightarrow> redis" where
  "hdel t k field m = (case AList.delete field (hash_at t m k) of [] \<Rightarrow> del [k] m | xs \<Rightarrow> put t k (RHash xs) m)"

text \<open>What each write leaves under the other keys, and what it makes of its own.\<close>

lemma live_simps [simp]:
  "put t k v m k' = (if k' = k then Some (v, case live t m k of None \<Rightarrow> None | Some (w, e) \<Rightarrow> e) else m k')"
  "del ks m k' = (if k' \<in> set ks then None else m k')"
  by (simp_all add: put_def del_def)

lemma live_put: "live t' (put t k v m) k' =
   (if k' = k then (let e = (case live t m k of None \<Rightarrow> None | Some (w, e) \<Rightarrow> e)
        in if (case e of None \<Rightarrow> True | Some x \<Rightarrow> t' < x) then Some (v, e) else None)
    else live t' m k')"
  by (simp add: live_def)

lemma live_del [simp]: "live t (del ks m) k = (if k \<in> set ks then None else live t m k)"
  by (simp add: live_def)

lemma live_empty [simp]: "live t empty_redis k = None"
  by (simp add: live_def empty_redis_def)

lemma live_expire: "live t (expire t k ttl m) k' =
   (if k' = k \<and> ttl > 0 then map_option (\<lambda>(v, e). (v, Some (t + ttl))) (live t m k)
    else if k' = k then None else live t m k')"
  by (auto simp: expire_def live_def split: option.split prod.split)

lemma live_put_now [simp]:
  "live t (put t k v m) k = Some (v, case live t m k of None \<Rightarrow> None | Some (w, e) \<Rightarrow> e)"
  by (auto simp: live_put live_def Let_def split: option.split option.split_asm prod.split prod.split_asm if_split_asm)

lemma put_other [simp]: "k' \<noteq> k \<Longrightarrow> put t k v m k' = m k'"
  by simp

lemma expire_other [simp]: "k' \<noteq> k \<Longrightarrow> expire t k ttl m k' = m k'"
  by (auto simp: expire_def split: option.split)

lemma live_cong: "m k = m' k \<Longrightarrow> live t m k = live t m' k"
  by (simp add: live_def)

lemma set_nx_other [simp]: "k' \<noteq> k \<Longrightarrow> snd (set_nx t k v ttl m) k' = m k'"
  by (auto simp: set_nx_def set_ex_def split: option.split)

end
