(* ===== verification/Cache.thy ===== *)
theory Cache
  imports Redis
begin

text \<open>
  \<open>internal/cache\<close>: the session lists (\<open>session.go\<close>) and the trending state (\<open>trending.go\<close>). An
  operation takes the clock \<open>t\<close>, which the process and the server share, and how much of its
  traffic reached the server: of a pipeline the number \<open>sent\<close> of commands that ran, of a single
  command whether it ran. It returns whether it succeeded and the keyspace it leaves. The two Lua scripts
  are written out; scores and timestamps keep their exact values. The cached trending list is
  stored as the list that its JSON encodes.
\<close>

section \<open>Session lists\<close>

definition sessionTTL :: int where "sessionTTL = hours 2"

definition sessionMax :: nat where "sessionMax = 20"

definition sessionQueryKey :: "string \<Rightarrow> string" where "sessionQueryKey sid = ''sess:q:'' @ sid"

definition sessionVideoKey :: "string \<Rightarrow> string" where "sessionVideoKey sid = ''sess:v:'' @ sid"

definition pushSession :: "int \<Rightarrow> nat \<Rightarrow> string \<Rightarrow> string \<Rightarrow> redis \<Rightarrow> bool \<times> redis" where
  "pushSession t sent key v m =
     (if v = [] then (True, m)
      else (3 \<le> sent, fold (\<lambda>cmd. cmd) (take sent [lpush t key v, ltrim t key sessionMax, expire t key sessionTTL]) m))"

definition PushSessionQuery :: "int \<Rightarrow> nat \<Rightarrow> string \<Rightarrow> string \<Rightarrow> redis \<Rightarrow> bool \<times> redis" where
  "PushSessionQuery t sent sid nq m = (if sid = [] then (True, m) else pushSession t sent (sessionQueryKey sid) nq m)"

definition PushSessionVideo :: "int \<Rightarrow> nat \<Rightarrow> string \<Rightarrow> string \<Rightarrow> redis \<Rightarrow> bool \<times> redis" where
  "PushSessionVideo t sent sid vid m = (if sid = [] then (True, m) else pushSession t sent (sessionVideoKey sid) vid m)"

definition SessionQueries :: "int \<Rightarrow> bool \<Rightarrow> string \<Rightarrow> redis \<Rightarrow> string list" where
  "SessionQueries t ok sid m =
     (if sid = [] \<or> \<not> ok then [] else take sessionMax (list_at t m (sessionQueryKey sid)))"

definition SessionVideos :: "int \<Rightarrow> bool \<Rightarrow> string \<Rightarrow> redis \<Rightarrow> string list" where
  "SessionVideos t ok sid m =
     (if sid = [] \<or> \<not> ok then [] else take sessionMax (list_at t m (sessionVideoKey sid)))"

definition DropSessionRecency :: "bool \<Rightarrow> string list \<Rightarrow> redis \<Rightarrow> bool \<times> redis" where
  "DropSessionRecency ok sids m =
     (let ks = concat (map (\<lambda>sid. if sid = [] then [] else [sessionQueryKey sid, sessionVideoKey sid]) sids)
      in if ks = [] then (True, m) else if ok then (True, del ks m) else (False, m))"

section \<open>Trending\<close>

definition counterTTL :: int where "counterTTL = hours (8 * 24)"

definition trendZKey :: "string \<Rightarrow> string" where "trendZKey d = ''trend:'' @ d"

definition trendTSKey :: "string \<Rightarrow> string" where "trendTSKey d = ''trend:'' @ d @ '':ts''"

definition trendTopKey :: "string \<Rightarrow> string" where "trendTopKey d = ''trend:'' @ d @ '':top''"

definition hllKey :: "string \<Rightarrow> string \<Rightarrow> string \<Rightarrow> string" where
  "hllKey d item day = ''hll:'' @ d @ '':'' @ item @ '':'' @ day"

definition cntKey :: "string \<Rightarrow> string \<Rightarrow> string \<Rightarrow> string" where
  "cntKey d item day = ''cnt:'' @ d @ '':'' @ item @ '':'' @ day"

definition trendGuardKey :: "string \<Rightarrow> string \<Rightarrow> string \<Rightarrow> string" where
  "trendGuardKey d subject item = ''guard:trend:'' @ d @ '':'' @ subject @ '':'' @ item"

text \<open>\<open>Format("20060102")\<close> of a UTC day: the proleptic Gregorian date of a day number.\<close>

definition civil :: "int \<Rightarrow> int \<times> int \<times> int" where
  "civil days = (let z = days + 719468; era = z div 146097; doe = z mod 146097;
       yoe = (doe - doe div 1460 + doe div 36524 - doe div 146096) div 365;
       doy = doe - (365 * yoe + yoe div 4 - yoe div 100); mp = (5 * doy + 2) div 153;
       m = (if mp < 10 then mp + 3 else mp - 9)
     in (yoe + era * 400 + (if m \<le> 2 then 1 else 0), m, doy - (153 * mp + 2) div 5 + 1))"

definition zero_pad :: "nat \<Rightarrow> int \<Rightarrow> string" where
  "zero_pad n i = (let ds = dec_nat i in replicate (n - length ds) (CHR ''0'') @ ds)"

definition day_name :: "int \<Rightarrow> string" where
  "day_name days = (case civil days of (y, m, d) \<Rightarrow> zero_pad 4 y @ zero_pad 2 m @ zero_pad 2 d)"

definition day_of :: "int \<Rightarrow> int" where
  "day_of t = t div (86400 * nanos)"

definition dayStamp :: "int \<Rightarrow> string" where
  "dayStamp t = day_name (day_of t)"

text \<open>The decay both scripts apply; times are Unix seconds.\<close>

definition script_factor :: "real \<Rightarrow> int \<Rightarrow> real" where
  "script_factor hl elapsed = (if hl > 0 \<and> elapsed > 0 then 2 powr (- real_of_int elapsed / hl) else 1)"

definition unix :: "int \<Rightarrow> int" where
  "unix t = t div nanos"

definition script_score :: "int \<Rightarrow> string \<Rightarrow> string \<Rightarrow> redis \<Rightarrow> real" where
  "script_score t k member m = (case map_of (zset_at t m k) member of None \<Rightarrow> 0 | Some x \<Rightarrow> x)"

definition script_last :: "int \<Rightarrow> string \<Rightarrow> string \<Rightarrow> redis \<Rightarrow> int" where
  "script_last t k member m = (case map_of (hash_at t m k) member of None \<Rightarrow> unix t | Some x \<Rightarrow> x)"

definition trendBumpScript :: "int \<Rightarrow> string \<Rightarrow> string \<Rightarrow> string \<Rightarrow> real \<Rightarrow> real \<Rightarrow> int \<Rightarrow> redis \<Rightarrow> redis" where
  "trendBumpScript t zkey hkey member hl inc ttl m =
     (let cur = script_score t zkey member m; last = script_last t hkey member m;
          newv = cur * script_factor hl (unix t - last) + inc
      in expire t hkey ttl (expire t zkey ttl (hset t hkey member (unix t) (zadd t zkey newv member m))))"

text \<open>One member of the sweep, and the sweep over the members read at its start.\<close>

definition sweep_one :: "int \<Rightarrow> string \<Rightarrow> string \<Rightarrow> real \<Rightarrow> real \<Rightarrow> string \<times> real \<Rightarrow> redis \<Rightarrow> redis" where
  "sweep_one t zkey hkey hl flr ms m =
     (let decayed = snd ms * script_factor hl (unix t - script_last t hkey (fst ms) m)
      in if decayed < flr then hdel t hkey (fst ms) (zrem t zkey (fst ms) m)
         else hset t hkey (fst ms) (unix t) (zadd t zkey decayed (fst ms) m))"

definition trendSweepScript :: "int \<Rightarrow> string \<Rightarrow> string \<Rightarrow> real \<Rightarrow> real \<Rightarrow> redis \<Rightarrow> int \<times> redis" where
  "trendSweepScript t zkey hkey hl flr m =
     (let m' = fold (sweep_one t zkey hkey hl flr) (zset_at t m zkey) m
      in (int (length (zset_at t m' zkey)), m'))"

text \<open>\<open>sent\<close> of the four counting commands, then the guard, then the script; the script runs when the
  guard was set by this call.\<close>

definition TrendBump ::
  "int \<Rightarrow> nat \<Rightarrow> bool \<Rightarrow> bool \<Rightarrow> string \<Rightarrow> string \<Rightarrow> string \<Rightarrow> real \<Rightarrow> int \<Rightarrow> redis \<Rightarrow> bool \<times> redis" where
  "TrendBump t sent nx_ok run_ok d item subject hl capWindow m =
     (if item = [] then (True, m)
      else (let subject = (if subject = [] then ''anon'' else subject); day = dayStamp t;
                ck = cntKey d item day; hk = hllKey d item day;
                m1 = fold (\<lambda>cmd. cmd)
                  (take sent [incr t ck, expire t ck counterTTL, pfadd t hk subject, expire t hk counterTTL]) m
            in if sent < 4 \<or> \<not> nx_ok then (False, m1)
               else (case set_nx t (trendGuardKey d subject item) RFlag capWindow m1 of
                   (False, m2) \<Rightarrow> (True, m2)
                 | (True, m2) \<Rightarrow> if \<not> run_ok then (False, m2)
                     else (True, trendBumpScript t (trendZKey d) (trendTSKey d) item hl 1 counterTTL m2))))"

definition TrendSweep :: "int \<Rightarrow> bool \<Rightarrow> string \<Rightarrow> real \<Rightarrow> real \<Rightarrow> redis \<Rightarrow> int option \<times> redis" where
  "TrendSweep t ok d hl flr m =
     (if \<not> ok then (None, m)
      else (case trendSweepScript t (trendZKey d) (trendTSKey d) hl flr m of (n, m') \<Rightarrow> (Some n, m')))"

text \<open>Highest score first; members of one score in descending order of name.\<close>

definition scored_less :: "string \<times> real \<Rightarrow> string \<times> real \<Rightarrow> bool" where
  "scored_less a b \<longleftrightarrow> snd a > snd b \<or> (snd a = snd b \<and> fst b < fst a)"

definition TrendTop :: "int \<Rightarrow> bool \<Rightarrow> string \<Rightarrow> int \<Rightarrow> redis \<Rightarrow> (string \<times> real) list option" where
  "TrendTop t ok d k m =
     (if k \<le> 0 then Some [] else if \<not> ok then None
      else Some (take (nat k) (SliceStable scored_less (zset_at t m (trendZKey d)))))"

definition dayKeys :: "int \<Rightarrow> (string \<Rightarrow> string \<Rightarrow> string \<Rightarrow> string) \<Rightarrow> string \<Rightarrow> string \<Rightarrow> int \<Rightarrow> string list" where
  "dayKeys t keyFn d item days =
     map (\<lambda>i. keyFn d item (day_name (day_of t - int i))) [0..<nat (max 1 days)]"

text \<open>\<open>card_hll\<close> is the server's estimate of the size of a set.\<close>

definition TrendDistinctUsers ::
  "(string set \<Rightarrow> int) \<Rightarrow> int \<Rightarrow> bool \<Rightarrow> string \<Rightarrow> string \<Rightarrow> int \<Rightarrow> redis \<Rightarrow> int option" where
  "TrendDistinctUsers card_hll t ok d item days m =
     (if ok then Some (card_hll (\<Union>k \<in> set (dayKeys t hllKey d item days). set (hll_at t m k))) else None)"

definition TrendTotal :: "int \<Rightarrow> bool \<Rightarrow> string \<Rightarrow> string \<Rightarrow> int \<Rightarrow> redis \<Rightarrow> real option" where
  "TrendTotal t ok d item days m =
     (if ok then Some (sum_list (map (\<lambda>k. case int_at t m k of None \<Rightarrow> 0 | Some n \<Rightarrow> real_of_int n)
        (dayKeys t cntKey d item days))) else None)"

definition WriteTrendingList :: "int \<Rightarrow> bool \<Rightarrow> string \<Rightarrow> (string \<times> real) list \<Rightarrow> int \<Rightarrow> redis \<Rightarrow> bool \<times> redis" where
  "WriteTrendingList t ok d items ttl m =
     (if ok then (True, set_ex t (trendTopKey d) (RScored items) ttl m) else (False, m))"

definition readTrendingList :: "int \<Rightarrow> bool \<Rightarrow> string \<Rightarrow> redis \<Rightarrow> (string \<times> real) list" where
  "readTrendingList t ok d m =
     (if ok then (case live t m (trendTopKey d) of Some (RScored xs, e) \<Rightarrow> xs | _ \<Rightarrow> []) else [])"

text \<open>The last entry of an item wins.\<close>

definition TrendingQuerySet :: "int \<Rightarrow> bool \<Rightarrow> redis \<Rightarrow> string \<Rightarrow> real option" where
  "TrendingQuerySet t ok m = map_of (rev (readTrendingList t ok ''q'' m))"

definition TrendingVideos :: "int \<Rightarrow> bool \<Rightarrow> redis \<Rightarrow> (string \<times> real) list" where
  "TrendingVideos t ok m = readTrendingList t ok ''v'' m"

section \<open>The lists of a session\<close>

text \<open>A session list is a bounded log: after a push that went through, a read gives the pushed value
  first, then what was read before, twenty values at most; when only a part of the commands ran,
  a read still gives at most twenty.\<close>

theorem session_push_read:
  assumes "sid \<noteq> []" and "v \<noteq> []"
  shows "SessionQueries t True sid (snd (PushSessionQuery t 3 sid v m)) = take 20 (v # SessionQueries t True sid m)
    \<and> length (SessionQueries t' ok sid (snd (PushSessionQuery t sent sid v m))) \<le> 20"
  using assms
  by (simp add: SessionQueries_def PushSessionQuery_def pushSession_def sessionMax_def list_at_def lpush_def
      ltrim_def live_expire sessionTTL_def hours_def nanos_def take_Cons' numeral_eq_Suc split: option.split)

lemma session_push_read_witness:
  "SessionQueries 5 True ''s'' (snd (PushSessionQuery 5 3 ''s'' ''cats'' empty_redis)) = take 20 [''cats'']
    \<and> length (SessionQueries 9 True ''s'' (snd (PushSessionQuery 5 1 ''s'' ''cats'' empty_redis))) \<le> 20"
  using session_push_read [of "''s''" "''cats''" 5 empty_redis 9 True 1]
  by (simp add: SessionQueries_def list_at_def)

lemma DropSessionRecency_reads:
  assumes "fst (DropSessionRecency ok sids m)" "sid \<in> set sids"
  shows "SessionQueries t ok' sid (snd (DropSessionRecency ok sids m)) = []
    \<and> SessionVideos t ok' sid (snd (DropSessionRecency ok sids m)) = []"
  using assms
  by (cases "sid = []")
    (auto simp: DropSessionRecency_def SessionQueries_def SessionVideos_def Let_def list_at_def split: if_split_asm)

section \<open>What one bump does\<close>

lemmas trend_keys = cntKey_def hllKey_def trendGuardKey_def trendZKey_def trendTSKey_def trendTopKey_def

lemma fold_cmds_other:
  assumes "\<And>cmd m. cmd \<in> set cmds \<Longrightarrow> cmd m k = m k"
  shows "fold (\<lambda>cmd. cmd) (take n cmds) m k = (m k :: 'a)"
proof -
  have "\<forall>cmd \<in> set cs. \<forall>m. cmd m k = m k \<Longrightarrow> fold (\<lambda>cmd. cmd) cs m k = m k" for cs m
    by (induction cs arbitrary: m) simp_all
  then show ?thesis using assms by (metis in_set_takeD)
qed

text \<open>The counting commands touch no key of another prefix.\<close>

definition counted :: "int \<Rightarrow> nat \<Rightarrow> string \<Rightarrow> string \<Rightarrow> string \<Rightarrow> redis \<Rightarrow> redis" where
  "counted t sent d item subject m =
     (let day = dayStamp t; ck = cntKey d item day; hk = hllKey d item day
      in fold (\<lambda>cmd. cmd) (take sent [incr t ck, expire t ck counterTTL, pfadd t hk subject, expire t hk counterTTL]) m)"

lemma counted_other: "hd k \<noteq> CHR ''c'' \<Longrightarrow> hd k \<noteq> CHR ''h'' \<Longrightarrow> counted t sent d item subject m k = m k"
  unfolding counted_def Let_def
  by (rule fold_cmds_other) (auto simp: incr_def pfadd_def trend_keys intro!: expire_other)

definition subject_of :: "string \<Rightarrow> string" where
  "subject_of s = (if s = [] then ''anon'' else s)"

lemma TrendBump_alt: "TrendBump t sent nx_ok run_ok d item subject hl cap m =
   (if item = [] then (True, m)
    else (let m1 = counted t sent d item (subject_of subject) m
          in if sent < 4 \<or> \<not> nx_ok then (False, m1)
             else (case set_nx t (trendGuardKey d (subject_of subject) item) RFlag cap m1 of
                 (False, m2) \<Rightarrow> (True, m2)
               | (True, m2) \<Rightarrow> if \<not> run_ok then (False, m2)
                   else (True, trendBumpScript t (trendZKey d) (trendTSKey d) item hl 1 counterTTL m2))))"
  by (simp add: TrendBump_def counted_def subject_of_def Let_def)

lemma script_other:
  "k \<noteq> zkey \<Longrightarrow> k \<noteq> hkey \<Longrightarrow> trendBumpScript t zkey hkey member hl inc ttl m k = m k"
  by (simp add: trendBumpScript_def Let_def hset_def zadd_def)

text \<open>The stored score of a member, expired or not.\<close>

definition raw :: "redis \<Rightarrow> string \<Rightarrow> string \<Rightarrow> real" where
  "raw m k x = (case m k of Some (RZSet xs, e) \<Rightarrow> (case map_of xs x of None \<Rightarrow> 0 | Some r \<Rightarrow> r) | _ \<Rightarrow> 0)"

lemma raw_cong: "m k = m' k \<Longrightarrow> raw m k x = raw m' k x"
  by (simp add: raw_def)

lemma raw_expire [simp]: "0 < ttl \<Longrightarrow> raw (expire t k' ttl m) k x = raw m k x"
  by (auto simp: raw_def expire_def live_def split: option.split prod.split)

lemma raw_hset: "k' \<noteq> k \<Longrightarrow> raw (hset t k' f v m) k x = raw m k x"
  by (rule raw_cong) (simp add: hset_def)

lemma script_score_raw: "script_score t k x m = raw m k x \<or> script_score t k x m = 0"
  by (auto simp: script_score_def raw_def zset_at_def live_def split: option.split prod.split rvalue.split)

lemma raw_zadd: "raw (zadd t k score y m) k x = (if x = y then score else script_score t k x m)"
  by (simp add: raw_def zadd_def script_score_def update_conv')

lemma script_factor_bounds: "0 < script_factor hl e \<and> script_factor hl e \<le> 1"
proof (cases "hl > 0 \<and> e > 0")
  case True
  then have "- real_of_int e / hl \<le> 0" by simp
  then have "2 powr (- real_of_int e / hl) \<le> 2 powr (0 :: real)" by (intro powr_mono) simp_all
  then show ?thesis by (simp add: script_factor_def)
qed (auto simp: script_factor_def)

lemma script_raw:
  assumes "zkey \<noteq> hkey" "0 < ttl" "0 \<le> raw m zkey x"
  shows "0 \<le> raw (trendBumpScript t zkey hkey y hl 1 ttl m) zkey x
    \<and> raw (trendBumpScript t zkey hkey y hl 1 ttl m) zkey x \<le> raw m zkey x + (if x = y then 1 else 0)"
proof -
  let ?s = "\<lambda>x. script_score t zkey x m"
  define f where "f = script_factor hl (unix t - script_last t hkey y m)"
  have s: "0 \<le> ?s x" "?s x \<le> raw m zkey x" using script_score_raw [of t zkey x m] assms(3) by auto
  have f: "0 < f" "f \<le> 1" using script_factor_bounds by (simp_all add: f_def)
  have "?s x * f \<le> ?s x" "0 \<le> ?s x * f" using s f mult_left_le [of f "?s x"] by simp_all
  moreover have "raw (trendBumpScript t zkey hkey y hl 1 ttl m) zkey x = (if x = y then ?s y * f + 1 else ?s x)"
    using assms(1,2) unfolding trendBumpScript_def Let_def
    by (simp add: raw_hset raw_zadd f_def)
  ultimately show ?thesis using s by auto
qed

section \<open>A subject counts once a window\<close>

text \<open>A bump with its clock, what of it reached the server, and its arguments.\<close>

record bump =
  bp_at :: int
  bp_sent :: nat
  bp_nx :: bool
  bp_run :: bool
  bp_domain :: string
  bp_item :: string
  bp_subject :: string

definition bump_step :: "real \<Rightarrow> int \<Rightarrow> bump \<Rightarrow> redis \<Rightarrow> redis" where
  "bump_step hl cap b m =
     snd (TrendBump (bp_at b) (bp_sent b) (bp_nx b) (bp_run b) (bp_domain b) (bp_item b) (bp_subject b) hl cap m)"

definition voters :: "string \<Rightarrow> string \<Rightarrow> bump list \<Rightarrow> string set" where
  "voters d x bs = {subject_of (bp_subject b) | b. b \<in> set bs \<and> bp_domain b = d \<and> bp_item b = x}"

definition in_window :: "int \<Rightarrow> int \<Rightarrow> bump \<Rightarrow> bool" where
  "in_window t0 cap b \<longleftrightarrow> t0 \<le> bp_at b \<and> bp_at b < t0 + cap \<and> bp_domain b \<in> {''q'', ''v''}"

definition guarded :: "int \<Rightarrow> int \<Rightarrow> string \<Rightarrow> redis \<Rightarrow> bool" where
  "guarded t0 cap k m \<longleftrightarrow> (\<forall>t. t0 \<le> t \<and> t < t0 + cap \<longrightarrow> live t m k \<noteq> None)"

lemma voters_Cons: "voters d x (b # bs) =
    (if bp_domain b = d \<and> bp_item b = x then insert (subject_of (bp_subject b)) (voters d x bs) else voters d x bs)"
  by (auto simp: voters_def)

lemma finite_voters: "finite (voters d x bs)"
  unfolding voters_def by simp

text \<open>The guards in force stay in force, and the guard of a bump that ran the script is in force.\<close>

lemma guarded_cong: "m k = m' k \<Longrightarrow> guarded t0 cap k m \<longleftrightarrow> guarded t0 cap k m'"
  by (simp add: guarded_def live_def)

lemma guarded_counted: "guarded t0 cap (trendGuardKey d s x) (counted t n d' i u m) = guarded t0 cap (trendGuardKey d s x) m"
  by (rule guarded_cong) (rule counted_other, simp_all add: trend_keys)

lemma guarded_script:
  "guarded t0 cap (trendGuardKey d s x) (trendBumpScript t (trendZKey d') (trendTSKey d') i hl inc ttl m)
    = guarded t0 cap (trendGuardKey d s x) m"
  by (rule guarded_cong) (rule script_other, simp_all add: trend_keys)

lemma guarded_set_nx:
  assumes "guarded t0 cap k m" "t0 \<le> t" "t < t0 + cap"
  shows "guarded t0 cap k (snd (set_nx t k' v ttl m))"
proof (cases "k' = k")
  case True
  then have "live t m k' \<noteq> None" using assms by (simp add: guarded_def)
  then have "snd (set_nx t k' v ttl m) = m" by (auto simp: set_nx_def)
  then show ?thesis using assms(1) by simp
next
  case False
  then have "guarded t0 cap k (snd (set_nx t k' v ttl m)) = guarded t0 cap k m"
    by (intro guarded_cong) simp
  then show ?thesis using assms(1) by simp
qed

lemma set_nx_guarded:
  assumes "fst (set_nx t k v cap m)" "t0 \<le> t" "t < t0 + cap"
  shows "guarded t0 cap k (snd (set_nx t k v cap m)) \<and> \<not> guarded t0 cap k m"
proof
  have dead: "live t m k = None" using assms(1) by (auto simp: set_nx_def split: option.split_asm)
  then show "\<not> guarded t0 cap k m" using assms(2,3) by (auto simp: guarded_def)
  show "guarded t0 cap k (snd (set_nx t k v cap m))"
    using dead assms(2) by (auto simp: set_nx_def set_ex_def guarded_def live_def [of _ "m(k \<mapsto> w)" k for w])
qed

lemma bump_step_guards:
  assumes "in_window t0 cap b" "guarded t0 cap (trendGuardKey d s x) m"
  shows "guarded t0 cap (trendGuardKey d s x) (bump_step hl cap b m)"
  using assms guarded_set_nx
  by (auto simp: bump_step_def TrendBump_alt Let_def in_window_def guarded_counted guarded_script
      split: prod.split bool.split) (metis guarded_counted snd_conv guarded_script)+

text \<open>One bump adds at most one to the score of its item, and only when it sets its guard.\<close>

lemma bump_step_raw:
  assumes w: "in_window t0 cap b" and d: "d \<in> {''q'', ''v''}" and pos: "0 \<le> raw m (trendZKey d) x"
  shows "0 \<le> raw (bump_step hl cap b m) (trendZKey d) x
    \<and> raw (bump_step hl cap b m) (trendZKey d) x \<le> raw m (trendZKey d) x
      + (if bp_domain b = d \<and> bp_item b = x \<and> guarded t0 cap (trendGuardKey d (subject_of (bp_subject b)) x) (bump_step hl cap b m)
            \<and> \<not> guarded t0 cap (trendGuardKey d (subject_of (bp_subject b)) x) m then 1 else 0)"
proof -
  let ?t = "bp_at b" and ?d = "bp_domain b" and ?i = "bp_item b" and ?u = "subject_of (bp_subject b)"
  define m1 where "m1 = counted ?t (bp_sent b) ?d ?i ?u m"
  define m2 where "m2 = snd (set_nx ?t (trendGuardKey ?d ?u ?i) RFlag cap m1)"
  have r1: "raw m1 (trendZKey d) x = raw m (trendZKey d) x"
    unfolding m1_def by (rule raw_cong) (rule counted_other, simp_all add: trend_keys)
  have r2: "raw m2 (trendZKey d) x = raw m1 (trendZKey d) x"
    unfolding m2_def by (rule raw_cong) (rule set_nx_other, simp add: trend_keys)
  let ?m3 = "trendBumpScript ?t (trendZKey ?d) (trendTSKey ?d) ?i hl 1 counterTTL m2"
  have step: "bump_step hl cap b m = m \<or> bump_step hl cap b m = m1 \<or> bump_step hl cap b m = m2
      \<or> (bump_step hl cap b m = ?m3 \<and> fst (set_nx ?t (trendGuardKey ?d ?u ?i) RFlag cap m1))"
    unfolding m1_def m2_def bump_step_def TrendBump_alt Let_def by (auto split: prod.split bool.split)
  show ?thesis
  proof (cases "bump_step hl cap b m = ?m3 \<and> fst (set_nx ?t (trendGuardKey ?d ?u ?i) RFlag cap m1)")
    case False
    then have "raw (bump_step hl cap b m) (trendZKey d) x = raw m (trendZKey d) x" using step r1 r2 by auto
    then show ?thesis using pos by simp
  next
    case True
    then have fresh: "guarded t0 cap (trendGuardKey ?d ?u ?i) m2" "\<not> guarded t0 cap (trendGuardKey ?d ?u ?i) m1"
      using set_nx_guarded w unfolding m2_def in_window_def by blast+
    then have g: "guarded t0 cap (trendGuardKey ?d ?u ?i) ?m3" "\<not> guarded t0 cap (trendGuardKey ?d ?u ?i) m"
      by (simp_all add: guarded_script m1_def guarded_counted)
    show ?thesis
    proof (cases "?d = d")
      case True
      have "trendZKey d \<noteq> trendTSKey d" "0 < counterTTL" by (simp_all add: trend_keys counterTTL_def hours_def nanos_def)
      then have "0 \<le> raw ?m3 (trendZKey d) x \<and> raw ?m3 (trendZKey d) x \<le> raw m2 (trendZKey d) x + (if x = ?i then 1 else 0)"
        using script_raw [of "trendZKey d" "trendTSKey d" counterTTL m2 x ?t ?i hl] pos r1 r2 True by simp
      then show ?thesis
        using g True \<open>bump_step hl cap b m = ?m3 \<and> _\<close> r1 r2 by (auto split: if_split_asm)
    next
      case False
      have "trendZKey d \<noteq> trendZKey ?d" "trendZKey d \<noteq> trendTSKey ?d"
        using False d w by (auto simp: trend_keys in_window_def)
      then have "raw ?m3 (trendZKey d) x = raw m2 (trendZKey d) x"
        by (intro raw_cong script_other)
      then show ?thesis using True False pos r1 r2 by simp
    qed
  qed
qed

lemma bumps_raw:
  assumes "\<forall>b \<in> set bs. in_window t0 cap b" "d \<in> {''q'', ''v''}" "0 \<le> raw m (trendZKey d) x"
  shows "0 \<le> raw (fold (bump_step hl cap) bs m) (trendZKey d) x
    \<and> raw (fold (bump_step hl cap) bs m) (trendZKey d) x
       \<le> raw m (trendZKey d) x + real (card {u \<in> voters d x bs. \<not> guarded t0 cap (trendGuardKey d u x) m})"
  using assms(1,3)
proof (induction bs arbitrary: m)
  case (Cons b bs)
  let ?m = "bump_step hl cap b m" and ?G = "\<lambda>m u. guarded t0 cap (trendGuardKey d u x) m"
  let ?A = "{u \<in> voters d x (b # bs). \<not> ?G m u}" and ?B = "{u \<in> voters d x bs. \<not> ?G ?m u}"
  let ?u = "subject_of (bp_subject b)"
  have w: "in_window t0 cap b" using Cons.prems by simp
  note one = bump_step_raw [OF w assms(2) Cons.prems(2), of hl]
  have sub: "?B \<subseteq> ?A" using bump_step_guards [OF w] by (auto simp: voters_Cons)
  have fin: "finite ?A" using finite_voters by simp
  have count: "real (card ?B) + (if bp_domain b = d \<and> bp_item b = x \<and> ?G ?m ?u \<and> \<not> ?G m ?u then 1 else 0) \<le> real (card ?A)"
  proof (cases "bp_domain b = d \<and> bp_item b = x \<and> ?G ?m ?u \<and> \<not> ?G m ?u")
    case True
    then have "?u \<in> ?A - ?B" by (simp add: voters_Cons)
    then have "card ?B < card ?A" using sub fin by (intro psubset_card_mono) auto
    then show ?thesis using True by simp
  next
    case False
    then show ?thesis using card_mono [OF fin sub] by (simp only: if_False)
  qed
  have "\<forall>b \<in> set bs. in_window t0 cap b" using Cons.prems by simp
  note rest = Cons.IH [OF this conjunct1 [OF one]]
  have "raw (fold (bump_step hl cap) bs ?m) (trendZKey d) x \<le> raw m (trendZKey d) x + real (card ?A)"
    using conjunct2 [OF rest] conjunct2 [OF one] count by linarith
  then show ?case using conjunct1 [OF rest] by simp
qed simp

text \<open>C26. Manipulation resistance: whatever bumps arrive within one cap window - of any subjects, items
  and domains, in any order, complete or cut short by errors - the score of an item grows by
  at most the number of different subjects that bumped it.\<close>

theorem trend_counts_subjects_once:
  assumes "\<forall>b \<in> set bs. in_window t0 cap b" and "d \<in> {''q'', ''v''}" and "0 \<le> raw m (trendZKey d) x"
  shows "raw (fold (bump_step hl cap) bs m) (trendZKey d) x \<le> raw m (trendZKey d) x + real (card (voters d x bs))"
proof -
  have "card {u \<in> voters d x bs. \<not> guarded t0 cap (trendGuardKey d u x) m} \<le> card (voters d x bs)"
    by (rule card_mono [OF finite_voters]) auto
  then show ?thesis using bumps_raw [OF assms, of hl] by linarith
qed

definition sample_bump :: "int \<Rightarrow> bump" where
  "sample_bump t = \<lparr> bp_at = t, bp_sent = 4, bp_nx = True, bp_run = True, bp_domain = ''q'', bp_item = ''cats'',
     bp_subject = ''u1'' \<rparr>"

lemma trend_counts_subjects_once_witness:
  "raw (fold (bump_step 60 100) [sample_bump 1, sample_bump 2, sample_bump 3] empty_redis) (trendZKey ''q'') ''cats'' \<le> 1"
proof -
  have v: "voters ''q'' ''cats'' [sample_bump 1, sample_bump 2, sample_bump 3] = {''u1''}"
    by (simp add: voters_Cons sample_bump_def subject_of_def) (simp add: voters_def)
  have z: "raw empty_redis (trendZKey ''q'') ''cats'' = 0" by (simp add: raw_def empty_redis_def)
  have w: "\<forall>b \<in> set [sample_bump 1, sample_bump 2, sample_bump 3]. in_window 0 100 b"
    by (simp add: in_window_def sample_bump_def)
  show ?thesis using trend_counts_subjects_once [OF w, of "''q''" empty_redis "''cats''" 60] v z by simp
qed

text \<open>The guard key does not separate its parts: two different pairs of a subject and an item - a session
  id and a query are both free text - share one guard, so a bump of one is not counted while the
  other's window runs.\<close>

theorem guard_keys_collide:
  assumes "guarded t0 cap (trendGuardKey d ''s:cats'' ''dogs'') m" and "t0 \<le> t" and "t < t0 + cap"
  shows "raw (snd (TrendBump t 4 True run_ok d ''cats:dogs'' ''s'' hl cap m)) (trendZKey d) x = raw m (trendZKey d) x"
proof -
  let ?m = "counted t 4 d ''cats:dogs'' ''s'' m"
  have "trendGuardKey d ''s'' ''cats:dogs'' = trendGuardKey d ''s:cats'' ''dogs''" by (simp add: trend_keys)
  then have "guarded t0 cap (trendGuardKey d ''s'' ''cats:dogs'') ?m" using assms(1) by (simp add: guarded_counted)
  then have "live t ?m (trendGuardKey d ''s'' ''cats:dogs'') \<noteq> None" using assms(2,3) by (simp add: guarded_def)
  then have "set_nx t (trendGuardKey d ''s'' ''cats:dogs'') RFlag cap ?m = (False, ?m)" by (auto simp: set_nx_def)
  then have "snd (TrendBump t 4 True run_ok d ''cats:dogs'' ''s'' hl cap m) = ?m"
    by (simp add: TrendBump_alt Let_def subject_of_def)
  moreover have "raw ?m (trendZKey d) x = raw m (trendZKey d) x"
    by (rule raw_cong) (rule counted_other, simp_all add: trend_keys)
  ultimately show ?thesis by simp
qed

lemma guard_keys_collide_witness:
  "raw (snd (TrendBump 9 4 True True ''q'' ''cats:dogs'' ''s'' 60 100
     (snd (TrendBump 5 4 True True ''q'' ''dogs'' ''s:cats'' 60 100 empty_redis)))) (trendZKey ''q'') ''cats:dogs'' = 0"
proof -
  let ?m = "snd (TrendBump 5 4 True True ''q'' ''dogs'' ''s:cats'' 60 100 empty_redis)"
  let ?c = "counted 5 4 ''q'' ''dogs'' ''s:cats'' empty_redis"
  have "?c (trendGuardKey ''q'' ''s:cats'' ''dogs'') = None"
    using counted_other [of "trendGuardKey ''q'' ''s:cats'' ''dogs''" 5 4 "''q''" "''dogs''" "''s:cats''" empty_redis]
    by (simp add: trend_keys empty_redis_def)
  then have f: "fst (set_nx 5 (trendGuardKey ''q'' ''s:cats'' ''dogs'') RFlag 100 ?c)"
    by (simp add: set_nx_def live_def)
  then have g: "guarded 5 100 (trendGuardKey ''q'' ''s:cats'' ''dogs'') ?m"
    using set_nx_guarded [OF f, of 5]
    by (auto simp: TrendBump_alt Let_def subject_of_def guarded_script split: prod.split bool.split)
  have "raw ?m (trendZKey ''q'') ''cats:dogs'' = 0"
    using bump_step_raw [of 5 100 "\<lparr> bp_at = 5, bp_sent = 4, bp_nx = True, bp_run = True, bp_domain = ''q'', bp_item = ''dogs'',
      bp_subject = ''s:cats'' \<rparr>" "''q''" empty_redis "''cats:dogs''" 60]
    by (simp add: bump_step_def in_window_def raw_def empty_redis_def)
  then show ?thesis using guard_keys_collide [OF g, of 9 True 60 "''cats:dogs''"] by simp
qed

end
