(* ===== verification/WorkerBase.thy ===== *)
theory WorkerBase
  imports Rollups Cache
begin

text \<open>
  \<open>internal/worker/worker.go\<close>: the configuration of the jobs, its defaults and the overlay of
  \<open>service_config\<close>. Durations are in nanoseconds.
\<close>

record worker_config =
  AggregatesInterval :: int
  EngagementInterval :: int
  SessionizerInterval :: int
  TrendingInterval :: int
  CovisInterval :: int
  RetentionInterval :: int
  ReconcileGuardInterval :: int
  ReevalInterval :: int
  JobTimeout :: int
  CovisWindowSeconds :: real
  CovisLambda :: real
  CovisTopM :: int
  MinQueryUserCount :: int
  RetentionDays :: int
  QueryHalfLifeSeconds :: real
  TrendingHalfLifeSeconds :: real
  WkWatchHalfLifeHours :: real
  TrendCapWindow :: int
  MeaningfulWatchSeconds :: int
  MeaningfulWatchPct :: int
  TrendPruneFloor :: real
  TrendWindowDays :: int
  WilsonFloor :: real
  TrendingTopK :: int
  TrendingListTTL :: int
  ReformulationGap :: int
  AbandonWindow :: int
  InboxRetentionDays :: int
  ProjectionFloor :: real
  ReconcileMaxAge :: int
  ReevalDryRun :: bool

definition minutes :: "int \<Rightarrow> int" where
  "minutes m = m * 60 * nanos"

definition dur :: "int \<Rightarrow> int \<Rightarrow> int" where
  "dur dflt d = (if d \<le> 0 then dflt else d)"

definition at_least_one :: "int \<Rightarrow> int \<Rightarrow> int" where
  "at_least_one dflt n = (if n < 1 then dflt else n)"

definition positive :: "real \<Rightarrow> real \<Rightarrow> real" where
  "positive dflt x = (if x \<le> 0 then dflt else x)"

definition workerDefaults :: "worker_config \<Rightarrow> worker_config" where
  "workerDefaults c = c\<lparr>
     AggregatesInterval := dur (minutes 1) (AggregatesInterval c),
     EngagementInterval := dur (minutes 5) (EngagementInterval c),
     SessionizerInterval := dur (minutes 5) (SessionizerInterval c),
     TrendingInterval := dur (minutes 1) (TrendingInterval c),
     CovisInterval := dur (minutes 15) (CovisInterval c),
     RetentionInterval := dur (hours 24) (RetentionInterval c),
     ReconcileGuardInterval := dur (minutes 10) (ReconcileGuardInterval c),
     ReevalInterval := dur (hours 24) (ReevalInterval c),
     JobTimeout := dur (minutes 2) (JobTimeout c),
     CovisWindowSeconds := positive 3600 (CovisWindowSeconds c),
     CovisLambda := positive 10 (CovisLambda c),
     CovisTopM := at_least_one 100 (CovisTopM c),
     MinQueryUserCount := at_least_one 3 (MinQueryUserCount c),
     RetentionDays := at_least_one 90 (RetentionDays c),
     QueryHalfLifeSeconds := positive (7 * 24 * 3600) (QueryHalfLifeSeconds c),
     TrendingHalfLifeSeconds := positive (6 * 3600) (TrendingHalfLifeSeconds c),
     WkWatchHalfLifeHours := positive 720 (WkWatchHalfLifeHours c),
     TrendCapWindow := dur (hours 1) (TrendCapWindow c),
     MeaningfulWatchSeconds := at_least_one 30 (MeaningfulWatchSeconds c),
     MeaningfulWatchPct := at_least_one 30 (MeaningfulWatchPct c),
     TrendPruneFloor := positive (1 / 100) (TrendPruneFloor c),
     TrendWindowDays := at_least_one 2 (TrendWindowDays c),
     WilsonFloor := positive (10 / 100) (WilsonFloor c),
     TrendingTopK := at_least_one 50 (TrendingTopK c),
     TrendingListTTL := dur (minutes 5) (TrendingListTTL c),
     ReformulationGap := dur (60 * nanos) (ReformulationGap c),
     AbandonWindow := dur (minutes 5) (AbandonWindow c),
     InboxRetentionDays := at_least_one 7 (InboxRetentionDays c),
     ProjectionFloor := positive (5 / 100) (ProjectionFloor c),
     ReconcileMaxAge := dur (hours 48) (ReconcileMaxAge c) \<rparr>"

definition ListServiceConfig :: "db \<Rightarrow> config_row list" where
  "ListServiceConfig s = sort_key sc_key (service_config s)"

text \<open>A later row of a key wins; the table has one. No overlay when the read fails.\<close>

definition overlay :: "bool \<Rightarrow> db \<Rightarrow> string \<Rightarrow> string option" where
  "overlay read_ok s = (if read_ok then map_of (rev (map (\<lambda>r. (sc_key r, sc_text r)) (ListServiceConfig s))) else (\<lambda>k. None))"

definition overlayInt :: "(string \<Rightarrow> string option) \<Rightarrow> string \<Rightarrow> int \<Rightarrow> int" where
  "overlayInt m key dflt = (case m key of None \<Rightarrow> dflt
     | Some v \<Rightarrow> (case ParseInt v of None \<Rightarrow> dflt | Some n \<Rightarrow> n))"

definition getCursor :: "string \<Rightarrow> db \<Rightarrow> int" where
  "getCursor name s = (case GetWorkerCursor name s of None \<Rightarrow> 0 | Some pos \<Rightarrow> pos)"

text \<open>\<open>time.Now().Add(-time.Duration(days) * 24 * time.Hour)\<close>: the product wraps.\<close>

definition windowStart :: "int \<Rightarrow> int \<Rightarrow> int" where
  "windowStart wall n = wall + int64 (- n * hours 24)"

lemma getCursor_set: "getCursor name (SetWorkerCursor now name pos s) = pos"
  by (auto simp: getCursor_def GetWorkerCursor_def SetWorkerCursor_def sql_get_upsert split: option.split)

lemma windowStart_exact:
  assumes "0 \<le> n" and "n \<le> 106751"
  shows "windowStart wall n = wall - n * hours 24"
proof -
  have "in_int64 (- n * hours 24)" using assms by (simp add: in_int64_def hours_def nanos_def)
  then show ?thesis by (simp add: windowStart_def int64_id)
qed

text \<open>The floor and the window a pass works with.\<close>

definition pass_floor :: "worker_config \<Rightarrow> bool \<Rightarrow> db \<Rightarrow> int" where
  "pass_floor cfg read_ok s = int32 (overlayInt (overlay read_ok s) ''minimum_query_user_count'' (MinQueryUserCount cfg))"

definition pass_window :: "worker_config \<Rightarrow> bool \<Rightarrow> int \<Rightarrow> db \<Rightarrow> int" where
  "pass_window cfg read_ok wall s =
     windowStart wall (overlayInt (overlay read_ok s) ''search_event_retention_days'' (RetentionDays cfg))"

text \<open>The configuration nobody set.\<close>

definition sample_worker :: worker_config where
  "sample_worker = workerDefaults \<lparr> AggregatesInterval = 0, EngagementInterval = 0, SessionizerInterval = 0,
     TrendingInterval = 0, CovisInterval = 0, RetentionInterval = 0, ReconcileGuardInterval = 0, ReevalInterval = 0,
     JobTimeout = 0, CovisWindowSeconds = 0, CovisLambda = 0, CovisTopM = 0, MinQueryUserCount = 0, RetentionDays = 0,
     QueryHalfLifeSeconds = 0, TrendingHalfLifeSeconds = 0, WkWatchHalfLifeHours = 0, TrendCapWindow = 0,
     MeaningfulWatchSeconds = 0, MeaningfulWatchPct = 0, TrendPruneFloor = 0, TrendWindowDays = 0, WilsonFloor = 0,
     TrendingTopK = 0, TrendingListTTL = 0, ReformulationGap = 0, AbandonWindow = 0, InboxRetentionDays = 0,
     ProjectionFloor = 0, ReconcileMaxAge = 0, ReevalDryRun = False \<rparr>"

lemma sample_worker_simps [simp]:
  "QueryHalfLifeSeconds sample_worker = 604800" "MinQueryUserCount sample_worker = 3" "RetentionDays sample_worker = 90"
  "AbandonWindow sample_worker = minutes 5" "MeaningfulWatchSeconds sample_worker = 30" "MeaningfulWatchPct sample_worker = 30"
  "CovisWindowSeconds sample_worker = 3600" "CovisLambda sample_worker = 10" "CovisTopM sample_worker = 100"
  by (simp_all add: sample_worker_def workerDefaults_def positive_def at_least_one_def dur_def)

end
