(* ===== verification/Engagement.thy ===== *)
theory Engagement
  imports WorkerBase
begin

text \<open>
  The engagement job of \<open>worker.go\<close> and its statements in \<open>queries/rollups.sql\<close>: meaningful watches
  are derived from the watch progress that arrived since the cursor, and the counters per query and
  video are rebuilt from the retained ledger. A cast of a text that PostgreSQL rejects fails the
  statement; \<open>OR\<close> and \<open>COALESCE\<close> evaluate from left to right, the casts of a row only after its type,
  id and video passed. Days are those of UTC.
\<close>

section \<open>Meaningful watches\<close>

text \<open>\<open>(props->>'k')::double precision\<close> and \<open>::boolean\<close>; \<open>Inr None\<close> is NULL.\<close>

definition prop_float :: "ext \<Rightarrow> string \<Rightarrow> behavior_row \<Rightarrow> sql_error + real option" where
  "prop_float X k r = (case jfield_text k (be_props r) of None \<Rightarrow> Inr None
     | Some t \<Rightarrow> (case pg_float8 X t of None \<Rightarrow> Inl SqlError | Some x \<Rightarrow> Inr (Some x)))"

definition prop_bool :: "ext \<Rightarrow> string \<Rightarrow> behavior_row \<Rightarrow> sql_error + bool" where
  "prop_bool X k r = (case jfield_text k (be_props r) of None \<Rightarrow> Inr False
     | Some t \<Rightarrow> (case pg_bool X t of None \<Rightarrow> Inl SqlError | Some b \<Rightarrow> Inr b))"

definition watch_qualifies :: "ext \<Rightarrow> real \<Rightarrow> real \<Rightarrow> behavior_row \<Rightarrow> sql_error + bool" where
  "watch_qualifies X mwSeconds mwFraction r =
     (case prop_float X ''position_seconds'' r of Inl e \<Rightarrow> Inl e
      | Inr p \<Rightarrow> (let pos = (case p of None \<Rightarrow> 0 | Some x \<Rightarrow> x)
          in if pos \<ge> mwSeconds then Inr True
             else (case prop_float X ''duration_seconds'' r of Inl e \<Rightarrow> Inl e
               | Inr None \<Rightarrow> Inr False
               | Inr (Some d) \<Rightarrow> Inr (d > 0 \<and> pos \<ge> d * mwFraction))))"

definition mw_name :: "ext \<Rightarrow> behavior_row \<Rightarrow> uuid \<Rightarrow> string" where
  "mw_name X r vid = ''mw|'' @ (case be_user_id r of Some u \<Rightarrow> uuid_string X u
       | None \<Rightarrow> (case be_session_id r of Some sid \<Rightarrow> sid | None \<Rightarrow> ''anon''))
     @ ''|'' @ uuid_string X vid @ ''|'' @ dayStamp (be_occurred_at r)"

text \<open>The query of the latest click or start of the video in the session.\<close>

definition context_query :: "behavior_row list \<Rightarrow> behavior_row \<Rightarrow> string option" where
  "context_query ledger r =
     (case SliceStable (\<lambda>a b. be_occurred_at a > be_occurred_at b)
        (filter (\<lambda>b. be_session_id b = be_session_id r \<and> be_video_id b = be_video_id r
           \<and> be_type b \<in> {''search.result_clicked'', ''video.play_started''}
           \<and> be_normalized_query b \<noteq> None \<and> be_occurred_at b \<le> be_occurred_at r) ledger) of
      [] \<Rightarrow> None | b # bs \<Rightarrow> be_normalized_query b)"

definition text_or_null :: "string option \<Rightarrow> json" where
  "text_or_null t = (case t of None \<Rightarrow> JNull | Some x \<Rightarrow> JStr x)"

definition derived_watch :: "ext \<Rightarrow> behavior_row list \<Rightarrow> behavior_row \<Rightarrow> uuid \<Rightarrow> bool \<Rightarrow> behavior_row" where
  "derived_watch X ledger r vid allow =
     \<lparr> be_id = 0, be_event_id = uuid_v5 X (mw_name X r vid), be_type = ''video.meaningful_watch'',
       be_user_id = be_user_id r, be_session_id = be_session_id r, be_normalized_query = context_query ledger r,
       be_video_id = Some vid, be_position = None, be_model_version = None, be_occurred_at = be_occurred_at r,
       be_props = JObj [(''allow_history'', JBool allow), (''derived_from'', JStr ''watch_progress''),
                        (''subject_id'', text_or_null (jfield_text ''subject_id'' (be_props r)))] \<rparr>"

definition derive_one :: "ext \<Rightarrow> real \<Rightarrow> real \<Rightarrow> behavior_row list \<Rightarrow> behavior_row \<Rightarrow> sql_error + behavior_row option" where
  "derive_one X mwSeconds mwFraction ledger r =
     (case be_video_id r of None \<Rightarrow> Inr None
      | Some vid \<Rightarrow> (case watch_qualifies X mwSeconds mwFraction r of Inl e \<Rightarrow> Inl e
          | Inr False \<Rightarrow> Inr None
          | Inr True \<Rightarrow> (case prop_bool X ''allow_history'' r of Inl e \<Rightarrow> Inl e
              | Inr b \<Rightarrow> Inr (Some (derived_watch X ledger r vid b)))))"

fun derive_all :: "ext \<Rightarrow> real \<Rightarrow> real \<Rightarrow> behavior_row list \<Rightarrow> behavior_row list \<Rightarrow> sql_error + behavior_row list" where
  "derive_all X mwSeconds mwFraction ledger [] = Inr []"
| "derive_all X mwSeconds mwFraction ledger (r # rs) =
     (case derive_one X mwSeconds mwFraction ledger r of Inl e \<Rightarrow> Inl e
      | Inr d \<Rightarrow> (case derive_all X mwSeconds mwFraction ledger rs of Inl e \<Rightarrow> Inl e
          | Inr ds \<Rightarrow> Inr (case d of None \<Rightarrow> ds | Some x \<Rightarrow> x # ds)))"

text \<open>\<open>INSERT ... ON CONFLICT (event_id) DO NOTHING RETURNING\<close>.\<close>

fun insert_events :: "behavior_row list \<Rightarrow> db \<Rightarrow> behavior_row list \<times> db" where
  "insert_events [] s = ([], s)"
| "insert_events (r # rs) s =
     (let new = r\<lparr> be_id := seq_behavior s \<rparr>;
          ins = sql_insert_ignore be_event_id new (behavior_events s);
          out = insert_events rs (s\<lparr> behavior_events := fst ins, seq_behavior := seq_behavior s + 1 \<rparr>)
      in ((if snd ins then [new] else []) @ fst out, snd out))"

definition DeriveMeaningfulWatch :: "ext \<Rightarrow> int \<Rightarrow> int \<Rightarrow> real \<Rightarrow> real \<Rightarrow> db \<Rightarrow> sql_error + behavior_row list \<times> db" where
  "DeriveMeaningfulWatch X cursor maxid mwSeconds mwFraction s =
     (case derive_all X mwSeconds mwFraction (behavior_events s)
        (filter (\<lambda>r. be_type r = ''video.watch_progress'' \<and> cursor < be_id r \<and> be_id r \<le> maxid) (behavior_events s)) of
        Inl e \<Rightarrow> Inl e | Inr ds \<Rightarrow> Inr (insert_events ds s))"

section \<open>The counters\<close>

definition ClearQueryVideoEngagement :: "db \<Rightarrow> db" where
  "ClearQueryVideoEngagement s = s\<lparr> query_video_engagement := [] \<rparr>"

definition counted_types :: "string list" where
  "counted_types = [''video.impression'', ''search.result_clicked'', ''video.meaningful_watch'']"

definition engagement_key :: "behavior_row \<Rightarrow> (string \<times> uuid) option" where
  "engagement_key r = (case (be_normalized_query r, be_video_id r) of
     (Some nq, Some vid) \<Rightarrow> if be_type r \<in> set counted_types then Some (nq, vid) else None | _ \<Rightarrow> None)"

definition count_of :: "string \<Rightarrow> string \<Rightarrow> uuid \<Rightarrow> behavior_row list \<Rightarrow> int" where
  "count_of typ nq vid ledger = int (length (filter (\<lambda>r. be_type r = typ \<and> be_normalized_query r = Some nq
     \<and> be_video_id r = Some vid) ledger))"

definition RebuildQueryVideoEngagement :: "int \<Rightarrow> db \<Rightarrow> sql_error + db" where
  "RebuildQueryVideoEngagement now s =
     (let ledger = behavior_events s;
          rows = map (\<lambda>(nq, vid). \<lparr> en_normalized_query = nq, en_video_id = vid,
             en_impressions = count_of ''video.impression'' nq vid ledger,
             en_clicks = count_of ''search.result_clicked'' nq vid ledger,
             en_meaningful_watches = count_of ''video.meaningful_watch'' nq vid ledger, en_updated_at = now \<rparr>)
             (remdups (List.map_filter engagement_key ledger))
      in if list_ex (\<lambda>r. list_ex (\<lambda>o'. en_normalized_query o' = en_normalized_query r \<and> en_video_id o' = en_video_id r)
              (query_video_engagement s)) rows
         then Inl SqlError
         else Inr (s\<lparr> query_video_engagement := query_video_engagement s @ rows \<rparr>))"

section \<open>The job\<close>

definition weightMeaningfulWatch :: real where "weightMeaningfulWatch = 1"

text \<open>\<open>json.Unmarshal\<close> into the one field; what does not decode allows nothing.\<close>

definition allowHistory :: "json \<Rightarrow> bool" where
  "allowHistory props = (case dec_obj [(''allow_history'', dec_bool)] props False of None \<Rightarrow> False | Some b \<Rightarrow> b)"

record mw_bump =
  mbItem :: string
  mbSubject :: string

definition bump_of :: "ext \<Rightarrow> behavior_row \<Rightarrow> mw_bump list" where
  "bump_of X mw = (case be_video_id mw of None \<Rightarrow> []
     | Some vid \<Rightarrow> [\<lparr> mbItem = uuid_string X vid,
         mbSubject = (case be_user_id mw of Some u \<Rightarrow> uuid_string X u
           | None \<Rightarrow> (case be_session_id mw of Some sid \<Rightarrow> sid | None \<Rightarrow> ''anon'')) \<rparr>])"

definition project_watch :: "worker_config \<Rightarrow> int \<Rightarrow> behavior_row \<Rightarrow> db \<Rightarrow> db" where
  "project_watch cfg now mw s = (case (be_video_id mw, be_user_id mw) of
     (Some vid, Some u) \<Rightarrow> if allowHistory (be_props mw)
        then UpsertWatchProjection now (WkWatchHalfLifeHours cfg) u vid weightMeaningfulWatch s else s
   | _ \<Rightarrow> s)"

definition derive_new :: "ext \<Rightarrow> worker_config \<Rightarrow> bool \<Rightarrow> db \<Rightarrow> sql_error + behavior_row list \<times> db" where
  "derive_new X cfg read_ok s =
     (let ov = overlay read_ok s;
          mwSeconds = overlayInt ov ''meaningful_watch_seconds'' (MeaningfulWatchSeconds cfg);
          mwPct = overlayInt ov ''meaningful_watch_pct'' (MeaningfulWatchPct cfg);
          cursor = getCursor ''engagement'' s; maxid = MaxBehaviorEventID s
      in if maxid > cursor
         then DeriveMeaningfulWatch X cursor maxid (real_of_int mwSeconds) (real_of_int mwPct / 100) s
         else Inr ([], s))"

definition engagementRollup ::
  "ext \<Rightarrow> worker_config \<Rightarrow> bool \<Rightarrow> bool \<times> bool \<Rightarrow> int \<Rightarrow> db \<Rightarrow> (sql_error + mw_bump list) \<times> db" where
  "engagementRollup X cfg read_ok tx now s =
     inTx tx (\<lambda>s0. let cursor = getCursor ''engagement'' s0; maxid = MaxBehaviorEventID s0
       in case derive_new X cfg read_ok s0 of Inl e \<Rightarrow> Inl e
        | Inr (newMW, s1) \<Rightarrow> (case RebuildQueryVideoEngagement now (ClearQueryVideoEngagement s1) of Inl e \<Rightarrow> Inl e
          | Inr s2 \<Rightarrow> (let s3 = fold (project_watch cfg now) newMW s2;
                s4 = (if maxid > cursor then SetWorkerCursor now ''engagement'' maxid s3 else s3)
              in Inr (concat (map (bump_of X) newMW), s4)))) s"

text \<open>After the commit, with a cache: one bump each, whatever became of the others. \<open>net i\<close> says how much
  of the \<open>i\<close>-th reached Redis, and \<open>clk i\<close> when.\<close>

fun flush_bumps :: "worker_config \<Rightarrow> (nat \<Rightarrow> int) \<Rightarrow> (nat \<Rightarrow> nat \<times> bool \<times> bool) \<Rightarrow> nat \<Rightarrow> mw_bump list \<Rightarrow> redis \<Rightarrow> redis" where
  "flush_bumps cfg clk net i [] m = m"
| "flush_bumps cfg clk net i (b # bs) m =
     flush_bumps cfg clk net (Suc i) bs
       (case net i of (sent, nx_ok, run_ok) \<Rightarrow> snd (TrendBump (clk i) sent nx_ok run_ok ''v'' (mbItem b) (mbSubject b)
          (TrendingHalfLifeSeconds cfg) (TrendCapWindow cfg) m))"

section \<open>Derivation\<close>

lemma insert_events_frame:
  "snd (insert_events ds s) = s\<lparr> behavior_events := behavior_events (snd (insert_events ds s)),
     seq_behavior := seq_behavior (snd (insert_events ds s)) \<rparr>"
proof (induction ds arbitrary: s)
  case (Cons d ds)
  show ?case unfolding insert_events.simps Let_def snd_conv by (subst Cons) simp
qed simp

lemma insert_events_ids:
  "be_event_id ` set (behavior_events s) \<union> be_event_id ` set ds = be_event_id ` set (behavior_events (snd (insert_events ds s)))"
proof (induction ds arbitrary: s)
  case (Cons d ds)
  show ?case by (subst insert_events.simps)
      (auto simp: Let_def sql_insert_ignore_def image_iff simp flip: Cons)
qed simp

lemma insert_events_new: "\<exists>new. behavior_events (snd (insert_events ds s)) = behavior_events s @ new
    \<and> be_type ` set new \<subseteq> be_type ` set ds"
proof (induction ds arbitrary: s)
  case (Cons d ds)
  let ?s = "s\<lparr> behavior_events := fst (sql_insert_ignore be_event_id (d\<lparr> be_id := seq_behavior s \<rparr>) (behavior_events s)),
     seq_behavior := seq_behavior s + 1 \<rparr>"
  obtain new where "behavior_events (snd (insert_events ds ?s)) = behavior_events ?s @ new" "be_type ` set new \<subseteq> be_type ` set ds"
    using Cons by blast
  then show ?case by (auto simp: Let_def sql_insert_ignore_def)
qed simp

lemma insert_events_known:
  "be_event_id ` set ds \<subseteq> be_event_id ` set (behavior_events s) \<Longrightarrow>
   insert_events ds s = ([], s\<lparr> seq_behavior := seq_behavior s + int (length ds) \<rparr>)"
  by (induction ds arbitrary: s) (simp_all add: sql_insert_ignore_def Let_def)

lemma derive_one_type: "derive_one X a b l r = Inr (Some d) \<Longrightarrow> be_type d = ''video.meaningful_watch''"
  by (auto simp: derive_one_def derived_watch_def split: sum.splits option.splits bool.splits)

lemma derive_all_types: "derive_all X a b l rs = Inr ds \<Longrightarrow> d \<in> set ds \<Longrightarrow> be_type d = ''video.meaningful_watch''"
  by (induction rs arbitrary: ds) (auto split: sum.splits option.splits dest: derive_one_type)

text \<open>What is derived from a row has one event id, whatever the ledger around it.\<close>

definition derived_id :: "ext \<Rightarrow> real \<Rightarrow> real \<Rightarrow> behavior_row \<Rightarrow> sql_error + uuid option" where
  "derived_id X a b r = (case derive_one X a b [] r of Inl e \<Rightarrow> Inl e | Inr d \<Rightarrow> Inr (map_option be_event_id d))"

lemma derive_one_id: "(case derive_one X a b l r of Inl e \<Rightarrow> Inl e | Inr d \<Rightarrow> Inr (map_option be_event_id d)) = derived_id X a b r"
  by (simp add: derived_id_def derive_one_def derived_watch_def split: sum.split option.split bool.split)

lemma derive_all_ids:
  assumes "derive_all X a b l rs = Inr ds"
  shows "be_event_id ` set ds = {i. \<exists>r \<in> set rs. derived_id X a b r = Inr (Some i)}"
    and "\<forall>r \<in> set rs. \<exists>d. derived_id X a b r = Inr d"
proof -
  have "be_event_id ` set ds = {i. \<exists>r \<in> set rs. derived_id X a b r = Inr (Some i)} \<and> (\<forall>r \<in> set rs. \<exists>d. derived_id X a b r = Inr d)"
    using assms
  proof (induction rs arbitrary: ds)
    case (Cons r rs)
    obtain d where d: "derive_one X a b l r = Inr d" using Cons.prems by (auto split: sum.splits)
    obtain es where es: "derive_all X a b l rs = Inr es" "ds = (case d of None \<Rightarrow> es | Some x \<Rightarrow> x # es)"
      using Cons.prems d by (auto split: sum.splits)
    have "derived_id X a b r = Inr (map_option be_event_id d)" using derive_one_id [of X a b l r] d by simp
    then show ?case using Cons.IH [OF es(1)] es(2) by (cases d) auto
  qed simp
  then show "be_event_id ` set ds = {i. \<exists>r \<in> set rs. derived_id X a b r = Inr (Some i)}"
    "\<forall>r \<in> set rs. \<exists>d. derived_id X a b r = Inr d" by blast+
qed

lemma derive_all_ok:
  assumes "\<forall>r \<in> set rs. \<exists>d. derived_id X a b r = Inr d"
  shows "\<exists>ds. derive_all X a b l rs = Inr ds"
  using assms
proof (induction rs)
  case (Cons r rs)
  have "\<exists>d. derive_one X a b l r = Inr d"
    using Cons.prems derive_one_id [of X a b l r] by (auto split: sum.splits)
  then show ?case using Cons by auto
qed simp

definition progress_rows :: "int \<Rightarrow> int \<Rightarrow> behavior_row list \<Rightarrow> behavior_row list" where
  "progress_rows cursor maxid l = filter (\<lambda>r. be_type r = ''video.watch_progress'' \<and> cursor < be_id r \<and> be_id r \<le> maxid) l"

lemma Derive_alt: "DeriveMeaningfulWatch X cursor maxid a b s =
    (case derive_all X a b (behavior_events s) (progress_rows cursor maxid (behavior_events s)) of
       Inl e \<Rightarrow> Inl e | Inr ds \<Rightarrow> Inr (insert_events ds s))"
  by (simp add: DeriveMeaningfulWatch_def progress_rows_def)

text \<open>C21. Deriving is idempotent by construction: after a derivation that succeeded, deriving any part
  of its range again - the cursor lost, or a pass repeated - finds every id taken, inserts nothing
  and returns nothing to project or to bump.\<close>

theorem meaningful_watch_once:
  assumes "DeriveMeaningfulWatch X cursor maxid a b s = Inr (new, s1)" and "cursor \<le> cursor'" and "maxid' \<le> maxid"
  shows "\<exists>s2. DeriveMeaningfulWatch X cursor' maxid' a b s1 = Inr ([], s2) \<and> behavior_events s2 = behavior_events s1"
proof -
  let ?l = "behavior_events s"
  obtain ds where ds: "derive_all X a b ?l (progress_rows cursor maxid ?l) = Inr ds" "insert_events ds s = (new, s1)"
    using assms(1) by (auto simp: Derive_alt split: sum.splits)
  obtain n where n: "behavior_events s1 = ?l @ n" "be_type ` set n \<subseteq> {''video.meaningful_watch''}"
    using insert_events_new [of ds s] derive_all_types [OF ds(1)] ds(2) by fastforce
  have "progress_rows cursor' maxid' n = []"
    using n(2) by (auto simp: progress_rows_def filter_empty_conv)
  then have pr: "progress_rows cursor' maxid' (behavior_events s1) = progress_rows cursor' maxid' ?l"
    by (simp add: n(1) progress_rows_def)
  have sub: "set (progress_rows cursor' maxid' ?l) \<subseteq> set (progress_rows cursor maxid ?l)"
    using assms(2,3) by (auto simp: progress_rows_def)
  then have "\<forall>r \<in> set (progress_rows cursor' maxid' ?l). \<exists>d. derived_id X a b r = Inr d"
    using derive_all_ids(2) [OF ds(1)] by blast
  then obtain es where es: "derive_all X a b (behavior_events s1) (progress_rows cursor' maxid' ?l) = Inr es"
    using derive_all_ok by blast
  have "be_event_id ` set es \<subseteq> be_event_id ` set ds"
    using sub unfolding derive_all_ids(1) [OF es] derive_all_ids(1) [OF ds(1)] by blast
  also have "\<dots> \<subseteq> be_event_id ` set (behavior_events s1)" using insert_events_ids [of s ds] ds(2) by auto
  finally have "insert_events es s1 = ([], s1\<lparr> seq_behavior := seq_behavior s1 + int (length es) \<rparr>)"
    by (rule insert_events_known)
  then show ?thesis using es by (simp add: Derive_alt pr)
qed

section \<open>The pass\<close>

lemma set_map_filter: "x \<in> set (List.map_filter f xs) \<longleftrightarrow> (\<exists>y \<in> set xs. f y = Some x)"
  by (force simp: map_filter_def image_iff)

definition counters_exact :: "engagement_row list \<Rightarrow> behavior_row list \<Rightarrow> bool" where
  "counters_exact rows ledger \<longleftrightarrow>
     distinct (map (\<lambda>r. (en_normalized_query r, en_video_id r)) rows)
     \<and> (\<lambda>r. (en_normalized_query r, en_video_id r)) ` set rows = {k. \<exists>e \<in> set ledger. engagement_key e = Some k}
     \<and> (\<forall>r \<in> set rows.
          en_impressions r = count_of ''video.impression'' (en_normalized_query r) (en_video_id r) ledger
        \<and> en_clicks r = count_of ''search.result_clicked'' (en_normalized_query r) (en_video_id r) ledger
        \<and> en_meaningful_watches r = count_of ''video.meaningful_watch'' (en_normalized_query r) (en_video_id r) ledger)"

lemma rebuild_exact:
  "\<exists>s2. RebuildQueryVideoEngagement now (ClearQueryVideoEngagement s) = Inr s2
    \<and> counters_exact (query_video_engagement s2) (behavior_events s)
    \<and> s2 = s\<lparr> query_video_engagement := query_video_engagement s2 \<rparr>"
  by (auto simp: RebuildQueryVideoEngagement_def ClearQueryVideoEngagement_def Let_def counters_exact_def split_beta
      comp_def set_map_filter image_image list_ex_iff distinct_map inj_on_def)

lemma project_watch_frame [simp]:
  "behavior_events (project_watch cfg now mw s) = behavior_events s"
  "query_video_engagement (project_watch cfg now mw s) = query_video_engagement s"
  "worker_cursors (project_watch cfg now mw s) = worker_cursors s"
  by (simp_all add: project_watch_def UpsertWatchProjection_def split: option.split)

lemma fold_project_frame [simp]:
  "behavior_events (fold (project_watch cfg now) mws s) = behavior_events s"
  "query_video_engagement (fold (project_watch cfg now) mws s) = query_video_engagement s"
  "worker_cursors (fold (project_watch cfg now) mws s) = worker_cursors s"
  by (induction mws arbitrary: s) simp_all

lemma derive_new_Inr:
  assumes "derive_new X cfg read_ok s = Inr (new, s1)"
  shows "(\<exists>es. behavior_events s1 = behavior_events s @ es) \<and> worker_cursors s1 = worker_cursors s"
proof (cases "MaxBehaviorEventID s > getCursor ''engagement'' s")
  case True
  then obtain ds where "insert_events ds s = (new, s1)"
    using assms by (auto simp: derive_new_def Derive_alt Let_def split: sum.splits)
  moreover have "worker_cursors (snd (insert_events ds s)) = worker_cursors s"
    by (subst insert_events_frame) simp
  ultimately show ?thesis using insert_events_new [of ds s] by auto
next
  case False
  then show ?thesis using assms by (simp add: derive_new_def Let_def)
qed

lemma getCursor_cong: "worker_cursors s = worker_cursors s' \<Longrightarrow> getCursor name s = getCursor name s'"
  by (simp add: getCursor_def GetWorkerCursor_def)

text \<open>C20. The counters are what the ledger says: after every committed pass, whatever the table held before, a
  query and a video have a row exactly when a retained event links them, with the exact number of
  impressions, clicks and meaningful watches that are left - so a counter falls when its evidence
  goes. The ledger is only appended to and the cursor never moves back.\<close>

theorem engagement_counters_exact:
  assumes "engagementRollup X cfg read_ok tx now s = (Inr bumps, s')"
  shows "counters_exact (query_video_engagement s') (behavior_events s')
    \<and> (\<exists>es. behavior_events s' = behavior_events s @ es)
    \<and> getCursor ''engagement'' s \<le> getCursor ''engagement'' s'"
proof -
  let ?max = "MaxBehaviorEventID s" and ?cur = "getCursor ''engagement'' s"
  obtain new s1 where d: "derive_new X cfg read_ok s = Inr (new, s1)"
    using assms by (auto simp: engagementRollup_def inTx_Inr Let_def split: sum.splits)
  obtain s2 where s2: "RebuildQueryVideoEngagement now (ClearQueryVideoEngagement s1) = Inr s2"
    "counters_exact (query_video_engagement s2) (behavior_events s1)" "s2 = s1\<lparr> query_video_engagement := query_video_engagement s2 \<rparr>"
    using rebuild_exact by blast
  have same: "behavior_events s2 = behavior_events s1" "worker_cursors s2 = worker_cursors s1"
    by (subst s2(3), simp)+
  define s3 where "s3 = fold (project_watch cfg now) new s2"
  have s': "s' = (if ?max > ?cur then SetWorkerCursor now ''engagement'' ?max s3 else s3)"
    using assms d s2(1) by (auto simp: engagementRollup_def inTx_Inr Let_def s3_def)
  have "getCursor ''engagement'' s3 = ?cur"
    using derive_new_Inr [OF d] by (intro getCursor_cong) (simp add: s3_def same)
  moreover have "behavior_events s' = behavior_events s1" "query_video_engagement s' = query_video_engagement s2"
    by (simp_all add: s' s3_def same SetWorkerCursor_def)
  ultimately show ?thesis
    using s2(2) derive_new_Inr [OF d] by (simp add: s' getCursor_set)
qed

section \<open>A watch of forty seconds\<close>

definition watched_forty :: behavior_row where
  "watched_forty = \<lparr> be_id = 1, be_event_id = 9, be_type = ''video.watch_progress'', be_user_id = Some 1,
     be_session_id = Some ''s'', be_normalized_query = None, be_video_id = Some 7, be_position = None,
     be_model_version = None, be_occurred_at = 0, be_props = JObj [(''position_seconds'', JStr ''40'')] \<rparr>"

definition clicked_seven :: behavior_row where
  "clicked_seven = watched_forty\<lparr> be_id := 0, be_event_id := 8, be_type := ''search.result_clicked'',
     be_normalized_query := Some ''cats'', be_props := JObj [] \<rparr>"

definition watched_db :: db where
  "watched_db = empty_db\<lparr> behavior_events := [clicked_seven, watched_forty], seq_behavior := 2 \<rparr>"

lemma forty: "pg_float8 sample_ext ''40'' = Some 40"
  by code_simp

lemma watched_rows [simp]:
  "be_id watched_forty = 1" "be_type watched_forty = ''video.watch_progress''" "be_video_id watched_forty = Some 7"
  "be_id clicked_seven = 0" "be_type clicked_seven = ''search.result_clicked''" "be_video_id clicked_seven = Some 7"
  "be_normalized_query clicked_seven = Some ''cats''" "be_normalized_query watched_forty = None"
  "jfield_text ''position_seconds'' (be_props watched_forty) = Some ''40''" "jfield_text ''allow_history'' (be_props watched_forty) = None"
  by (simp_all add: watched_forty_def clicked_seven_def jfield_text_def jfield_def jtext_def)

lemma watched_derives: "derive_one sample_ext 30 (3 / 10) ledger watched_forty
    = Inr (Some (derived_watch sample_ext ledger watched_forty 7 False))"
  by (simp add: derive_one_def watch_qualifies_def prop_float_def prop_bool_def forty Let_def)

lemma watched_context: "context_query [clicked_seven, watched_forty] watched_forty = Some ''cats''"
  by (simp add: context_query_def SliceStable_def) (simp add: watched_forty_def clicked_seven_def)

lemma derived_query [simp]: "be_normalized_query (derived_watch X l r vid allow) = context_query l r"
  by (simp add: derived_watch_def)

lemma watched_ids: "be_event_id watched_forty = 9" "be_event_id clicked_seven = 8"
  by (simp_all add: watched_forty_def clicked_seven_def)

lemma watched_once: "\<exists>new s1. DeriveMeaningfulWatch sample_ext 0 1 30 (3 / 10) watched_db = Inr (new, s1)
    \<and> map be_normalized_query new = [Some ''cats'']"
proof -
  have "be_event_id (derived_watch sample_ext [clicked_seven, watched_forty] watched_forty 7 False) \<notin> {8, 9}"
    by (simp add: derived_watch_def) code_simp
  then show ?thesis
    by (simp add: Derive_alt watched_db_def progress_rows_def watched_derives sql_insert_ignore_def Let_def watched_context
        watched_ids)
qed

lemma meaningful_watch_once_witness:
  "case DeriveMeaningfulWatch sample_ext 0 1 30 (3 / 10) watched_db of Inl e \<Rightarrow> False
   | Inr (new, s1) \<Rightarrow> map be_normalized_query new = [Some ''cats'']
       \<and> (case DeriveMeaningfulWatch sample_ext 0 1 30 (3 / 10) s1 of Inl e \<Rightarrow> False | Inr (again, s2) \<Rightarrow> again = [])"
proof -
  obtain new s1 where d: "DeriveMeaningfulWatch sample_ext 0 1 30 (3 / 10) watched_db = Inr (new, s1)"
    and n: "map be_normalized_query new = [Some ''cats'']" using watched_once by (elim exE conjE) (rule that)
  from meaningful_watch_once [OF d order_refl order_refl] d n show ?thesis by auto
qed

lemma watched_pass: "\<exists>bumps s'. engagementRollup sample_ext sample_worker True (True, True) 5 watched_db = (Inr bumps, s')"
proof -
  have mx: "MaxBehaviorEventID watched_db = 1" "getCursor ''engagement'' watched_db = 0" "overlay True watched_db = (\<lambda>k. None)"
    by (auto simp: MaxBehaviorEventID_def max_or_zero_def watched_db_def getCursor_def GetWorkerCursor_def sql_get_def
        empty_db_def overlay_def ListServiceConfig_def)
  obtain new s1 where d: "DeriveMeaningfulWatch sample_ext 0 1 30 (3 / 10) watched_db = Inr (new, s1)" using watched_once by (elim exE conjE) (rule that)
  obtain s2 where "RebuildQueryVideoEngagement 5 (ClearQueryVideoEngagement s1) = Inr s2" using rebuild_exact by blast
  then show ?thesis
    using d by (simp add: engagementRollup_def inTx_Inr derive_new_def mx overlayInt_def Let_def)
qed

lemma engagement_counters_exact_witness:
  "counters_exact (query_video_engagement (snd (engagementRollup sample_ext sample_worker True (True, True) 5 watched_db)))
     (behavior_events (snd (engagementRollup sample_ext sample_worker True (True, True) 5 watched_db)))"
proof -
  obtain bumps s' where "engagementRollup sample_ext sample_worker True (True, True) 5 watched_db = (Inr bumps, s')"
    using watched_pass by blast
  from engagement_counters_exact [OF this] this show ?thesis by simp
qed

end
