(* ===== verification/Reevaluate.thy ===== *)
theory Reevaluate
  imports WorkerBase
begin

text \<open>
  The jobs on the query log: \<open>aggregatesRollup\<close>, \<open>retention\<close> and \<open>reconcileGuard\<close> of
  \<open>worker.go\<close>, and \<open>reevaluate.go\<close>. A job takes the clock \<open>wall\<close> of the process, the time \<open>now\<close>
  of its statements, whether the configuration could be read and, where it opens one, the fate \<open>tx\<close>
  of its transaction.
\<close>

section \<open>The rollup job\<close>

definition aggregatesRollup ::
  "worker_config \<Rightarrow> bool \<Rightarrow> bool \<times> bool \<Rightarrow> int \<Rightarrow> int \<Rightarrow> db \<Rightarrow> (sql_error + unit) \<times> db" where
  "aggregatesRollup cfg read_ok tx wall now s =
     (let ov = overlay read_ok s;
          minUsers = overlayInt ov ''minimum_query_user_count'' (MinQueryUserCount cfg);
          retentionDays = overlayInt ov ''search_event_retention_days'' (RetentionDays cfg)
      in inTx tx (\<lambda>s0. let cursor = getCursor ''aggregates'' s0; maxid = MaxQueryLogID s0
           in if maxid \<le> cursor then Inr ((), s0)
              else (case RollupQueryAggregates (QueryHalfLifeSeconds cfg) (int32 minUsers) cursor maxid
                      (windowStart wall retentionDays) s0 of
                  Inl e \<Rightarrow> Inl e
                | Inr s1 \<Rightarrow> Inr ((), SetWorkerCursor now ''aggregates'' maxid s1))) s)"

section \<open>The re-evaluation job\<close>

definition reevalBatchSize :: int where "reevalBatchSize = 10000"
definition reevalMaxBatches :: nat where "reevalMaxBatches = 100"
definition reevalSampleSize :: nat where "reevalSampleSize = 10"

record reeval_change =
  rcNormalizedQuery :: string
  rcSuggestible :: bool
  rcDistinctUsers :: int
  rcTotalCount :: int

record reeval_report =
  rrDryRun :: bool
  rrSkipped :: bool
  rrChanged :: int
  rrSample :: "reeval_change list"

text \<open>The closure \<open>keep\<close>.\<close>

definition keep :: "preview_row list \<Rightarrow> reeval_report \<Rightarrow> reeval_report" where
  "keep rows rep = rep\<lparr> rrSample := rrSample rep @ map (\<lambda>r. \<lparr> rcNormalizedQuery = pvNormalizedQuery r,
     rcSuggestible = pvSuggestible r, rcDistinctUsers = pvDistinctUsers r, rcTotalCount = pvTotalCount r \<rparr>)
     (take (reevalSampleSize - length (rrSample rep)) rows) \<rparr>"

fun dry_batches :: "nat \<Rightarrow> (string \<Rightarrow> preview_row list) \<Rightarrow> string \<Rightarrow> reeval_report \<Rightarrow> reeval_report" where
  "dry_batches 0 preview after rep = rep"
| "dry_batches (Suc k) preview after rep =
     (let rows = preview after;
          rep = (keep rows rep)\<lparr> rrChanged := rrChanged rep + int (length rows) \<rparr>
      in if int (length rows) < reevalBatchSize then rep
         else dry_batches k preview (pvNormalizedQuery (last rows)) rep)"

fun reeval_batches :: "nat \<Rightarrow> (db \<Rightarrow> sql_error + int \<times> db) \<Rightarrow> reeval_report \<Rightarrow> db \<Rightarrow> (sql_error + reeval_report) \<times> db" where
  "reeval_batches 0 step rep s = (Inr rep, s)"
| "reeval_batches (Suc k) step rep s =
     (case step s of Inl e \<Rightarrow> (Inl e, s)
      | Inr (n, s') \<Rightarrow> (let rep = rep\<lparr> rrChanged := rrChanged rep + n \<rparr>
          in if n < reevalBatchSize then (Inr rep, s') else reeval_batches k step rep s'))"

definition Runner_ReevaluateSuggestible ::
  "worker_config \<Rightarrow> bool \<Rightarrow> int \<Rightarrow> bool \<Rightarrow> db \<Rightarrow> (sql_error + reeval_report) \<times> db" where
  "Runner_ReevaluateSuggestible cfg read_ok wall dryRun s =
     (let ov = overlay read_ok s;
          minUsers = int32 (overlayInt ov ''minimum_query_user_count'' (MinQueryUserCount cfg));
          retentionDays = overlayInt ov ''search_event_retention_days'' (RetentionDays cfg);
          ws = windowStart wall retentionDays;
          rep = \<lparr> rrDryRun = dryRun, rrSkipped = False, rrChanged = 0, rrSample = [] \<rparr>
      in if \<not> QueryLogHasRowsInWindow ws s then (Inr (rep\<lparr> rrSkipped := True \<rparr>), s)
         else if dryRun then
           (Inr (dry_batches reevalMaxBatches (\<lambda>after. PreviewSuggestibleReevaluation ws minUsers after reevalBatchSize s) [] rep), s)
         else reeval_batches reevalMaxBatches (ReevaluateSuggestible ws (QueryHalfLifeSeconds cfg) minUsers reevalBatchSize)
                (keep (PreviewSuggestibleReevaluation ws minUsers [] (int reevalSampleSize) s) rep) s)"

definition suggestibleReeval :: "worker_config \<Rightarrow> bool \<Rightarrow> int \<Rightarrow> db \<Rightarrow> (sql_error + unit) \<times> db" where
  "suggestibleReeval cfg read_ok wall s =
     (case Runner_ReevaluateSuggestible cfg read_ok wall (ReevalDryRun cfg) s of
        (Inl e, s') \<Rightarrow> (Inl e, s') | (Inr rep, s') \<Rightarrow> (Inr (), s'))"

section \<open>Retention and the reconcile guard\<close>

text \<open>Each statement commits on its own, at its own time; \<open>sent\<close> of the four were run before the connection failed.\<close>

definition retention :: "worker_config \<Rightarrow> bool \<Rightarrow> nat \<Rightarrow> (nat \<Rightarrow> int) \<Rightarrow> db \<Rightarrow> (sql_error + unit) \<times> db" where
  "retention cfg read_ok sent clk s =
     (let ov = overlay read_ok s;
          retentionDays = overlayInt ov ''search_event_retention_days'' (RetentionDays cfg);
          steps = [DeleteOldQueryLog (clk 0) (int32 retentionDays), DeleteOldBehaviorEvents (clk 1) (int32 retentionDays),
                   PruneEventsInbox (clk 2) (int32 (InboxRetentionDays cfg)),
                   PruneWatchProjection (clk 3) (WkWatchHalfLifeHours cfg) (ProjectionFloor cfg)]
      in (if sent < 4 then Inl SqlError else Inr (), fold (\<lambda>f. f) (take sent steps) s))"

text \<open>The gauge it sets and whether it warns.\<close>

definition reconcileGuard :: "worker_config \<Rightarrow> int \<Rightarrow> db \<Rightarrow> real \<times> bool" where
  "reconcileGuard cfg now s =
     (let age = LastReconcileEndAgeSeconds now s
      in (age, age < 0 \<or> age > real_of_int (ReconcileMaxAge cfg) / real_of_int nanos))"

section \<open>The re-evaluation settles\<close>

lemma reeval_batches_run:
  assumes "\<And>s0. query_log s0 = query_log s \<Longrightarrow> \<exists>n s1. ReevaluateSuggestible w hl mn reevalBatchSize s0 = Inr (n, s1)"
    and "query_log s0 = query_log s" and "distinct (map qa_normalized_query (query_aggregates s0))"
    and "length (movers mn (pg_ts w) s0) \<le> k * nat reevalBatchSize"
  shows "\<exists>s1. reeval_batches k (ReevaluateSuggestible w hl mn reevalBatchSize) rep s0
      = (Inr (rep\<lparr> rrChanged := rrChanged rep + int (length (movers mn (pg_ts w) s0)) \<rparr>), s1)
    \<and> s1 = s0\<lparr> query_aggregates := reeval_table hl mn (pg_ts w) s0 \<rparr>"
  using assms(2-4)
proof (induction k arbitrary: s0 rep)
  case 0
  then have "movers mn (pg_ts w) s0 = []" by simp
  then show ?case using no_movers [of mn "pg_ts w" s0 hl] by simp
next
  case (Suc k)
  obtain n s1 where r: "ReevaluateSuggestible w hl mn reevalBatchSize s0 = Inr (n, s1)"
    using assms(1) [OF Suc.prems(1)] by blast
  note b = batch_step [OF r Suc.prems(2)]
  have same: "s1\<lparr> query_aggregates := reeval_table hl mn (pg_ts w) s1 \<rparr>
      = s0\<lparr> query_aggregates := reeval_table hl mn (pg_ts w) s0 \<rparr>"
    by (subst b(5)) (simp add: b(3))
  show ?case
  proof (cases "n < reevalBatchSize")
    case True
    then have all: "n = int (length (movers mn (pg_ts w) s0))" using b(1) by (auto simp: min_def reevalBatchSize_def)
    then have "movers mn (pg_ts w) s1 = []" using b(2) by simp
    then have "s1 = s1\<lparr> query_aggregates := reeval_table hl mn (pg_ts w) s1 \<rparr>"
      using no_movers [of mn "pg_ts w" s1 hl] by simp
    then show ?thesis using True same all by (simp add: r Let_def)
  next
    case False
    then have n: "n = reevalBatchSize" "nat reevalBatchSize \<le> length (movers mn (pg_ts w) s0)"
      using b(1) by (auto simp: min_def reevalBatchSize_def split: if_split_asm)
    have "length (movers mn (pg_ts w) s1) \<le> k * nat reevalBatchSize"
      using Suc.prems(3) b(2) n by simp
    moreover have "distinct (map qa_normalized_query (query_aggregates s1))" using Suc.prems(2) b(6) by simp
    ultimately obtain s2 where s2: "reeval_batches k (ReevaluateSuggestible w hl mn reevalBatchSize) (rep\<lparr> rrChanged := rrChanged rep + n \<rparr>) s1
        = (Inr (rep\<lparr> rrChanged := rrChanged rep + n + int (length (movers mn (pg_ts w) s1)) \<rparr>), s2)"
      "s2 = s1\<lparr> query_aggregates := reeval_table hl mn (pg_ts w) s1 \<rparr>"
      using Suc.IH [of s1 "rep\<lparr> rrChanged := rrChanged rep + n \<rparr>"] Suc.prems(1) b(4) by auto
    moreover have "n + int (length (movers mn (pg_ts w) s1)) = int (length (movers mn (pg_ts w) s0))"
      using b(2) n by (simp add: reevalBatchSize_def)
    ultimately show ?thesis using False same by (simp add: r Let_def add.assoc)
  qed
qed

lemma movers_le: "length (movers mn ws s) \<le> length (query_aggregates s)"
  by (simp add: movers_def)

lemma reeval_table_still: "a \<in> set (reeval_table hl mn ws s) \<Longrightarrow> \<not> moves mn ws (query_log s) a"
  by (auto simp: reeval_table_def reeval_row_still split: if_split_asm)

section \<open>The dry run\<close>









section \<open>The job\<close>

lemma Runner_alt: "Runner_ReevaluateSuggestible cfg read_ok wall dryRun s =
   (let ws = pass_window cfg read_ok wall s; mn = pass_floor cfg read_ok s;
        rep = \<lparr> rrDryRun = dryRun, rrSkipped = False, rrChanged = 0, rrSample = [] \<rparr>
    in if \<not> QueryLogHasRowsInWindow ws s then (Inr (rep\<lparr> rrSkipped := True \<rparr>), s)
       else if dryRun then
         (Inr (dry_batches reevalMaxBatches (\<lambda>after. PreviewSuggestibleReevaluation ws mn after reevalBatchSize s) [] rep), s)
       else reeval_batches reevalMaxBatches (ReevaluateSuggestible ws (QueryHalfLifeSeconds cfg) mn reevalBatchSize)
              (keep (PreviewSuggestibleReevaluation ws mn [] (int reevalSampleSize) s) rep) s)"
  by (simp add: Runner_ReevaluateSuggestible_def pass_window_def pass_floor_def Let_def)

definition computable :: "real \<Rightarrow> int \<Rightarrow> query_log_row list \<Rightarrow> bool" where
  "computable hl ws ledger \<longleftrightarrow> \<not> list_ex (\<lambda>nq. underflows hl (survivors ws ledger nq)) (map ql_normalized_query ledger)"

lemma ReevaluateSuggestible_ok:
  "computable hl (pg_ts w) (query_log s) \<Longrightarrow> \<exists>n s1. ReevaluateSuggestible w hl mn lmt s = Inr (n, s1)"
  by (simp add: ReevaluateSuggestible_def computable_def Let_def)

lemma overlay_aggregates [simp]: "overlay read_ok (s\<lparr> query_aggregates := x \<rparr>) = overlay read_ok s"
  by (simp add: overlay_def ListServiceConfig_def)

lemma reeval_run:
  assumes "distinct (map qa_normalized_query (query_aggregates s))" and "length (query_aggregates s) \<le> 1000000"
    and "QueryLogHasRowsInWindow (pass_window cfg read_ok wall s) s"
    and "computable (QueryHalfLifeSeconds cfg) (pg_ts (pass_window cfg read_ok wall s)) (query_log s)"
  shows "Runner_ReevaluateSuggestible cfg read_ok wall False s =
     (Inr \<lparr> rrDryRun = False, rrSkipped = False,
        rrChanged = int (length (movers (pass_floor cfg read_ok s) (pg_ts (pass_window cfg read_ok wall s)) s)),
        rrSample = rrSample (keep (PreviewSuggestibleReevaluation (pass_window cfg read_ok wall s) (pass_floor cfg read_ok s) []
           (int reevalSampleSize) s) \<lparr> rrDryRun = False, rrSkipped = False, rrChanged = 0, rrSample = [] \<rparr>) \<rparr>,
      s\<lparr> query_aggregates := reeval_table (QueryHalfLifeSeconds cfg) (pass_floor cfg read_ok s)
           (pg_ts (pass_window cfg read_ok wall s)) s \<rparr>)"
proof -
  have "length (movers (pass_floor cfg read_ok s) (pg_ts (pass_window cfg read_ok wall s)) s) \<le> reevalMaxBatches * nat reevalBatchSize"
    using movers_le [of "pass_floor cfg read_ok s" "pg_ts (pass_window cfg read_ok wall s)" s] assms(2)
    by (simp add: reevalMaxBatches_def reevalBatchSize_def)
  from reeval_batches_run [OF _ refl assms(1) this, of "QueryHalfLifeSeconds cfg"
      "keep (PreviewSuggestibleReevaluation (pass_window cfg read_ok wall s) (pass_floor cfg read_ok s) []
           (int reevalSampleSize) s) \<lparr> rrDryRun = False, rrSkipped = False, rrChanged = 0, rrSample = [] \<rparr>"]
  show ?thesis
    using assms(3,4) ReevaluateSuggestible_ok by (fastforce simp: Runner_alt Let_def keep_def)
qed

lemma settles_over_rows:
  assumes "distinct (map qa_normalized_query (query_aggregates s))" and "length (query_aggregates s) \<le> 1000000"
    and "ws = pass_window cfg read_ok wall s" and "mn = pass_floor cfg read_ok s"
    and "QueryLogHasRowsInWindow ws s" and "computable (QueryHalfLifeSeconds cfg) (pg_ts ws) (query_log s)"
  shows "\<exists>rep s'. Runner_ReevaluateSuggestible cfg read_ok wall False s = (Inr rep, s')
    \<and> rrChanged rep = int (length (movers mn (pg_ts ws) s))
    \<and> s' = s\<lparr> query_aggregates := map (\<lambda>a. if moves mn (pg_ts ws) (query_log s) a
         then reeval_row (QueryHalfLifeSeconds cfg) mn (pg_ts ws) (query_log s) a else a) (query_aggregates s) \<rparr>
    \<and> (\<forall>a \<in> set (query_aggregates s'). qa_suggestible a \<longleftrightarrow>
         mn \<le> distinct_subjects (survivors (pg_ts ws) (query_log s') (qa_normalized_query a)) \<and> \<not> qa_banned a)
    \<and> (\<exists>rep'. Runner_ReevaluateSuggestible cfg read_ok wall False s' = (Inr rep', s') \<and> rrChanged rep' = 0)"
proof -
  define s' where "s' = s\<lparr> query_aggregates := reeval_table (QueryHalfLifeSeconds cfg) mn (pg_ts ws) s \<rparr>"
  have still: "\<not> moves mn (pg_ts ws) (query_log s) a" if "a \<in> set (query_aggregates s')" for a
    using reeval_table_still that by (simp add: s'_def)
  have none: "movers mn (pg_ts ws) s' = []" using still by (simp add: movers_def filter_empty_conv s'_def)
  have same: "pass_window cfg read_ok wall s' = ws" "pass_floor cfg read_ok s' = mn" "query_log s' = query_log s"
    "QueryLogHasRowsInWindow ws s' = QueryLogHasRowsInWindow ws s"
    using assms(3,4) by (simp_all add: s'_def pass_window_def pass_floor_def QueryLogHasRowsInWindow_def)
  have keys: "map qa_normalized_query (query_aggregates s') = map qa_normalized_query (query_aggregates s)"
    by (simp add: s'_def reeval_table_def)
  then have len: "length (query_aggregates s') = length (query_aggregates s)" by (metis length_map)
  have again: "s' = s'\<lparr> query_aggregates := reeval_table (QueryHalfLifeSeconds cfg) mn (pg_ts ws) s' \<rparr>"
    by (subst no_movers [OF none]) simp
  have run2: "\<exists>rep'. Runner_ReevaluateSuggestible cfg read_ok wall False s' = (Inr rep', s') \<and> rrChanged rep' = 0"
    using reeval_run [of s' cfg read_ok wall] assms keys len same none again by simp
  show ?thesis
    using reeval_run [of s cfg read_ok wall] assms(1,2,5,6) run2 still_counts [OF still]
    unfolding assms(3) [symmetric] assms(4) [symmetric] s'_def [symmetric]
    by (auto simp: same(3) want_def s'_def reeval_table_def)
qed

text \<open>C15. The re-evaluation pass ends, in one of three ways, and none is half a pass. When no row of the log is in the window
  it skips and touches nothing; when a power of the decay cannot be computed it fails and touches nothing; otherwise, with at
  most a million aggregates (a hundred batches of ten thousand), every row that disagrees with the surviving log
  is rewritten, exactly once; afterwards a query is suggestible exactly with as many distinct
  subjects in the window as the floor asks for and no ban, and a second pass finds nothing to do.\<close>

theorem reevaluation_settles:
  assumes "distinct (map qa_normalized_query (query_aggregates s))" and "length (query_aggregates s) \<le> 1000000"
    and "ws = pass_window cfg read_ok wall s" and "mn = pass_floor cfg read_ok s"
  shows "if \<not> QueryLogHasRowsInWindow ws s
    then Runner_ReevaluateSuggestible cfg read_ok wall False s =
      (Inr \<lparr> rrDryRun = False, rrSkipped = True, rrChanged = 0, rrSample = [] \<rparr>, s)
    else if \<not> computable (QueryHalfLifeSeconds cfg) (pg_ts ws) (query_log s)
    then Runner_ReevaluateSuggestible cfg read_ok wall False s = (Inl SqlError, s)
    else \<exists>rep s'. Runner_ReevaluateSuggestible cfg read_ok wall False s = (Inr rep, s')
      \<and> rrChanged rep = int (length (movers mn (pg_ts ws) s))
      \<and> s' = s\<lparr> query_aggregates := map (\<lambda>a. if moves mn (pg_ts ws) (query_log s) a
           then reeval_row (QueryHalfLifeSeconds cfg) mn (pg_ts ws) (query_log s) a else a) (query_aggregates s) \<rparr>
      \<and> (\<forall>a \<in> set (query_aggregates s'). qa_suggestible a \<longleftrightarrow>
           mn \<le> distinct_subjects (survivors (pg_ts ws) (query_log s') (qa_normalized_query a)) \<and> \<not> qa_banned a)
      \<and> (\<exists>rep'. Runner_ReevaluateSuggestible cfg read_ok wall False s' = (Inr rep', s') \<and> rrChanged rep' = 0)"
proof -
  have skip: "Runner_ReevaluateSuggestible cfg read_ok wall False s = (Inr \<lparr> rrDryRun = False, rrSkipped = True, rrChanged = 0, rrSample = [] \<rparr>, s)"
    if "\<not> QueryLogHasRowsInWindow ws s"
    using that assms(3) by (simp add: Runner_alt Let_def)
  have fail: "Runner_ReevaluateSuggestible cfg read_ok wall False s = (Inl SqlError, s)"
    if "QueryLogHasRowsInWindow ws s" "\<not> computable (QueryHalfLifeSeconds cfg) (pg_ts ws) (query_log s)"
    using that assms(3)
    by (simp add: Runner_alt Let_def ReevaluateSuggestible_def computable_def reevalMaxBatches_def numeral_eq_Suc)
  show ?thesis using skip fail settles_over_rows [OF assms] by (auto split: if_split)
qed


text \<open>An instance: one search, and a suggestion whose evidence is gone.\<close>

definition sample_search_row :: "int \<Rightarrow> int \<Rightarrow> query_log_row" where
  "sample_search_row i t = \<lparr> ql_id = i, ql_event_id = None, ql_normalized_query = ''cats'', ql_display_query = ''Cats'',
     ql_user_id = Some 1, ql_session_id = None, ql_subject_id = None, ql_results_count = None, ql_submitted_at = t \<rparr>"

definition sample_aggregate :: "string \<Rightarrow> aggregate_row" where
  "sample_aggregate q = \<lparr> qa_normalized_query = q, qa_display_query = q, qa_total_count = 9, qa_distinct_users = 5,
     qa_decayed_freq = 4, qa_first_seen = 0, qa_last_seen = 0, qa_suggestible = True, qa_banned = False \<rparr>"

definition sample_quiet :: db where
  "sample_quiet = empty_db \<lparr> query_log := [sample_search_row 1 0], query_aggregates := [sample_aggregate ''dogs''] \<rparr>"

lemma sample_pass [simp]: "pass_floor sample_worker True sample_quiet = 3"
    "pass_window sample_worker True 0 sample_quiet = - (90 * hours 24)"
  by (simp_all add: pass_floor_def pass_window_def overlay_def overlayInt_def ListServiceConfig_def sample_quiet_def empty_db_def
      windowStart_exact int32_id in_int32_def)

lemma sample_quiet_has: "QueryLogHasRowsInWindow (- (90 * hours 24)) sample_quiet"
  by (simp add: QueryLogHasRowsInWindow_def sample_quiet_def sample_search_row_def hours_def nanos_def pg_ts_def)

lemma sample_quiet_computable: "computable 604800 ws (query_log sample_quiet)"
  by (simp add: computable_def sample_quiet_def sample_search_row_def underflows_def survivors_def retained_def
      half_lives_def last_of_def)

lemma sample_quiet_keys: "map qa_normalized_query (query_aggregates sample_quiet) = [''dogs'']"
    "length (query_aggregates sample_quiet) = 1"
  by (simp_all add: sample_quiet_def sample_aggregate_def)

lemma sample_quiet_moves: "query_aggregates sample_quiet = [sample_aggregate ''dogs'']"
    "moves 3 ws (query_log sample_quiet) (sample_aggregate ''dogs'')"
    "\<not> qa_suggestible (reeval_row hl 3 ws (query_log sample_quiet) (sample_aggregate ''dogs''))"
  by (simp_all add: sample_quiet_def moves_def reeval_row_def want_def sample_aggregate_def sample_search_row_def
      survivors_def retained_def Let_def distinct_subjects_def count_distinct_def map_filter_def)

lemma reevaluation_settles_witness:
  "\<exists>rep s'. Runner_ReevaluateSuggestible sample_worker True 0 False sample_quiet = (Inr rep, s')
    \<and> rrChanged rep = 1 \<and> map qa_suggestible (query_aggregates s') = [False]"
proof -
  let ?ws = "- (90 * hours 24)"
  have "computable (QueryHalfLifeSeconds sample_worker) (pg_ts ?ws) (query_log sample_quiet)"
    by (simp add: sample_quiet_computable)
  then obtain rep s' where "Runner_ReevaluateSuggestible sample_worker True 0 False sample_quiet = (Inr rep, s')"
    and "rrChanged rep = int (length (movers 3 (pg_ts ?ws) sample_quiet))"
    and "s' = sample_quiet\<lparr> query_aggregates := map (\<lambda>a. if moves 3 (pg_ts ?ws) (query_log sample_quiet) a
         then reeval_row (QueryHalfLifeSeconds sample_worker) 3 (pg_ts ?ws) (query_log sample_quiet) a else a)
         (query_aggregates sample_quiet) \<rparr>"
    using reevaluation_settles [of sample_quiet ?ws sample_worker True 0 3] sample_quiet_has sample_quiet_keys by (auto split: if_split_asm)
  then show ?thesis by (simp add: movers_def sample_quiet_moves)
qed


section \<open>One row can stop both passes\<close>

text \<open>Two searches of one query that lie more than 1075 half-lives apart stop both passes: the rollup
  fails and rolls back as long as the rows are in its batch - so the cursor never advances past
  them and no other query is rolled up either - and the re-evaluation fails whatever else the log holds.
  An event carries its own time, so a single event dated decades ahead is enough.\<close>

theorem far_future_search_stops_rollup:
  assumes "r \<in> set (query_log s)" and "r' \<in> set (query_log s)" and "ql_normalized_query r' = ql_normalized_query r"
    and "ql_normalized_query r \<noteq> []" and "getCursor ''aggregates'' s < ql_id r'"
    and "pg_ts (pass_window cfg read_ok wall s) \<le> ql_submitted_at r" and "0 < QueryHalfLifeSeconds cfg"
    and "1075 * QueryHalfLifeSeconds cfg * real_of_int nanos \<le> real_of_int (ql_submitted_at r' - ql_submitted_at r)"
  shows "aggregatesRollup cfg read_ok tx wall now s = (Inl SqlError, s)
    \<and> Runner_ReevaluateSuggestible cfg read_ok wall False s = (Inl SqlError, s)"
proof -
  let ?ws = "pg_ts (pass_window cfg read_ok wall s)" and ?l = "query_log s" and ?nq = "ql_normalized_query r"
  have newer: "ql_submitted_at r \<le> ql_submitted_at r'"
  proof -
    have "0 \<le> 1075 * QueryHalfLifeSeconds cfg * real_of_int nanos" using assms(7) by (simp add: nanos_def)
    then show ?thesis using assms(8) by linarith
  qed
  have mem: "r \<in> set (retained ?ws ?l ?nq)" "r' \<in> set (retained ?ws ?l ?nq)"
    using assms(1,2,3,6) newer by (auto simp: retained_def)
  have uf: "underflows (QueryHalfLifeSeconds cfg) (retained ?ws ?l ?nq)"
    by (rule underflows_old [OF mem assms(7,8)])
  have bt: "?nq \<in> set (rollup_batch ?ws (getCursor ''aggregates'' s) (MaxQueryLogID s) ?l)"
    using assms(2,3,4,5) mem MaxQueryLogID_ge [OF assms(2)] by (auto simp: rollup_batch_def image_iff)
  have "aggregatesRollup cfg read_ok tx wall now s = (Inl SqlError, s)"
  proof -
    have "\<not> MaxQueryLogID s \<le> getCursor ''aggregates'' s" using MaxQueryLogID_ge [OF assms(2)] assms(5) by simp
    moreover have "RollupQueryAggregates (QueryHalfLifeSeconds cfg) mn (getCursor ''aggregates'' s) (MaxQueryLogID s)
        (pass_window cfg read_ok wall s) s = Inl SqlError" for mn
      using bt uf by (auto simp: RollupQueryAggregates_def Let_def list_ex_iff)
    ultimately show ?thesis by (simp add: aggregatesRollup_def Let_def inTx_def flip: pass_window_def)
  qed
  moreover have "Runner_ReevaluateSuggestible cfg read_ok wall False s = (Inl SqlError, s)"
  proof -
    have "QueryLogHasRowsInWindow (pass_window cfg read_ok wall s) s"
      using assms(1,4,6) by (auto simp: QueryLogHasRowsInWindow_def list_ex_iff)
    moreover have "ReevaluateSuggestible (pass_window cfg read_ok wall s) (QueryHalfLifeSeconds cfg) mn lmt s = Inl SqlError" for mn lmt
      using uf assms(1,4) by (auto simp: ReevaluateSuggestible_def Let_def list_ex_iff survivors_def)
    moreover have "reeval_batches reevalMaxBatches step rep s = (Inl e, s)" if "step s = Inl e" for step rep e
      using that reeval_batches.simps(2) [of 99 step rep s] by (simp add: reevalMaxBatches_def del: reeval_batches.simps)
    ultimately show ?thesis by (simp add: Runner_alt Let_def)
  qed
  ultimately show ?thesis by simp
qed

definition sample_poisoned :: db where
  "sample_poisoned = empty_db \<lparr> query_log := [sample_search_row 1 0, sample_search_row 2 (hours 400000)] \<rparr>"

lemma far_future_search_stops_rollup_witness:
  "aggregatesRollup sample_worker True (True, True) 0 0 sample_poisoned = (Inl SqlError, sample_poisoned)"
proof -
  have "pass_window sample_worker True 0 sample_poisoned = - (90 * hours 24)" "getCursor ''aggregates'' sample_poisoned = 0"
    by (simp_all add: pass_window_def overlay_def overlayInt_def ListServiceConfig_def sample_poisoned_def empty_db_def
        windowStart_exact getCursor_def GetWorkerCursor_def sql_get_def)
  then show ?thesis
    by (intro conjunct1 [OF far_future_search_stops_rollup [where r = "sample_search_row 1 0" and r' = "sample_search_row 2 (hours 400000)"]])
      (simp_all add: sample_poisoned_def sample_search_row_def pg_ts_def hours_def nanos_def)
qed

end
