(* ===== verification/Poison.thy ===== *)
theory Poison
  imports EventProps Engagement Reevaluate
begin

text \<open>
  Where the intake and a job disagree: the intake checks fewer members of a payload than the
  statement of the job reads, so an event it accepts can make the job fail at every pass.
\<close>

text \<open>C29. One watch progress event can stop the engagement job. The intake decodes the ids of such an event
  and stores the rest of its payload as it came; the job casts \<open>position_seconds\<close> of that payload to a
  number. While a stored event beyond the cursor holds a text there that is no number, every
  pass fails and rolls back: nothing is derived, no counter is rebuilt, and the cursor stays.\<close>

theorem bad_progress_stops_engagement:
  assumes "r \<in> set (behavior_events s)" and "be_type r = ''video.watch_progress''" and "be_video_id r = Some vid"
    and "getCursor ''engagement'' s < be_id r" and "jfield_text ''position_seconds'' (be_props r) = Some t"
    and "pg_float8 X t = None"
  shows "engagementRollup X cfg read_ok tx now s = (Inl SqlError, s)"
proof -
  have le: "be_id r \<le> MaxBehaviorEventID s"
    using assms(1) by (auto simp: MaxBehaviorEventID_def max_or_zero_def)
  then have "r \<in> set (progress_rows (getCursor ''engagement'' s) (MaxBehaviorEventID s) (behavior_events s))"
    using assms by (simp add: progress_rows_def)
  moreover have "derived_id X a b r = Inl SqlError" for a b
    using assms(3,5,6) by (simp add: derived_id_def derive_one_def watch_qualifies_def prop_float_def)
  moreover have "\<exists>e. derive_all X a b l rs = Inl e" if "r \<in> set rs" "derived_id X a b r = Inl SqlError" for a b l rs
    using derive_all_ids(2) [of X a b l rs] that by (cases "derive_all X a b l rs") auto
  ultimately have "derive_all X a b l (progress_rows (getCursor ''engagement'' s) (MaxBehaviorEventID s) (behavior_events s)) = Inl SqlError" for a b l
    by (metis sql_error.exhaust)
  then have "derive_new X cfg read_ok s = Inl SqlError"
    using assms(4) le by (simp add: derive_new_def Derive_alt Let_def)
  then show ?thesis by (simp add: engagementRollup_def inTx_def)
qed

definition bad_progress :: envelope where
  "bad_progress = zero_envelope\<lparr> ev_event_id := 5, ev_type := TypeVideoWatchProgress, ev_occurred_at := 1000000,
     ev_payload := Some (JObj [(''video_id'', JStr ''7''), (''position_seconds'', JStr ''soon'')]) \<rparr>"

definition after_bad_progress :: db where
  "after_bad_progress = snd (Ingest sample_ext sample_config (True, True) 0 (\<lambda>i. 0) [bad_progress] empty_db)"

lemma bad_progress_decodes: "watchProgress sample_ext (ev_payload bad_progress) = Some (zero_behavior\<lparr> b_video_id := 7 \<rparr>)"
  by code_simp

lemma bad_progress_stored: "jsonb_in sample_ext (case ev_payload bad_progress of Some j \<Rightarrow> j | None \<Rightarrow> JNull)
    = Some (JObj [(''position_seconds'', JStr ''soon''), (''video_id'', JStr ''7'')])"
  by code_simp

lemma bad_progress_fields: "ev_event_id bad_progress = 5" "ev_type bad_progress = ''video.watch_progress''"
    "ev_occurred_at bad_progress = 1000000" "pg_text ''video.watch_progress''"
  by (simp_all add: bad_progress_def TypeVideoWatchProgress_def pg_text_def)

definition bad_row :: "int \<Rightarrow> behavior_row" where
  "bad_row i = \<lparr> be_id = i, be_event_id = 5, be_type = ''video.watch_progress'', be_user_id = None, be_session_id = None,
     be_normalized_query = None, be_video_id = Some 7, be_position = None, be_model_version = None, be_occurred_at = 1000000,
     be_props = JObj [(''position_seconds'', JStr ''soon''), (''video_id'', JStr ''7'')] \<rparr>"

lemma bad_progress_dispatch:
  "dispatch sample_ext sample_config now wall bad_progress s = Inr ([], s\<lparr> behavior_events :=
     fst (sql_insert_ignore be_event_id (bad_row (seq_behavior s)) (behavior_events s)), seq_behavior := seq_behavior s + 1 \<rparr>)"
  using bad_progress_decodes bad_progress_stored
  by (simp add: dispatch_def Let_def bad_progress_fields event_types isBehavioral_def applyBehavioral_def decoded_def andThen_def
      insertBehavior_def InsertBehaviorEvent_def pg_text_opt_def eventTime_def zero_time_def zero_behavior_def nanos_def
      bad_row_def pg_ts_def)

lemma bad_progress_accepted:
  "Ingest sample_ext sample_config (True, True) 0 (\<lambda>i. 0) [bad_progress] empty_db
    = (Some (\<lparr> r_accepted = 1, r_duplicates = 0, r_failed = [] \<rparr>, []), after_bad_progress)"
  "behavior_events after_bad_progress = [bad_row 1]" "worker_cursors after_bad_progress = []"
  by (simp_all add: after_bad_progress_def Ingest_def Let_def applyOne_def ingest_one_def InsertInboxEvent_def
      legacyCatalogBlocked_def isLegacyCatalogType_def event_types bad_progress_fields sql_insert_ignore_def
      bad_progress_dispatch empty_db_def collect_result_def add_outcome_def empty_result_def)

lemma bad_progress_stops_engagement_witness:
  "fst (Ingest sample_ext sample_config (True, True) 0 (\<lambda>i. 0) [bad_progress] empty_db)
     = Some (\<lparr> r_accepted = 1, r_duplicates = 0, r_failed = [] \<rparr>, [])
   \<and> engagementRollup sample_ext sample_worker True (True, True) 0 after_bad_progress = (Inl SqlError, after_bad_progress)"
proof
  have "pg_float8 sample_ext ''soon'' = None" by code_simp
  then show "engagementRollup sample_ext sample_worker True (True, True) 0 after_bad_progress = (Inl SqlError, after_bad_progress)"
    by (intro bad_progress_stops_engagement [where r = "bad_row 1" and t = "''soon''" and vid = 7])
      (simp_all add: bad_progress_accepted bad_row_def jfield_text_def jfield_def jtext_def getCursor_def GetWorkerCursor_def sql_get_def)
qed (simp add: bad_progress_accepted)

end
