(* ===== verification/SuggestBlend.thy ===== *)
theory SuggestBlend
  imports Schema "HOL-Library.AList"
begin

text \<open>
  \<open>internal/ranking/suggest.go\<close>: the blend of the suggestion streams. Candidates are scored,
  deduplicated by their normalized text, ordered, and cut to the limit with slots reserved for a
  history and a document suggestion. The code iterates over a Go map before it sorts; \<open>iter\<close> is
  the order in which it meets the entries, any arrangement of them.
\<close>

section \<open>Candidates\<close>

datatype source = SourceQuery | SourceDoc | SourceHistory

datatype kind = KindQuery | KindVideo | KindChannel | KindTag | KindHistory

record blend_weights =
  Pop :: real
  Pfx :: real
  Pers :: real
  DocW :: real
  Trend :: real
  Len :: real

definition DefaultWeights :: blend_weights where
  "DefaultWeights = \<lparr> Pop = 1, Pfx = 6 / 10, Pers = 8 / 10, DocW = 4 / 10, Trend = 15 / 100, Len = 1 / 10 \<rparr>"

record candidate =
  cText :: string
  cKind :: kind
  cSource :: source
  cVideoID :: string
  cChannelHandle :: string
  cIsPersonal :: bool
  cExactPrefix :: bool
  cTrending :: bool
  cPopularity :: real

record suggestion =
  sText :: string
  sType :: kind
  sVideoID :: string
  sChannelHandle :: string
  sIsPersonal :: bool

type_synonym scored_candidate = "candidate \<times> real"

text \<open>\<open>len([]rune(s))\<close>: the width of the rune a byte string starts with; a byte that starts no
  valid encoding is a rune of its own.\<close>

definition rune_width :: "string \<Rightarrow> nat" where
  "rune_width s =
     (let b = map of_char s :: nat list; cont = (\<lambda>i. i < length b \<and> 128 \<le> b ! i \<and> b ! i < 192);
          second = (\<lambda>lo hi. 1 < length b \<and> lo \<le> b ! 1 \<and> b ! 1 \<le> hi)
      in if b = [] then 0
         else if 194 \<le> b ! 0 \<and> b ! 0 \<le> 223 \<and> cont 1 then 2
         else if 224 \<le> b ! 0 \<and> b ! 0 \<le> 239
              \<and> second (if b ! 0 = 224 then 160 else 128) (if b ! 0 = 237 then 159 else 191) \<and> cont 2 then 3
         else if 240 \<le> b ! 0 \<and> b ! 0 \<le> 244
              \<and> second (if b ! 0 = 240 then 144 else 128) (if b ! 0 = 244 then 143 else 191) \<and> cont 2 \<and> cont 3 then 4
         else 1)"

lemma rune_width_pos: "0 < rune_width (c # s)"
  by (simp add: rune_width_def Let_def)

function rune_count :: "string \<Rightarrow> nat" where
  "rune_count [] = 0"
| "rune_count (c # s) = 1 + rune_count (drop (rune_width (c # s)) (c # s))"
  by pat_completeness auto
termination
proof (relation "measure length", goal_cases)
  case (2 c s)
  then show ?case using rune_width_pos [of c s] by simp
qed simp

section \<open>Scores and order\<close>

definition maxPop :: "candidate list \<Rightarrow> source \<Rightarrow> real" where
  "maxPop cs src = foldl (\<lambda>m c. if cSource c = src \<and> cPopularity c > m then cPopularity c else m) 0 cs"

definition blendScore :: "candidate \<Rightarrow> (source \<Rightarrow> real) \<Rightarrow> blend_weights \<Rightarrow> real" where
  "blendScore c mp w =
     (let norm = (\<lambda>src. if mp src > 0 then cPopularity c / mp src else 0);
          prefixQuality = (if cExactPrefix c then 1 else 1 / 2);
          personal = (if cIsPersonal c then 1 else 0);
          pop = (if cSource c = SourceQuery then norm SourceQuery else 0);
          dc = (if cSource c = SourceDoc then norm SourceDoc else 0);
          lenPenalty = min 1 (real (rune_count (cText c)) / 50);
          trend = (if cTrending c then 1 else 0)
      in Pop w * pop + Pfx w * prefixQuality + Pers w * personal + DocW w * dc + Trend w * trend - Len w * lenPenalty)"

definition better :: "ext \<Rightarrow> scored_candidate \<Rightarrow> scored_candidate \<Rightarrow> bool" where
  "better X a b =
     (if cExactPrefix (fst a) \<noteq> cExactPrefix (fst b) then cExactPrefix (fst a)
      else if snd a \<noteq> snd b then snd a > snd b
      else to_lower X (cText (fst a)) < to_lower X (cText (fst b)))"

section \<open>Deduplication\<close>

text \<open>What the loser of a text leaves to the winner.\<close>

definition inherit :: "candidate \<Rightarrow> candidate \<Rightarrow> candidate" where
  "inherit win los = win\<lparr> cIsPersonal := cIsPersonal win \<or> cIsPersonal los,
     cVideoID := (if cVideoID win = [] then cVideoID los else cVideoID win) \<rparr>"

definition merge :: "ext \<Rightarrow> scored_candidate \<Rightarrow> scored_candidate \<Rightarrow> scored_candidate" where
  "merge X new cur =
     (if better X new cur then (inherit (fst new) (fst cur), snd new)
      else (inherit (fst cur) (fst new), snd cur))"

definition dedupe_one ::
  "ext \<Rightarrow> (source \<Rightarrow> real) \<Rightarrow> blend_weights \<Rightarrow> candidate \<Rightarrow> (string \<times> scored_candidate) list
     \<Rightarrow> (string \<times> scored_candidate) list" where
  "dedupe_one X mp w c best =
     (let key = normalize X (cText c); new = (c, blendScore c mp w)
      in if key = [] then best
         else AList.update key (case map_of best key of None \<Rightarrow> new | Some cur \<Rightarrow> merge X new cur) best)"

definition dedupe :: "ext \<Rightarrow> (source \<Rightarrow> real) \<Rightarrow> blend_weights \<Rightarrow> candidate list \<Rightarrow> (string \<times> scored_candidate) list" where
  "dedupe X mp w cs = fold (dedupe_one X mp w) cs []"

section \<open>Reserved slots\<close>

text \<open>Put \<open>x\<close> in the place of the last element that is not of the class.\<close>

fun evict :: "('a \<Rightarrow> bool) \<Rightarrow> 'a \<Rightarrow> 'a list \<Rightarrow> 'a list" where
  "evict cls x [] = []"
| "evict cls x (y # ys) = (if list_all cls ys \<and> \<not> cls y then x # ys else y # evict cls x ys)"

definition ensure :: "('a \<Rightarrow> bool) \<Rightarrow> 'a list \<Rightarrow> 'a list \<Rightarrow> 'a list" where
  "ensure cls rest picked =
     (if list_ex cls picked then picked
      else (case find cls rest of None \<Rightarrow> picked | Some x \<Rightarrow> evict cls x picked))"

definition of_source :: "source \<Rightarrow> scored_candidate \<Rightarrow> bool" where
  "of_source src sc \<longleftrightarrow> cSource (fst sc) = src"

definition reserveSlots :: "ext \<Rightarrow> scored_candidate list \<Rightarrow> nat \<Rightarrow> scored_candidate list" where
  "reserveSlots X ranked n =
     (if length ranked \<le> n then ranked
      else SliceStable (better X)
        (ensure (of_source SourceDoc) (drop n ranked)
          (ensure (of_source SourceHistory) (drop n ranked) (take n ranked))))"

definition suggest_of :: "scored_candidate \<Rightarrow> suggestion" where
  "suggest_of sc = \<lparr> sText = cText (fst sc), sType = cKind (fst sc), sVideoID = cVideoID (fst sc),
     sChannelHandle = cChannelHandle (fst sc), sIsPersonal = cIsPersonal (fst sc) \<rparr>"

definition Blend ::
  "ext \<Rightarrow> ((string \<times> scored_candidate) list \<Rightarrow> (string \<times> scored_candidate) list) \<Rightarrow> candidate list \<Rightarrow> int
     \<Rightarrow> blend_weights \<Rightarrow> suggestion list" where
  "Blend X iter cs n w =
     (if n \<le> 0 \<or> cs = [] then []
      else map suggest_of (reserveSlots X
        (SliceStable (better X) (map snd (iter (dedupe X (maxPop cs) w cs)))) (nat n)))"

section \<open>The order is a contract of \<open>sort\<close>\<close>

interpretation by_better: strict_weak_order "better X" for X
  by unfold_locales (auto simp: better_def split: if_split_asm)

section \<open>What deduplication keeps\<close>

abbreviation key_of :: "ext \<Rightarrow> candidate \<Rightarrow> string" where
  "key_of X c \<equiv> normalize X (cText c)"

text \<open>An entry stands for the candidates of its key: its text is the text of one of them; it is
  personal when one of them is; and it has a video id when one of them has, the id of one of them.\<close>

definition stands_for :: "ext \<Rightarrow> candidate list \<Rightarrow> string \<Rightarrow> candidate \<Rightarrow> bool" where
  "stands_for X cs k e \<longleftrightarrow>
     (let group = filter (\<lambda>c. key_of X c = k) cs
      in cText e \<in> cText ` set group \<and> cSource e \<in> cSource ` set group
         \<and> cIsPersonal e = list_ex cIsPersonal group
         \<and> (cVideoID e = [] \<longleftrightarrow> list_all (\<lambda>c. cVideoID c = []) group)
         \<and> (cVideoID e \<noteq> [] \<longrightarrow> cVideoID e \<in> cVideoID ` set group))"

definition best_ok :: "ext \<Rightarrow> candidate list \<Rightarrow> (string \<times> scored_candidate) list \<Rightarrow> bool" where
  "best_ok X cs best \<longleftrightarrow> distinct (map fst best)
     \<and> fst ` set best = {key_of X c | c. c \<in> set cs \<and> key_of X c \<noteq> []}
     \<and> (\<forall>(k, sc) \<in> set best. stands_for X cs k (fst sc))"

lemma stands_for_other: "key_of X c \<noteq> k \<Longrightarrow> stands_for X (cs @ [c]) k e = stands_for X cs k e"
  by (simp add: stands_for_def)

lemma stands_for_first:
  assumes "\<And>c'. c' \<in> set cs \<Longrightarrow> key_of X c' \<noteq> key_of X c"
  shows "stands_for X (cs @ [c]) (key_of X c) c"
proof -
  have "filter (\<lambda>c'. key_of X c' = key_of X c) cs = []" using assms by (auto simp: filter_empty_conv)
  then show ?thesis by (simp add: stands_for_def Let_def)
qed

lemma stands_for_merge:
  assumes "stands_for X cs (key_of X c) (fst cur)"
  shows "stands_for X (cs @ [c]) (key_of X c) (fst (merge X (c, s) cur))"
  using assms unfolding stands_for_def Let_def merge_def inherit_def
  by (cases "better X (c, s) cur") (auto simp: list_ex_iff list_all_iff)

lemma dedupe_one_ok:
  assumes "best_ok X cs best"
  shows "best_ok X (cs @ [c]) (dedupe_one X mp w c best)"
proof (cases "key_of X c = []")
  case True
  have "stands_for X (cs @ [c]) k (fst sc)" if "(k, sc) \<in> set best" for k sc
  proof -
    have "k \<noteq> []" "stands_for X cs k (fst sc)" using assms that by (force simp: best_ok_def)+
    then show ?thesis using stands_for_other True by metis
  qed
  then show ?thesis using assms True by (auto simp: best_ok_def dedupe_one_def Let_def)
next
  case False
  define e where "e = (case map_of best (key_of X c) of None \<Rightarrow> (c, blendScore c mp w)
    | Some cur \<Rightarrow> merge X (c, blendScore c mp w) cur)"
  have d: "dedupe_one X mp w c best = AList.update (key_of X c) e best"
    using False by (simp add: dedupe_one_def e_def Let_def)
  have dist: "distinct (map fst best)" using assms by (simp add: best_ok_def)
  have new: "stands_for X (cs @ [c]) (key_of X c) (fst e)"
  proof (cases "map_of best (key_of X c)")
    case None
    then have "key_of X c \<notin> fst ` set best" by (simp add: map_of_eq_None_iff)
    then have "key_of X c' \<noteq> key_of X c" if "c' \<in> set cs" for c'
      using assms that False by (auto simp: best_ok_def)
    then show ?thesis using stands_for_first None by (simp add: e_def)
  next
    case (Some cur)
    then have "stands_for X cs (key_of X c) (fst cur)"
      using assms map_of_SomeD by (fastforce simp: best_ok_def)
    then show ?thesis using stands_for_merge Some by (simp add: e_def)
  qed
  have "stands_for X (cs @ [c]) k (fst sc)" if m: "(k, sc) \<in> set (AList.update (key_of X c) e best)" for k sc
  proof -
    have "map_of (AList.update (key_of X c) e best) k = Some sc"
      using m dist by (simp add: distinct_update)
    then have "k = key_of X c \<and> sc = e \<or> k \<noteq> key_of X c \<and> (k, sc) \<in> set best"
      by (auto simp: update_conv' map_of_SomeD split: if_split_asm)
    then show ?thesis using new assms stands_for_other by (fastforce simp: best_ok_def)
  qed
  then show ?thesis
    using assms False dist unfolding best_ok_def d by (auto simp: distinct_update dom_update)
qed

lemma dedupe_ok: "best_ok X cs (dedupe X mp w cs)"
proof -
  have "best_ok X (done @ cs) (fold (dedupe_one X mp w) cs best)" if "best_ok X done best" for "done" best
    using that
  proof (induction cs arbitrary: "done" best)
    case (Cons c cs)
    from Cons.IH [OF dedupe_one_ok [OF Cons.prems, where c = c and mp = mp and w = w]] show ?case by simp
  qed simp
  from this [of "[]" "[]"] show ?thesis by (simp add: dedupe_def best_ok_def)
qed

section \<open>What the slots keep\<close>

lemma length_evict [simp]: "length (evict cls x ys) = length ys"
  by (induction ys) auto

lemma evict_ex: "\<not> list_all cls ys \<Longrightarrow> x \<in> set (evict cls x ys)"
  by (induction ys) auto

lemma set_evict: "set (evict cls x ys) \<subseteq> insert x (set ys)"
  by (induction ys) auto

lemma distinct_evict: "distinct (map f ys) \<Longrightarrow> f x \<notin> f ` set ys \<Longrightarrow> distinct (map f (evict cls x ys))"
proof (induction ys)
  case (Cons y ys)
  then show ?case using set_evict [of cls x ys] by (auto simp: image_iff)
qed simp

lemma find_member: "find P xs = Some x \<Longrightarrow> x \<in> set xs \<and> P x"
  by (auto simp: find_Some_iff)

lemma length_ensure [simp]: "length (ensure cls rest picked) = length picked"
  by (simp add: ensure_def split: option.split)

lemma ensure_class: "picked \<noteq> [] \<Longrightarrow> list_ex cls rest \<Longrightarrow> list_ex cls (ensure cls rest picked)"
proof -
  assume ne: "picked \<noteq> []" and ex: "list_ex cls rest"
  obtain x where x: "find cls rest = Some x" "cls x"
    using ex by (cases "find cls rest") (auto simp: find_None_iff list_ex_iff find_Some_iff)
  show ?thesis
  proof (cases "list_ex cls picked")
    case False
    then have "\<not> list_all cls picked" using ne by (cases picked) (auto simp: list_ex_iff list_all_iff)
    then show ?thesis using False x evict_ex [of cls picked x] by (auto simp: ensure_def list_ex_iff)
  qed (simp add: ensure_def)
qed

lemma ensure_sub: "set (ensure cls rest picked) \<subseteq> set picked \<union> set rest"
  using set_evict by (auto simp: ensure_def find_Some_iff split: option.split dest!: set_evict [THEN subsetD])

lemma ensure_mset:
  assumes "distinct (map f (picked @ rest))"
  shows "distinct (map f (ensure cls rest picked))"
proof (cases "find cls rest")
  case (Some x)
  then have "x \<in> set rest" by (auto simp: find_Some_iff)
  then have "f x \<notin> f ` set picked" using assms by auto
  then show ?thesis using Some assms distinct_evict [of f picked x cls] by (simp add: ensure_def)
qed (use assms in \<open>simp add: ensure_def\<close>)

lemma reserveSlots_set: "set (reserveSlots X ranked n) \<subseteq> set ranked"
proof -
  have "set (ensure c2 (drop n ranked) (ensure c1 (drop n ranked) (take n ranked))) \<subseteq> set ranked" for c1 c2
    using ensure_sub [of c2 "drop n ranked" "ensure c1 (drop n ranked) (take n ranked)"]
      ensure_sub [of c1 "drop n ranked" "take n ranked"] set_take_subset [of n ranked] set_drop_subset [of n ranked] by blast
  then show ?thesis by (simp add: reserveSlots_def)
qed

lemma reserveSlots_length: "length (reserveSlots X ranked n) = min n (length ranked)"
  by (simp add: reserveSlots_def)

lemma reserveSlots_sorted:
  "sorted_wrt (\<lambda>a b. \<not> better X b a) ranked \<Longrightarrow> sorted_wrt (\<lambda>a b. \<not> better X b a) (reserveSlots X ranked n)"
  by (simp add: reserveSlots_def by_better.sorted_SliceStable)

text \<open>Two promotions never bring the same element in twice: the second is of another class.\<close>

lemma reserveSlots_distinct:
  assumes "distinct (map f ranked)"
  shows "distinct (map f (reserveSlots X ranked n))"
proof -
  let ?h = "of_source SourceHistory" and ?d = "of_source SourceDoc" and ?r = "drop n ranked" and ?p = "take n ranked"
  have pr: "distinct (map f (?p @ ?r))" using assms by simp
  have one: "distinct (map f (ensure ?h ?r ?p))" by (rule ensure_mset [OF pr])
  have two: "distinct (map f (ensure ?d ?r (ensure ?h ?r ?p)))"
  proof (cases "find ?d ?r")
    case None
    then show ?thesis using one by (simp add: ensure_def)
  next
    case (Some x)
    then have x: "x \<in> set ?r" "?d x" using find_member [of ?d ?r x] by simp_all
    have "f x \<notin> f ` set (ensure ?h ?r ?p)"
    proof
      assume "f x \<in> f ` set (ensure ?h ?r ?p)"
      then obtain y where y: "y \<in> set (ensure ?h ?r ?p)" "f y = f x" by auto
      have inj: "inj_on f (set ranked)" using assms by (simp add: distinct_map)
      have "y \<in> set ranked" using y(1) ensure_sub [of ?h ?r ?p] in_set_takeD in_set_dropD by fastforce
      then have "y = x" using inj y(2) x(1) in_set_dropD by (metis inj_onD)
      moreover have "x \<notin> set ?p"
      proof -
        have "distinct (?p @ ?r)" using assms by (simp add: distinct_map)
        then show ?thesis using x(1) by (simp only: distinct_append) blast
      qed
      moreover have "set (ensure ?h ?r ?p) \<subseteq> set ?p \<union> {z. ?h z}"
        by (auto simp: ensure_def find_Some_iff split: option.split dest!: set_evict [THEN subsetD])
      ultimately have "?h x" using y(1) by auto
      then show False using x(2) by (simp add: of_source_def)
    qed
    then show ?thesis using one Some distinct_evict [of f "ensure ?h ?r ?p" x ?d] by (simp add: ensure_def)
  qed
  show ?thesis using assms two by (simp add: reserveSlots_def)
qed

section \<open>The blend\<close>

text \<open>The entries in their final order.\<close>

definition blend_entries ::
  "ext \<Rightarrow> ((string \<times> scored_candidate) list \<Rightarrow> (string \<times> scored_candidate) list) \<Rightarrow> candidate list \<Rightarrow> blend_weights
     \<Rightarrow> scored_candidate list" where
  "blend_entries X iter cs w = SliceStable (better X) (map snd (iter (dedupe X (maxPop cs) w cs)))"

lemma Blend_entries:
  "0 < n \<Longrightarrow> Blend X iter cs n w = (if cs = [] then [] else map suggest_of (reserveSlots X (blend_entries X iter cs w) (nat n)))"
  by (simp add: Blend_def blend_entries_def)

lemma entry_stands_for:
  assumes "\<And>xs. mset (iter xs) = mset xs" "sc \<in> set (blend_entries X iter cs w)"
  shows "\<exists>k. k \<noteq> [] \<and> stands_for X cs k (fst sc)"
proof -
  have "set (iter (dedupe X (maxPop cs) w cs)) = set (dedupe X (maxPop cs) w cs)"
    using assms(1) by (metis set_mset_mset)
  then obtain k where k: "(k, sc) \<in> set (dedupe X (maxPop cs) w cs)"
    using assms(2) by (auto simp: blend_entries_def)
  have ok: "best_ok X cs (dedupe X (maxPop cs) w cs)" by (rule dedupe_ok)
  then have "k \<in> {key_of X c | c. c \<in> set cs \<and> key_of X c \<noteq> []}"
    unfolding best_ok_def using k by force
  then show ?thesis using ok k by (auto simp: best_ok_def)
qed

text \<open>The blend keeps what authorization needs: every suggestion shows the text of some candidate, and
  of the candidates that normalize to that text it carries the video id of one whenever one of them
  has an id - so a title can never be shown without the id that the gateway checks - and it is marked personal
  exactly when one of them is.\<close>

lemma blend_keeps_video_ids:
  assumes "\<And>xs. mset (iter xs) = mset xs" and "sg \<in> set (Blend X iter cs n w)"
  shows "\<exists>group. group = filter (\<lambda>c. normalize X (cText c) = normalize X (sText sg)) cs
    \<and> sText sg \<in> cText ` set group \<and> normalize X (sText sg) \<noteq> []
    \<and> (sVideoID sg = [] \<longleftrightarrow> list_all (\<lambda>c. cVideoID c = []) group)
    \<and> (sVideoID sg \<noteq> [] \<longrightarrow> sVideoID sg \<in> cVideoID ` set group)
    \<and> (sIsPersonal sg \<longleftrightarrow> list_ex cIsPersonal group)"
proof -
  have "0 < n" using assms(2) by (auto simp: Blend_def split: if_split_asm)
  then obtain sc where sc: "sc \<in> set (blend_entries X iter cs w)" "sg = suggest_of sc"
    using assms(2) reserveSlots_set [of X "blend_entries X iter cs w" "nat n"]
    by (auto simp: Blend_entries split: if_split_asm)
  obtain k where k: "k \<noteq> []" "stands_for X cs k (fst sc)" using entry_stands_for [OF assms(1) sc(1)] by blast
  then have "normalize X (sText sg) = k" by (auto simp: stands_for_def Let_def sc(2) suggest_of_def)
  then show ?thesis using k by (auto simp: stands_for_def Let_def sc(2) suggest_of_def)
qed

lemma blend_keeps_video_ids_witness:
  "\<exists>sg \<in> set (Blend sample_ext id [\<lparr> cText = ''cats'', cKind = KindVideo, cSource = SourceDoc, cVideoID = ''7'',
      cChannelHandle = [], cIsPersonal = False, cExactPrefix = True, cTrending = False, cPopularity = 1 \<rparr>] 5 DefaultWeights).
     sVideoID sg \<noteq> []"
proof -
  let ?c = "\<lparr> cText = ''cats'', cKind = KindVideo, cSource = SourceDoc, cVideoID = ''7'',
      cChannelHandle = [], cIsPersonal = False, cExactPrefix = True, cTrending = False, cPopularity = 1 \<rparr> :: candidate"
  let ?b = "Blend sample_ext id [?c] 5 DefaultWeights"
  have n: "normalize sample_ext ''cats'' = ''cats''" by code_simp
  have "length ?b = 1"
    by (simp add: Blend_def dedupe_def dedupe_one_def n Let_def reserveSlots_def)
  then obtain sg where sg: "sg \<in> set ?b" by (cases ?b) auto
  have "sText sg \<in> cText ` set (filter (\<lambda>c. normalize sample_ext (cText c) = normalize sample_ext (sText sg)) [?c])
     \<and> (sVideoID sg = [] \<longleftrightarrow> list_all (\<lambda>c. cVideoID c = []) (filter (\<lambda>c. normalize sample_ext (cText c) = normalize sample_ext (sText sg)) [?c]))"
    using blend_keeps_video_ids [of id sg sample_ext "[?c]" 5 DefaultWeights] sg by simp
  then have "sVideoID sg \<noteq> []" by (auto split: if_split_asm)
  then show ?thesis using sg by blast
qed

lemma entries_distinct:
  assumes "\<And>xs. mset (iter xs) = mset xs"
  shows "distinct (map (\<lambda>sc. key_of X (fst sc)) (blend_entries X iter cs w))"
proof -
  let ?d = "dedupe X (maxPop cs) w cs"
  have ok: "best_ok X cs ?d" by (rule dedupe_ok)
  have key: "key_of X (fst (snd e)) = fst e" if "e \<in> set ?d" for e
    using ok that by (force simp: best_ok_def stands_for_def Let_def)
  have "distinct (map fst (iter ?d)) = distinct (map fst ?d)"
    by (rule mset_eq_imp_distinct_iff) (simp add: assms)
  then have "distinct (map fst (iter ?d))" using ok by (simp add: best_ok_def)
  moreover have "set (iter ?d) = set ?d" using assms by (metis set_mset_mset)
  then have "map (\<lambda>sc. key_of X (fst sc)) (map snd (iter ?d)) = map fst (iter ?d)" using key by simp
  ultimately have "distinct (map (\<lambda>sc. key_of X (fst sc)) (map snd (iter ?d)))" by (simp only:)
  then show ?thesis unfolding blend_entries_def by simp
qed

lemma length_entries:
  assumes "\<And>xs. mset (iter xs) = mset xs"
  shows "length (blend_entries X iter cs w) = card {normalize X (cText c) | c. c \<in> set cs \<and> normalize X (cText c) \<noteq> []}"
proof -
  have ok: "best_ok X cs (dedupe X (maxPop cs) w cs)" by (rule dedupe_ok)
  have "length (blend_entries X iter cs w) = length (dedupe X (maxPop cs) w cs)"
    using assms by (simp add: blend_entries_def) (metis size_mset)
  also have "\<dots> = card (fst ` set (dedupe X (maxPop cs) w cs))"
    using ok distinct_card [of "map fst (dedupe X (maxPop cs) w cs)"] by (simp add: best_ok_def)
  finally show ?thesis using ok by (simp add: best_ok_def)
qed

text \<open>The shape of the answer: no two suggestions have the same normalized text, their number is the limit
  or the number of different texts that were proposed, whichever is less, and the answer is
  ordered - whatever the order in which the map was iterated.\<close>

theorem blend_shape:
  assumes "\<And>xs. mset (iter xs) = mset xs" and "0 < n" and "cs \<noteq> []"
  shows "distinct (map (\<lambda>sg. normalize X (sText sg)) (Blend X iter cs n w))
    \<and> length (Blend X iter cs n w)
        = min (nat n) (card {normalize X (cText c) | c. c \<in> set cs \<and> normalize X (cText c) \<noteq> []})
    \<and> sorted_wrt (\<lambda>a b. \<not> better X b a) (reserveSlots X (blend_entries X iter cs w) (nat n))"
proof -
  let ?e = "blend_entries X iter cs w"
  have b: "Blend X iter cs n w = map suggest_of (reserveSlots X ?e (nat n))" using assms by (simp add: Blend_entries)
  have "distinct (map (\<lambda>sc. key_of X (fst sc)) (reserveSlots X ?e (nat n)))"
    using entries_distinct [OF assms(1)] by (rule reserveSlots_distinct)
  then have "distinct (map (\<lambda>sg. normalize X (sText sg)) (Blend X iter cs n w))"
    by (simp add: b suggest_of_def comp_def)
  moreover have "sorted_wrt (\<lambda>a b. \<not> better X b a) (reserveSlots X ?e (nat n))"
    by (rule reserveSlots_sorted) (simp add: blend_entries_def by_better.sorted_SliceStable)
  ultimately show ?thesis by (simp add: b reserveSlots_length length_entries [OF assms(1)])
qed

lemma blend_shape_witness:
  "length (Blend sample_ext id [\<lparr> cText = ''cats'', cKind = KindQuery, cSource = SourceQuery, cVideoID = [],
      cChannelHandle = [], cIsPersonal = False, cExactPrefix = True, cTrending = False, cPopularity = 1 \<rparr>] 5 DefaultWeights) = 1"
proof -
  have "normalize sample_ext ''cats'' = ''cats''" by code_simp
  then show ?thesis by (subst conjunct1 [OF conjunct2 [OF blend_shape]]) simp_all
qed

lemma evict_last: "\<not> cls y \<Longrightarrow> evict cls x (ys @ [y]) = ys @ [x]"
  by (induction ys) (auto simp: list_all_iff)

text \<open>The reserved slots are not both kept: when the best \<open>n\<close> entries are all queries and both a history and
  a document suggestion wait behind them, the history suggestion is promoted into the last slot
  and then evicted from it by the document, so the answer has no history suggestion however
  large the limit is.\<close>

theorem history_slot_lost:
  assumes "0 < n" and "list_all (of_source SourceQuery) (take n ranked)" and "list_ex (of_source SourceDoc) (drop n ranked)"
    and "list_ex (of_source SourceHistory) (drop n ranked)"
  shows "\<not> list_ex (of_source SourceHistory) (reserveSlots X ranked n)
    \<and> list_ex (of_source SourceDoc) (reserveSlots X ranked n)"
proof -
  let ?h = "of_source SourceHistory" and ?d = "of_source SourceDoc" and ?q = "of_source SourceQuery"
  have long: "n < length ranked" using assms(3) by (cases "length ranked \<le> n") auto
  then have "take n ranked \<noteq> []" using assms(1) by auto
  then obtain ys y where top: "take n ranked = ys @ [y]" by (metis append_butlast_last_id)
  have q: "list_all ?q ys" "?q y" using assms(2) top by simp_all
  obtain h where h: "find ?h (drop n ranked) = Some h" "?h h"
    using assms(4) by (cases "find ?h (drop n ranked)") (auto simp: find_None_iff list_ex_iff dest: find_member)
  obtain d where d: "find ?d (drop n ranked) = Some d" "?d d"
    using assms(3) by (cases "find ?d (drop n ranked)") (auto simp: find_None_iff list_ex_iff dest: find_member)
  have noh: "\<not> list_ex ?h (ys @ [y])" "\<not> ?h y" and nod: "\<not> list_ex ?d ys" "\<not> ?d h" "\<not> ?h d"
    using q h d by (auto simp: list_ex_iff list_all_iff of_source_def)
  have 1: "ensure ?h (drop n ranked) (take n ranked) = ys @ [h]"
    using noh h(1) by (simp add: ensure_def top evict_last)
  have 2: "ensure ?d (drop n ranked) (ys @ [h]) = ys @ [d]"
    using nod d(1) by (simp add: ensure_def evict_last)
  show ?thesis using long noh nod d by (simp add: reserveSlots_def 1 2 list_ex_iff)
qed

definition sample_candidate :: "string \<Rightarrow> source \<Rightarrow> scored_candidate" where
  "sample_candidate t src = (\<lparr> cText = t, cKind = KindQuery, cSource = src, cVideoID = [], cChannelHandle = [],
     cIsPersonal = False, cExactPrefix = True, cTrending = False, cPopularity = 1 \<rparr>, 1)"

lemma history_slot_lost_witness:
  "\<not> list_ex (of_source SourceHistory) (reserveSlots sample_ext
     [sample_candidate ''a'' SourceQuery, sample_candidate ''b'' SourceQuery, sample_candidate ''c'' SourceHistory,
      sample_candidate ''d'' SourceDoc] 2)"
  using history_slot_lost [of 2 "[sample_candidate ''a'' SourceQuery, sample_candidate ''b'' SourceQuery,
    sample_candidate ''c'' SourceHistory, sample_candidate ''d'' SourceDoc]" sample_ext]
  by (simp add: sample_candidate_def of_source_def)

text \<open>The order is determined by the candidates: where no two entries of different texts have the
  same lower-case text, the answer does not depend on the iteration order of the map.\<close>

theorem blend_deterministic:
  assumes "\<And>xs. mset (iter xs) = mset xs" and "\<And>xs. mset (iter2 xs) = mset xs"
    and "\<forall>c \<in> set cs. \<forall>c' \<in> set cs. to_lower X (cText c) = to_lower X (cText c') \<longrightarrow>
      normalize X (cText c) = normalize X (cText c')"
  shows "Blend X iter cs n w = Blend X iter2 cs n w"
proof -
  let ?d = "dedupe X (maxPop cs) w cs"
  have ok: "best_ok X cs ?d" by (rule dedupe_ok)
  have same: "a = b" if m: "a \<in> set (map snd (iter ?d))" "b \<in> set (map snd (iter ?d))"
    and nb: "\<not> better X a b" "\<not> better X b a" for a b
  proof -
    have sets: "set (iter ?d) = set ?d" using assms(1) by (metis set_mset_mset)
    obtain ka kb where k: "(ka, a) \<in> set ?d" "(kb, b) \<in> set ?d" using m sets by auto
    then have st: "stands_for X cs ka (fst a)" "stands_for X cs kb (fst b)" using ok by (auto simp: best_ok_def)
    then obtain ca cb where c: "ca \<in> set cs" "cb \<in> set cs" "cText (fst a) = cText ca" "cText (fst b) = cText cb"
      "key_of X ca = ka" "key_of X cb = kb"
      by (auto simp: stands_for_def Let_def)
    have "to_lower X (cText (fst a)) = to_lower X (cText (fst b))"
      using nb by (auto simp: better_def split: if_split_asm)
    then have "ka = kb" using assms(3) c by metis
    then show ?thesis using k ok by (auto simp: best_ok_def) (metis eq_key_imp_eq_value)
  qed
  have "SliceStable (better X) (map snd (iter ?d)) = SliceStable (better X) (map snd (iter2 ?d))"
    using same by (intro by_better.SliceStable_perm) (simp_all add: assms(1,2))
  then show ?thesis by (simp add: Blend_def)
qed

lemma blend_deterministic_witness:
  "Blend sample_ext id [fst (sample_candidate ''cats'' SourceQuery), fst (sample_candidate ''dogs'' SourceQuery)] 5 DefaultWeights
   = Blend sample_ext rev [fst (sample_candidate ''cats'' SourceQuery), fst (sample_candidate ''dogs'' SourceQuery)] 5 DefaultWeights"
proof -
  have "to_lower sample_ext ''cats'' \<noteq> to_lower sample_ext ''dogs''" by code_simp
  then show ?thesis by (intro blend_deterministic) (auto simp: sample_candidate_def)
qed

end
