(* ===== verification/TextSearch.thy ===== *)
theory TextSearch
  imports Statements SuggestBlend
begin

text \<open>
  What the read statements use of PostgreSQL beyond the relational part: \<open>lower\<close>, \<open>LIKE\<close>,
  the trigram functions of \<open>pg_trgm\<close> and the full text search of a document. Trigrams and text search are
  parameters (\<open>pg\<close>); so is \<open>lower\<close>, which depends on the locale of the database. Text is compared byte by byte.
\<close>

section \<open>Parameters\<close>

text \<open>\<open>pg_similar\<close> is the operator \<open>%\<close>. \<open>pg_ts_match\<close> and \<open>pg_ts_rank\<close> are \<open>tsv @@ websearch_to_tsquery('simple', q)\<close>
  and \<open>ts_rank_cd\<close> of it for the generated column \<open>tsv\<close> of the four texts it is made of.\<close>

record pg =
  pg_lower :: "string \<Rightarrow> string"
  pg_similarity :: "string \<Rightarrow> string \<Rightarrow> real"
  pg_similar :: "string \<Rightarrow> string \<Rightarrow> bool"
  pg_ts_match :: "string list \<Rightarrow> string \<Rightarrow> bool"
  pg_ts_rank :: "string list \<Rightarrow> string \<Rightarrow> real"

text \<open>An instance for the witnesses: equal texts match.\<close>

definition sample_pg :: pg where
  "sample_pg = \<lparr> pg_lower = ascii_lower, pg_similarity = (\<lambda>a b. if a = b then 1 else 0), pg_similar = (=),
     pg_ts_match = (\<lambda>ts q. q \<in> set (map ascii_lower ts)), pg_ts_rank = (\<lambda>ts q. if q \<in> set (map ascii_lower ts) then 1 else 0) \<rparr>"

function take_runes :: "nat \<Rightarrow> string \<Rightarrow> string" where
  "take_runes 0 s = []"
| "take_runes (Suc n) [] = []"
| "take_runes (Suc n) (c # s) = take (rune_width (c # s)) (c # s) @ take_runes n (drop (rune_width (c # s)) (c # s))"
  by pat_completeness auto
termination by (relation "measure fst") auto

text \<open>\<open>array_to_string(tags, ' ')\<close> leaves NULL out.\<close>

definition tags_to_text :: "string option list \<Rightarrow> string" where
  "tags_to_text ts = Join (List.map_filter id ts) '' ''"

text \<open>The generated column \<open>tsv\<close>, by the texts it indexes.\<close>

definition tsv_texts :: "document \<Rightarrow> string list" where
  "tsv_texts d = [d_title d, tags_to_text (d_tags d), (case d_channel_name d of None \<Rightarrow> [] | Some n \<Rightarrow> n),
     take_runes 2000 (d_description d)]"

section \<open>\<open>LIKE\<close>\<close>

text \<open>A pattern that ends in its escape character is an error in PostgreSQL; no pattern the code builds does.\<close>

function like :: "string \<Rightarrow> string \<Rightarrow> bool" where
  "like [] s = (s = [])"
| "like (p # ps) s =
     (if p = CHR ''%'' then like ps s \<or> (case s of [] \<Rightarrow> False | c # s' \<Rightarrow> like (p # ps) s')
      else if p = CHR ''_'' then s \<noteq> [] \<and> like ps (drop (rune_width s) s)
      else if p = CHR 0x5C then (case (ps, s) of (q # qs, c # s') \<Rightarrow> c = q \<and> like qs s' | _ \<Rightarrow> False)
      else (case s of [] \<Rightarrow> False | c # s' \<Rightarrow> c = p \<and> like ps s'))"
  by pat_completeness auto
termination
  by (relation "measures [\<lambda>(p, s). length p + length s]") auto

section \<open>Helpers of the read statements\<close>

text \<open>The static visibility every read applies.\<close>

definition visible :: "bool \<Rightarrow> document \<Rightarrow> bool" where
  "visible hs d \<longleftrightarrow> d_eligible d \<and> (\<not> hs \<or> \<not> d_is_sensitive d)"

primrec distinct_on :: "('a \<Rightarrow> 'b) \<Rightarrow> 'a list \<Rightarrow> 'a list" where
  "distinct_on f [] = []"
| "distinct_on f (x # xs) = x # filter (\<lambda>y. f y \<noteq> f x) (distinct_on f xs)"

text \<open>\<open>published_at DESC NULLS LAST\<close>.\<close>

definition newer :: "int option \<Rightarrow> int option \<Rightarrow> bool" where
  "newer a b = (case a of None \<Rightarrow> False | Some x \<Rightarrow> (case b of None \<Rightarrow> True | Some y \<Rightarrow> x > y))"

definition first_rows :: "int \<Rightarrow> 'a list \<Rightarrow> sql_error + 'a list" where
  "first_rows lmt xs = page_of lmt 0 xs"

definition map_rows :: "('a \<Rightarrow> 'b) \<Rightarrow> sql_error + 'a list \<Rightarrow> sql_error + 'b list" where
  "map_rows f r = (case r of Inl e \<Rightarrow> Inl e | Inr xs \<Rightarrow> Inr (map f xs))"

lemma first_rows_set: "first_rows n xs = Inr ys \<Longrightarrow> y \<in> set ys \<Longrightarrow> y \<in> set xs"
  by (auto simp: first_rows_def page_of_def split: if_split_asm dest: in_set_takeD)

lemma set_distinct_on: "set (distinct_on f xs) \<subseteq> set xs"
  by (induction xs) auto

lemma distinct_on_keys: "distinct (map f (distinct_on f xs)) \<and> f ` set (distinct_on f xs) = f ` set xs"
proof (induction xs)
  case (Cons x xs)
  have "f ` set (filter (\<lambda>y. f y \<noteq> f x) (distinct_on f xs)) = f ` set (distinct_on f xs) - {f x}" by auto
  then show ?case using Cons by (auto simp: distinct_map_filter simp del: set_filter)
qed simp

text \<open>A document for the witnesses.\<close>

definition titled :: "uuid \<Rightarrow> string \<Rightarrow> document" where
  "titled i t = \<lparr> d_video_id = i, d_kind = ''local'', d_channel_id = None, d_channel_handle = None, d_channel_name = None,
     d_owner_id = None, d_title = t, d_description = [], d_tags = [], d_category = None, d_language = None, d_license = None,
     d_duration_seconds = None, d_is_sensitive = False, d_eligible = True, d_suppressed_reason = None, d_views = 1,
     d_likes = 0, d_published_at = None, d_source_updated_at = 0, d_indexed_at = 0, d_reconcile_run_id = None \<rparr>"

end
