(* ===== verification/Ranking.thy ===== *)
theory Ranking
  imports Prelude "HOL-Library.List_Lexorder" "HOL-Library.Char_ord"
begin

text \<open>
  \<open>internal/ranking\<close>: the score of a search result (\<open>simple.go\<close>), the co-visitation formula
  (\<open>covis.go\<close>) and the reranker of the advanced mode (\<open>advanced.go\<close>). Scores are reals, so \<open>math.Log\<close> is the
  real logarithm: that is the code's where the argument is positive, for view counts above -1. The intake does not check the counts of a
  \<open>video.stats\<close> event. At -1 the code's logarithm is minus infinity, and below it NaN, with which its comparison is no order;
  what \<open>SimpleScore\<close>, \<open>scoreWith\<close> and the feature vector say of such a row is not the code's: \<open>views_ok\<close> names the rows they are about.
\<close>

section \<open>The simple score\<close>

definition SimpleWTextRank :: real where "SimpleWTextRank = 5 / 10"
definition SimpleWTrgm :: real where "SimpleWTrgm = 2 / 10"
definition SimpleWExact :: real where "SimpleWExact = 1 / 10"
definition SimpleWViews :: real where "SimpleWViews = 1 / 10"
definition SimpleWFresh :: real where "SimpleWFresh = 1 / 10"
definition SimpleFreshnessHalfLifeDays :: real where "SimpleFreshnessHalfLifeDays = 30"
definition SimpleViewsLogDivisor :: real where "SimpleViewsLogDivisor = 20"

definition SimpleScore :: "real \<Rightarrow> real \<Rightarrow> real \<Rightarrow> real \<Rightarrow> real \<Rightarrow> real" where
  "SimpleScore tsRank trgmSim exactFlags views ageDays =
     SimpleWTextRank * tsRank + SimpleWTrgm * trgmSim + SimpleWExact * exactFlags
     + SimpleWViews * (ln (1 + views) / SimpleViewsLogDivisor)
     + SimpleWFresh * exp (- ln 2 * ageDays / SimpleFreshnessHalfLifeDays)"

section \<open>Co-visitation scores\<close>

definition CovisBlendCoWatch :: real where "CovisBlendCoWatch = 7 / 10"
definition CovisBlendCoSearch :: real where "CovisBlendCoSearch = 3 / 10"

definition CovisShrunkCosine :: "real \<Rightarrow> real \<Rightarrow> real \<Rightarrow> real \<Rightarrow> real" where
  "CovisShrunkCosine cooc totI totJ lam =
     (if cooc \<le> 0 \<or> totI \<le> 0 \<or> totJ \<le> 0 then 0
      else (let raw = cooc / sqrt (totI * totJ) in raw * (cooc / (cooc + lam))))"

definition CovisBlend :: "real \<Rightarrow> real \<Rightarrow> real" where
  "CovisBlend coWatchCosine coSearchCosine =
     CovisBlendCoWatch * coWatchCosine + CovisBlendCoSearch * coSearchCosine"

definition CovisBlendFloored :: "real \<Rightarrow> real \<Rightarrow> int \<Rightarrow> int \<Rightarrow> int \<Rightarrow> real" where
  "CovisBlendFloored coWatchCosine coSearchCosine coWatchSubjects coSearchSubjects minSubjects =
     (let coWatchCosine = (if coWatchSubjects < minSubjects then 0 else coWatchCosine);
          coSearchCosine = (if coSearchSubjects < minSubjects then 0 else coSearchCosine)
      in CovisBlend coWatchCosine coSearchCosine)"

section \<open>The advanced reranker\<close>

record weights =
  CTR :: real
  MeaningfulRate :: real
  Affinity :: real
  ChannelW :: real
  SessionW :: real
  LanguageW :: real
  CreatorPenalty :: real

definition DefaultAdvancedWeights :: weights where
  "DefaultAdvancedWeights = \<lparr> CTR = 30 / 100, MeaningfulRate = 20 / 100, Affinity = 50 / 100, ChannelW = 30 / 100,
     SessionW = 25 / 100, LanguageW = 10 / 100, CreatorPenalty = 15 / 100 \<rparr>"

definition ctrAlpha :: real where "ctrAlpha = 1"
definition ctrBeta :: real where "ctrBeta = 9"
definition mwBeta :: real where "mwBeta = 5"

record feats =
  TextRank :: real
  TrgmSim :: real
  ExactFlags :: real
  Views :: real
  Age :: real
  Impressions :: real
  Clicks :: real
  MeaningfulWatches :: real
  PersonalAffinity :: real
  ChannelAffinity :: real
  SessionIntent :: real
  LanguageMatch :: bool

record doc =
  VideoID :: string
  ChannelID :: string
  Feats :: feats

definition CTRPrior :: real where
  "CTRPrior = ctrAlpha / (ctrAlpha + ctrBeta)"

definition SmoothedCTR :: "real \<Rightarrow> real \<Rightarrow> real" where
  "SmoothedCTR clicks impressions = (clicks + ctrAlpha) / (impressions + ctrAlpha + ctrBeta)"

definition meaningfulRate :: "real \<Rightarrow> real \<Rightarrow> real" where
  "meaningfulRate meaningful clicks = (if meaningful \<le> 0 then 0 else meaningful / (clicks + mwBeta))"

definition baseScore :: "feats \<Rightarrow> real" where
  "baseScore f = SimpleScore (TextRank f) (TrgmSim f) (ExactFlags f) (Views f) (Age f)"

definition scoreWith :: "weights \<Rightarrow> feats \<Rightarrow> real" where
  "scoreWith w f = baseScore f + CTR w * (SmoothedCTR (Clicks f) (Impressions f) - CTRPrior)
     + MeaningfulRate w * meaningfulRate (MeaningfulWatches f) (Clicks f)
     + Affinity w * PersonalAffinity f + ChannelW w * ChannelAffinity f + SessionW w * SessionIntent f
     + (if LanguageMatch f then LanguageW w else 0)"

definition max_of :: "real list \<Rightarrow> real" where
  "max_of xs = foldl max 0 xs"

definition norm_to :: "real \<Rightarrow> real \<Rightarrow> real" where
  "norm_to v m = (if m > 0 then v / m else 0)"

definition normalize_feats :: "doc list \<Rightarrow> feats \<Rightarrow> feats" where
  "normalize_feats docs f =
     f\<lparr> PersonalAffinity := norm_to (PersonalAffinity f) (max_of (map (PersonalAffinity \<circ> Feats) docs)),
        ChannelAffinity := norm_to (ChannelAffinity f) (max_of (map (ChannelAffinity \<circ> Feats) docs)),
        SessionIntent := norm_to (SessionIntent f) (max_of (map (SessionIntent \<circ> Feats) docs)) \<rparr>"

type_synonym scored = "doc \<times> real"

definition scored_before :: "scored \<Rightarrow> scored \<Rightarrow> bool" where
  "scored_before a b = (if snd a \<noteq> snd b then snd a > snd b else VideoID (fst a) < VideoID (fst b))"

text \<open>The loop of the creator penalty; \<open>seen\<close> counts the results of each channel so far.\<close>

fun penalize :: "real \<Rightarrow> (string \<Rightarrow> nat) \<Rightarrow> scored list \<Rightarrow> scored list" where
  "penalize p seen [] = []"
| "penalize p seen ((d, s) # xs) =
     (if ChannelID d = [] then (d, s) # penalize p seen xs
      else (let n = seen (ChannelID d) + 1
            in (d, if n > 2 then s - p * real (n - 2) else s) # penalize p (seen(ChannelID d := n)) xs))"

definition RerankWith :: "(feats \<Rightarrow> real) \<Rightarrow> real \<Rightarrow> doc list \<Rightarrow> (string \<times> real) list" where
  "RerankWith scorer creatorPenalty docs =
     (let items = map (\<lambda>d. (d, scorer (normalize_feats docs (Feats d)))) docs;
          items = SliceStable scored_before items;
          items = (if creatorPenalty > 0 then SliceStable scored_before (penalize creatorPenalty (\<lambda>c. 0) items) else items)
      in map (\<lambda>(d, s). (VideoID d, s)) items)"

definition Rerank :: "doc list \<Rightarrow> weights \<Rightarrow> (string \<times> real) list" where
  "Rerank docs w = RerankWith (scoreWith w) (CreatorPenalty w) docs"

definition ModelFeatureVector :: "feats \<Rightarrow> real list" where
  "ModelFeatureVector f = [TextRank f, TrgmSim f, ExactFlags f, ln (1 + Views f), Age f,
     SmoothedCTR (Clicks f) (Impressions f), meaningfulRate (MeaningfulWatches f) (Clicks f),
     if LanguageMatch f then 1 else 0]"

section \<open>The order of the results\<close>

interpretation by_score: strict_weak_order scored_before
  by unfold_locales (auto simp: scored_before_def split: if_split_asm)

lemma map_fst_penalize [simp]: "map fst (penalize p seen xs) = map fst xs"
  by (induction xs arbitrary: seen) (auto simp: Let_def simp del: fun_upd_apply)

lemma image_mset_penalize [simp]: "image_mset fst (mset (penalize p seen xs)) = image_mset fst (mset xs)"
  by (metis map_fst_penalize mset_map)

lemma distinct_scored:
  assumes "distinct (map (VideoID \<circ> fst) xs)" "a \<in> set xs" "b \<in> set xs" "\<not> scored_before a b" "\<not> scored_before b a"
  shows "a = b"
proof -
  have "(VideoID \<circ> fst) a = (VideoID \<circ> fst) b"
    using assms(4,5) by (auto simp: scored_before_def split: if_split_asm)
  moreover have "inj_on (VideoID \<circ> fst) (set xs)" using assms(1) by (simp add: distinct_map)
  ultimately show ?thesis using assms(2,3) by (meson inj_onD)
qed

lemma max_of_Max: "max_of xs = Max (set (0 # xs))"
proof -
  have "foldl max m xs = fold max xs m" for m :: real
    by (induction xs arbitrary: m) (simp_all add: max.commute)
  then show ?thesis unfolding max_of_def Max.set_eq_fold by simp
qed

lemma max_of_perm: "mset xs = mset ys \<Longrightarrow> max_of xs = max_of ys"
  by (simp add: max_of_Max del: Max_insert) (metis set_mset_mset)

lemma normalize_feats_perm:
  assumes "mset docs = mset docs'"
  shows "normalize_feats docs = normalize_feats docs'"
proof -
  have "max_of (map f docs) = max_of (map f docs')" for f
    by (rule max_of_perm) (simp add: assms)
  then show ?thesis by (simp add: normalize_feats_def fun_eq_iff)
qed

text \<open>Every count is one whose logarithm the code computes.\<close>

definition views_ok :: "doc list \<Rightarrow> bool" where
  "views_ok docs = list_all (\<lambda>d. -1 < Views (Feats d)) docs"

text \<open>C27. Among candidates whose view counts are above -1, for which every score is a number, reranking is a function of the set
  of candidates: every candidate comes out exactly once, best score first with ties by id, and the order in which recall delivered
  them does not matter.\<close>

theorem rerank_order_independent:
  assumes "mset docs = mset docs'" and "distinct (map VideoID docs)" and "views_ok docs"
  shows "RerankWith scorer p docs = RerankWith scorer p docs'
    \<and> mset (map fst (RerankWith scorer p docs)) = mset (map VideoID docs)
    \<and> sorted_wrt (\<lambda>a b. snd a > snd b \<or> (snd a = snd b \<and> fst a \<le> fst b)) (RerankWith scorer p docs)"
proof -
  define g where "g = (\<lambda>d :: doc. (d, scorer (normalize_feats docs (Feats d))))"
  let ?s = "SliceStable scored_before (map g docs)"
  let ?out = "if p > 0 then SliceStable scored_before (penalize p (\<lambda>c. 0) ?s) else ?s"
  have r: "RerankWith scorer p docs = map (\<lambda>(d, s). (VideoID d, s)) ?out"
    by (simp add: RerankWith_def g_def Let_def)
  have dist: "distinct (map (VideoID \<circ> fst) (map g docs))" using assms(2) by (simp add: g_def comp_def)
  have "SliceStable scored_before (map g docs) = SliceStable scored_before (map g docs')"
    using distinct_scored [OF dist] assms(1) by (intro by_score.SliceStable_perm) auto
  then have same: "RerankWith scorer p docs' = map (\<lambda>(d, s). (VideoID d, s)) ?out"
    by (simp add: RerankWith_def g_def Let_def normalize_feats_perm [OF assms(1)])
  have ids: "mset (map fst ?out) = mset (map fst ?s)"
    by simp
  have "mset (map fst (RerankWith scorer p docs)) = image_mset VideoID (mset (map fst ?out))"
    unfolding r by (simp add: image_mset.compositionality comp_def split_beta)
  also have "\<dots> = mset (map VideoID docs)"
    unfolding ids by (simp add: image_mset.compositionality comp_def g_def)
  finally have ids: "mset (map fst (RerankWith scorer p docs)) = mset (map VideoID docs)" .
  have "sorted_wrt (\<lambda>a b. \<not> scored_before b a) ?out"
    using by_score.sorted_SliceStable by simp
  then have "sorted_wrt (\<lambda>a b. snd a > snd b \<or> (snd a = snd b \<and> VideoID (fst a) \<le> VideoID (fst b))) ?out"
    by (rule sorted_wrt_mono_rel [rotated]) (auto simp: scored_before_def split: if_split_asm)
  then have "sorted_wrt (\<lambda>a b. snd a > snd b \<or> (snd a = snd b \<and> fst a \<le> fst b)) (RerankWith scorer p docs)"
    unfolding r by (simp add: sorted_wrt_map split_beta)
  with r same ids show ?thesis by simp
qed

section \<open>The anonymous baseline\<close>

text \<open>No engagement, no personal signal, no language match.\<close>

definition plain_feats :: "feats \<Rightarrow> bool" where
  "plain_feats f \<longleftrightarrow> Impressions f = 0 \<and> Clicks f = 0 \<and> MeaningfulWatches f = 0 \<and> PersonalAffinity f = 0
     \<and> ChannelAffinity f = 0 \<and> SessionIntent f = 0 \<and> \<not> LanguageMatch f"

definition simple_order :: "doc list \<Rightarrow> (string \<times> real) list" where
  "simple_order docs = map (\<lambda>(d, s). (VideoID d, s))
     (SliceStable scored_before (map (\<lambda>d. (d, baseScore (Feats d))) docs))"

lemma normalize_plain: "plain_feats f \<Longrightarrow> normalize_feats docs f = f"
  by (simp add: normalize_feats_def norm_to_def plain_feats_def)

lemma scoreWith_plain: "plain_feats f \<Longrightarrow> scoreWith w f = baseScore f"
  by (simp add: scoreWith_def plain_feats_def SmoothedCTR_def CTRPrior_def meaningfulRate_def)

lemma penalize_id:
  "(\<And>c. c \<noteq> [] \<Longrightarrow> seen c + length (filter (\<lambda>x. ChannelID (fst x) = c) xs) \<le> 2) \<Longrightarrow> penalize p seen xs = xs"
proof (induction xs arbitrary: seen)
  case (Cons x xs)
  obtain d s where x: "x = (d, s)" by fastforce
  show ?case
  proof (cases "ChannelID d = []")
    case True
    have "penalize p seen xs = xs"
    proof (rule Cons.IH)
      fix c :: string assume "c \<noteq> []"
      then show "seen c + length (filter (\<lambda>x. ChannelID (fst x) = c) xs) \<le> 2"
        using Cons.prems [of c] True x by (auto split: if_split_asm)
    qed
    then show ?thesis using True by (simp add: x)
  next
    case False
    have "penalize p (seen(ChannelID d := seen (ChannelID d) + 1)) xs = xs"
    proof (rule Cons.IH)
      fix c :: string assume "c \<noteq> []"
      then show "(seen(ChannelID d := seen (ChannelID d) + 1)) c + length (filter (\<lambda>x. ChannelID (fst x) = c) xs) \<le> 2"
        using Cons.prems [of c] x by (auto split: if_split_asm)
    qed
    moreover have "seen (ChannelID d) + 1 \<le> 2" using Cons.prems [OF False] by (simp add: x)
    ultimately show ?thesis using False by (simp add: x Let_def)
  qed
qed simp

lemma length_filter_SliceStable: "length (filter P (SliceStable lt xs)) = length (filter P xs)"
proof -
  have "mset (filter P (SliceStable lt xs)) = mset (filter P xs)" by (simp only: mset_filter mset_SliceStable)
  then show ?thesis by (rule mset_eq_length)
qed

lemma RerankWith_plain:
  assumes "\<forall>d \<in> set docs. plain_feats (Feats d)"
    and "\<forall>c. c \<noteq> [] \<longrightarrow> length (filter (\<lambda>d. ChannelID d = c) docs) \<le> 2"
  shows "Rerank docs w = simple_order docs"
proof -
  let ?s = "SliceStable scored_before (map (\<lambda>d. (d, baseScore (Feats d))) docs)"
  have m: "map (\<lambda>d. (d, scoreWith w (normalize_feats docs (Feats d)))) docs = map (\<lambda>d. (d, baseScore (Feats d))) docs"
    using assms(1) by (simp add: normalize_plain scoreWith_plain)
  have "penalize (CreatorPenalty w) (\<lambda>c. 0) ?s = ?s"
  proof (rule penalize_id)
    fix c :: string assume c: "c \<noteq> []"
    have "length (filter (\<lambda>x. ChannelID (fst x) = c) ?s) = length (filter (\<lambda>d. ChannelID d = c) docs)"
      by (simp add: length_filter_SliceStable filter_map comp_def)
    then show "0 + length (filter (\<lambda>x. ChannelID (fst x) = c) ?s) \<le> 2" using assms(2) c by simp
  qed
  then show ?thesis
    by (simp add: Rerank_def RerankWith_def m simple_order_def Let_def by_score.SliceStable_idem)
qed

text \<open>The baseline: without engagement, personal signals and a language match - and with at most two
  results of a channel - the advanced order and its scores are those of the simple ranker,
  whatever the weights are.\<close>

theorem advanced_baseline_is_simple:
  assumes "\<forall>d \<in> set docs. plain_feats (Feats d)"
    and "\<forall>c. c \<noteq> [] \<longrightarrow> length (filter (\<lambda>d. ChannelID d = c) docs) \<le> 2"
  shows "Rerank docs w = simple_order docs"
  by (rule RerankWith_plain [OF assms])

definition sample_doc :: "string \<Rightarrow> string \<Rightarrow> real \<Rightarrow> doc" where
  "sample_doc i ch rank = \<lparr> VideoID = i, ChannelID = ch, Feats = \<lparr> TextRank = rank, TrgmSim = 0, ExactFlags = 0, Views = 0,
     Age = 0, Impressions = 0, Clicks = 0, MeaningfulWatches = 0, PersonalAffinity = 0, ChannelAffinity = 0,
     SessionIntent = 0, LanguageMatch = False \<rparr> \<rparr>"

lemma sample_doc_simps [simp]:
  "VideoID (sample_doc i ch rank) = i" "ChannelID (sample_doc i ch rank) = ch" "plain_feats (Feats (sample_doc i ch rank))"
  "baseScore (Feats (sample_doc i ch rank)) = rank / 2 + 1 / 10"
  by (simp_all add: sample_doc_def plain_feats_def baseScore_def SimpleScore_def SimpleWTextRank_def SimpleWTrgm_def
      SimpleWExact_def SimpleWViews_def SimpleWFresh_def)

lemma advanced_baseline_is_simple_witness:
  "Rerank [sample_doc ''b'' ''c'' 7, sample_doc ''a'' ''c'' 9] DefaultAdvancedWeights
   = simple_order [sample_doc ''b'' ''c'' 7, sample_doc ''a'' ''c'' 9]"
  by (rule advanced_baseline_is_simple) auto

definition one_channel :: "doc list" where
  "one_channel = [sample_doc ''a'' ''c'' 10, sample_doc ''b'' ''c'' 9, sample_doc ''c'' ''c'' 8, sample_doc ''d'' ''x'' (79 / 10)]"

text \<open>With three results of one channel the baseline is another order: the creator penalty applies to
  anonymous requests as well, and moves the third result of a channel behind one of a lower
  simple score.\<close>

theorem creator_penalty_reorders_baseline:
  "map fst (simple_order one_channel) = [''a'', ''b'', ''c'', ''d'']
   \<and> map fst (Rerank one_channel DefaultAdvancedWeights) = [''a'', ''b'', ''d'', ''c'']
   \<and> list_all (\<lambda>d. plain_feats (Feats d)) one_channel"
  by (simp add: one_channel_def simple_order_def SliceStable_def scored_before_def Rerank_def RerankWith_def Let_def
      normalize_plain scoreWith_plain DefaultAdvancedWeights_def)

lemma rerank_order_independent_witness:
  "RerankWith baseScore 0 one_channel = RerankWith baseScore 0 (rev one_channel)"
  using rerank_order_independent [of one_channel "rev one_channel" baseScore 0] by (simp add: one_channel_def views_ok_def sample_doc_def)

end
