(* ===== verification/Covis.thy ===== *)
theory Covis
  imports WorkerBase Ranking
begin

text \<open>
  The co-visitation job (\<open>covisRollup\<close> of \<open>worker.go\<close>) and \<open>queries/covisitation.sql\<close>: the rebuild of
  the neighbor index out of the retained ledger, one definition per common table expression, and the
  reads of the index. Scores are reals; the rounding to \<open>real\<close> is not modelled.
\<close>

section \<open>Pairs\<close>

definition event_subject :: "behavior_row \<Rightarrow> string option" where
  "event_subject r = (if be_user_id r = None
     then (case jfield_text ''subject_id'' (be_props r) of None \<Rightarrow> be_session_id r | Some x \<Rightarrow> Some x) else None)"

definition watch_ev :: "db \<Rightarrow> behavior_row list" where
  "watch_ev s = filter (\<lambda>r. be_type r \<in> {''video.play_started'', ''video.meaningful_watch''}
     \<and> be_session_id r \<noteq> None \<and> be_video_id r \<noteq> None) (behavior_events s)"

definition search_ev :: "db \<Rightarrow> behavior_row list" where
  "search_ev s = filter (\<lambda>r. be_type r = ''search.result_clicked'' \<and> be_session_id r \<noteq> None
     \<and> be_video_id r \<noteq> None \<and> be_normalized_query r \<noteq> None) (behavior_events s)"

text \<open>The join of a later event \<open>n\<close> with the earlier ones \<open>p\<close>.\<close>

definition pairs_with :: "behavior_row \<Rightarrow> behavior_row \<Rightarrow> real \<Rightarrow> bool" where
  "pairs_with n p window \<longleftrightarrow> be_session_id p = be_session_id n \<and> be_id p < be_id n \<and> be_video_id p \<noteq> be_video_id n
     \<and> \<bar>real_of_int (be_occurred_at n - be_occurred_at p) / real_of_int nanos\<bar> \<le> window"

definition watch_join :: "real \<Rightarrow> db \<Rightarrow> (behavior_row \<times> behavior_row) list" where
  "watch_join window s = filter (\<lambda>(n, p). pairs_with n p window) (List.product (watch_ev s) (watch_ev s))"

definition search_join :: "real \<Rightarrow> db \<Rightarrow> (behavior_row \<times> behavior_row) list" where
  "search_join window s = filter (\<lambda>(n, p). pairs_with n p window \<and> be_normalized_query p = be_normalized_query n)
     (List.product (search_ev s) (search_ev s))"

definition video_of :: "behavior_row \<Rightarrow> uuid" where
  "video_of r = the (be_video_id r)"

definition pair_key :: "behavior_row \<times> behavior_row \<Rightarrow> uuid \<times> uuid" where
  "pair_key np = (min (video_of (fst np)) (video_of (snd np)), max (video_of (fst np)) (video_of (snd np)))"

record pair_row =
  pwA :: uuid
  pwB :: uuid
  pwC :: real
  pwSubjects :: int

definition group_pairs :: "(behavior_row \<times> behavior_row) list \<Rightarrow> pair_row list" where
  "group_pairs P = map (\<lambda>k. let anchors = map fst (filter (\<lambda>np. pair_key np = k) P) in
       \<lparr> pwA = fst k, pwB = snd k, pwC = real (length anchors),
         pwSubjects = count_distinct (map be_user_id anchors) + count_distinct (map event_subject anchors) \<rparr>)
     (remdups (map pair_key P))"

section \<open>Edges\<close>

text \<open>\<open>UNION ALL\<close> of both directions; \<open>cw_mass\<close>, \<open>cw\<close> and the like.\<close>

definition directed :: "pair_row list \<Rightarrow> (uuid \<times> uuid \<times> real) list" where
  "directed ps = map (\<lambda>r. (pwA r, pwB r, pwC r)) ps @ map (\<lambda>r. (pwB r, pwA r, pwC r)) ps"

definition mass_total :: "(uuid \<times> uuid \<times> real) list \<Rightarrow> uuid \<Rightarrow> real option" where
  "mass_total mass i = (let rows = filter (\<lambda>(a, b, c). a = i) mass
     in if rows = [] then None else Some (sum_list (map (\<lambda>(a, b, c). c) rows)))"

definition edge_at :: "(uuid \<times> uuid \<times> real) list \<Rightarrow> uuid \<Rightarrow> uuid \<Rightarrow> real option" where
  "edge_at es i j = map_option (\<lambda>(a, b, c). c) (find (\<lambda>(a, b, c). a = i \<and> b = j) es)"

text \<open>One source's term; \<open>COALESCE(_, 0)\<close> where the join has no row.\<close>

definition shrunk_term :: "real \<Rightarrow> (uuid \<times> uuid \<times> real) list \<Rightarrow> (uuid \<times> uuid \<times> real) list \<Rightarrow> uuid \<Rightarrow> uuid \<Rightarrow> real" where
  "shrunk_term lam mass es i j = (case (edge_at es i j, mass_total mass i, mass_total mass j) of
     (Some c, Some ti, Some tj) \<Rightarrow> (c / sqrt (ti * tj)) * (c / (c + lam)) | _ \<Rightarrow> 0)"

definition above_floor :: "int \<Rightarrow> pair_row list \<Rightarrow> pair_row list" where
  "above_floor mn ps = filter (\<lambda>r. mn \<le> pwSubjects r) ps"

definition covis_edges :: "real \<Rightarrow> int \<Rightarrow> real \<Rightarrow> db \<Rightarrow> (uuid \<times> uuid \<times> real) list" where
  "covis_edges window mn lam s =
     (let wp = group_pairs (watch_join window s); sp = group_pairs (search_join window s);
          cw = directed (above_floor mn wp); cs = directed (above_floor mn sp)
      in map (\<lambda>(i, j). (i, j, 7 / 10 * shrunk_term lam (directed wp) cw i j + 3 / 10 * shrunk_term lam (directed sp) cs i j))
           (remdups (map (\<lambda>(i, j, c). (i, j)) (cw @ cs))))"

definition edge_before :: "uuid \<times> real \<Rightarrow> uuid \<times> real \<Rightarrow> bool" where
  "edge_before a b \<longleftrightarrow> snd a > snd b \<or> (snd a = snd b \<and> fst a < fst b)"

text \<open>\<open>row_number()\<close> over one \<open>i\<close>, up to \<open>topM\<close>.\<close>

definition ranked_for :: "int \<Rightarrow> (uuid \<times> uuid \<times> real) list \<Rightarrow> uuid \<Rightarrow> (uuid \<times> real) list" where
  "ranked_for topM es i = take (nat topM) (SliceStable edge_before
     (map (\<lambda>(a, j, c). (j, c)) (filter (\<lambda>(a, j, c). a = i \<and> c > 0) es)))"

definition neighbor_rows :: "int \<Rightarrow> (uuid \<times> uuid \<times> real) list \<Rightarrow> neighbor_row list" where
  "neighbor_rows topM es = concat (map (\<lambda>i. map (\<lambda>(j, c). \<lparr> nb_video_id = i, nb_neighbor_id = j, nb_score = c,
       nb_source = ''blend'', nb_model_version = ''covis-v1'' \<rparr>) (ranked_for topM es i))
     (remdups (map fst es)))"

section \<open>Statements and the job\<close>

definition nb_key :: "neighbor_row \<Rightarrow> uuid \<times> uuid" where
  "nb_key r = (nb_video_id r, nb_neighbor_id r)"

definition ClearCovisNeighbors :: "db \<Rightarrow> db" where
  "ClearCovisNeighbors s = s\<lparr> item_neighbors := sql_delete (\<lambda>r. nb_model_version r = ''covis-v1'') (item_neighbors s) \<rparr>"

definition RebuildCovisNeighbors :: "int \<Rightarrow> real \<Rightarrow> int \<Rightarrow> real \<Rightarrow> db \<Rightarrow> sql_error + db" where
  "RebuildCovisNeighbors topM window mn lam s =
     (let rows = neighbor_rows topM (covis_edges window mn lam s)
      in if list_ex (\<lambda>r. nb_key r \<in> nb_key ` set (item_neighbors s)) rows then Inl SqlError
         else Inr (s\<lparr> item_neighbors := item_neighbors s @ rows \<rparr>))"

definition covisRollup :: "worker_config \<Rightarrow> bool \<Rightarrow> bool \<times> bool \<Rightarrow> db \<Rightarrow> (sql_error + unit) \<times> db" where
  "covisRollup cfg read_ok tx s =
     (let minSubjects = overlayInt (overlay read_ok s) ''minimum_query_user_count'' (MinQueryUserCount cfg)
      in inTx tx (\<lambda>s0. case RebuildCovisNeighbors (int32 (CovisTopM cfg)) (CovisWindowSeconds cfg) (int32 minSubjects)
             (CovisLambda cfg) (ClearCovisNeighbors s0) of
           Inl e \<Rightarrow> Inl e | Inr s1 \<Rightarrow> Inr ((), s1)) s)"

section \<open>Reads\<close>

text \<open>Grouped by neighbor, the sum of the weights.\<close>

definition sum_by :: "(uuid \<times> real) list \<Rightarrow> (uuid \<times> real) list" where
  "sum_by xs = map (\<lambda>k. (k, sum_list (map snd (filter (\<lambda>x. fst x = k) xs)))) (remdups (map fst xs))"

definition NeighborScoresFromSeeds :: "uuid list \<Rightarrow> uuid list \<Rightarrow> db \<Rightarrow> (uuid \<times> real) list" where
  "NeighborScoresFromSeeds seeds candidates s = sum_by (map (\<lambda>n. (nb_neighbor_id n, nb_score n))
     (filter (\<lambda>n. nb_video_id n \<in> set seeds \<and> nb_neighbor_id n \<in> set candidates) (item_neighbors s)))"

definition NeighborsForSeeds :: "uuid list \<Rightarrow> int \<Rightarrow> db \<Rightarrow> sql_error + (uuid \<times> real) list" where
  "NeighborsForSeeds seeds lmt s = page_of lmt 0 (SliceStable edge_before (sum_by (map (\<lambda>n. (nb_neighbor_id n, nb_score n))
     (filter (\<lambda>n. nb_video_id n \<in> set seeds \<and> nb_neighbor_id n \<notin> set seeds) (item_neighbors s)))))"

definition watched_by :: "uuid \<Rightarrow> db \<Rightarrow> uuid list" where
  "watched_by user s = map wp_video_id (filter (\<lambda>w. wp_user_id w = user) (user_watch_projection s))"

definition NeighborsForUserWatches :: "uuid \<Rightarrow> int \<Rightarrow> db \<Rightarrow> sql_error + (uuid \<times> real) list" where
  "NeighborsForUserWatches user lmt s = page_of lmt 0 (SliceStable edge_before (sum_by
     (map (\<lambda>(w, n). (nb_neighbor_id n, wp_weight w * nb_score n))
       (filter (\<lambda>(w, n). wp_user_id w = user \<and> nb_video_id n = wp_video_id w \<and> nb_neighbor_id n \<notin> set (watched_by user s))
         (List.product (user_watch_projection s) (item_neighbors s))))))"

definition NeighborsForVideo :: "uuid \<Rightarrow> int \<Rightarrow> db \<Rightarrow> sql_error + neighbor_row list" where
  "NeighborsForVideo vid lmt s = page_of lmt 0 (SliceStable (\<lambda>a b. edge_before (nb_neighbor_id a, nb_score a) (nb_neighbor_id b, nb_score b))
     (filter (\<lambda>n. nb_video_id n = vid) (item_neighbors s)))"

section \<open>The reference formula\<close>

text \<open>The counts a pair of videos has in a join, by the pair instances themselves.\<close>

definition cooc :: "(behavior_row \<times> behavior_row) list \<Rightarrow> uuid \<Rightarrow> uuid \<Rightarrow> real" where
  "cooc P i j = real (length (filter (\<lambda>np. pair_key np = (min i j, max i j)) P))"

definition total_of :: "(behavior_row \<times> behavior_row) list \<Rightarrow> uuid \<Rightarrow> real" where
  "total_of P i = real (length (filter (\<lambda>np. video_of (fst np) = i \<or> video_of (snd np) = i) P))"

definition subjects_of :: "(behavior_row \<times> behavior_row) list \<Rightarrow> uuid \<Rightarrow> uuid \<Rightarrow> int" where
  "subjects_of P i j = (let anchors = map fst (filter (\<lambda>np. pair_key np = (min i j, max i j)) P)
     in count_distinct (map be_user_id anchors) + count_distinct (map event_subject anchors))"

definition covis_reference :: "real \<Rightarrow> int \<Rightarrow> real \<Rightarrow> db \<Rightarrow> uuid \<Rightarrow> uuid \<Rightarrow> real" where
  "covis_reference window mn lam s i j =
     (let W = watch_join window s; S = search_join window s
      in CovisBlendFloored (CovisShrunkCosine (cooc W i j) (total_of W i) (total_of W j) lam)
           (CovisShrunkCosine (cooc S i j) (total_of S i) (total_of S j) lam) (subjects_of W i j) (subjects_of S i j) mn)"

definition proper :: "(behavior_row \<times> behavior_row) list \<Rightarrow> bool" where
  "proper P \<longleftrightarrow> (\<forall>np \<in> set P. video_of (fst np) \<noteq> video_of (snd np))"

lemma proper_watch: "proper (watch_join window s)"
  by (auto simp: proper_def watch_join_def watch_ev_def pairs_with_def video_of_def)

lemma proper_search: "proper (search_join window s)"
  by (auto simp: proper_def search_join_def search_ev_def pairs_with_def video_of_def)

lemma minmax_pair: "(min a b, max a b) = (min i j, max i j) \<longleftrightarrow> (a = i \<and> b = j) \<or> (a = j \<and> b = i)" for a :: "'a::linorder"
  by (auto simp: min_def max_def)

lemma key_of: "pair_key np = (min i j, max i j) \<longleftrightarrow>
    (video_of (fst np) = i \<and> video_of (snd np) = j) \<or> (video_of (fst np) = j \<and> video_of (snd np) = i)"
  unfolding pair_key_def by (rule minmax_pair)

lemma cooc_sym: "cooc P i j = cooc P j i" and subjects_sym: "subjects_of P i j = subjects_of P j i"
  by (simp_all add: cooc_def subjects_of_def min.commute max.commute)

lemma cooc_nonneg: "0 \<le> cooc P i j"
  by (simp add: cooc_def)

lemma length_filter_mono: "(\<And>x. x \<in> set xs \<Longrightarrow> P x \<Longrightarrow> Q x) \<Longrightarrow> length (filter P xs) \<le> length (filter Q xs)"
  by (induction xs) (auto intro: le_SucI)

lemma cooc_le_total: "cooc P i j \<le> total_of P i" "cooc P i j \<le> total_of P j"
  by (auto simp: cooc_def total_of_def key_of intro!: length_filter_mono)

text \<open>The rows of the grouped join.\<close>

lemma minmax_simps [simp]: "min (min i j) (max i j) = min i j" "max (min i j) (max i j) = max i j" "min i j \<le> max i j"
  for i :: "'a::linorder"
  by (auto simp: min_def max_def)

lemma cooc_minmax: "cooc P (min i j) (max i j) = cooc P i j" "subjects_of P (min i j) (max i j) = subjects_of P i j"
  by (simp_all add: cooc_def subjects_of_def)

lemma group_pairs_alt: "group_pairs P = map (\<lambda>(i, j). \<lparr> pwA = i, pwB = j, pwC = cooc P i j, pwSubjects = subjects_of P i j \<rparr>)
    (remdups (map pair_key P))"
proof -
  have "(min (fst k) (snd k), max (fst k) (snd k)) = k" if "k \<in> set (map pair_key P)" for k
    using that by (auto simp: pair_key_def)
  then show ?thesis
    by (simp add: group_pairs_def cooc_def subjects_of_def Let_def split_beta cong: map_cong)
qed

lemma cooc_pos: "(min i j, max i j) \<in> pair_key ` set P \<longleftrightarrow> 0 < cooc P i j"
proof -
  have "0 < cooc P i j \<longleftrightarrow> filter (\<lambda>np. pair_key np = (min i j, max i j)) P \<noteq> []" by (simp add: cooc_def)
  then show ?thesis unfolding filter_empty_conv image_iff by metis
qed

lemma group_pairs_row:
  assumes "r \<in> set (group_pairs P)"
  shows "pwC r = cooc P (pwA r) (pwB r) \<and> pwSubjects r = subjects_of P (pwA r) (pwB r) \<and> 0 < pwC r \<and> pwA r \<le> pwB r"
proof -
  obtain k where k: "k \<in> pair_key ` set P" "r = (\<lambda>(i, j). \<lparr> pwA = i, pwB = j, pwC = cooc P i j, pwSubjects = subjects_of P i j \<rparr>) k"
    using assms by (auto simp: group_pairs_alt)
  then have "fst k \<le> snd k" by (auto simp: pair_key_def)
  then have "(min (fst k) (snd k), max (fst k) (snd k)) = k" by (simp add: min_def max_def prod_eq_iff)
  then have "0 < cooc P (fst k) (snd k)" using k(1) by (metis cooc_pos)
  then show ?thesis using k(2) \<open>fst k \<le> snd k\<close> by (simp add: split_beta)
qed

lemma group_pairs_of: "0 < cooc P i j \<Longrightarrow> \<exists>r \<in> set (group_pairs P). pwA r = min i j \<and> pwB r = max i j"
  unfolding cooc_pos [symmetric] group_pairs_alt set_map set_remdups by (intro bexI, rule conjI) (auto simp del: set_map)

lemma directed_edges: "(i, j, c) \<in> set (directed (above_floor mn (group_pairs P))) \<longleftrightarrow>
    0 < cooc P i j \<and> c = cooc P i j \<and> mn \<le> subjects_of P i j"
proof
  assume "(i, j, c) \<in> set (directed (above_floor mn (group_pairs P)))"
  then obtain r where "r \<in> set (group_pairs P)" "mn \<le> pwSubjects r" "c = pwC r" "(i = pwA r \<and> j = pwB r) \<or> (i = pwB r \<and> j = pwA r)"
    by (auto simp: directed_def above_floor_def)
  then show "0 < cooc P i j \<and> c = cooc P i j \<and> mn \<le> subjects_of P i j"
    using group_pairs_row [of r P] by (metis cooc_sym subjects_sym)
next
  assume a: "0 < cooc P i j \<and> c = cooc P i j \<and> mn \<le> subjects_of P i j"
  then obtain r where r: "r \<in> set (group_pairs P)" "pwA r = min i j" "pwB r = max i j" using group_pairs_of by blast
  have "pwC r = c" "mn \<le> pwSubjects r" using group_pairs_row [OF r(1)] a r(2,3) by (simp_all add: cooc_minmax)
  then have "r \<in> set (above_floor mn (group_pairs P))" using r(1) by (simp add: above_floor_def)
  moreover have "(i = pwA r \<and> j = pwB r) \<or> (i = pwB r \<and> j = pwA r)" using r(2,3) by (auto simp: min_def max_def)
  ultimately show "(i, j, c) \<in> set (directed (above_floor mn (group_pairs P)))"
    using \<open>pwC r = c\<close> by (force simp: directed_def)
qed

lemma edge_at_directed: "edge_at (directed (above_floor mn (group_pairs P))) i j =
    (if 0 < cooc P i j \<and> mn \<le> subjects_of P i j then Some (cooc P i j) else None)"
proof (cases "find (\<lambda>(a, b, c). a = i \<and> b = j) (directed (above_floor mn (group_pairs P)))")
  case None
  then have "(i, j, c) \<notin> set (directed (above_floor mn (group_pairs P)))" for c by (auto simp: find_None_iff)
  then have "\<not> (0 < cooc P i j \<and> mn \<le> subjects_of P i j)" using directed_edges by blast
  then show ?thesis using None by (simp add: edge_at_def)
next
  case (Some e)
  then obtain c where "e = (i, j, c)" "(i, j, c) \<in> set (directed (above_floor mn (group_pairs P)))"
    by (auto simp: find_Some_iff in_set_conv_nth)
  then show ?thesis using Some directed_edges by (simp add: edge_at_def)
qed

text \<open>Summing the groups of a list counts the list.\<close>

lemma sum_of_groups:
  "finite K \<Longrightarrow> (\<Sum>k\<in>K. real (length (filter (\<lambda>x. f x = k) xs))) = real (length (filter (\<lambda>x. f x \<in> K) xs))"
proof (induction xs)
  case (Cons x xs)
  have "(\<Sum>k\<in>K. real (length (filter (\<lambda>x. f x = k) (x # xs))))
      = (\<Sum>k\<in>K. (if f x = k then 1 else 0) + real (length (filter (\<lambda>x. f x = k) xs)))"
    by (rule sum.cong) auto
  also have "\<dots> = (\<Sum>k\<in>K. if f x = k then 1 else 0) + real (length (filter (\<lambda>x. f x \<in> K) xs))"
    using Cons by (simp add: sum.distrib)
  also have "(\<Sum>k\<in>K. if f x = k then 1 else (0 :: real)) = (if f x \<in> K then 1 else 0)"
    using Cons.prems by simp
  finally show ?case by simp
qed simp

lemma mass_of_directed:
  "sum_list (map (\<lambda>(a, b, c). c) (filter (\<lambda>(a, b, c). a = i) (directed ps)))
   = sum_list (map pwC (filter (\<lambda>r. pwA r = i) ps)) + sum_list (map pwC (filter (\<lambda>r. pwB r = i) ps))"
  by (simp add: directed_def filter_map comp_def)

lemma sum_groups_where:
  "sum_list (map pwC (filter (\<lambda>r. Q (pwA r, pwB r)) (group_pairs P))) = real (length (filter (\<lambda>np. Q (pair_key np)) P))"
proof -
  let ?K = "{k \<in> pair_key ` set P. Q k}"
  have "filter (\<lambda>r. Q (pwA r, pwB r)) (group_pairs P)
      = map (\<lambda>(i, j). \<lparr> pwA = i, pwB = j, pwC = cooc P i j, pwSubjects = subjects_of P i j \<rparr>) (filter Q (remdups (map pair_key P)))"
    by (simp add: group_pairs_alt filter_map comp_def split_beta)
  then have "sum_list (map pwC (filter (\<lambda>r. Q (pwA r, pwB r)) (group_pairs P)))
      = sum_list (map (\<lambda>k. cooc P (fst k) (snd k)) (filter Q (remdups (map pair_key P))))"
    by (simp add: comp_def split_beta)
  also have "\<dots> = (\<Sum>k\<in>?K. cooc P (fst k) (snd k))"
    by (subst sum_list_distinct_conv_sum_set) (auto intro!: sum.cong)
  also have "\<dots> = (\<Sum>k\<in>?K. real (length (filter (\<lambda>np. pair_key np = k) P)))"
    by (rule sum.cong) (auto simp: cooc_def pair_key_def)
  also have "\<dots> = real (length (filter (\<lambda>np. pair_key np \<in> ?K) P))"
    by (rule sum_of_groups) simp
  also have "filter (\<lambda>np. pair_key np \<in> ?K) P = filter (\<lambda>np. Q (pair_key np)) P"
    by (rule filter_cong) auto
  finally show ?thesis .
qed

lemma length_filter_disj:
  "(\<And>x. x \<in> set xs \<Longrightarrow> \<not> (P x \<and> Q x)) \<Longrightarrow> length (filter P xs) + length (filter Q xs) = length (filter (\<lambda>x. P x \<or> Q x) xs)"
  by (induction xs) auto

lemma mass_total_directed:
  assumes "proper P"
  shows "mass_total (directed (group_pairs P)) i = (if total_of P i = 0 then None else Some (total_of P i))"
proof -
  have sum: "sum_list (map (\<lambda>(a, b, c). c) (filter (\<lambda>(a, b, c). a = i) (directed (group_pairs P)))) = total_of P i"
  proof -
    have "total_of P i = real (length (filter (\<lambda>np. fst (pair_key np) = i \<or> snd (pair_key np) = i) P))"
      unfolding total_of_def by (intro arg_cong [of _ _ real] arg_cong [of _ _ length] filter_cong)
        (auto simp: pair_key_def min_def max_def)
    also have "\<dots> = real (length (filter (\<lambda>np. fst (pair_key np) = i) P)) + real (length (filter (\<lambda>np. snd (pair_key np) = i) P))"
    proof -
      have "\<not> (fst (pair_key np) = i \<and> snd (pair_key np) = i)" if "np \<in> set P" for np
        using assms that by (auto simp: proper_def pair_key_def min_def max_def split: if_split_asm)
      from length_filter_disj [of P "\<lambda>np. fst (pair_key np) = i" "\<lambda>np. snd (pair_key np) = i", OF this]
      show ?thesis by (simp flip: of_nat_add)
    qed
    finally show ?thesis
      unfolding mass_of_directed
      using sum_groups_where [of "\<lambda>k. fst k = i" P] sum_groups_where [of "\<lambda>k. snd k = i" P] by simp
  qed
  have "filter (\<lambda>(a, b, c). a = i) (directed (group_pairs P)) = [] \<longleftrightarrow> total_of P i = 0"
  proof
    assume z: "total_of P i = 0"
    show "filter (\<lambda>(a, b, c). a = i) (directed (group_pairs P)) = []"
    proof (rule ccontr)
      assume "\<not> ?thesis"
      then obtain j c where m: "(i, j, c) \<in> set (directed (group_pairs P))" by (auto simp: filter_empty_conv)
      have "0 \<le> pwSubjects r" if "r \<in> set (group_pairs P)" for r
        by (use that in \<open>auto simp: group_pairs_def Let_def count_distinct_def\<close>)
      then have "above_floor 0 (group_pairs P) = group_pairs P" by (simp add: above_floor_def)
      then have "0 < cooc P i j" using directed_edges [of i j c 0 P] m by simp
      then show False using cooc_le_total(1) [of P i j] z by simp
    qed
  next
    assume "filter (\<lambda>(a, b, c). a = i) (directed (group_pairs P)) = []"
    then show "total_of P i = 0" using sum by simp
  qed
  then show ?thesis using sum by (simp add: mass_total_def Let_def)
qed

lemma shrunk_term_reference:
  assumes "proper P"
  shows "shrunk_term lam (directed (group_pairs P)) (directed (above_floor mn (group_pairs P))) i j
    = (if subjects_of P i j < mn then 0 else CovisShrunkCosine (cooc P i j) (total_of P i) (total_of P j) lam)"
proof (cases "0 < cooc P i j")
  case True
  then have "0 < total_of P i" "0 < total_of P j" using cooc_le_total [of P i j] by linarith+
  then show ?thesis
    using True by (simp add: shrunk_term_def edge_at_directed mass_total_directed [OF assms] CovisShrunkCosine_def Let_def)
next
  case False
  then show ?thesis by (simp add: shrunk_term_def edge_at_directed CovisShrunkCosine_def)
qed

lemma covis_edges_score:
  assumes "(i, j, c) \<in> set (covis_edges window mn lam s)"
  shows "c = covis_reference window mn lam s i j"
proof -
  have "c = 7 / 10 * shrunk_term lam (directed (group_pairs (watch_join window s)))
          (directed (above_floor mn (group_pairs (watch_join window s)))) i j
      + 3 / 10 * shrunk_term lam (directed (group_pairs (search_join window s)))
          (directed (above_floor mn (group_pairs (search_join window s)))) i j"
    using assms by (auto simp: covis_edges_def Let_def)
  then show ?thesis
    by (simp add: shrunk_term_reference proper_watch proper_search covis_reference_def Let_def CovisBlendFloored_def
        CovisBlend_def CovisBlendCoWatch_def CovisBlendCoSearch_def)
qed

section \<open>The published index\<close>

lemma shrunk_pos: "0 < CovisShrunkCosine c ti tj lam \<Longrightarrow> 0 < c"
  by (simp add: CovisShrunkCosine_def split: if_split_asm)

lemma shrunk_nonneg: "0 \<le> lam \<Longrightarrow> 0 \<le> CovisShrunkCosine c ti tj lam"
  by (simp add: CovisShrunkCosine_def Let_def)

text \<open>A positive score has a source that clears the floor.\<close>

lemma reference_pos:
  assumes "0 < covis_reference window mn lam s i j" and "0 \<le> lam"
  shows "(mn \<le> subjects_of (watch_join window s) i j \<and> 0 < cooc (watch_join window s) i j)
    \<or> (mn \<le> subjects_of (search_join window s) i j \<and> 0 < cooc (search_join window s) i j)"
proof (rule ccontr)
  let ?W = "watch_join window s" and ?S = "search_join window s"
  assume neg: "\<not> ?thesis"
  have z: "CovisShrunkCosine (cooc P i j) ti tj lam = 0" if "\<not> 0 < cooc P i j" for P ti tj
    using that by (simp add: CovisShrunkCosine_def)
  have "(if subjects_of P i j < mn then 0 else CovisShrunkCosine (cooc P i j) ti tj lam) = 0"
    if "\<not> (mn \<le> subjects_of P i j \<and> 0 < cooc P i j)" for P ti tj using that z by auto
  then have "covis_reference window mn lam s i j = 0"
    using neg by (simp add: covis_reference_def Let_def CovisBlendFloored_def CovisBlend_def)
  then show False using assms(1) by simp
qed

lemma edge_keys: "(\<lambda>(a, b, c). (a, b)) ` set (directed (above_floor mn (group_pairs P)))
    = {(i, j). 0 < cooc P i j \<and> mn \<le> subjects_of P i j}"
proof (rule set_eqI)
  fix k :: "uuid \<times> uuid"
  show "k \<in> (\<lambda>(a, b, c). (a, b)) ` set (directed (above_floor mn (group_pairs P)))
      \<longleftrightarrow> k \<in> {(i, j). 0 < cooc P i j \<and> mn \<le> subjects_of P i j}"
    using directed_edges [of "fst k" "snd k" _ mn P] by (force simp: image_iff)
qed

lemma covis_edges_keys:
  "(\<lambda>(i, j, c). (i, j)) ` set (covis_edges window mn lam s) =
     {(i, j). 0 < cooc (watch_join window s) i j \<and> mn \<le> subjects_of (watch_join window s) i j}
     \<union> {(i, j). 0 < cooc (search_join window s) i j \<and> mn \<le> subjects_of (search_join window s) i j}"
proof -
  have "(\<lambda>(i, j, c). (i, j)) ` set (covis_edges window mn lam s)
      = (\<lambda>(a, b, c). (a, b)) ` set (directed (above_floor mn (group_pairs (watch_join window s))))
      \<union> (\<lambda>(a, b, c). (a, b)) ` set (directed (above_floor mn (group_pairs (search_join window s))))"
    by (simp add: covis_edges_def Let_def image_Un image_image split_beta)
  then show ?thesis by (simp only: edge_keys)
qed

lemma covis_edges_positive:
  assumes "0 \<le> lam"
  shows "(i, j, c) \<in> set (covis_edges window mn lam s) \<and> 0 < c \<longleftrightarrow> c = covis_reference window mn lam s i j \<and> 0 < c"
proof
  assume r: "c = covis_reference window mn lam s i j \<and> 0 < c"
  then have "0 < covis_reference window mn lam s i j" by simp
  from reference_pos [OF this assms]
  have "(i, j) \<in> (\<lambda>(i, j, c). (i, j)) ` set (covis_edges window mn lam s)"
    unfolding covis_edges_keys by auto
  then obtain c' where "(i, j, c') \<in> set (covis_edges window mn lam s)" by auto
  then show "(i, j, c) \<in> set (covis_edges window mn lam s) \<and> 0 < c" using covis_edges_score r by metis
qed (use covis_edges_score in blast)

lemma covis_edges_distinct: "distinct (map (\<lambda>(i, j, c). (i, j)) (covis_edges window mn lam s))"
  by (simp add: covis_edges_def Let_def comp_def split_beta)

interpretation by_edge: strict_weak_order edge_before
  by unfold_locales (auto simp: edge_before_def)

text \<open>One seed's list: its edges in the strict order of score and id.\<close>

lemma ranked_list:
  assumes "0 \<le> lam"
  obtains L where "ranked_for topM (covis_edges window mn lam s) i = take (nat topM) L"
    and "sorted_wrt edge_before L"
    and "set L = {(j, covis_reference window mn lam s i j) |j. 0 < covis_reference window mn lam s i j}"
proof -
  let ?es = "covis_edges window mn lam s"
  define F where "F = filter (\<lambda>(a, j, c). a = i \<and> c > 0) ?es"
  define L0 where "L0 = map (\<lambda>(a, j, c). (j, c)) F"
  define L where "L = SliceStable edge_before L0"
  have "distinct (map (\<lambda>(i, j, c). (i, j)) F)"
    unfolding F_def by (rule distinct_map_filter [OF covis_edges_distinct])
  moreover have "map (\<lambda>(i, j, c). (i, j)) F = map (\<lambda>j. (i, j)) (map fst L0)" by (auto simp: F_def L0_def)
  ultimately have "distinct (map fst L0)" by (metis distinct_map)
  then have dj: "distinct (map fst L)" by (simp add: L_def)
  then have "distinct L" by (simp add: distinct_map)
  then have "sorted_wrt (\<lambda>a b. \<not> edge_before b a \<and> a \<noteq> b) L"
    using by_edge.sorted_SliceStable [of L0] by (simp add: L_def sorted_wrt_iff_nth_less nth_eq_iff_index_eq)
  then have "sorted_wrt edge_before L"
    by (rule sorted_wrt_mono_rel [rotated]) (auto simp: edge_before_def prod_eq_iff)
  moreover have "set L = {(j, covis_reference window mn lam s i j) |j. 0 < covis_reference window mn lam s i j}"
  proof -
    have "(j, c) \<in> set L \<longleftrightarrow> (i, j, c) \<in> set ?es \<and> 0 < c" for j c
      by (force simp: L_def L0_def F_def image_iff)
    then have "(j, c) \<in> set L \<longleftrightarrow> c = covis_reference window mn lam s i j \<and> 0 < c" for j c
      using covis_edges_positive [OF assms] by blast
    then show ?thesis by (auto intro!: set_eqI)
  qed
  moreover have "ranked_for topM ?es i = take (nat topM) L" by (simp add: ranked_for_def L_def L0_def F_def)
  ultimately show ?thesis using that by blast
qed

lemma filter_concat_keyed:
  assumes "distinct is" and "\<And>i x. x \<in> set (f i) \<Longrightarrow> key x = i" and "\<And>i. i \<notin> set is \<Longrightarrow> f i = []"
  shows "filter (\<lambda>x. key x = k) (concat (map f is)) = f k"
proof -
  have own: "filter (\<lambda>x. key x = k) (f i) = (if i = k then f i else [])" for i
    using assms(2) by (auto simp: filter_empty_conv filter_id_conv)
  have "filter (\<lambda>x. key x = k) (concat (map f is)) = concat (map (\<lambda>i. if i = k then f i else []) is)"
    by (simp add: filter_concat own comp_def)
  also have "\<dots> = (if k \<in> set is then f k else [])"
    using assms(1) by (induction "is") (auto simp: concat_eq_Nil_conv)
  finally show ?thesis using assms(3) by auto
qed

definition covis_rows :: "db \<Rightarrow> neighbor_row list" where
  "covis_rows s = filter (\<lambda>r. nb_model_version r = ''covis-v1'') (item_neighbors s)"

lemma covis_edges_clear: "covis_edges window mn lam (ClearCovisNeighbors s) = covis_edges window mn lam s"
  by (simp add: covis_edges_def watch_join_def search_join_def watch_ev_def search_ev_def ClearCovisNeighbors_def)

lemma neighbor_rows_model: "r \<in> set (neighbor_rows topM es) \<Longrightarrow> nb_model_version r = ''covis-v1''"
  by (auto simp: neighbor_rows_def)

lemma covisRollup_rows:
  assumes "covisRollup cfg read_ok tx s = (Inr u, s')"
  shows "covis_rows s' = neighbor_rows (int32 (CovisTopM cfg))
      (covis_edges (CovisWindowSeconds cfg) (pass_floor cfg read_ok s) (CovisLambda cfg) s)"
proof -
  have "filter (\<lambda>r. nb_model_version r = ''covis-v1'') (neighbor_rows topM es) = neighbor_rows topM es" for topM es
    using neighbor_rows_model by (simp add: filter_id_conv)
  moreover have "filter (\<lambda>r. nb_model_version r = ''covis-v1'') (item_neighbors (ClearCovisNeighbors s)) = []"
    by (simp add: ClearCovisNeighbors_def sql_delete_def filter_empty_conv)
  ultimately show ?thesis
    using assms by (auto simp: covisRollup_def pass_floor_def inTx_Inr Let_def RebuildCovisNeighbors_def covis_rows_def
        covis_edges_clear split: sum.splits if_split_asm)
qed

lemma neighbor_rows_of:
  "map (\<lambda>r. (nb_neighbor_id r, nb_score r)) (filter (\<lambda>r. nb_video_id r = i) (neighbor_rows topM es)) = ranked_for topM es i"
proof -
  have "filter (\<lambda>r. nb_video_id r = i) (neighbor_rows topM es)
      = map (\<lambda>(j, c). \<lparr> nb_video_id = i, nb_neighbor_id = j, nb_score = c, nb_source = ''blend'', nb_model_version = ''covis-v1'' \<rparr>)
          (ranked_for topM es i)"
    unfolding neighbor_rows_def
  proof (rule filter_concat_keyed)
    show "map (\<lambda>(j, c). \<lparr> nb_video_id = k, nb_neighbor_id = j, nb_score = c, nb_source = ''blend'', nb_model_version = ''covis-v1'' \<rparr>)
        (ranked_for topM es k) = []" if "k \<notin> set (remdups (map fst es))" for k
      using that by (force simp: ranked_for_def filter_empty_conv)
  qed auto
  then show ?thesis by (simp add: comp_def split_beta)
qed

text \<open>C14. The index the job publishes is the reference formula, top of the list: for every seed the neighbors are the
  first \<open>CovisTopM\<close> of exactly the videos with a positive blended, floored, shrunk cosine over the
  co-watch and co-search counts of the retained ledger, in the order of that score with ties by id, and
  with that score - whatever the index held before.\<close>

theorem neighbors_match_reference:
  assumes "covisRollup cfg read_ok tx s = (Inr (), s')" and "0 \<le> CovisLambda cfg"
  shows "\<exists>L. sorted_wrt edge_before L
    \<and> set L = {(j, covis_reference (CovisWindowSeconds cfg) (pass_floor cfg read_ok s) (CovisLambda cfg) s i j) |j.
        0 < covis_reference (CovisWindowSeconds cfg) (pass_floor cfg read_ok s) (CovisLambda cfg) s i j}
    \<and> map (\<lambda>r. (nb_neighbor_id r, nb_score r)) (filter (\<lambda>r. nb_video_id r = i) (covis_rows s'))
        = take (nat (int32 (CovisTopM cfg))) L"
  unfolding covisRollup_rows [OF assms(1)] neighbor_rows_of
  by (rule ranked_list [OF assms(2), of "int32 (CovisTopM cfg)" "CovisWindowSeconds cfg" "pass_floor cfg read_ok s" s i]) blast

text \<open>No association is published below the floor: behind every row of the index stand at least as many distinct
  subjects as the floor asks for, who in one of the two sources visited both videos within the window.\<close>

theorem neighbors_above_floor:
  assumes "covisRollup cfg read_ok tx s = (Inr (), s')" and "0 \<le> CovisLambda cfg" and "r \<in> set (covis_rows s')"
  shows "(pass_floor cfg read_ok s \<le> subjects_of (watch_join (CovisWindowSeconds cfg) s) (nb_video_id r) (nb_neighbor_id r)
        \<and> 0 < cooc (watch_join (CovisWindowSeconds cfg) s) (nb_video_id r) (nb_neighbor_id r))
    \<or> (pass_floor cfg read_ok s \<le> subjects_of (search_join (CovisWindowSeconds cfg) s) (nb_video_id r) (nb_neighbor_id r)
        \<and> 0 < cooc (search_join (CovisWindowSeconds cfg) s) (nb_video_id r) (nb_neighbor_id r))"
proof (rule reference_pos [OF _ assms(2)])
  let ?es = "covis_edges (CovisWindowSeconds cfg) (pass_floor cfg read_ok s) (CovisLambda cfg) s"
  obtain L where L: "ranked_for (int32 (CovisTopM cfg)) ?es (nb_video_id r) = take (nat (int32 (CovisTopM cfg))) L"
    "set L = {(j, covis_reference (CovisWindowSeconds cfg) (pass_floor cfg read_ok s) (CovisLambda cfg) s (nb_video_id r) j) |j.
        0 < covis_reference (CovisWindowSeconds cfg) (pass_floor cfg read_ok s) (CovisLambda cfg) s (nb_video_id r) j}"
    by (rule ranked_list [OF assms(2), of "int32 (CovisTopM cfg)" "CovisWindowSeconds cfg" "pass_floor cfg read_ok s" s "nb_video_id r"])
      blast
  have "(nb_neighbor_id r, nb_score r) \<in> set (ranked_for (int32 (CovisTopM cfg)) ?es (nb_video_id r))"
    using assms(3) unfolding covisRollup_rows [OF assms(1)] neighbor_rows_of [symmetric] by force
  then have "(nb_neighbor_id r, nb_score r) \<in> set L" using L(1) by (metis in_set_takeD)
  then show "0 < covis_reference (CovisWindowSeconds cfg) (pass_floor cfg read_ok s) (CovisLambda cfg) s
      (nb_video_id r) (nb_neighbor_id r)"
    using L(2) by auto
qed

text \<open>Two videos played in one session, with a floor of one.\<close>

definition play_row :: "int \<Rightarrow> uuid \<Rightarrow> behavior_row" where
  "play_row i vid = \<lparr> be_id = i, be_event_id = of_int i, be_type = ''video.play_started'', be_user_id = Some 1,
     be_session_id = Some ''s'', be_normalized_query = None, be_video_id = Some vid, be_position = None,
     be_model_version = None, be_occurred_at = 0, be_props = JObj [] \<rparr>"

definition played_two :: db where
  "played_two = empty_db \<lparr> behavior_events := [play_row 1 7, play_row 2 8] \<rparr>"

definition floor_one :: worker_config where
  "floor_one = sample_worker\<lparr> MinQueryUserCount := 1 \<rparr>"

lemma floor_one_simps: "CovisWindowSeconds floor_one = 3600" "CovisLambda floor_one = 10" "pass_floor floor_one True played_two = 1"
    "int32 (CovisTopM floor_one) = 100"
  by (simp_all add: floor_one_def pass_floor_def overlay_def overlayInt_def ListServiceConfig_def played_two_def empty_db_def
      int32_id in_int32_def)

lemma play_row_simps [simp]: "be_user_id (play_row i v) = Some 1" "video_of (play_row i v) = v" "event_subject (play_row i v) = None"
    "be_id (play_row i v) = i" "be_type (play_row i v) = ''video.play_started''" "be_session_id (play_row i v) = Some ''s''"
    "be_video_id (play_row i v) = Some v" "be_occurred_at (play_row i v) = 0"
  by (simp_all add: play_row_def video_of_def event_subject_def)

lemma played_two_joins: "watch_join 3600 played_two = [(play_row 2 8, play_row 1 7)]" "search_join 3600 played_two = []"
  by (simp_all add: watch_join_def watch_ev_def search_join_def search_ev_def played_two_def pairs_with_def)

lemma played_two_reference: "covis_reference 3600 1 10 played_two 7 j = (if j = 8 then 7 / 110 else 0)"
proof -
  have "pair_key (play_row 2 8, play_row 1 7) = (min 7 j, max 7 j) \<longleftrightarrow> j = 8"
    unfolding key_of by auto
  then show ?thesis
    by (cases "j = 8") (simp_all add: covis_reference_def played_two_joins CovisBlendFloored_def CovisBlend_def CovisBlendCoWatch_def
        CovisShrunkCosine_def cooc_def total_of_def subjects_of_def Let_def count_distinct_def map_filter_def)
qed

lemma played_two_runs: "\<exists>s'. covisRollup floor_one True (True, True) played_two = (Inr (), s')"
  by (simp add: covisRollup_def inTx_Inr RebuildCovisNeighbors_def ClearCovisNeighbors_def played_two_def empty_db_def
      sql_delete_def list_ex_iff Let_def)

lemma neighbors_match_reference_witness:
  "map (\<lambda>r. (nb_neighbor_id r, nb_score r))
     (filter (\<lambda>r. nb_video_id r = 7) (covis_rows (snd (covisRollup floor_one True (True, True) played_two)))) = [(8, 7 / 110)]"
proof -
  obtain s' where s': "covisRollup floor_one True (True, True) played_two = (Inr (), s')" using played_two_runs by blast
  obtain L where L: "sorted_wrt edge_before L" "set L = {(8, 7 / 110 :: real)}"
    and m: "map (\<lambda>r. (nb_neighbor_id r, nb_score r)) (filter (\<lambda>r. nb_video_id r = 7) (covis_rows s')) = take 100 L"
    using neighbors_match_reference [OF s', of 7] by (auto simp: floor_one_simps played_two_reference)
  have "L = [(8, 7 / 110)]"
    using L by (cases L; cases "tl L") (auto simp: edge_before_def)
  then show ?thesis using m s' by simp
qed

lemma neighbors_above_floor_witness:
  "list_all (\<lambda>r. 1 \<le> subjects_of (watch_join 3600 played_two) (nb_video_id r) (nb_neighbor_id r)
      \<or> 1 \<le> subjects_of (search_join 3600 played_two) (nb_video_id r) (nb_neighbor_id r))
    (covis_rows (snd (covisRollup floor_one True (True, True) played_two)))"
proof -
  obtain s' where s': "covisRollup floor_one True (True, True) played_two = (Inr (), s')" using played_two_runs by blast
  show ?thesis using neighbors_above_floor [OF s'] by (auto simp: s' list_all_iff floor_one_simps)
qed

end
