(* ===== verification/Experiment.thy ===== *)
theory Experiment
  imports Tables Hashes
begin

text \<open>
  \<open>internal/experiment/experiment.go\<close>: the registry of experiments and the assignment of a
  subject to a variant. The registry is the map of the last refresh that succeeded.
\<close>

record variant =
  vaName :: string
  vaMin :: int
  vaMax :: int
  vaModelVersion :: string

record cached_experiment =
  eKey :: string
  eSalt :: string
  eVariants :: "variant list"

record assignment =
  aExperiment :: string
  aVariant :: string
  aBucket :: int
  aModelVersion :: string

type_synonym registry = "string \<Rightarrow> cached_experiment option"

definition ListEnabledExperiments :: "db \<Rightarrow> experiment_row list" where
  "ListEnabledExperiments s = sort_key xp_key (filter xp_enabled (experiments s))"

definition zero_variant :: variant where
  "zero_variant = \<lparr> vaName = [], vaMin = 0, vaMax = 0, vaModelVersion = [] \<rparr>"

definition dec_variant :: "variant dec" where
  "dec_variant = dec_obj [
     (''name'', fld dec_string vaName vaName_update), (''min'', fld dec_int64 vaMin vaMin_update),
     (''max'', fld dec_int64 vaMax vaMax_update), (''model_version'', fld dec_string vaModelVersion vaModelVersion_update)]"

definition dec_variants :: "json \<Rightarrow> variant list option" where
  "dec_variants j = map_option (\<lambda>vs. case vs of None \<Rightarrow> [] | Some xs \<Rightarrow> xs) (dec_slice zero_variant dec_variant j None)"

definition min_before :: "variant \<Rightarrow> variant \<Rightarrow> bool" where
  "min_before a b \<longleftrightarrow> vaMin a < vaMin b"

definition add_experiment :: "experiment_row \<Rightarrow> registry \<Rightarrow> registry" where
  "add_experiment row next =
     (case dec_variants (xp_variants row) of None \<Rightarrow> next
      | Some vs \<Rightarrow> next(xp_key row \<mapsto> \<lparr> eKey = xp_key row, eSalt = xp_salt row, eVariants = SliceStable min_before vs \<rparr>))"

text \<open>\<open>ok\<close>: whether the store answered.\<close>

definition Refresh :: "bool \<Rightarrow> db \<Rightarrow> registry \<Rightarrow> bool \<times> registry" where
  "Refresh ok s r = (if \<not> ok then (False, r) else (True, fold add_experiment (ListEnabledExperiments s) (\<lambda>k. None)))"

definition SubjectOf :: "string \<Rightarrow> string \<Rightarrow> string" where
  "SubjectOf userID sessionID = (if userID \<noteq> [] then userID else sessionID)"

definition Bucket :: "string \<Rightarrow> string \<Rightarrow> int" where
  "Bucket salt subject = uint (fnv1a64 (salt @ [CHR 0x00] @ subject) mod 100)"

definition Assign :: "registry \<Rightarrow> string \<Rightarrow> string \<Rightarrow> assignment option" where
  "Assign r key subject =
     (if subject = [] then None
      else (case r key of None \<Rightarrow> None
        | Some e \<Rightarrow> (let bucket = Bucket (eSalt e) subject
            in map_option (\<lambda>v. \<lparr> aExperiment = key, aVariant = vaName v, aBucket = bucket, aModelVersion = vaModelVersion v \<rparr>)
                 (find (\<lambda>v. vaMin v \<le> bucket \<and> bucket < vaMax v) (eVariants e)))))"

section \<open>Buckets\<close>

lemma Bucket_range: "0 \<le> Bucket salt subject \<and> Bucket salt subject < 100"
  by (simp add: Bucket_def uint_mod_distrib)

text \<open>The arms of an experiment tile the buckets from \<open>lo\<close> to \<open>hi\<close>.\<close>

fun tiles :: "int \<Rightarrow> int \<Rightarrow> variant list \<Rightarrow> bool" where
  "tiles lo hi [] = (lo = hi)"
| "tiles lo hi (v # vs) = (vaMin v = lo \<and> lo < vaMax v \<and> tiles (vaMax v) hi vs)"

lemma tiles_le: "tiles lo hi vs \<Longrightarrow> lo \<le> hi"
  by (induction vs arbitrary: lo) force+

lemma tiles_bound: "tiles lo hi vs \<Longrightarrow> v \<in> set vs \<Longrightarrow> lo \<le> vaMin v \<and> vaMin v < vaMax v"
  by (induction vs arbitrary: lo) force+

lemma tiles_one:
  "tiles lo hi vs \<Longrightarrow> lo \<le> b \<Longrightarrow> b < hi \<Longrightarrow>
   \<exists>v. find (\<lambda>v. vaMin v \<le> b \<and> b < vaMax v) vs = Some v \<and> v \<in> set vs
     \<and> (\<forall>u \<in> set vs. vaMin u \<le> b \<and> b < vaMax u \<longrightarrow> u = v)"
proof (induction vs arbitrary: lo)
  case (Cons v vs)
  then have t: "vaMin v = lo" "tiles (vaMax v) hi vs" by simp_all
  show ?case
  proof (cases "b < vaMax v")
    case True
    then have u: "\<not> vaMin u \<le> b" if "u \<in> set vs" for u using tiles_bound [OF t(2) that] by linarith
    have "find (\<lambda>v. vaMin v \<le> b \<and> b < vaMax v) (v # vs) = Some v" using True Cons.prems(2) t(1) by simp
    moreover have "\<forall>w \<in> set (v # vs). vaMin w \<le> b \<and> b < vaMax w \<longrightarrow> w = v"
      using u by (metis set_ConsD)
    ultimately show ?thesis by (meson list.set_intros(1))
  next
    case False
    then obtain u where u: "find (\<lambda>v. vaMin v \<le> b \<and> b < vaMax v) vs = Some u" "u \<in> set vs"
      "\<forall>w \<in> set vs. vaMin w \<le> b \<and> b < vaMax w \<longrightarrow> w = u"
      using Cons.IH [OF t(2) _ Cons.prems(3)] by (metis not_less)
    have "find (\<lambda>v. vaMin v \<le> b \<and> b < vaMax v) (v # vs) = Some u" using False u(1) by simp
    moreover have "\<forall>w \<in> set (v # vs). vaMin w \<le> b \<and> b < vaMax w \<longrightarrow> w = u"
      using u(3) False by (metis set_ConsD)
    ultimately show ?thesis using u(2) by (meson list.set_intros(2))
  qed
qed simp

interpretation by_min: strict_weak_order min_before
  by unfold_locales (auto simp: min_before_def)

lemma tiles_sorted: "tiles lo hi vs \<Longrightarrow> sorted_wrt (\<lambda>a b. vaMin a < vaMin b) vs"
proof (induction vs arbitrary: lo)
  case (Cons v vs)
  have "vaMin v < vaMin u" if "u \<in> set vs" for u
    using tiles_bound [of "vaMax v" hi vs u] Cons.prems that by auto
  then show ?case using Cons by auto
qed simp

text \<open>However the arms are stored, the registry holds them in order.\<close>

lemma SliceStable_tiles:
  assumes "tiles 0 100 ws" "mset vs = mset ws"
  shows "SliceStable min_before vs = ws"
proof -
  have s: "sorted_wrt (\<lambda>a b. vaMin a < vaMin b) ws" by (rule tiles_sorted [OF assms(1)])
  then have dist: "distinct (map vaMin ws)"
    by (induction ws) (auto simp: image_iff)
  have "sorted_wrt (\<lambda>a b. \<not> min_before b a) ws"
    using s by (rule sorted_wrt_mono_rel [rotated]) (simp add: min_before_def)
  then have id: "SliceStable min_before ws = ws" by (rule by_min.SliceStable_sorted)
  have "a = b" if "a \<in> set vs" "b \<in> set vs" "\<not> min_before a b" "\<not> min_before b a" for a b
  proof -
    have "set vs = set ws" using assms(2) by (metis set_mset_mset)
    then show ?thesis using that dist by (auto simp: min_before_def distinct_map dest: inj_onD)
  qed
  then show ?thesis using by_min.SliceStable_perm [OF assms(2)] id by simp
qed

lemma Refresh_lookup:
  assumes "distinct (map xp_key (experiments s))" "row \<in> set (experiments s)" "xp_enabled row"
    "dec_variants (xp_variants row) = Some vs"
  shows "snd (Refresh True s r) (xp_key row)
    = Some \<lparr> eKey = xp_key row, eSalt = xp_salt row, eVariants = SliceStable min_before vs \<rparr>"
proof -
  have "fold add_experiment rows r0 (xp_key row)
      = (if row \<in> set rows then Some \<lparr> eKey = xp_key row, eSalt = xp_salt row, eVariants = SliceStable min_before vs \<rparr>
         else r0 (xp_key row))" if "distinct (map xp_key rows)" "xp_key row \<in> xp_key ` set rows \<longrightarrow> row \<in> set rows" for rows r0
    using that
  proof (induction rows arbitrary: r0)
    case (Cons x rows)
    have ih: "fold add_experiment rows (add_experiment x r0) (xp_key row)
        = (if row \<in> set rows then Some \<lparr> eKey = xp_key row, eSalt = xp_salt row, eVariants = SliceStable min_before vs \<rparr>
           else add_experiment x r0 (xp_key row))"
      using Cons.prems by (intro Cons.IH) (auto simp: image_iff)
    show ?case
    proof (cases "x = row")
      case True
      then have "row \<notin> set rows" using Cons.prems(1) by auto
      have "add_experiment x r0 (xp_key row)
          = Some \<lparr> eKey = xp_key row, eSalt = xp_salt row, eVariants = SliceStable min_before vs \<rparr>"
        using True assms(4) by (simp add: add_experiment_def)
      then show ?thesis using ih True by simp
    next
      case False
      then have "row \<notin> set rows \<Longrightarrow> xp_key x \<noteq> xp_key row" using Cons.prems(2) by auto
      then have "row \<notin> set rows \<Longrightarrow> add_experiment x r0 (xp_key row) = r0 (xp_key row)"
        by (simp add: add_experiment_def split: option.split)
      then show ?thesis using ih False by simp
    qed
  qed simp
  moreover have "distinct (map xp_key (ListEnabledExperiments s))" "set (ListEnabledExperiments s) = {x \<in> set (experiments s). xp_enabled x}"
    using assms(1) by (simp_all add: ListEnabledExperiments_def distinct_map_filter)
      (metis distinct_map_filter distinct_sort mset_map mset_sort mset_eq_imp_distinct_iff)
  moreover have "row \<in> set (ListEnabledExperiments s)" using assms by (simp add: ListEnabledExperiments_def)
  ultimately show ?thesis by (simp add: Refresh_def)
qed

text \<open>Assignment is total and unambiguous: for an enabled experiment whose arms tile the hundred
  buckets - in whatever order they are stored - every subject with an id falls into exactly one arm,
  the same at every request; a subject without one falls into none.\<close>

theorem assignment_total:
  assumes "distinct (map xp_key (experiments s))" and "row \<in> set (experiments s)" and "xp_enabled row"
    and "dec_variants (xp_variants row) = Some vs" and "mset vs = mset ws" and "tiles 0 100 ws" and "subject \<noteq> []"
  shows "\<exists>v \<in> set vs. Assign (snd (Refresh True s r)) (xp_key row) subject
      = Some \<lparr> aExperiment = xp_key row, aVariant = vaName v, aBucket = Bucket (xp_salt row) subject, aModelVersion = vaModelVersion v \<rparr>
    \<and> vaMin v \<le> Bucket (xp_salt row) subject \<and> Bucket (xp_salt row) subject < vaMax v
    \<and> (\<forall>u \<in> set vs. vaMin u \<le> Bucket (xp_salt row) subject \<and> Bucket (xp_salt row) subject < vaMax u \<longrightarrow> u = v)
    \<and> Assign (snd (Refresh True s r)) (xp_key row) [] = None"
proof -
  let ?b = "Bucket (xp_salt row) subject"
  obtain v where v: "find (\<lambda>v. vaMin v \<le> ?b \<and> ?b < vaMax v) ws = Some v" "v \<in> set ws"
    "\<forall>u \<in> set ws. vaMin u \<le> ?b \<and> ?b < vaMax u \<longrightarrow> u = v"
    using tiles_one [OF assms(6), of ?b] Bucket_range by blast
  have b: "vaMin v \<le> ?b \<and> ?b < vaMax v" using v(1) by (auto simp: find_Some_iff)
  have s: "set vs = set ws" using assms(5) by (metis set_mset_mset)
  have "snd (Refresh True s r) (xp_key row) = Some \<lparr> eKey = xp_key row, eSalt = xp_salt row, eVariants = ws \<rparr>"
    using Refresh_lookup [OF assms(1-4), of r] SliceStable_tiles [OF assms(6,5)] by simp
  then have "Assign (snd (Refresh True s r)) (xp_key row) subject
      = Some \<lparr> aExperiment = xp_key row, aVariant = vaName v, aBucket = ?b, aModelVersion = vaModelVersion v \<rparr>"
    using v(1) assms(7) by (simp add: Assign_def)
  moreover have "Assign (snd (Refresh True s r)) (xp_key row) [] = None" by (simp add: Assign_def)
  ultimately show ?thesis using v(2,3) b unfolding s by blast
qed

definition sample_arms :: "json" where
  "sample_arms = JArr [JObj [(''name'', JStr ''b''), (''min'', JNum ''50''), (''max'', JNum ''100'')],
                       JObj [(''name'', JStr ''a''), (''min'', JNum ''0''), (''max'', JNum ''50'')]]"

definition sample_experiments :: db where
  "sample_experiments = empty_db \<lparr> experiments := [\<lparr> xp_key = ''ranker'', xp_description = [], xp_variants = sample_arms,
     xp_salt = ''s1'', xp_enabled = True, xp_created_at = 0 \<rparr>] \<rparr>"

lemma sample_arms_decode: "dec_variants sample_arms = Some
    [\<lparr> vaName = ''b'', vaMin = 50, vaMax = 100, vaModelVersion = [] \<rparr>, \<lparr> vaName = ''a'', vaMin = 0, vaMax = 50, vaModelVersion = [] \<rparr>]"
  by code_simp

theorem assignment_total_witness:
  "map_option aBucket (Assign (snd (Refresh True sample_experiments (\<lambda>k. None))) ''ranker'' ''u1'')
   = Some (Bucket ''s1'' ''u1'')"
  using assignment_total [of sample_experiments "hd (experiments sample_experiments)"
      "[\<lparr> vaName = ''b'', vaMin = 50, vaMax = 100, vaModelVersion = [] \<rparr>, \<lparr> vaName = ''a'', vaMin = 0, vaMax = 50, vaModelVersion = [] \<rparr>]"
      "[\<lparr> vaName = ''a'', vaMin = 0, vaMax = 50, vaModelVersion = [] \<rparr>, \<lparr> vaName = ''b'', vaMin = 50, vaMax = 100, vaModelVersion = [] \<rparr>]"
      "''u1''" "\<lambda>k. None"] sample_arms_decode
  by (auto simp: sample_experiments_def)

end
