(* ===== verification/Search.thy ===== *)
theory Search
  imports TextSearch Covis Experiment
begin

text \<open>
  \<open>internal/search\<close> with \<open>queries/search.sql\<close> and \<open>queries/advanced.sql\<close>: the search route in its simple mode, scored and
  paged by SQL, and in its advanced mode, where SQL recalls a window of candidates and a ranker orders it. A
  request runs its queries outside a transaction: \<open>dbs i\<close> is the database its \<open>i\<close>-th statement sees.
\<close>

section \<open>Arithmetic of PostgreSQL\<close>

text \<open>\<open>exp\<close> of a double precision raises where the result rounds to infinity or to zero; \<open>ln\<close> where its argument is
  not positive; \<open>1 + views\<close> where it leaves \<open>bigint\<close>.\<close>

definition pg_exp :: "real \<Rightarrow> sql_error + real" where
  "pg_exp x = (if exp x \<ge> 2 ^ 1024 - 2 ^ 970 \<or> exp x \<le> 1 / 2 ^ 1075 then Inl SqlError else Inr (exp x))"

definition pg_log_views :: "int \<Rightarrow> sql_error + real" where
  "pg_log_views v = (if v < 0 \<or> v + 1 \<ge> 2 ^ 63 then Inl SqlError else Inr (ln (1 + real_of_int v)))"

fun collect_rows :: "(sql_error + 'a) list \<Rightarrow> sql_error + 'a list" where
  "collect_rows [] = Inr []"
| "collect_rows (r # rs) = (case r of Inl e \<Rightarrow> Inl e | Inr x \<Rightarrow> (case collect_rows rs of Inl e \<Rightarrow> Inl e | Inr xs \<Rightarrow> Inr (x # xs)))"

section \<open>Simple search\<close>

record search_filter =
  sfTag :: "string option"
  sfCategory :: "string option"
  sfLanguage :: "string option"
  sfLicense :: "string option"

definition passes :: "search_filter \<Rightarrow> document \<Rightarrow> bool" where
  "passes f d \<longleftrightarrow> (case sfTag f of None \<Rightarrow> True | Some t \<Rightarrow> Some t \<in> set (d_tags d))
     \<and> (case sfCategory f of None \<Rightarrow> True | Some c \<Rightarrow> d_category d = Some c)
     \<and> (case sfLanguage f of None \<Rightarrow> True | Some l \<Rightarrow> d_language d = Some l)
     \<and> (case sfLicense f of None \<Rightarrow> True | Some l \<Rightarrow> d_license d = Some l)"

definition filter_text_ok :: "search_filter \<Rightarrow> bool" where
  "filter_text_ok f \<longleftrightarrow> pg_text_opt (sfTag f) \<and> pg_text_opt (sfCategory f) \<and> pg_text_opt (sfLanguage f) \<and> pg_text_opt (sfLicense f)"

definition text_match :: "pg \<Rightarrow> string \<Rightarrow> document \<Rightarrow> bool" where
  "text_match P q d \<longleftrightarrow> pg_ts_match P (tsv_texts d) q \<or> pg_similar P (pg_lower P (d_title d)) q \<or> Some q \<in> set (d_tags d)
     \<or> (case d_channel_name d of None \<Rightarrow> False | Some n \<Rightarrow> pg_lower P n = q)"

definition exact_flags :: "pg \<Rightarrow> string \<Rightarrow> document \<Rightarrow> real" where
  "exact_flags P q d = (if pg_lower P (d_title d) = q then 1 else 0)
     + (if pg_lower P (DerefStr (d_channel_name d)) = q then 1 / 2 else 0)
     + (if q \<in> set (map (pg_lower P) (List.map_filter id (d_tags d))) then 1 / 2 else 0)"

definition doc_time :: "document \<Rightarrow> int" where
  "doc_time d = (case d_published_at d of None \<Rightarrow> d_source_updated_at d | Some t \<Rightarrow> t)"

definition simple_score :: "pg \<Rightarrow> int \<Rightarrow> string \<Rightarrow> document \<Rightarrow> sql_error + real" where
  "simple_score P now q d =
     (case pg_log_views (d_views d) of Inl e \<Rightarrow> Inl e
      | Inr lnv \<Rightarrow> (case pg_exp (- ln 2 * (real_of_int (now - doc_time d) / real_of_int nanos / 2592000)) of Inl e \<Rightarrow> Inl e
          | Inr fresh \<Rightarrow> Inr (5 / 10 * pg_ts_rank P (tsv_texts d) q + 2 / 10 * pg_similarity P (pg_lower P (d_title d)) q
               + 1 / 10 * exact_flags P q d + 1 / 10 * (lnv / 20) + 1 / 10 * fresh)))"

definition simple_matches :: "pg \<Rightarrow> string \<Rightarrow> bool \<Rightarrow> search_filter \<Rightarrow> db \<Rightarrow> document list" where
  "simple_matches P q hs f s = filter (\<lambda>d. visible hs d \<and> text_match P q d \<and> passes f d) (documents s)"

definition hit_before :: "document \<times> real \<Rightarrow> document \<times> real \<Rightarrow> bool" where
  "hit_before a b \<longleftrightarrow> snd a > snd b \<or> (snd a = snd b \<and> (newer (d_published_at (fst a)) (d_published_at (fst b))
     \<or> (d_published_at (fst a) = d_published_at (fst b) \<and> d_video_id (fst a) < d_video_id (fst b))))"

definition SearchSimple ::
  "pg \<Rightarrow> int \<Rightarrow> string \<Rightarrow> bool \<Rightarrow> search_filter \<Rightarrow> int \<Rightarrow> int \<Rightarrow> db \<Rightarrow> sql_error + (uuid \<times> real) list" where
  "SearchSimple P now q hs f off lmt s =
     (if \<not> pg_text q \<or> \<not> filter_text_ok f then Inl SqlError
      else case collect_rows (map (\<lambda>d. case simple_score P now q d of Inl e \<Rightarrow> Inl e | Inr x \<Rightarrow> Inr (d, x)) (simple_matches P q hs f s)) of
             Inl e \<Rightarrow> Inl e
           | Inr rows \<Rightarrow> page_of lmt off (map (\<lambda>(d, x). (d_video_id d, x)) (SliceStable hit_before rows)))"

definition SearchSimpleCount :: "pg \<Rightarrow> string \<Rightarrow> bool \<Rightarrow> search_filter \<Rightarrow> db \<Rightarrow> sql_error + int" where
  "SearchSimpleCount P q hs f s =
     (if \<not> pg_text q \<or> \<not> filter_text_ok f then Inl SqlError else Inr (int (length (simple_matches P q hs f s))))"

section \<open>Advanced recall\<close>

record recall_row =
  rcDoc :: document
  rcTsRank :: real
  rcTrgmSim :: real
  rcExactFlags :: real
  rcImpressions :: int
  rcClicks :: int
  rcMeaningful :: int

definition engaged :: "string \<Rightarrow> uuid \<Rightarrow> db \<Rightarrow> engagement_row option" where
  "engaged q vid s = find (\<lambda>e. en_normalized_query e = q \<and> en_video_id e = vid) (query_video_engagement s)"

text \<open>\<open>recall\<close>: what matches the text, and what earned clicks for the query.\<close>

definition recalled :: "pg \<Rightarrow> string \<Rightarrow> bool \<Rightarrow> db \<Rightarrow> document \<Rightarrow> bool" where
  "recalled P q hs s d \<longleftrightarrow> visible hs d \<and> (text_match P q d
     \<or> (case engaged q (d_video_id d) s of None \<Rightarrow> False | Some e \<Rightarrow> en_clicks e > 0))"

definition recall_row_of :: "pg \<Rightarrow> string \<Rightarrow> db \<Rightarrow> document \<Rightarrow> recall_row" where
  "recall_row_of P q s d =
     (let e = engaged q (d_video_id d) s; n = (\<lambda>f. case e of None \<Rightarrow> 0 | Some r \<Rightarrow> f r)
      in \<lparr> rcDoc = d, rcTsRank = pg_ts_rank P (tsv_texts d) q, rcTrgmSim = pg_similarity P (pg_lower P (d_title d)) q,
           rcExactFlags = exact_flags P q d, rcImpressions = n en_impressions, rcClicks = n en_clicks,
           rcMeaningful = n en_meaningful_watches \<rparr>)"

definition recall_before :: "recall_row \<Rightarrow> recall_row \<Rightarrow> bool" where
  "recall_before a b \<longleftrightarrow> rcTsRank a > rcTsRank b \<or> (rcTsRank a = rcTsRank b \<and> (d_views (rcDoc a) > d_views (rcDoc b)
     \<or> (d_views (rcDoc a) = d_views (rcDoc b) \<and> d_video_id (rcDoc a) < d_video_id (rcDoc b))))"

definition recall_all :: "pg \<Rightarrow> string \<Rightarrow> bool \<Rightarrow> search_filter \<Rightarrow> db \<Rightarrow> recall_row list" where
  "recall_all P q hs f s = SliceStable recall_before
     (map (recall_row_of P q s) (filter (\<lambda>d. recalled P q hs s d \<and> passes f d) (documents s)))"

text \<open>A NULL among the tags of a row cannot be scanned into a \<open>[]string\<close>.\<close>

definition SearchAdvancedRecall :: "pg \<Rightarrow> string \<Rightarrow> bool \<Rightarrow> search_filter \<Rightarrow> int \<Rightarrow> db \<Rightarrow> sql_error + recall_row list" where
  "SearchAdvancedRecall P q hs f lmt s =
     (if \<not> pg_text q \<or> \<not> filter_text_ok f then Inl SqlError
      else case first_rows lmt (recall_all P q hs f s) of Inl e \<Rightarrow> Inl e
        | Inr rows \<Rightarrow> if list_ex (\<lambda>r. None \<in> set (d_tags (rcDoc r))) rows then Inl SqlError else Inr rows)"

definition NeighborAffinity :: "uuid \<Rightarrow> uuid list \<Rightarrow> db \<Rightarrow> (uuid \<times> real) list" where
  "NeighborAffinity user cands s = sum_by (map (\<lambda>(w, n). (nb_neighbor_id n, wp_weight w * nb_score n))
     (filter (\<lambda>(w, n). wp_user_id w = user \<and> nb_video_id n = wp_video_id w \<and> nb_neighbor_id n \<in> set cands)
       (List.product (user_watch_projection s) (item_neighbors s))))"

definition UserChannelAffinity :: "uuid \<Rightarrow> db \<Rightarrow> (uuid \<times> real) list" where
  "UserChannelAffinity user s = sum_by (List.map_filter
     (\<lambda>(w, d). if wp_user_id w = user \<and> d_video_id d = wp_video_id w then map_option (\<lambda>c. (c, wp_weight w)) (d_channel_id d) else None)
     (List.product (user_watch_projection s) (documents s)))"

section \<open>The service\<close>

definition searchDefaultLimit :: int where "searchDefaultLimit = 20"
definition searchMaxLimit :: int where "searchMaxLimit = 200"
definition recallLimit :: int where "recallLimit = 500"
definition maxRecallLimit :: int where "maxRecallLimit = 4 * recallLimit"

record search_request =
  qQuery :: string
  qLimit :: int
  qOffset :: int
  qTag :: string
  qCategory :: string
  qLanguage :: string
  qLicense :: string
  qHideSensitive :: bool
  qMode :: string
  qUserID :: string
  qSessionID :: string
  qPersonalized :: bool
  qSkipCount :: bool

record hit =
  hVideoID :: string
  hScore :: real

record search_response =
  pQuery :: string
  pIDs :: "hit list"
  pModelVersion :: string
  pExperiment :: "assignment option"
  pTotal :: "int option"
  pTotalIsLowerBound :: bool
  pHasMore :: bool

type_synonym ranker = "doc list \<Rightarrow> (string \<times> real) list"

text \<open>What a request runs in: the clock of the database and of the process, the databases its statements see, and the
  collaborators, each absent or present - the provider of rankers, the experiments, the recent videos of a session.\<close>

record search_env =
  se_dbnow :: int
  se_now :: int
  se_dbs :: "nat \<Rightarrow> db option"
  se_ranker :: "(string \<Rightarrow> ranker \<times> string) option"
  se_exp :: "registry option"
  se_session :: "(string \<Rightarrow> string list) option"

definition run_stmt :: "search_env \<Rightarrow> nat \<Rightarrow> (db \<Rightarrow> sql_error + 'a) \<Rightarrow> sql_error + 'a" where
  "run_stmt E i stmt = (case se_dbs E i of None \<Rightarrow> Inl SqlError | Some s \<Rightarrow> stmt s)"

definition filter_of :: "search_request \<Rightarrow> search_filter" where
  "filter_of req = \<lparr> sfTag = OptStr (qTag req), sfCategory = OptStr (qCategory req), sfLanguage = OptStr (qLanguage req),
     sfLicense = OptStr (qLicense req) \<rparr>"

definition reply_of :: "search_request \<Rightarrow> string \<Rightarrow> search_response" where
  "reply_of req version = \<lparr> pQuery = qQuery req, pIDs = [], pModelVersion = version, pExperiment = None, pTotal = None,
     pTotalIsLowerBound = False, pHasMore = False \<rparr>"

definition searchSimple :: "ext \<Rightarrow> pg \<Rightarrow> search_env \<Rightarrow> search_request \<Rightarrow> string \<Rightarrow> sql_error + search_response" where
  "searchSimple X P E req normalized =
     (let limt = Limit (qLimit req) searchDefaultLimit searchMaxLimit; offset = Offset (qOffset req); hs = qHideSensitive req
      in case run_stmt E 0 (SearchSimple P (se_dbnow E) normalized hs (filter_of req) (int32 offset) (int32 (limt + 1))) of
           Inl e \<Rightarrow> Inl e
         | Inr rows \<Rightarrow>
            (let resp = (reply_of req ''simple-v1'')\<lparr> pHasMore := int (length rows) > limt,
                   pIDs := map (\<lambda>(v, x). \<lparr> hVideoID = uuid_string X v, hScore = x \<rparr>) (take (nat limt) rows) \<rparr>
             in if qSkipCount req then Inr resp
                else (case run_stmt E 1 (SearchSimpleCount P normalized hs (filter_of req)) of
                    Inl e \<Rightarrow> Inl e | Inr total' \<Rightarrow> Inr (resp\<lparr> pTotal := Some total' \<rparr>))))"

text \<open>\<open>recallWindow\<close>: the sum wraps.\<close>

definition recallWindow :: "int \<Rightarrow> int \<Rightarrow> int" where
  "recallWindow offset limt =
     (let want' = int64 (offset + limt)
      in if want' \<le> recallLimit then recallLimit
         else if want' \<ge> maxRecallLimit then maxRecallLimit
         else (want' + recallLimit - 1) div recallLimit * recallLimit)"

definition heuristicRanker :: ranker where
  "heuristicRanker docs = Rerank docs DefaultAdvancedWeights"

definition pickRanker :: "search_env \<Rightarrow> string \<Rightarrow> ranker \<times> string" where
  "pickRanker E wantVersion = (case se_ranker E of None \<Rightarrow> (heuristicRanker, ''heuristic-v1'') | Some f \<Rightarrow> f wantVersion)"

definition doc_of_recall :: "ext \<Rightarrow> int \<Rightarrow> recall_row \<Rightarrow> doc" where
  "doc_of_recall X now r =
     (let d = rcDoc r
      in \<lparr> VideoID = uuid_string X (d_video_id d),
           ChannelID = (case d_channel_id d of None \<Rightarrow> [] | Some ch \<Rightarrow> uuid_string X ch),
           Feats = \<lparr> TextRank = rcTsRank r, TrgmSim = rcTrgmSim r, ExactFlags = rcExactFlags r, Views = real_of_int (d_views d),
             Age = AgeDays (d_published_at d) (d_source_updated_at d) now, Impressions = real_of_int (rcImpressions r),
             Clicks = real_of_int (rcClicks r), MeaningfulWatches = real_of_int (rcMeaningful r), PersonalAffinity = 0,
             ChannelAffinity = 0, SessionIntent = 0, LanguageMatch = False \<rparr> \<rparr>)"

text \<open>A Go map filled in the order of the rows, read with 0 for what is missing.\<close>

definition lookup0 :: "('k \<times> real) list \<Rightarrow> 'k \<Rightarrow> real" where
  "lookup0 kvs k = (case map_of (rev kvs) k of None \<Rightarrow> 0 | Some v \<Rightarrow> v)"

definition applyPersonalAffinity ::
  "ext \<Rightarrow> search_env \<Rightarrow> uuid \<Rightarrow> recall_row list \<Rightarrow> doc list \<Rightarrow> sql_error + doc list" where
  "applyPersonalAffinity X E uid rows docs =
     (case run_stmt E 1 (\<lambda>s. Inr (NeighborAffinity uid (map (d_video_id \<circ> rcDoc) rows) s)) of Inl e \<Rightarrow> Inl e
      | Inr affRows \<Rightarrow> (case run_stmt E 2 (\<lambda>s. Inr (UserChannelAffinity uid s)) of Inl e \<Rightarrow> Inl e
          | Inr chanRows \<Rightarrow>
             (let aff = lookup0 (map (\<lambda>(v, a). (uuid_string X v, a)) affRows)
              in Inr (map (\<lambda>(r, d). d\<lparr> Feats := (Feats d)\<lparr> PersonalAffinity := aff (VideoID d),
                   ChannelAffinity := (case d_channel_id (rcDoc r) of None \<Rightarrow> ChannelAffinity (Feats d)
                      | Some ch \<Rightarrow> lookup0 chanRows ch) \<rparr> \<rparr>) (zip rows docs)))))"

definition applySessionIntent ::
  "ext \<Rightarrow> search_env \<Rightarrow> string list \<Rightarrow> recall_row list \<Rightarrow> doc list \<Rightarrow> sql_error + doc list" where
  "applySessionIntent X E videos rows docs =
     (let seeds = ParseUUIDs (uuid_parse X) videos
      in if seeds = [] then Inr docs
         else (case run_stmt E 3 (\<lambda>s. Inr (NeighborScoresFromSeeds seeds (map (d_video_id \<circ> rcDoc) rows) s)) of Inl e \<Rightarrow> Inl e
            | Inr scores \<Rightarrow> (let intent = lookup0 (map (\<lambda>(v, a). (uuid_string X v, a)) scores)
                in Inr (map (\<lambda>d. d\<lparr> Feats := (Feats d)\<lparr> SessionIntent := intent (VideoID d) \<rparr> \<rparr>) docs))))"

text \<open>The candidates with their features, personal and session signals included.\<close>

definition advanced_docs :: "ext \<Rightarrow> search_env \<Rightarrow> search_request \<Rightarrow> recall_row list \<Rightarrow> sql_error + doc list" where
  "advanced_docs X E req rows =
     (let docs = map (doc_of_recall X (se_now E)) rows
      in case (if qPersonalized req then (case uuid_parse X (qUserID req) of None \<Rightarrow> Inr docs
               | Some uid \<Rightarrow> applyPersonalAffinity X E uid rows docs) else Inr docs) of
           Inl e \<Rightarrow> Inl e
         | Inr docs' \<Rightarrow> (case se_session E of None \<Rightarrow> Inr docs'
             | Some reader \<Rightarrow> if qSessionID req \<noteq> [] then applySessionIntent X E (reader (qSessionID req)) rows docs' else Inr docs'))"

definition searchAdvanced :: "ext \<Rightarrow> pg \<Rightarrow> search_env \<Rightarrow> search_request \<Rightarrow> string \<Rightarrow> sql_error + search_response" where
  "searchAdvanced X P E req normalized =
     (let subject = SubjectOf (qUserID req) (qSessionID req);
          assigned = (case se_exp E of None \<Rightarrow> None | Some reg \<Rightarrow> Assign reg ''search_ranker'' subject);
          (rank, version) = pickRanker E (case assigned of None \<Rightarrow> [] | Some a \<Rightarrow> aModelVersion a);
          resp = (reply_of req version)\<lparr> pExperiment := assigned \<rparr>;
          offset = Offset (qOffset req); limt = Limit (qLimit req) searchDefaultLimit searchMaxLimit;
          window = recallWindow offset limt
      in case run_stmt E 0 (SearchAdvancedRecall P normalized (qHideSensitive req) (filter_of req) (int32 (window + 1))) of
           Inl e \<Rightarrow> Inl e
         | Inr found \<Rightarrow>
            (let truncated = int (length found) > window; rows = take (nat window) found;
                 resp1 = resp\<lparr> pTotal := Some (int (length rows)), pTotalIsLowerBound := truncated \<rparr>
             in if rows = [] then Inr resp1
                else (case advanced_docs X E req rows of Inl e \<Rightarrow> Inl e
                  | Inr docs \<Rightarrow>
                     (let ranked = rank docs; hits = map (\<lambda>(v, x). \<lparr> hVideoID = v, hScore = x \<rparr>) (take (nat limt) (drop (nat offset) ranked))
                      in Inr (resp1\<lparr> pIDs := hits,
                           pHasMore := offset + int (length hits) < int (length ranked) \<or> (truncated \<and> window < maxRecallLimit) \<rparr>)))))"

definition Search :: "ext \<Rightarrow> pg \<Rightarrow> search_env \<Rightarrow> search_request \<Rightarrow> sql_error + search_response" where
  "Search X P E req =
     (let normalized = normalize X (qQuery req)
      in if normalized = [] then Inr ((reply_of req ''simple-v1'')\<lparr> pTotal := Some 0 \<rparr>)
         else if qMode req = ''advanced'' then searchAdvanced X P E req normalized
         else searchSimple X P E req normalized)"

section \<open>Rankers\<close>

text \<open>What the service relies on: a ranker orders the candidates and gives each of them a score.\<close>

locale reranker =
  fixes rank :: ranker
  assumes permutes: "mset (map fst (rank docs)) = mset (map VideoID docs)"
begin

lemma length_rank [simp]: "length (rank docs) = length docs"
  using arg_cong [OF permutes, of size] by simp

lemma set_rank: "fst ` set (rank docs) = VideoID ` set docs"
  using arg_cong [OF permutes, of set_mset] by simp

lemma distinct_rank: "distinct (map VideoID docs) \<Longrightarrow> distinct (map fst (rank docs))"
  by (metis permutes mset_eq_imp_distinct_iff)

end

lemma RerankWith_permutes: "mset (map fst (RerankWith scorer p docs)) = mset (map VideoID docs)"
proof -
  let ?s = "SliceStable scored_before (map (\<lambda>d. (d, scorer (normalize_feats docs (Feats d)))) docs)"
  let ?out = "if p > 0 then SliceStable scored_before (penalize p (\<lambda>c. 0) ?s) else ?s"
  have "mset (map fst (RerankWith scorer p docs)) = image_mset VideoID (image_mset fst (mset ?out))"
    by (simp add: RerankWith_def Let_def image_mset.compositionality comp_def split_beta)
  also have "image_mset fst (mset ?out) = mset docs"
    by (simp add: image_mset.compositionality comp_def)
  finally show ?thesis by simp
qed

interpretation scored: reranker "RerankWith scorer p" for scorer p
  by unfold_locales (rule RerankWith_permutes)

interpretation heuristic: reranker heuristicRanker
  by unfold_locales (unfold heuristicRanker_def Rerank_def, rule scored.permutes)

definition ranks_candidates :: "search_env \<Rightarrow> bool" where
  "ranks_candidates E \<longleftrightarrow> (\<forall>v. reranker (fst (pickRanker E v)))"

lemma ranks_without_provider: "se_ranker E = None \<Longrightarrow> ranks_candidates E"
  by (simp add: ranks_candidates_def pickRanker_def heuristic.reranker_axioms)

section \<open>The recall window\<close>

lemma recallWindow_steps:
  assumes "0 \<le> offset" and "0 \<le> limt" and "offset + limt < 2 ^ 63"
  shows "recallWindow offset limt =
    (if offset + limt \<le> 500 then 500 else if offset + limt \<le> 1000 then 1000 else if offset + limt \<le> 1500 then 1500 else 2000)"
proof -
  have "int64 (offset + limt) = offset + limt" using assms by (simp add: int64_id in_int64_def)
  then show ?thesis by (auto simp: recallWindow_def Let_def recallLimit_def maxRecallLimit_def)
qed

lemma recallWindow_bounds: "500 \<le> recallWindow offset limt \<and> recallWindow offset limt \<le> 2000"
  by (auto simp: recallWindow_def Let_def recallLimit_def maxRecallLimit_def)

section \<open>What each step keeps\<close>

lemma run_stmt_Inr: "run_stmt E i stmt = Inr x \<Longrightarrow> \<exists>s. se_dbs E i = Some s \<and> stmt s = Inr x"
  by (simp add: run_stmt_def split: option.splits)

lemma applyPersonalAffinity_docs:
  "applyPersonalAffinity X E uid rows docs = Inr docs' \<Longrightarrow> length rows = length docs \<Longrightarrow> map VideoID docs' = map VideoID docs"
proof -
  assume a: "applyPersonalAffinity X E uid rows docs = Inr docs'" and l: "length rows = length docs"
  have "map VideoID docs' = map (VideoID \<circ> snd) (zip rows docs)"
    using a by (auto simp: applyPersonalAffinity_def Let_def split_beta split: sum.split_asm)
  also have "\<dots> = map VideoID (map snd (zip rows docs))" by simp
  finally show "map VideoID docs' = map VideoID docs" using l by (simp only: map_snd_zip)
qed

lemma applySessionIntent_docs:
  "applySessionIntent X E vs rows docs = Inr docs' \<Longrightarrow> map VideoID docs' = map VideoID docs"
  by (auto simp: applySessionIntent_def Let_def comp_def split: sum.split_asm if_split_asm)

lemma advanced_docs_ids:
  assumes "advanced_docs X E req rows = Inr docs"
  shows "map VideoID docs = map (\<lambda>r. uuid_string X (d_video_id (rcDoc r))) rows"
proof -
  have base: "map VideoID (map (doc_of_recall X now) rows) = map (\<lambda>r. uuid_string X (d_video_id (rcDoc r))) rows" for now
    by (simp add: doc_of_recall_def Let_def)
  show ?thesis
    using assms base applyPersonalAffinity_docs [where rows = rows] applySessionIntent_docs
    by (auto simp: advanced_docs_def Let_def simp del: map_map split: sum.split_asm if_split_asm option.split_asm)
qed

lemma advanced_docs_length: "advanced_docs X E req rows = Inr docs \<Longrightarrow> length docs = length rows"
  using advanced_docs_ids [of X E req rows docs] by (metis length_map)

lemma collect_rows_map: "collect_rows (map f xs) = Inr ys \<Longrightarrow> ys = map (\<lambda>x. projr (f x)) xs \<and> (\<forall>x \<in> set xs. \<exists>y. f x = Inr y)"
  by (induction xs arbitrary: ys) (auto split: sum.split_asm)

lemma limt_range: "0 < Limit v searchDefaultLimit searchMaxLimit" "Limit v searchDefaultLimit searchMaxLimit \<le> 200"
  by (simp_all add: Limit_def searchDefaultLimit_def searchMaxLimit_def)

lemma recall_fetch:
  assumes "SearchAdvancedRecall P q hs f (int32 (recallWindow offset limt + 1)) s = Inr found"
  shows "found = take (nat (recallWindow offset limt) + 1) (recall_all P q hs f s)"
proof -
  have "int32 (recallWindow offset limt + 1) = recallWindow offset limt + 1"
    using recallWindow_bounds [of offset limt] by (simp add: int32_id in_int32_def)
  moreover have "nat (recallWindow offset limt + 1) = nat (recallWindow offset limt) + 1"
    using recallWindow_bounds [of offset limt] by (simp add: nat_add_distrib)
  ultimately show ?thesis
    using assms recallWindow_bounds [of offset limt]
    by (auto simp: SearchAdvancedRecall_def first_rows_def page_of_def split: if_split_asm sum.split_asm)
qed

section \<open>What a reply holds\<close>

abbreviation page_offset :: "search_request \<Rightarrow> int" where
  "page_offset req \<equiv> Offset (qOffset req)"

abbreviation page_limit :: "search_request \<Rightarrow> int" where
  "page_limit req \<equiv> Limit (qLimit req) searchDefaultLimit searchMaxLimit"

definition mk_hit :: "string \<times> real \<Rightarrow> hit" where
  "mk_hit vx = \<lparr> hVideoID = fst vx, hScore = snd vx \<rparr>"

lemma searchSimple_fetch:
  assumes "searchSimple X P E req q = Inr r"
  shows "\<exists>rows. run_stmt E 0 (SearchSimple P (se_dbnow E) q (qHideSensitive req) (filter_of req) (int32 (page_offset req))
      (int32 (page_limit req + 1))) = Inr rows
    \<and> pIDs r = map (\<lambda>(v, x). mk_hit (uuid_string X v, x)) (take (nat (page_limit req)) rows)
    \<and> (pHasMore r \<longleftrightarrow> int (length rows) > page_limit req)
    \<and> pTotalIsLowerBound r = False
    \<and> (if qSkipCount req then pTotal r = None
       else run_stmt E 1 (SearchSimpleCount P q (qHideSensitive req) (filter_of req)) = Inr (the (pTotal r)) \<and> pTotal r \<noteq> None)"
proof -
  obtain rows where rows: "run_stmt E 0 (SearchSimple P (se_dbnow E) q (qHideSensitive req) (filter_of req) (int32 (page_offset req))
      (int32 (page_limit req + 1))) = Inr rows"
    using assms unfolding searchSimple_def Let_def
    by (cases "run_stmt E 0 (SearchSimple P (se_dbnow E) q (qHideSensitive req) (filter_of req) (int32 (page_offset req))
      (int32 (page_limit req + 1)))") (simp_all only: sum.case, simp_all)
  show ?thesis
  proof (cases "qSkipCount req")
    case True
    then show ?thesis using assms rows unfolding searchSimple_def Let_def
      by (simp only: sum.case if_True) (auto simp: mk_hit_def reply_of_def)
  next
    case False
    then show ?thesis using assms rows unfolding searchSimple_def Let_def
      by (cases "run_stmt E 1 (SearchSimpleCount P q (qHideSensitive req) (filter_of req))")
        (simp_all only: sum.case if_False, auto simp: mk_hit_def reply_of_def)
  qed
qed

definition wanted_version :: "search_env \<Rightarrow> search_request \<Rightarrow> string" where
  "wanted_version E req = (case (case se_exp E of None \<Rightarrow> None | Some reg \<Rightarrow> Assign reg ''search_ranker''
      (SubjectOf (qUserID req) (qSessionID req))) of None \<Rightarrow> [] | Some a \<Rightarrow> aModelVersion a)"

lemma searchAdvanced_fetch:
  assumes "searchAdvanced X P E req q = Inr r"
  defines "w \<equiv> recallWindow (page_offset req) (page_limit req)" and "rank \<equiv> fst (pickRanker E (wanted_version E req))"
  shows "\<exists>found. run_stmt E 0 (SearchAdvancedRecall P q (qHideSensitive req) (filter_of req) (int32 (w + 1))) = Inr found
    \<and> pTotal r = Some (int (length (take (nat w) found))) \<and> (pTotalIsLowerBound r \<longleftrightarrow> int (length found) > w)
    \<and> (if take (nat w) found = [] then pIDs r = [] \<and> \<not> pHasMore r
       else \<exists>docs. advanced_docs X E req (take (nat w) found) = Inr docs
          \<and> pIDs r = map mk_hit (take (nat (page_limit req)) (drop (nat (page_offset req)) (rank docs)))
          \<and> (pHasMore r \<longleftrightarrow> page_offset req + int (length (pIDs r)) < int (length (rank docs))
               \<or> (int (length found) > w \<and> w < maxRecallLimit)))"
proof -
  obtain rank' version where rank: "pickRanker E (wanted_version E req) = (rank', version)" by (cases "pickRanker E (wanted_version E req)")
  then have rank': "rank = rank'" by (simp add: rank_def)
  have eq: "searchAdvanced X P E req q = Inr r" using assms(1) .
  obtain found where found: "run_stmt E 0 (SearchAdvancedRecall P q (qHideSensitive req) (filter_of req) (int32 (w + 1))) = Inr found"
    using eq unfolding searchAdvanced_def Let_def wanted_version_def [symmetric] rank prod.case w_def
    by (cases "run_stmt E 0 (SearchAdvancedRecall P q (qHideSensitive req) (filter_of req) (int32 (recallWindow (page_offset req) (page_limit req) + 1)))")
      (simp_all only: sum.case, simp_all)
  show ?thesis
  proof (cases "take (nat w) found = []")
    case True
    then show ?thesis
      using eq found unfolding searchAdvanced_def Let_def wanted_version_def [symmetric] rank prod.case w_def [symmetric]
      by (simp only: sum.case if_True) (auto simp: reply_of_def)
  next
    case False
    then obtain docs where docs: "advanced_docs X E req (take (nat w) found) = Inr docs"
      using eq found unfolding searchAdvanced_def Let_def wanted_version_def [symmetric] rank prod.case w_def [symmetric]
      by (cases "advanced_docs X E req (take (nat w) found)") (simp_all only: sum.case if_False, simp_all)
    then show ?thesis
      using eq found False unfolding searchAdvanced_def Let_def wanted_version_def [symmetric] rank prod.case w_def [symmetric] rank'
      by (simp only: sum.case if_False) (auto simp: reply_of_def mk_hit_def [abs_def] split_beta)
  qed
qed

lemma searchAdvanced_reply:
  assumes "searchAdvanced X P E req q = Inr r" and "ranks_candidates E"
  defines "w \<equiv> nat (recallWindow (page_offset req) (page_limit req))"
  shows "\<exists>s ranked. se_dbs E 0 = Some s
    \<and> mset (map fst ranked) = mset (map (\<lambda>r. uuid_string X (d_video_id (rcDoc r)))
         (take w (recall_all P q (qHideSensitive req) (filter_of req) s)))
    \<and> pIDs r = map mk_hit (take (nat (page_limit req)) (drop (nat (page_offset req)) ranked))
    \<and> pTotal r = Some (int (min w (length (recall_all P q (qHideSensitive req) (filter_of req) s))))
    \<and> (pTotalIsLowerBound r \<longleftrightarrow> w < length (recall_all P q (qHideSensitive req) (filter_of req) s))
    \<and> (pHasMore r \<longleftrightarrow> page_offset req + int (length (pIDs r)) < int (length ranked)
         \<or> (w < length (recall_all P q (qHideSensitive req) (filter_of req) s) \<and> w < 2000))"
proof -
  let ?w = "recallWindow (page_offset req) (page_limit req)"
  have w: "?w = int w" "500 \<le> w" using recallWindow_bounds [of "page_offset req" "page_limit req"] by (auto simp: w_def le_nat_iff)
  define rank where "rank = fst (pickRanker E (wanted_version E req))"
  have rank: "reranker rank" using assms(2) unfolding ranks_candidates_def rank_def by blast
  from searchAdvanced_fetch [OF assms(1), folded rank_def] obtain found where
    found: "run_stmt E 0 (SearchAdvancedRecall P q (qHideSensitive req) (filter_of req) (int32 (?w + 1))) = Inr found"
    and tot: "pTotal r = Some (int (length (take (nat ?w) found)))" "pTotalIsLowerBound r \<longleftrightarrow> int (length found) > ?w"
    and rest: "if take (nat ?w) found = [] then pIDs r = [] \<and> \<not> pHasMore r
       else \<exists>docs. advanced_docs X E req (take (nat ?w) found) = Inr docs
          \<and> pIDs r = map mk_hit (take (nat (page_limit req)) (drop (nat (page_offset req)) (rank docs)))
          \<and> (pHasMore r \<longleftrightarrow> page_offset req + int (length (pIDs r)) < int (length (rank docs))
               \<or> (int (length found) > ?w \<and> ?w < maxRecallLimit))" by blast
  obtain s where s: "se_dbs E 0 = Some s"
    "SearchAdvancedRecall P q (qHideSensitive req) (filter_of req) (int32 (?w + 1)) s = Inr found" using run_stmt_Inr [OF found] by blast
  let ?L = "recall_all P q (qHideSensitive req) (filter_of req) s"
  have f: "found = take (w + 1) ?L" using recall_fetch [OF s(2)] w(1) by simp
  have rows: "take (nat ?w) found = take w ?L" "int (length found) > ?w \<longleftrightarrow> w < length ?L" "length (take w ?L) = min w (length ?L)"
    using w(1) by (auto simp: f)
  have lim2000: "?w < maxRecallLimit \<longleftrightarrow> w < 2000" using w(1) by (simp add: maxRecallLimit_def recallLimit_def)
  note tot = tot [unfolded rows] and rest = rest [unfolded rows lim2000]
  show ?thesis
  proof (cases "take w ?L = []")
    case True
    then have L: "?L = []" using w(2) by simp
    show ?thesis
      using rest tot s(1) by (intro exI [of _ s] exI [of _ "[]"]) (simp add: L not_less)
  next
    case False
    have "\<exists>docs. advanced_docs X E req (take w ?L) = Inr docs
          \<and> pIDs r = map mk_hit (take (nat (page_limit req)) (drop (nat (page_offset req)) (rank docs)))
          \<and> (pHasMore r \<longleftrightarrow> page_offset req + int (length (pIDs r)) < int (length (rank docs)) \<or> (w < length ?L \<and> w < 2000))"
      using rest False by (simp only: if_False)
    then obtain docs where docs: "advanced_docs X E req (take w ?L) = Inr docs"
      and p: "pIDs r = map mk_hit (take (nat (page_limit req)) (drop (nat (page_offset req)) (rank docs)))"
      and m: "pHasMore r \<longleftrightarrow> page_offset req + int (length (pIDs r)) < int (length (rank docs)) \<or> (w < length ?L \<and> w < 2000)"
      by (elim exE conjE) (rule that)
    have ids: "mset (map fst (rank docs)) = mset (map (\<lambda>r. uuid_string X (d_video_id (rcDoc r))) (take w ?L))"
      using advanced_docs_ids [OF docs] reranker.permutes [OF rank, of docs] by simp
    show ?thesis
      using s(1) ids p m tot rows(3) by (intro exI [of _ s] exI [of _ "rank docs"]) simp
  qed
qed

text \<open>The ranking simple mode pages over.\<close>

definition simple_ranking :: "pg \<Rightarrow> int \<Rightarrow> string \<Rightarrow> bool \<Rightarrow> search_filter \<Rightarrow> db \<Rightarrow> (document \<times> real) list" where
  "simple_ranking P now q hs f s =
     SliceStable hit_before (map (\<lambda>d. (d, projr (simple_score P now q d))) (simple_matches P q hs f s))"

lemma SearchSimple_Inr:
  assumes "SearchSimple P now q hs f off lmt s = Inr rows"
  shows "0 \<le> off \<and> 0 \<le> lmt
    \<and> rows = take (nat lmt) (drop (nat off) (map (\<lambda>(d, x). (d_video_id d, x)) (simple_ranking P now q hs f s)))"
proof -
  let ?g = "\<lambda>d. case simple_score P now q d of Inl e \<Rightarrow> Inl e | Inr x \<Rightarrow> Inr (d, x)"
  obtain rs where rs: "collect_rows (map ?g (simple_matches P q hs f s)) = Inr rs"
    and rows: "page_of lmt off (map (\<lambda>(d, x). (d_video_id d, x)) (SliceStable hit_before rs)) = Inr rows"
    using assms by (auto simp: SearchSimple_def split: if_split_asm sum.split_asm)
  have "rs = map (\<lambda>d. (d, projr (simple_score P now q d))) (simple_matches P q hs f s)"
    using collect_rows_map [OF rs] by (auto split: sum.split_asm sum.split)
  then show ?thesis
    using rows by (auto simp: page_of_def simple_ranking_def split: if_split_asm)
qed

lemma searchSimple_reply:
  assumes "searchSimple X P E req q = Inr r" and "page_offset req < 2 ^ 31"
  shows "\<exists>s. se_dbs E 0 = Some s \<and> (let R = simple_ranking P (se_dbnow E) q (qHideSensitive req) (filter_of req) s in
      pIDs r = map (\<lambda>(d, x). mk_hit (uuid_string X (d_video_id d), x)) (take (nat (page_limit req)) (drop (nat (page_offset req)) R))
      \<and> (pHasMore r \<longleftrightarrow> page_offset req + page_limit req < int (length R)))"
proof -
  have o: "- (2 ^ 31) \<le> page_offset req" by (rule order_trans [OF _ Offset_nonneg]) simp
  have i: "int32 (page_offset req) = page_offset req" "int32 (page_limit req + 1) = page_limit req + 1"
    using assms(2) o limt_range [of "qLimit req"] by (auto intro!: int32_id simp: in_int32_def)
  from searchSimple_fetch [OF assms(1), unfolded i] obtain rows where
    rows: "run_stmt E 0 (SearchSimple P (se_dbnow E) q (qHideSensitive req) (filter_of req) (page_offset req) (page_limit req + 1)) = Inr rows"
    and p: "pIDs r = map (\<lambda>(v, x). mk_hit (uuid_string X v, x)) (take (nat (page_limit req)) rows)"
      "pHasMore r \<longleftrightarrow> int (length rows) > page_limit req" by blast
  obtain s where s: "se_dbs E 0 = Some s"
    "SearchSimple P (se_dbnow E) q (qHideSensitive req) (filter_of req) (page_offset req) (page_limit req + 1) s = Inr rows"
    using run_stmt_Inr [OF rows] by blast
  let ?R = "simple_ranking P (se_dbnow E) q (qHideSensitive req) (filter_of req) s"
  have rows_eq: "rows = map (\<lambda>(d, x). (d_video_id d, x)) (take (Suc (nat (page_limit req))) (drop (nat (page_offset req)) ?R))"
    using SearchSimple_Inr [OF s(2)] limt_range(1) [of "qLimit req"] by (simp add: take_map drop_map nat_add_distrib)
  obtain n :: nat where n: "page_offset req = int n" by (metis Offset_nonneg nonneg_int_cases)
  obtain l :: nat where l: "page_limit req = int l" by (metis limt_range(1) less_imp_le nonneg_int_cases)
  have more: "int (length rows) > page_limit req \<longleftrightarrow> page_offset req + page_limit req < int (length ?R)"
    by (auto simp: rows_eq n l min_def)
  show ?thesis
    using s(1) p more by (intro exI [of _ s]) (simp add: Let_def rows_eq take_map min_def split_beta comp_def)
qed

section \<open>Properties\<close>

definition may_show :: "ext \<Rightarrow> pg \<Rightarrow> search_env \<Rightarrow> search_request \<Rightarrow> string \<Rightarrow> bool" where
  "may_show X P E req vid \<longleftrightarrow> (\<exists>s. se_dbs E 0 = Some s \<and> (\<exists>d \<in> set (documents s).
     visible (qHideSensitive req) d \<and> passes (filter_of req) d \<and> recalled P (normalize X (qQuery req)) (qHideSensitive req) s d
     \<and> vid = uuid_string X (d_video_id d)))"

lemma recall_all_set: "r \<in> set (recall_all P q hs f s) \<Longrightarrow>
    \<exists>d \<in> set (documents s). rcDoc r = d \<and> visible hs d \<and> passes f d \<and> recalled P q hs s d"
  by (auto simp: recall_all_def recall_row_of_def Let_def recalled_def)

lemma simple_ranking_set: "(d, x) \<in> set (simple_ranking P now q hs f s) \<Longrightarrow>
    d \<in> set (documents s) \<and> visible hs d \<and> passes f d \<and> recalled P q hs s d"
  by (auto simp: simple_ranking_def simple_matches_def recalled_def)

lemma searchSimple_page:
  assumes "searchSimple X P E req q = Inr r"
  shows "\<exists>s rows. se_dbs E 0 = Some s \<and> set rows \<subseteq> set (simple_ranking P (se_dbnow E) q (qHideSensitive req) (filter_of req) s)
    \<and> (distinct (map d_video_id (documents s)) \<longrightarrow> distinct (map (\<lambda>(d, x). d_video_id d) rows))
    \<and> length rows \<le> nat (page_limit req) \<and> pIDs r = map (\<lambda>(d, x). mk_hit (uuid_string X (d_video_id d), x)) rows"
proof -
  from searchSimple_fetch [OF assms] obtain rows where
    rows: "run_stmt E 0 (SearchSimple P (se_dbnow E) q (qHideSensitive req) (filter_of req) (int32 (page_offset req)) (int32 (page_limit req + 1))) = Inr rows"
    and p: "pIDs r = map (\<lambda>(v, x). mk_hit (uuid_string X v, x)) (take (nat (page_limit req)) rows)" by blast
  obtain s where s: "se_dbs E 0 = Some s"
    "SearchSimple P (se_dbnow E) q (qHideSensitive req) (filter_of req) (int32 (page_offset req)) (int32 (page_limit req + 1)) s = Inr rows"
    using run_stmt_Inr [OF rows] by blast
  let ?R = "simple_ranking P (se_dbnow E) q (qHideSensitive req) (filter_of req) s"
  obtain m n where R: "rows = map (\<lambda>(d, x). (d_video_id d, x)) (take m (drop n ?R))"
    using SearchSimple_Inr [OF s(2)] by (auto simp: take_map drop_map)
  let ?rows = "take (nat (page_limit req)) (take m (drop n ?R))"
  have "distinct (map (\<lambda>(d, x). d_video_id d) ?rows)" if "distinct (map d_video_id (documents s))"
  proof -
    have "distinct (map d_video_id (filter Q (documents s)))" for Q using that by (simp add: distinct_map_filter)
    then have "distinct (map (\<lambda>(d, x). d_video_id d) ?R)"
      by (simp add: simple_ranking_def simple_matches_def comp_def)
    then show ?thesis by (metis distinct_drop distinct_take drop_map take_map)
  qed
  then show ?thesis
    using s(1) p by (intro exI [of _ s] exI [of _ ?rows]) (auto simp: R take_map split_beta comp_def dest: in_set_takeD in_set_dropD)
qed

lemma Search_cases:
  assumes "Search X P E req = Inr r"
  obtains "pIDs r = []" "pHasMore r = False" "pTotal r = Some 0" "normalize X (qQuery req) = []"
  | "qMode req = ''advanced''" "searchAdvanced X P E req (normalize X (qQuery req)) = Inr r" "normalize X (qQuery req) \<noteq> []"
  | "qMode req \<noteq> ''advanced''" "searchSimple X P E req (normalize X (qQuery req)) = Inr r" "normalize X (qQuery req) \<noteq> []"
  using assms by (auto simp: Search_def Let_def reply_of_def split: if_split_asm)

lemma uuid_string_inj: "ext_ok X \<Longrightarrow> inj_on (uuid_string X) A"
  using uuid_string_inject by (auto intro: inj_onI)

lemma recall_all_distinct:
  assumes "ext_ok X" and "distinct (map d_video_id (documents s))"
  shows "distinct (map (\<lambda>r. uuid_string X (d_video_id (rcDoc r))) (take w (recall_all P q hs f s)))"
proof -
  have "distinct (map d_video_id (filter Q (documents s)))" for Q using assms(2) by (simp add: distinct_map_filter)
  then have "distinct (map (\<lambda>r. d_video_id (rcDoc r)) (recall_all P q hs f s))"
    by (simp add: recall_all_def recall_row_of_def Let_def comp_def)
  then have "distinct (map (uuid_string X) (map (\<lambda>r. d_video_id (rcDoc r)) (take w (recall_all P q hs f s))))"
    using uuid_string_inj [OF assms(1)] by (simp add: distinct_map del: map_map flip: take_map)
  then show ?thesis by (simp add: comp_def)
qed

lemma advanced_page_sound:
  assumes "searchAdvanced X P E req (normalize X (qQuery req)) = Inr r" and "ranks_candidates E" and "ext_ok X"
    and "\<And>s. se_dbs E 0 = Some s \<Longrightarrow> distinct (map d_video_id (documents s))"
  shows "(\<forall>h \<in> set (pIDs r). may_show X P E req (hVideoID h)) \<and> int (length (pIDs r)) \<le> page_limit req
    \<and> distinct (map hVideoID (pIDs r))"
proof -
  let ?w = "nat (recallWindow (page_offset req) (page_limit req))" and ?id = "\<lambda>r. uuid_string X (d_video_id (rcDoc r))"
  from searchAdvanced_reply [OF assms(1,2)] obtain s ranked where s: "se_dbs E 0 = Some s"
    and ids: "mset (map fst ranked)
      = mset (map ?id (take ?w (recall_all P (normalize X (qQuery req)) (qHideSensitive req) (filter_of req) s)))"
    and page: "pIDs r = map mk_hit (take (nat (page_limit req)) (drop (nat (page_offset req)) ranked))" by blast
  let ?L = "recall_all P (normalize X (qQuery req)) (qHideSensitive req) (filter_of req) s"
  have "may_show X P E req (fst vx)" if "vx \<in> set ranked" for vx
  proof -
    have "fst vx \<in> ?id ` set (take ?w ?L)"
      using that arg_cong [OF ids, of set_mset] by (metis imageI list.set_map set_mset_mset)
    then obtain c where c: "c \<in> set ?L" "fst vx = ?id c" by (auto dest: in_set_takeD)
    show ?thesis using recall_all_set [OF c(1)] c(2) s unfolding may_show_def by blast
  qed
  then have "\<forall>h \<in> set (pIDs r). may_show X P E req (hVideoID h)"
    by (auto simp: page mk_hit_def dest!: in_set_takeD in_set_dropD)
  moreover have "distinct (map fst ranked)"
    using recall_all_distinct [OF assms(3) assms(4) [OF s]] mset_eq_imp_distinct_iff [OF ids] by simp
  then have "distinct (map hVideoID (pIDs r))"
    by (simp add: page mk_hit_def comp_def) (metis distinct_drop distinct_take drop_map take_map)
  ultimately show ?thesis using limt_range(1) [of "qLimit req"] by (simp add: page)
qed

lemma simple_page_sound:
  assumes "searchSimple X P E req (normalize X (qQuery req)) = Inr r" and "ext_ok X"
    and "\<And>s. se_dbs E 0 = Some s \<Longrightarrow> distinct (map d_video_id (documents s))"
  shows "(\<forall>h \<in> set (pIDs r). may_show X P E req (hVideoID h)) \<and> int (length (pIDs r)) \<le> page_limit req
    \<and> distinct (map hVideoID (pIDs r))"
proof -
  from searchSimple_page [OF assms(1)] obtain s rows where s: "se_dbs E 0 = Some s"
    and sub: "set rows \<subseteq> set (simple_ranking P (se_dbnow E) (normalize X (qQuery req)) (qHideSensitive req) (filter_of req) s)"
    and dist: "distinct (map (\<lambda>(d, x). d_video_id d) rows)" and len: "length rows \<le> nat (page_limit req)"
    and page: "pIDs r = map (\<lambda>(d, x). mk_hit (uuid_string X (d_video_id d), x)) rows" using assms(3) by blast
  have "may_show X P E req (uuid_string X (d_video_id d))" if "(d, x) \<in> set rows" for d x
    using simple_ranking_set [OF subsetD [OF sub that]] s unfolding may_show_def by blast
  then have "\<forall>h \<in> set (pIDs r). may_show X P E req (hVideoID h)" by (auto simp: page mk_hit_def)
  moreover have ids: "map hVideoID (pIDs r) = map (uuid_string X) (map (\<lambda>(d, x). d_video_id d) rows)"
    by (simp add: page mk_hit_def split_beta comp_def)
  have "distinct (map hVideoID (pIDs r))"
    unfolding ids using dist uuid_string_inj [OF assms(2)] by (simp only: distinct_map [of "uuid_string X"])
  moreover have "int (length (pIDs r)) \<le> page_limit req"
    using len limt_range(1) [of "qLimit req"] by (simp add: page le_nat_iff)
  ultimately show ?thesis by blast
qed

text \<open>C9. A search shows only what it may show. In either mode, every hit is the id of a document that, in the
  database the page was read from, is eligible - and not sensitive, when the request hides those -, passes
  the filters of the request and matches its text or earned a click for it; a page has at most as many hits as
  the request asks for, and no video twice.\<close>

theorem search_shows_visible_matches:
  assumes "Search X P E req = Inr r" and "ranks_candidates E" and "ext_ok X"
    and "\<And>s. se_dbs E 0 = Some s \<Longrightarrow> distinct (map d_video_id (documents s))"
  shows "(\<forall>h \<in> set (pIDs r). may_show X P E req (hVideoID h)) \<and> int (length (pIDs r)) \<le> page_limit req
    \<and> distinct (map hVideoID (pIDs r))"
  using assms(1)
proof (cases rule: Search_cases)
  case 1
  then show ?thesis using limt_range(1) [of "qLimit req"] by simp
next
  case 2
  show ?thesis by (rule advanced_page_sound [OF 2(2) assms(2-4)])
next
  case 3
  show ?thesis by (rule simple_page_sound [OF 3(2) assms(3,4)])
qed

section \<open>Paging\<close>

definition next_page :: "search_request \<Rightarrow> search_request" where
  "next_page req = req\<lparr> qOffset := page_offset req + page_limit req \<rparr>"

lemma next_page_simps [simp]:
  "qQuery (next_page req) = qQuery req" "qLimit (next_page req) = qLimit req" "qHideSensitive (next_page req) = qHideSensitive req"
  "qMode (next_page req) = qMode req" "filter_of (next_page req) = filter_of req" "qSkipCount (next_page req) = qSkipCount req"
  "page_offset (next_page req) = page_offset req + page_limit req"
  using limt_range(1) [of "qLimit req"] Offset_nonneg [of "qOffset req"]
  by (auto simp: next_page_def filter_of_def Offset_def)

lemma length_simple_ranking: "length (simple_ranking P now q hs f s) = length (simple_matches P q hs f s)"
  by (simp add: simple_ranking_def)

lemma window_arith:
  fixes w w' n o' l :: int
  assumes "w = (if o' + l \<le> 500 then 500 else if o' + l \<le> 1000 then 1000 else if o' + l \<le> 1500 then 1500 else 2000)"
    and "w' = (if o' + l + l \<le> 500 then 500 else if o' + l + l \<le> 1000 then 1000 else if o' + l + l \<le> 1500 then 1500 else 2000)"
    and "0 < l" and "0 \<le> o'" and "0 \<le> n"
  shows "(o' + l < min w n \<or> (w < n \<and> w < 2000)) \<longleftrightarrow> o' + l < min w' n"
  using assms by (auto split: if_splits)

lemma page_more: "0 < l \<Longrightarrow> o' + min l (m - o') < m \<longleftrightarrow> o' + l < (m :: nat)"
  by auto

lemma page_numbers:
  obtains o' l' where "page_offset req = int o'" "page_limit req = int l'" "0 < l'"
proof -
  obtain o' where "page_offset req = int o'" using Offset_nonneg [of "qOffset req"] by (rule nonneg_int_cases)
  moreover have "0 < page_limit req" using limt_range(1) by simp
  ultimately show thesis using that by (metis pos_int_cases)
qed

lemma recall_windows:
  assumes "page_offset req + page_limit req + page_limit req < 2 ^ 31" and "0 \<le> n"
  shows "(page_offset req + page_limit req < min (recallWindow (page_offset req) (page_limit req)) n
      \<or> (recallWindow (page_offset req) (page_limit req) < n \<and> recallWindow (page_offset req) (page_limit req) < 2000))
    \<longleftrightarrow> page_offset req + page_limit req < min (recallWindow (page_offset req + page_limit req) (page_limit req)) n"
  using assms limt_range(1) [of "qLimit req"] Offset_nonneg [of "qOffset req"]
  by (intro window_arith recallWindow_steps; simp)

lemma advanced_has_more:
  assumes "searchAdvanced X P E req (normalize X (qQuery req)) = Inr r"
    and "searchAdvanced X P E (next_page req) (normalize X (qQuery req)) = Inr r'" and "ranks_candidates E"
    and "page_offset req + page_limit req + page_limit req < 2 ^ 31"
  shows "(pHasMore r \<longleftrightarrow> pIDs r' \<noteq> [])
    \<and> (\<forall>t. pTotal r = Some t \<and> \<not> pTotalIsLowerBound r \<longrightarrow> (pHasMore r \<longleftrightarrow> page_offset req + page_limit req < t))"
proof -
  let ?w = "recallWindow (page_offset req) (page_limit req)"
    and ?w' = "recallWindow (page_offset req + page_limit req) (page_limit req)"
    and ?id = "\<lambda>r. uuid_string X (d_video_id (rcDoc r))"
  from searchAdvanced_reply [OF assms(1,3)] obtain s ranked where s: "se_dbs E 0 = Some s"
    and ids: "mset (map fst ranked)
      = mset (map ?id (take (nat ?w) (recall_all P (normalize X (qQuery req)) (qHideSensitive req) (filter_of req) s)))"
    and page: "pIDs r = map mk_hit (take (nat (page_limit req)) (drop (nat (page_offset req)) ranked))"
    and tot: "pTotal r = Some (int (min (nat ?w) (length (recall_all P (normalize X (qQuery req)) (qHideSensitive req) (filter_of req) s))))"
      "pTotalIsLowerBound r \<longleftrightarrow> nat ?w < length (recall_all P (normalize X (qQuery req)) (qHideSensitive req) (filter_of req) s)"
    and more: "pHasMore r \<longleftrightarrow> page_offset req + int (length (pIDs r)) < int (length ranked)
       \<or> (nat ?w < length (recall_all P (normalize X (qQuery req)) (qHideSensitive req) (filter_of req) s) \<and> nat ?w < 2000)" by blast
  from searchAdvanced_reply [OF assms(2,3)] obtain ranked' where
    ids': "mset (map fst ranked')
      = mset (map ?id (take (nat ?w') (recall_all P (normalize X (qQuery req)) (qHideSensitive req) (filter_of req) s)))"
    and page': "pIDs r' = map mk_hit (take (nat (page_limit req)) (drop (nat (page_offset req + page_limit req)) ranked'))"
    by (simp add: s) blast
  define n where "n = length (recall_all P (normalize X (qQuery req)) (qHideSensitive req) (filter_of req) s)"
  obtain o' l' where ol: "page_offset req = int o'" "page_limit req = int l'" "0 < l'" by (rule page_numbers)
  have "0 \<le> ?w" "0 \<le> ?w'"
    using recallWindow_bounds [of "page_offset req" "page_limit req"]
      recallWindow_bounds [of "page_offset req + page_limit req" "page_limit req"] by simp_all
  then obtain w w' where pos: "?w = int w" "?w' = int w'" by (metis nonneg_int_cases)
  have len: "length ranked = min w n" "length ranked' = min w' n"
    using arg_cong [OF ids, of size] arg_cong [OF ids', of size] by (simp_all add: n_def pos)
  have m: "pHasMore r \<longleftrightarrow> o' + l' < min w n \<or> (w < n \<and> w < 2000)"
    using page_more [OF ol(3), of o' "min w n"] unfolding more n_def [symmetric] pos
    by (simp add: page len ol min.commute flip: of_nat_add)
  also have "\<dots> \<longleftrightarrow> o' + l' < min w' n"
    using recall_windows [OF assms(4), of "int n"] unfolding pos unfolding ol(1,2) by auto
  also have "\<dots> \<longleftrightarrow> pIDs r' \<noteq> []" using ol by (simp add: page' nat_add_distrib len) linarith
  finally show ?thesis using m tot unfolding pos n_def [symmetric] by (auto simp: ol)
qed

lemma simple_has_more:
  assumes "searchSimple X P E req (normalize X (qQuery req)) = Inr r"
    and "searchSimple X P E (next_page req) (normalize X (qQuery req)) = Inr r'"
    and "page_offset req + page_limit req + page_limit req < 2 ^ 31" and "se_dbs E 1 = se_dbs E 0"
  shows "(pHasMore r \<longleftrightarrow> pIDs r' \<noteq> []) \<and> (\<forall>t. pTotal r = Some t \<longrightarrow> (pHasMore r \<longleftrightarrow> page_offset req + page_limit req < t))"
proof -
  let ?R = "\<lambda>s. simple_ranking P (se_dbnow E) (normalize X (qQuery req)) (qHideSensitive req) (filter_of req) s"
  have small: "page_offset req < 2 ^ 31" "page_offset (next_page req) < 2 ^ 31" using assms(3) limt_range(1) [of "qLimit req"] by simp_all
  obtain o' l' where ol: "page_offset req = int o'" "page_limit req = int l'" "0 < l'" by (rule page_numbers)
  from searchSimple_reply [OF assms(1) small(1)] obtain s where s: "se_dbs E 0 = Some s"
    and more: "pHasMore r \<longleftrightarrow> page_offset req + page_limit req < int (length (?R s))"
    by (auto simp: Let_def)
  from searchSimple_reply [OF assms(2) small(2)] have
    page': "pIDs r' = map (\<lambda>(d, x). mk_hit (uuid_string X (d_video_id d), x))
      (take (nat (page_limit req)) (drop (nat (page_offset req + page_limit req)) (?R s)))"
    by (auto simp: Let_def s)
  have "pIDs r' \<noteq> [] \<longleftrightarrow> page_offset req + page_limit req < int (length (?R s))"
    using ol by (simp add: page' nat_add_distrib) linarith
  moreover have "int (length (?R s)) = t" if "pTotal r = Some t" for t
    using searchSimple_fetch [OF assms(1)] that s assms(4)
    by (auto simp: run_stmt_def SearchSimpleCount_def length_simple_ranking split: if_split_asm)
  ultimately show ?thesis using more by blast
qed

text \<open>C23. The paging contract. Over a database that does not change, with rankers that only order, and as long as the next page
  ends below row 2^31 - beyond that the offset of the simple mode wraps, see \<open>search_offset_wraps\<close> - \<open>has_more\<close> says exactly
  whether the next page of the request holds a result - in the advanced mode across the blocks
  of the recall window too -, and when the total is not marked as a lower bound it says so as well: there is more exactly
  when the page ends before the total.\<close>

theorem paging_contract:
  assumes "Search X P E req = Inr r" and "Search X P E (next_page req) = Inr r'" and "ranks_candidates E"
    and "page_offset req + page_limit req + page_limit req < 2 ^ 31" and "se_dbs E 1 = se_dbs E 0"
  shows "(pHasMore r \<longleftrightarrow> pIDs r' \<noteq> [])
    \<and> (\<forall>t. pTotal r = Some t \<and> \<not> pTotalIsLowerBound r \<longrightarrow> (pHasMore r \<longleftrightarrow> page_offset req + page_limit req < t))"
  using assms(1)
proof (cases rule: Search_cases)
  case 1
  then have "pIDs r' = []" using assms(2) by (auto simp: Search_def reply_of_def)
  moreover have "\<not> page_offset req + page_limit req < 0"
    using Offset_nonneg [of "qOffset req"] limt_range(1) [of "qLimit req"] by linarith
  ultimately show ?thesis using 1 by simp
next
  case 2
  then have "searchAdvanced X P E (next_page req) (normalize X (qQuery req)) = Inr r'"
    using assms(2) by (simp add: Search_def Let_def)
  from advanced_has_more [OF 2(2) this assms(3,4)] show ?thesis .
next
  case 3
  then have "searchSimple X P E (next_page req) (normalize X (qQuery req)) = Inr r'"
    using assms(2) by (simp add: Search_def Let_def)
  from simple_has_more [OF 3(2) this assms(4,5)] show ?thesis by blast
qed

section \<open>Deep offsets\<close>

lemma int32_shift: "int32 (x + 2 ^ 32) = int32 x"
  by (simp add: int32_def signed_take_bit_eq_iff_take_bit_eq take_bit_eq_mod)

lemma int32_high: "2 ^ 31 \<le> x \<Longrightarrow> x < 2 ^ 32 \<Longrightarrow> int32 x < 0"
  using int32_shift [of "x - 2 ^ 32"] int32_id [of "x - 2 ^ 32"] by (simp add: in_int32_def)

lemma simple_offset:
  "searchSimple X P E (req\<lparr> qOffset := a \<rparr>) q = searchSimple X P E (req\<lparr> qOffset := b \<rparr>) q"
  if "int32 (Offset a) = int32 (Offset b)"
proof -
  have e: "reply_of (req\<lparr> qOffset := x \<rparr>) v = reply_of req v" "filter_of (req\<lparr> qOffset := x \<rparr>) = filter_of req"
    "qOffset (req\<lparr> qOffset := x \<rparr>) = x" "qLimit (req\<lparr> qOffset := x \<rparr>) = qLimit req"
    "qHideSensitive (req\<lparr> qOffset := x \<rparr>) = qHideSensitive req" "qSkipCount (req\<lparr> qOffset := x \<rparr>) = qSkipCount req" for x v
    by (simp_all add: filter_of_def reply_of_def)
  show ?thesis unfolding searchSimple_def Let_def e that by (rule refl)
qed

lemma negative_offset_fails: "off < 0 \<Longrightarrow> SearchSimple P now q hs f off lmt s = Inl SqlError"
  by (cases "SearchSimple P now q hs f off lmt s") (auto dest: SearchSimple_Inr intro: sql_error.exhaust)

text \<open>Offsets of the simple mode wrap. The offset reaches SQL as a 32 bit integer: a request 2^32 rows deeper gets the same
  reply, so a client that pages that far sees the first pages again, and an offset between 2^31 and 2^32, which
  the request parser accepts, is a failed query.\<close>

theorem search_offset_wraps:
  assumes "qMode req \<noteq> ''advanced''" and "0 \<le> deep" and "normalize X (qQuery req) \<noteq> []"
  shows "Search X P E (req\<lparr> qOffset := deep + 2 ^ 32 \<rparr>) = Search X P E (req\<lparr> qOffset := deep \<rparr>)
    \<and> (2 ^ 31 \<le> deep \<and> deep < 2 ^ 32 \<longrightarrow> Search X P E (req\<lparr> qOffset := deep \<rparr>) = Inl SqlError)"
proof
  have "int32 (Offset (deep + 2 ^ 32)) = int32 (Offset deep)"
    using assms(2) int32_shift [of deep] by (simp add: Offset_def)
  from simple_offset [OF this, of X P E req] assms(1,3)
  show "Search X P E (req\<lparr> qOffset := deep + 2 ^ 32 \<rparr>) = Search X P E (req\<lparr> qOffset := deep \<rparr>)"
    by (simp add: Search_def Let_def)
next
  show "2 ^ 31 \<le> deep \<and> deep < 2 ^ 32 \<longrightarrow> Search X P E (req\<lparr> qOffset := deep \<rparr>) = Inl SqlError"
  proof
    assume "2 ^ 31 \<le> deep \<and> deep < 2 ^ 32"
    then have "int32 (Offset deep) < 0" using int32_high [of deep] by (simp add: Offset_def)
    then show "Search X P E (req\<lparr> qOffset := deep \<rparr>) = Inl SqlError"
      using assms(1,3) by (auto simp: Search_def Let_def searchSimple_def run_stmt_def negative_offset_fails split: option.split)
  qed
qed

section \<open>Two matching titles\<close>

definition two_cats :: db where
  "two_cats = empty_db\<lparr> documents := [titled 1 ''cat'', titled 2 ''Cat''] \<rparr>"

definition all_alike :: ranker where
  "all_alike docs = map (\<lambda>d. (VideoID d, 1)) docs"

definition cat_env :: "db option \<Rightarrow> search_env" where
  "cat_env s = \<lparr> se_dbnow = 0, se_now = 0, se_dbs = (\<lambda>i. s), se_ranker = Some (\<lambda>v. (all_alike, ''m1'')), se_exp = None,
     se_session = None \<rparr>"

definition cat_request :: "string \<Rightarrow> int \<Rightarrow> search_request" where
  "cat_request md off = \<lparr> qQuery = ''cat'', qLimit = 1, qOffset = off, qTag = [], qCategory = [], qLanguage = [], qLicense = [],
     qHideSensitive = False, qMode = md, qUserID = [], qSessionID = [], qPersonalized = False, qSkipCount = False \<rparr>"

lemma cat_ranks: "ranks_candidates (cat_env s)"
proof -
  have "reranker all_alike" by unfold_locales (simp add: all_alike_def comp_def)
  then show ?thesis by (simp add: ranks_candidates_def pickRanker_def cat_env_def)
qed

definition cat_reply :: "int \<Rightarrow> search_response" where
  "cat_reply off = projr (Search sample_ext sample_pg (cat_env (Some two_cats)) (cat_request ''advanced'' off))"

lemma cat_recall: "\<exists>a b. SearchAdvancedRecall sample_pg ''cat'' False (filter_of (cat_request ''advanced'' 0)) (int32 501) two_cats = Inr [a, b]
    \<and> d_video_id (rcDoc a) = 1"
proof -
  have "case SearchAdvancedRecall sample_pg ''cat'' False (filter_of (cat_request ''advanced'' 0)) (int32 501) two_cats of
      Inl e \<Rightarrow> False | Inr rs \<Rightarrow> map (\<lambda>r. d_video_id (rcDoc r)) rs = [1, 2]" by code_simp
  then show ?thesis by (auto split: sum.split_asm)
qed

lemma cat_normal: "normalize sample_ext ''cat'' = ''cat''"
  by code_simp

lemma uuid_string_one: "uuid_string sample_ext 1 = ''1''"
  by code_simp

lemma cat_reply_eq:
  assumes "off = 0 \<or> off = 1"
  shows "Search sample_ext sample_pg (cat_env (Some two_cats)) (cat_request ''advanced'' off) = Inr (cat_reply off)"
    and "off = 0 \<Longrightarrow> map hVideoID (pIDs (cat_reply off)) = [''1''] \<and> pHasMore (cat_reply off)"
proof -
  obtain a b where ab: "SearchAdvancedRecall sample_pg ''cat'' False (filter_of (cat_request ''advanced'' 0)) (int32 501) two_cats = Inr [a, b]"
    "d_video_id (rcDoc a) = 1" using cat_recall by blast
  have r: "filter_of (cat_request ''advanced'' 1) = filter_of (cat_request ''advanced'' 0)"
    "recallWindow 0 1 = 500" "recallWindow 1 1 = 500" "Offset 0 = 0" "Offset 1 = 1" "Limit 1 searchDefaultLimit searchMaxLimit = 1"
    by (auto simp: filter_of_def cat_request_def recallWindow_steps Offset_def Limit_def searchDefaultLimit_def searchMaxLimit_def)
  have p: "pickRanker (cat_env s) v = (all_alike, ''m1'')" for s v by (simp add: pickRanker_def cat_env_def)
  have q: "qQuery (cat_request m o') = ''cat''" "qMode (cat_request m o') = m" "qOffset (cat_request m o') = o'"
    "qLimit (cat_request m o') = 1" "\<not> qHideSensitive (cat_request m o')" "\<not> qPersonalized (cat_request m o')" for m o'
    by (simp_all add: cat_request_def)
  have f: "run_stmt (cat_env (Some two_cats)) 0 (SearchAdvancedRecall sample_pg ''cat'' False (filter_of (cat_request ''advanced'' 0)) (int32 501))
      = Inr [a, b]" using ab(1) by (simp add: run_stmt_def cat_env_def)
  have d: "advanced_docs sample_ext (cat_env s) (cat_request m o') rows = Inr (map (doc_of_recall sample_ext 0) rows)" for s m o' rows
    by (simp add: advanced_docs_def cat_env_def q)
  have "Search sample_ext sample_pg (cat_env (Some two_cats)) (cat_request ''advanced'' off) = Inr R
      \<and> (off = 0 \<longrightarrow> map hVideoID (pIDs R) = [''1''] \<and> pHasMore R)" if "R = cat_reply off" for R
    using assms unfolding that
    by (auto simp: cat_reply_def Search_def q cat_normal searchAdvanced_def Let_def p r f d all_alike_def doc_of_recall_def ab(2)
        uuid_string_one take_Cons')
  then show "Search sample_ext sample_pg (cat_env (Some two_cats)) (cat_request ''advanced'' off) = Inr (cat_reply off)"
    and "off = 0 \<Longrightarrow> map hVideoID (pIDs (cat_reply off)) = [''1''] \<and> pHasMore (cat_reply off)" by blast+
qed

lemma cat_reply_ok: "Search sample_ext sample_pg (cat_env (Some two_cats)) (cat_request ''advanced'' 0) = Inr (cat_reply 0)"
    "Search sample_ext sample_pg (cat_env (Some two_cats)) (cat_request ''advanced'' 1) = Inr (cat_reply 1)"
  and cat_reply_hits: "map hVideoID (pIDs (cat_reply 0)) = [''1'']" "pHasMore (cat_reply 0)"
  using cat_reply_eq [of 0] cat_reply_eq [of 1] by simp_all

lemma search_shows_visible_matches_witness:
  "map hVideoID (pIDs (cat_reply 0)) = [''1'']
   \<and> list_all (\<lambda>h. may_show sample_ext sample_pg (cat_env (Some two_cats)) (cat_request ''advanced'' 0) (hVideoID h)) (pIDs (cat_reply 0))"
proof -
  have "distinct (map d_video_id (documents two_cats))" by code_simp
  then show ?thesis
    using search_shows_visible_matches [OF cat_reply_ok(1) cat_ranks ext_ok_sample] cat_reply_hits(1)
    by (simp add: list_all_iff cat_env_def)
qed

lemma paging_contract_witness: "pIDs (cat_reply 1) \<noteq> []"
proof -
  have n: "next_page (cat_request ''advanced'' 0) = cat_request ''advanced'' 1"
    by (simp add: next_page_def cat_request_def Offset_def Limit_def searchDefaultLimit_def searchMaxLimit_def)
  have "page_offset (cat_request ''advanced'' 0) + page_limit (cat_request ''advanced'' 0) + page_limit (cat_request ''advanced'' 0) < 2 ^ 31"
    by code_simp
  then show ?thesis
    using paging_contract [OF cat_reply_ok(1) _ cat_ranks, unfolded n, OF cat_reply_ok(2)] cat_reply_hits(2)
    by (simp add: cat_env_def)
qed

lemma search_offset_wraps_witness:
  "Search sample_ext sample_pg (cat_env (Some two_cats)) (cat_request [] (3 * 2 ^ 30)) = Inl SqlError"
proof -
  show ?thesis
    using cat_normal search_offset_wraps [of "cat_request [] 0" "3 * 2 ^ 30" sample_ext sample_pg "cat_env (Some two_cats)"]
    by (simp add: cat_request_def)
qed

end
