(* ===== verification/Model.thy ===== *)
theory Model
  imports Search Rollups Hashes
begin

text \<open>
  \<open>internal/model\<close>: the registry of trained rankers, the loader that serves the active one, and the evaluation of
  the shadow ones against logged impressions. The \<open>leaves\<close> library, which reads and runs an artifact,
  is a parameter; so is the disk: \<open>disk i path\<close> is what the \<open>i\<close>-th reading of \<open>path\<close> finds.
\<close>

section \<open>Artifacts\<close>

record 'e leaves =
  LGEnsemble :: "string \<Rightarrow> 'e option"
  NEstimators :: "'e \<Rightarrow> int"
  ens_NFeatures :: "'e \<Rightarrow> int"
  PredictSingle :: "'e \<Rightarrow> real list \<Rightarrow> real"

record 'e leaves_model =
  lm_ens :: 'e
  lm_nFeatures :: int

type_synonym disk = "nat \<Rightarrow> string \<Rightarrow> string option"

datatype load_error = Unreadable | ShaMismatch | NotLoaded | NoTrees

definition fileSHA256 :: "disk \<Rightarrow> string \<Rightarrow> load_error + string" where
  "fileSHA256 disk path = (case disk 0 path of None \<Rightarrow> Inl Unreadable | Some b \<Rightarrow> Inr (sha256_hex b))"

text \<open>The file is read twice: for the sum and for the model.\<close>

definition LoadLeaves :: "'e leaves \<Rightarrow> disk \<Rightarrow> string \<Rightarrow> string \<Rightarrow> load_error + 'e leaves_model" where
  "LoadLeaves L disk path expectedSHA =
     (case (if expectedSHA = [] then Inr expectedSHA else fileSHA256 disk path) of Inl e \<Rightarrow> Inl e
      | Inr got \<Rightarrow>
          if got \<noteq> expectedSHA then Inl ShaMismatch
          else (case Option.bind (disk 1 path) (LGEnsemble L) of None \<Rightarrow> Inl NotLoaded
            | Some ens \<Rightarrow> if NEstimators L ens \<le> 0 then Inl NoTrees
                else Inr \<lparr> lm_ens = ens, lm_nFeatures = ens_NFeatures L ens \<rparr>))"

definition Predict :: "'e leaves \<Rightarrow> 'e leaves_model \<Rightarrow> real list \<Rightarrow> real" where
  "Predict L m features =
     (let features = (if int (length features) < lm_nFeatures m
            then features @ replicate (nat (lm_nFeatures m) - length features) 0 else features)
      in PredictSingle L (lm_ens m) features)"

section \<open>Rankers\<close>

definition HeuristicVersion :: string where "HeuristicVersion = ''heuristic-v1''"

record 'e learned =
  ld_model :: "'e leaves_model"
  ld_version :: string
  ld_penalty :: real

definition Learned_Rerank :: "'e leaves \<Rightarrow> 'e learned \<Rightarrow> ranker" where
  "Learned_Rerank L l docs = RerankWith (\<lambda>f. Predict L (ld_model l) (ModelFeatureVector f)) (ld_penalty l) docs"

section \<open>The registry\<close>

definition active_before :: "model_row \<Rightarrow> model_row \<Rightarrow> bool" where
  "active_before a b = (case (md_activated_at a, md_activated_at b) of
     (Some t, Some u) \<Rightarrow> t > u \<or> (t = u \<and> md_id a > md_id b)
   | (Some t, None) \<Rightarrow> True | (None, Some u) \<Rightarrow> False | (None, None) \<Rightarrow> md_id a > md_id b)"

definition GetActiveModel :: "string \<Rightarrow> db \<Rightarrow> model_row option" where
  "GetActiveModel kind s = (case SliceStable active_before
     (filter (\<lambda>m. md_kind m = kind \<and> md_status m = ''active'') (models s)) of [] \<Rightarrow> None | m # ms \<Rightarrow> Some m)"

definition GetModelByVersion :: "string \<Rightarrow> string \<Rightarrow> db \<Rightarrow> model_row option" where
  "GetModelByVersion kind version s = sql_get (\<lambda>m. md_kind m = kind \<and> md_version m = version) (models s)"

definition trained_before :: "model_row \<Rightarrow> model_row \<Rightarrow> bool" where
  "trained_before a b \<longleftrightarrow> md_trained_at a > md_trained_at b \<or> (md_trained_at a = md_trained_at b \<and> md_id a > md_id b)"

definition ListModels :: "db \<Rightarrow> model_row list" where
  "ListModels s = SliceStable (\<lambda>a b. md_kind a < md_kind b \<or> (md_kind a = md_kind b \<and> trained_before a b)) (models s)"

definition ListShadowModels :: "string \<Rightarrow> db \<Rightarrow> model_row list" where
  "ListShadowModels kind s = SliceStable trained_before
     (filter (\<lambda>m. md_kind m = kind \<and> md_status m = ''shadow'') (models s))"

definition RetireActiveModels :: "string \<Rightarrow> db \<Rightarrow> db" where
  "RetireActiveModels kind s = s\<lparr> models := sql_update (\<lambda>m. md_kind m = kind \<and> md_status m = ''active'')
     (\<lambda>m. m\<lparr> md_status := ''retired'' \<rparr>) (models s) \<rparr>"

definition ActivateModel :: "int \<Rightarrow> string \<Rightarrow> string \<Rightarrow> db \<Rightarrow> db" where
  "ActivateModel now kind version s = s\<lparr> models := sql_update (\<lambda>m. md_kind m = kind \<and> md_version m = version)
     (\<lambda>m. m\<lparr> md_status := ''active'', md_activated_at := Some now \<rparr>) (models s) \<rparr>"

definition UpdateModelMetrics :: "json \<Rightarrow> int \<Rightarrow> db \<Rightarrow> db" where
  "UpdateModelMetrics j mid s = s\<lparr> models := sql_update (\<lambda>m. md_id m = mid) (\<lambda>m. m\<lparr> md_metrics := j \<rparr>) (models s) \<rparr>"

section \<open>Paths\<close>

fun split_path :: "string \<Rightarrow> string list" where
  "split_path [] = [[]]"
| "split_path (c # cs) = (if c = CHR ''/'' then [] # split_path cs
     else (case split_path cs of [] \<Rightarrow> [[c]] | s # ss \<Rightarrow> (c # s) # ss))"

text \<open>The elements kept so far are in reverse.\<close>

fun clean_elems :: "bool \<Rightarrow> string list \<Rightarrow> string list \<Rightarrow> string list" where
  "clean_elems rooted acc [] = rev acc"
| "clean_elems rooted acc (s # ss) =
     (if s = [] \<or> s = ''.'' then clean_elems rooted acc ss
      else if s \<noteq> ''..'' then clean_elems rooted (s # acc) ss
      else (case acc of [] \<Rightarrow> clean_elems rooted (if rooted then [] else [s]) ss
         | a # as \<Rightarrow> if a = ''..'' then clean_elems rooted (s # acc) ss else clean_elems rooted as ss))"

fun slashed :: "string list \<Rightarrow> string" where
  "slashed [] = []"
| "slashed [s] = s"
| "slashed (s # ss) = s @ ''/'' @ slashed ss"

text \<open>\<open>path/filepath\<close> on Unix.\<close>

definition IsAbs :: "string \<Rightarrow> bool" where
  "IsAbs p \<longleftrightarrow> take 1 p = ''/''"

definition Clean :: "string \<Rightarrow> string" where
  "Clean p = (let out = slashed (clean_elems (IsAbs p) [] (split_path p))
     in if IsAbs p then CHR ''/'' # out else if out = [] then ''.'' else out)"

definition path_Join :: "string \<Rightarrow> string \<Rightarrow> string" where
  "path_Join dir p = (if dir \<noteq> [] then Clean (dir @ ''/'' @ p) else if p \<noteq> [] then Clean p else [])"

definition artifactPath :: "string \<Rightarrow> model_row \<Rightarrow> string" where
  "artifactPath dir m =
     (let p = DerefStr (md_artifact_path m)
      in if p \<noteq> [] then (if IsAbs p then p else path_Join dir p)
         else path_Join dir (''ranker-'' @ md_version m @ ''.txt''))"

section \<open>The loader\<close>

record 'e loaded =
  lo_ranker :: "'e learned"
  lo_version :: string
  lo_sha :: string

definition RankerFor :: "'e leaves \<Rightarrow> 'e loaded option \<Rightarrow> string \<Rightarrow> ranker \<times> string" where
  "RankerFor L cur wantVersion = (case cur of
     Some c \<Rightarrow> if wantVersion \<noteq> [] \<and> lo_version c = wantVersion then (Learned_Rerank L (lo_ranker c), lo_version c)
       else (heuristicRanker, HeuristicVersion)
   | None \<Rightarrow> (heuristicRanker, HeuristicVersion))"

definition LoadModel :: "'e leaves \<Rightarrow> string \<Rightarrow> real \<Rightarrow> disk \<Rightarrow> model_row \<Rightarrow> load_error + 'e learned" where
  "LoadModel L dir penalty disk m =
     (case LoadLeaves L disk (artifactPath dir m) (DerefStr (md_artifact_sha256 m)) of Inl e \<Rightarrow> Inl e
      | Inr lm \<Rightarrow> Inr \<lparr> ld_model = lm, ld_version = md_version m, ld_penalty = penalty \<rparr>)"

text \<open>\<open>s\<close> is what the registry query sees, \<open>None\<close> when it fails; the second result is the pointer.\<close>

definition Loader_Refresh ::
  "'e leaves \<Rightarrow> string \<Rightarrow> real \<Rightarrow> disk \<Rightarrow> db option \<Rightarrow> 'e loaded option \<Rightarrow> (sql_error + unit) \<times> 'e loaded option" where
  "Loader_Refresh L dir penalty disk s cur =
     (case s of None \<Rightarrow> (Inl SqlError, cur)
      | Some s \<Rightarrow> (case GetActiveModel ''ranker'' s of None \<Rightarrow> (Inr (), None)
        | Some m \<Rightarrow>
            let sha = DerefStr (md_artifact_sha256 m)
            in if (case cur of Some c \<Rightarrow> lo_version c = md_version m \<and> lo_sha c = sha | None \<Rightarrow> False) then (Inr (), cur)
               else (case LoadLeaves L disk (artifactPath dir m) sha of Inl e \<Rightarrow> (Inr (), cur)
                 | Inr lm \<Rightarrow> (Inr (), Some \<lparr> lo_ranker = \<lparr> ld_model = lm, ld_version = md_version m, ld_penalty = penalty \<rparr>,
                     lo_version = md_version m, lo_sha = sha \<rparr>))))"

section \<open>The loader as the provider of rankers\<close>

interpretation learned: reranker "Learned_Rerank L l" for L l
  unfolding Learned_Rerank_def by unfold_locales (rule scored.permutes)

text \<open>Whatever it has loaded, the loader hands out what the search service needs.\<close>

lemma loader_ranks: "se_ranker E = Some (RankerFor L cur) \<Longrightarrow> ranks_candidates E"
  by (auto simp: ranks_candidates_def pickRanker_def RankerFor_def learned.reranker_axioms heuristic.reranker_axioms
      split: option.split)

definition loader_run ::
  "'e leaves \<Rightarrow> string \<Rightarrow> real \<Rightarrow> (disk \<times> db option) list \<Rightarrow> 'e loaded option \<Rightarrow> 'e loaded option" where
  "loader_run L dir penalty steps cur = fold (\<lambda>(disk, s) cur. snd (Loader_Refresh L dir penalty disk s cur)) steps cur"

text \<open>What a loaded ranker goes back to: an active row, the bytes whose sum the row states, and a model with trees.\<close>

definition vouched :: "'e leaves \<Rightarrow> string \<Rightarrow> real \<Rightarrow> disk \<times> db option \<Rightarrow> 'e loaded \<Rightarrow> bool" where
  "vouched L dir penalty step c \<longleftrightarrow> (\<exists>s m b ens. snd step = Some s \<and> GetActiveModel ''ranker'' s = Some m
     \<and> lo_version c = md_version m \<and> lo_sha c = DerefStr (md_artifact_sha256 m)
     \<and> (lo_sha c \<noteq> [] \<longrightarrow> (\<exists>b. fst step 0 (artifactPath dir m) = Some b \<and> sha256_hex b = lo_sha c))
     \<and> fst step 1 (artifactPath dir m) = Some b
     \<and> (lo_sha c \<noteq> [] \<and> fst step 0 (artifactPath dir m) = fst step 1 (artifactPath dir m) \<longrightarrow> sha256_hex b = lo_sha c)
     \<and> LGEnsemble L b = Some ens \<and> NEstimators L ens > 0
     \<and> lo_ranker c = \<lparr> ld_model = \<lparr> lm_ens = ens, lm_nFeatures = ens_NFeatures L ens \<rparr>, ld_version = md_version m,
         ld_penalty = penalty \<rparr>)"

lemma LoadLeaves_Inr:
  assumes "LoadLeaves L disk path want' = Inr lm"
  obtains b ens where "want' \<noteq> [] \<Longrightarrow> \<exists>b. disk 0 path = Some b \<and> sha256_hex b = want'" "disk 1 path = Some b"
    "LGEnsemble L b = Some ens" "NEstimators L ens > 0" "lm = \<lparr> lm_ens = ens, lm_nFeatures = ens_NFeatures L ens \<rparr>"
  using assms by (auto simp: LoadLeaves_def fileSHA256_def bind_eq_Some_conv
      split: if_split_asm sum.split_asm option.split_asm)

lemma Refresh_cases:
  assumes "Loader_Refresh L dir penalty disk s cur = (res, cur')"
  obtains (same) "cur' = cur" | (none) "cur' = None" | (new) c where "cur' = Some c" "vouched L dir penalty (disk, s) c"
proof -
  have "cur' = cur \<or> cur' = None \<or> (\<exists>c. cur' = Some c \<and> vouched L dir penalty (disk, s) c)"
    using assms by (auto simp: Loader_Refresh_def Let_def vouched_def elim!: LoadLeaves_Inr
        split: option.split_asm if_split_asm sum.split_asm)
  then show thesis using that by blast
qed

text \<open>C31. A served ranker is vouched for. After any number of refreshes, with the registry down or the disk changing
  in between, the learned ranker the loader serves was loaded in one of them: the row it serves was
  then the active one, and it is the model, with trees, of the bytes of the row's artifact. The file is read twice. When the row
  states a SHA-256 the bytes of the first read had it, so the bytes that are served had it provided the file did not change between
  the two reads; when the row states none, nothing is checked.\<close>

theorem served_ranker_vouched:
  assumes "loader_run L dir penalty steps None = Some c"
  shows "\<exists>step \<in> set steps. vouched L dir penalty step c"
proof -
  have "loader_run L dir penalty steps cur = Some c \<Longrightarrow> cur = Some c \<or> (\<exists>step \<in> set steps. vouched L dir penalty step c)" for cur
  proof (induction steps arbitrary: cur)
    case (Cons step steps)
    obtain disk s where step: "step = (disk, s)" by force
    have "snd (Loader_Refresh L dir penalty disk s cur) = Some c \<or> (\<exists>step \<in> set steps. vouched L dir penalty step c)"
      using Cons.IH [of "snd (Loader_Refresh L dir penalty disk s cur)"] Cons.prems by (simp add: loader_run_def step)
    moreover have "cur = Some c \<or> vouched L dir penalty step c" if "snd (Loader_Refresh L dir penalty disk s cur) = Some c"
      using that Refresh_cases [of L dir penalty disk s cur, OF surjective_pairing] by (metis option.distinct(1) option.inject step)
    ultimately show ?case by auto
  qed (simp add: loader_run_def)
  from this [OF assms] show ?thesis by simp
qed

section \<open>Activation\<close>

lemma filter_key:
  "distinct (map key xs) \<Longrightarrow> x \<in> set xs \<Longrightarrow> filter (\<lambda>y. key y = key x) xs = [x]"
  by (induction xs) (auto simp: rev_image_eqI filter_empty_conv)

lemma SliceStable_single: "SliceStable before [x] = [x]"
  by (simp add: SliceStable_def)

lemma active_after:
  assumes "distinct (map (\<lambda>m. (md_kind m, md_version m)) (models s))" and "m \<in> set (models s)"
  shows "GetActiveModel (md_kind m) (ActivateModel now (md_kind m) (md_version m) (RetireActiveModels (md_kind m) s))
    = Some (m\<lparr> md_status := ''active'', md_activated_at := Some now \<rparr>)"
proof -
  let ?r = "\<lambda>x. if md_kind x = md_kind m \<and> md_status x = ''active'' then x\<lparr> md_status := ''retired'' \<rparr> else x"
  let ?a = "\<lambda>x. if md_kind x = md_kind m \<and> md_version x = md_version m
     then x\<lparr> md_status := ''active'', md_activated_at := Some now \<rparr> else x"
  have "filter (\<lambda>x. md_kind x = md_kind m \<and> md_status x = ''active'') (map (?a \<circ> ?r) (models s))
      = map (?a \<circ> ?r) (filter (\<lambda>x. (md_kind x, md_version x) = (md_kind m, md_version m)) (models s))"
    by (induction "models s") (auto simp: filter_map comp_def intro!: arg_cong [where f = "map _"] filter_cong)
  then have "filter (\<lambda>x. md_kind x = md_kind m \<and> md_status x = ''active'') (map (?a \<circ> ?r) (models s)) = [(?a \<circ> ?r) m]"
    unfolding filter_key [OF assms] by simp
  moreover have "(?a \<circ> ?r) m = m\<lparr> md_status := ''active'', md_activated_at := Some now \<rparr>" by simp
  ultimately show ?thesis
    by (simp add: GetActiveModel_def ActivateModel_def RetireActiveModels_def sql_update_def SliceStable_single)
qed

text \<open>C32. Activation takes effect. After the active ranker is retired and another registered one is activated, the
  next refresh that finds its artifact sound serves that version and no other: asked for it the loader
  answers with it, and asked for any other version with the heuristic.\<close>

theorem activation_served:
  assumes "distinct (map (\<lambda>m. (md_kind m, md_version m)) (models s))" and "m \<in> set (models s)"
    and "md_kind m = ''ranker''" and "md_version m \<noteq> []"
    and "LoadLeaves L disk (artifactPath dir m) (DerefStr (md_artifact_sha256 m)) = Inr lm"
    and "Loader_Refresh L dir penalty disk
      (Some (ActivateModel now ''ranker'' (md_version m) (RetireActiveModels ''ranker'' s))) cur = (res, cur')"
  shows "res = Inr () \<and> snd (RankerFor L cur' (md_version m)) = md_version m
    \<and> (\<forall>v. v \<noteq> md_version m \<longrightarrow> RankerFor L cur' v = (heuristicRanker, HeuristicVersion))"
proof -
  have g: "GetActiveModel ''ranker'' (ActivateModel now ''ranker'' (md_version m) (RetireActiveModels ''ranker'' s))
    = Some (m\<lparr> md_status := ''active'', md_activated_at := Some now \<rparr>)"
    using active_after [OF assms(1,2), of now] by (simp add: assms(3))
  have p: "artifactPath dir (m\<lparr> md_status := ''active'', md_activated_at := Some now \<rparr>) = artifactPath dir m"
    by (simp add: artifactPath_def Let_def)
  have "res = Inr () \<and> (\<exists>c. cur' = Some c \<and> lo_version c = md_version m)"
    using assms(6) by (auto simp: Loader_Refresh_def g p Let_def assms(5) split: if_split_asm option.split_asm)
  then show ?thesis using assms(4) by (auto simp: RankerFor_def)
qed

definition one_tree :: "string leaves" where
  "one_tree = \<lparr> LGEnsemble = Some, NEstimators = (\<lambda>e. 1), ens_NFeatures = (\<lambda>e. 8), PredictSingle = (\<lambda>e fs. hd fs) \<rparr>"

definition registered :: "int \<Rightarrow> string \<Rightarrow> string \<Rightarrow> model_row" where
  "registered i v st = \<lparr> md_id = i, md_kind = ''ranker'', md_version = v, md_status = st,
     md_artifact_sha256 = Some (sha256_hex ''tree''), md_artifact_path = None, md_metrics = JNull, md_trained_at = i,
     md_activated_at = None \<rparr>"

definition registry :: db where
  "registry = empty_db\<lparr> models := [registered 1 ''v1'' ''active'', registered 2 ''v2'' ''shadow''] \<rparr>"

definition tree_disk :: disk where
  "tree_disk i p = (if p \<in> {''/models/ranker-v1.txt'', ''/models/ranker-v2.txt''} then Some ''tree'' else None)"

lemma registered_path: "artifactPath ''/models'' (registered i v st) = path_Join ''/models'' (''ranker-'' @ v @ ''.txt'')"
  by (simp add: artifactPath_def registered_def DerefStr_def)

lemma registered_simps [simp]:
  "md_id (registered i v st) = i" "md_kind (registered i v st) = ''ranker''" "md_version (registered i v st) = v"
  "md_status (registered i v st) = st" "DerefStr (md_artifact_sha256 (registered i v st)) = sha256_hex ''tree''"
  by (simp_all add: registered_def DerefStr_def)

lemma tree_paths:
  "path_Join ''/models/'' ''./x/../ranker-v1.txt'' = ''/models/ranker-v1.txt''"
  "path_Join ''/models'' ''ranker-v1.txt'' = ''/models/ranker-v1.txt''" "path_Join ''/models'' ''ranker-v2.txt'' = ''/models/ranker-v2.txt''"
  by code_simp+

definition tree_model :: "string leaves_model" where
  "tree_model = \<lparr> lm_ens = ''tree'', lm_nFeatures = 8 \<rparr>"

lemma tree_loads: "LoadLeaves one_tree tree_disk (artifactPath ''/models'' (registered i ''v1'' st)) (sha256_hex ''tree'') = Inr tree_model"
    "LoadLeaves one_tree tree_disk (artifactPath ''/models'' (registered i ''v2'' st)) (sha256_hex ''tree'') = Inr tree_model"
  unfolding registered_path
  by (simp_all add: tree_paths LoadLeaves_def fileSHA256_def tree_disk_def one_tree_def tree_model_def)

lemma served_ranker_vouched_witness:
  "list_ex (\<lambda>step. vouched one_tree ''/models'' 0 step \<lparr> lo_ranker = \<lparr> ld_model = tree_model, ld_version = ''v1'', ld_penalty = 0 \<rparr>,
     lo_version = ''v1'', lo_sha = sha256_hex ''tree'' \<rparr>) [(tree_disk, Some registry), (\<lambda>i p. None, None)]"
proof -
  have "GetActiveModel ''ranker'' registry = Some (registered 1 ''v1'' ''active'')"
    by (simp add: GetActiveModel_def registry_def SliceStable_single)
  then have "loader_run one_tree ''/models'' 0 [(tree_disk, Some registry), (\<lambda>i p. None, None)] None
    = Some \<lparr> lo_ranker = \<lparr> ld_model = tree_model, ld_version = ''v1'', ld_penalty = 0 \<rparr>,
     lo_version = ''v1'', lo_sha = sha256_hex ''tree'' \<rparr>"
    by (simp add: loader_run_def Loader_Refresh_def Let_def tree_loads)
  from served_ranker_vouched [OF this] show ?thesis unfolding list_ex_iff .
qed

lemma activation_served_witness:
  "snd (RankerFor one_tree (snd (Loader_Refresh one_tree ''/models'' 0 tree_disk
     (Some (ActivateModel 9 ''ranker'' ''v2'' (RetireActiveModels ''ranker'' registry))) None)) ''v2'') = ''v2''"
proof -
  let ?m = "registered 2 ''v2'' ''shadow''"
  have "distinct (map (\<lambda>m. (md_kind m, md_version m)) (models registry))" "?m \<in> set (models registry)"
    "md_kind ?m = ''ranker''" "md_version ?m \<noteq> []" by (simp_all add: registry_def)
  from activation_served [OF this, of one_tree tree_disk "''/models''" tree_model 0 9 None, unfolded registered_simps, OF tree_loads(2) surjective_pairing]
  show ?thesis by blast
qed

end
