(* ===== verification/Seeds.thy ===== *)
theory Seeds
  imports Model
begin

text \<open>
  The two statements that fill the registries from outside the service: \<open>InsertModel\<close> (\<open>models.sql.go\<close>) registers a trained
  artifact, \<open>UpsertExperiment\<close> (\<open>experiments.sql.go\<close>) defines an experiment. The value of the sequence is an argument.
\<close>

section \<open>Models\<close>

record insert_model =
  imKind :: string
  imVersion :: string
  imStatus :: string
  imArtifactSha256 :: "string option"
  imArtifactPath :: "string option"
  imMetrics :: json

definition inserted_row :: "int \<Rightarrow> int \<Rightarrow> insert_model \<Rightarrow> model_row" where
  "inserted_row now nextval p = \<lparr> md_id = nextval, md_kind = imKind p, md_version = imVersion p, md_status = imStatus p,
     md_artifact_sha256 = imArtifactSha256 p, md_artifact_path = imArtifactPath p, md_metrics = imMetrics p, md_trained_at = now,
     md_activated_at = None \<rparr>"

definition reinserted_row :: "int \<Rightarrow> insert_model \<Rightarrow> model_row \<Rightarrow> model_row" where
  "reinserted_row now p m = m\<lparr> md_status := imStatus p, md_artifact_sha256 := imArtifactSha256 p, md_artifact_path := imArtifactPath p,
     md_metrics := imMetrics p, md_trained_at := now \<rparr>"

definition model_key :: "model_row \<Rightarrow> string \<times> string" where
  "model_key m = (md_kind m, md_version m)"

definition InsertModel :: "int \<Rightarrow> int \<Rightarrow> insert_model \<Rightarrow> db \<Rightarrow> sql_error + int \<times> db" where
  "InsertModel now nextval p s =
     (if \<not> (pg_text (imKind p) \<and> pg_text (imVersion p) \<and> pg_text_opt (imArtifactSha256 p) \<and> pg_text_opt (imArtifactPath p))
         \<or> imStatus p \<notin> set [''shadow'', ''active'', ''retired''] then Inl SqlError
      else (let rows = sql_upsert model_key (inserted_row now nextval p) (reinserted_row now p) (models s)
        in case find (\<lambda>m. model_key m = (imKind p, imVersion p)) rows of
             None \<Rightarrow> Inl SqlError | Some m \<Rightarrow> Inr (md_id m, s\<lparr> models := rows \<rparr>)))"

section \<open>Experiments\<close>

definition UpsertExperiment :: "int \<Rightarrow> string \<Rightarrow> string \<Rightarrow> json \<Rightarrow> string \<Rightarrow> bool \<Rightarrow> db \<Rightarrow> sql_error + db" where
  "UpsertExperiment now key description variants salt enabled s =
     (if \<not> (pg_text key \<and> pg_text description \<and> pg_text salt) then Inl SqlError
      else Inr (s\<lparr> experiments := sql_upsert xp_key
        \<lparr> xp_key = key, xp_description = description, xp_variants = variants, xp_salt = salt, xp_enabled = enabled, xp_created_at = now \<rparr>
        (\<lambda>x. x\<lparr> xp_description := description, xp_variants := variants, xp_salt := salt, xp_enabled := enabled \<rparr>) (experiments s) \<rparr>))"

section \<open>Keys\<close>

lemma reinserted_key: "model_key (reinserted_row now p m) = model_key m"
  by (simp add: model_key_def reinserted_row_def)

text \<open>A version is registered once, and registering a served version again as a shadow takes it out of service.\<close>

lemma InsertModel_keys:
  assumes "distinct (map model_key (models s))" and "InsertModel now nextval p s = Inr (i, s')"
  shows "distinct (map model_key (models s')) \<and> (\<exists>m \<in> set (models s'). model_key m = (imKind p, imVersion p) \<and> md_id m = i)"
proof -
  have "models s' = sql_upsert model_key (inserted_row now nextval p) (reinserted_row now p) (models s)"
    and f: "\<exists>m. find (\<lambda>m. model_key m = (imKind p, imVersion p)) (models s') = Some m \<and> md_id m = i"
    using assms(2) by (auto simp: InsertModel_def Let_def split: if_split_asm option.split_asm)
  moreover from f have "\<exists>m \<in> set (models s'). model_key m = (imKind p, imVersion p) \<and> md_id m = i"
    by (auto simp: find_Some_iff)
  ultimately show ?thesis using assms(1) by (simp add: distinct_sql_upsert reinserted_key)
qed

lemma UpsertExperiment_keys:
  "distinct (map xp_key (experiments s)) \<Longrightarrow> UpsertExperiment now key d v salt e s = Inr s' \<Longrightarrow> distinct (map xp_key (experiments s'))"
  by (auto simp: UpsertExperiment_def distinct_sql_upsert split: if_split_asm)

lemma reregistered_is_withdrawn:
  "GetActiveModel ''ranker'' (snd (projr (InsertModel 9 7 \<lparr> imKind = ''ranker'', imVersion = ''v1'', imStatus = ''shadow'', imArtifactSha256 = None,
     imArtifactPath = None, imMetrics = JNull \<rparr> registry))) = None"
  by (simp add: InsertModel_def GetActiveModel_def registry_def registered_def sql_upsert_def sql_update_def model_key_def inserted_row_def
      reinserted_row_def pg_text_def pg_text_opt_def SliceStable_def)

end
