(* ===== verification/Shadow.thy ===== *)
theory Shadow
  imports Model
begin

text \<open>
  \<open>internal/model/shadow.go\<close> and \<open>eval.go\<close>: the shadow rankers scored against the impressions of the last days.
\<close>

section \<open>Metrics of one list\<close>

definition dcgAt :: "real list \<Rightarrow> nat \<Rightarrow> real" where
  "dcgAt rels k = (\<Sum>i\<leftarrow>[0..<min (length rels) k]. (2 powr (rels ! i) - 1) / log 2 (real (i + 2)))"

definition NDCGAt :: "real list \<Rightarrow> nat \<Rightarrow> real" where
  "NDCGAt rels k = (let idcg = dcgAt (rev (sort rels)) k in if idcg = 0 then 0 else dcgAt rels k / idcg)"

definition MRRAt :: "real list \<Rightarrow> nat \<Rightarrow> real" where
  "MRRAt rels k = (case find (\<lambda>i. rels ! i \<ge> 1) [0..<min (length rels) k] of None \<Rightarrow> 0 | Some i \<Rightarrow> 1 / real (i + 1))"

section \<open>The impressions\<close>

record impression =
  imSessionID :: "string option"
  imNormalizedQuery :: string
  imVideoID :: uuid
  imPosition :: int
  imOccurredAt :: int
  imClicked :: bool
  imMeaningful :: bool

definition same_session :: "behavior_row \<Rightarrow> behavior_row \<Rightarrow> bool" where
  "same_session a b \<longleftrightarrow> be_session_id a = be_session_id b"

definition impression_of :: "behavior_row list \<Rightarrow> behavior_row \<Rightarrow> impression option" where
  "impression_of ledger r = (case (be_normalized_query r, be_video_id r) of
     (Some nq, Some vid) \<Rightarrow> Some \<lparr> imSessionID = be_session_id r, imNormalizedQuery = nq, imVideoID = vid,
        imPosition = (case be_position r of None \<Rightarrow> 0 | Some p \<Rightarrow> p), imOccurredAt = be_occurred_at r,
        imClicked = list_ex (\<lambda>c. be_type c = ''search.result_clicked'' \<and> same_session c r
          \<and> be_normalized_query c = Some nq \<and> be_video_id c = Some vid \<and> be_occurred_at c \<ge> be_occurred_at r) ledger,
        imMeaningful = list_ex (\<lambda>m. be_type m = ''video.meaningful_watch'' \<and> same_session m r
          \<and> be_video_id m = Some vid \<and> be_occurred_at m \<ge> be_occurred_at r) ledger \<rparr>
   | _ \<Rightarrow> None)"

definition session_before :: "string option \<Rightarrow> string option \<Rightarrow> bool" where
  "session_before a b = (case b of None \<Rightarrow> False | Some y \<Rightarrow> (case a of None \<Rightarrow> True | Some x \<Rightarrow> x < y))"

definition impression_before :: "impression \<Rightarrow> impression \<Rightarrow> bool" where
  "impression_before a b \<longleftrightarrow> session_before (imSessionID a) (imSessionID b) \<or> (imSessionID a = imSessionID b \<and>
     (imNormalizedQuery a < imNormalizedQuery b \<or> (imNormalizedQuery a = imNormalizedQuery b \<and>
       (imPosition a < imPosition b \<or> (imPosition a = imPosition b \<and> imVideoID a < imVideoID b)))))"

definition ShadowImpressions :: "int \<Rightarrow> int \<Rightarrow> db \<Rightarrow> impression list" where
  "ShadowImpressions now n s = SliceStable impression_before (List.map_filter (impression_of (behavior_events s))
     (filter (\<lambda>r. be_type r = ''video.impression'' \<and> be_occurred_at r \<ge> now - days n) (behavior_events s)))"

section \<open>Groups\<close>

record imp_item =
  iiVideoID :: uuid
  iiPosition :: int
  iiRel :: real

record imp_group =
  igQuery :: string
  igItems :: "imp_item list"

definition labelOf :: "impression \<Rightarrow> real" where
  "labelOf r = (if imMeaningful r then 2 else if imClicked r then 1 else 0)"

definition item_of :: "impression \<Rightarrow> imp_item" where
  "item_of r = \<lparr> iiVideoID = imVideoID r, iiPosition = imPosition r, iiRel = labelOf r \<rparr>"

definition group_key :: "impression \<Rightarrow> string \<times> string" where
  "group_key r = (DerefStr (imSessionID r), imNormalizedQuery r)"

fun add_impression :: "impression \<Rightarrow> ((string \<times> string) \<times> imp_group) list \<Rightarrow> ((string \<times> string) \<times> imp_group) list" where
  "add_impression r [] = [(group_key r, \<lparr> igQuery = imNormalizedQuery r, igItems = [item_of r] \<rparr>)]"
| "add_impression r ((k, g) # gs) = (if k = group_key r then (k, g\<lparr> igItems := igItems g @ [item_of r] \<rparr>) # gs
     else (k, g) # add_impression r gs)"

definition groupImpressions :: "impression list \<Rightarrow> imp_group list" where
  "groupImpressions rows = map snd (fold add_impression rows [])"

definition usableGroup :: "imp_group \<Rightarrow> bool" where
  "usableGroup g \<longleftrightarrow> length (igItems g) \<ge> 2 \<and> list_ex (\<lambda>it. iiRel it \<ge> 1) (igItems g)"

section \<open>Features and labels\<close>

definition no_features :: feats where
  "no_features = \<lparr> TextRank = 0, TrgmSim = 0, ExactFlags = 0, Views = 0, Age = 0, Impressions = 0, Clicks = 0,
     MeaningfulWatches = 0, PersonalAffinity = 0, ChannelAffinity = 0, SessionIntent = 0, LanguageMatch = False \<rparr>"

definition featuresFromRecall :: "recall_row \<Rightarrow> int \<Rightarrow> feats" where
  "featuresFromRecall r now = no_features\<lparr> TextRank := rcTsRank r, TrgmSim := rcTrgmSim r, ExactFlags := rcExactFlags r,
     Views := real_of_int (d_views (rcDoc r)), Age := AgeDays (d_published_at (rcDoc r)) (d_source_updated_at (rcDoc r)) now,
     Impressions := real_of_int (rcImpressions r), Clicks := real_of_int (rcClicks r),
     MeaningfulWatches := real_of_int (rcMeaningful r) \<rparr>"

type_synonym feature_map = "(uuid \<times> feats) list"

definition docsForGroup :: "ext \<Rightarrow> imp_group \<Rightarrow> feature_map \<Rightarrow> doc list" where
  "docsForGroup X g fs = map (\<lambda>it. \<lparr> VideoID = uuid_string X (iiVideoID it), ChannelID = [],
     Feats = (case map_of fs (iiVideoID it) of None \<Rightarrow> no_features | Some f \<Rightarrow> f) \<rparr>) (igItems g)"

definition relsInServedOrder :: "imp_group \<Rightarrow> real list" where
  "relsInServedOrder g = map iiRel (igItems g)"

text \<open>A Go map: of two items with one id the later counts.\<close>

definition relsInRankedOrder :: "ext \<Rightarrow> (string \<times> real) list \<Rightarrow> imp_group \<Rightarrow> real list" where
  "relsInRankedOrder X ranked g =
     (let rel = map (\<lambda>it. (uuid_string X (iiVideoID it), iiRel it)) (igItems g)
      in map (\<lambda>(v, sc). lookup0 rel v) ranked)"

section \<open>The evaluation\<close>

text \<open>What the run asks of the clock and the network, each by the number of the call: whether the two lists can be read,
  a recall can be made and a row be updated.\<close>

record shadow_env =
  sv_list :: bool
  sv_imps :: bool
  sv_recall :: "nat \<Rightarrow> bool"
  sv_update :: "nat \<Rightarrow> bool"
  sv_dbnow :: int
  sv_recall_now :: "nat \<Rightarrow> int"
  sv_now :: "nat \<Rightarrow> int"
  sv_disk :: "nat \<Rightarrow> disk"

type_synonym recall_cache = "(string \<times> feature_map) list"

text \<open>A miss makes one call and one entry, so the length of the cache numbers the calls.\<close>

definition recallFor :: "pg \<Rightarrow> shadow_env \<Rightarrow> db \<Rightarrow> string \<Rightarrow> recall_cache \<Rightarrow> feature_map \<times> recall_cache" where
  "recallFor P E s q cache = (case map_of cache q of Some m \<Rightarrow> (m, cache)
     | None \<Rightarrow>
        let i = length cache;
            rows = (if sv_recall E i then SearchAdvancedRecall P q False \<lparr> sfTag = None, sfCategory = None, sfLanguage = None,
                      sfLicense = None \<rparr> 500 s else Inl SqlError);
            m = (case rows of Inl e \<Rightarrow> [] | Inr rs \<Rightarrow> rev (map (\<lambda>r. (d_video_id (rcDoc r), featuresFromRecall r (sv_recall_now E i))) rs))
        in (m, (q, m) # cache))"

definition ndcgK :: nat where "ndcgK = 10"

record tally =
  ty_n :: nat
  ty_prod :: real
  ty_shadow :: real
  ty_heur :: real
  ty_mrr :: real

definition tally_one :: "ext \<Rightarrow> ranker \<Rightarrow> imp_group \<Rightarrow> feature_map \<Rightarrow> tally \<Rightarrow> tally" where
  "tally_one X learned g fs t =
     (let docs = docsForGroup X g fs; prodRels = relsInServedOrder g;
          shadowRels = relsInRankedOrder X (learned docs) g; heurRels = relsInRankedOrder X (heuristicRanker docs) g
      in \<lparr> ty_n = ty_n t + 1, ty_prod = ty_prod t + NDCGAt prodRels ndcgK, ty_shadow = ty_shadow t + NDCGAt shadowRels ndcgK,
           ty_heur = ty_heur t + NDCGAt heurRels ndcgK, ty_mrr = ty_mrr t + MRRAt shadowRels ndcgK \<rparr>)"

fun tally_groups :: "ext \<Rightarrow> pg \<Rightarrow> shadow_env \<Rightarrow> db \<Rightarrow> ranker \<Rightarrow> imp_group list \<Rightarrow> tally \<times> recall_cache \<Rightarrow> tally \<times> recall_cache" where
  "tally_groups X P E s learned [] acc = acc"
| "tally_groups X P E s learned (g # gs) (t, cache) =
     (if \<not> usableGroup g then tally_groups X P E s learned gs (t, cache)
      else (case recallFor P E s (igQuery g) cache of
         (fs, cache) \<Rightarrow> tally_groups X P E s learned gs (tally_one X learned g fs t, cache)))"

text \<open>\<open>round\<close>: the conversion to \<open>int64\<close> truncates. What it is given is far inside the range.\<close>

definition trunc :: "real \<Rightarrow> int" where
  "trunc v = (if v < 0 then \<lceil>v\<rceil> else \<lfloor>v\<rfloor>)"

definition round4 :: "real \<Rightarrow> real" where
  "round4 v = real_of_int (trunc (v * 10000 + 1 / 2)) / 10000"

record report =
  Groups :: nat
  ShadowNDCG :: real
  ShadowMRR10 :: real
  ProductionNDCG :: real
  HeuristicNDCG :: real
  VsProduction :: real
  VsHeuristic :: real
  WindowDays :: int
  EvaluatedAt :: int

definition report_of :: "int \<Rightarrow> int \<Rightarrow> tally \<Rightarrow> report" where
  "report_of n now t = (let avg = (\<lambda>x. if ty_n t > 0 then round4 (x / real (ty_n t)) else 0)
     in \<lparr> Groups = ty_n t, ShadowNDCG = avg (ty_shadow t), ShadowMRR10 = avg (ty_mrr t), ProductionNDCG = avg (ty_prod t),
          HeuristicNDCG = avg (ty_heur t), VsProduction = avg (ty_shadow t - ty_prod t), VsHeuristic = avg (ty_shadow t - ty_heur t),
          WindowDays = n, EvaluatedAt = now \<rparr>)"

section \<open>The report\<close>

fun drop_zeros :: "string \<Rightarrow> string" where
  "drop_zeros s = rev (dropWhile (\<lambda>c. c = CHR ''0'') (rev s))"

definition fraction :: "nat \<Rightarrow> int \<Rightarrow> string" where
  "fraction k n = (let ds = drop_zeros (zero_pad k n) in if ds = [] then [] else CHR ''.'' # ds)"

text \<open>A number with at most four decimals, as \<open>encoding/json\<close> prints it.\<close>

definition json_decimal :: "real \<Rightarrow> json" where
  "json_decimal v = (let n = trunc (v * 10000); m = abs n
     in JNum ((if n < 0 then ''-'' else []) @ FormatInt (m div 10000) @ fraction 4 (m mod 10000)))"

text \<open>RFC 3339 in UTC with the nanoseconds; a year of other than four digits does not marshal.\<close>

definition marshal_time :: "int \<Rightarrow> string option" where
  "marshal_time t =
     (let sec = t div nanos; tod = sec mod 86400; (y, m, d) = civil (sec div 86400)
      in if y < 0 \<or> y > 9999 then None
         else Some (zero_pad 4 y @ ''-'' @ zero_pad 2 m @ ''-'' @ zero_pad 2 d @ ''T'' @ zero_pad 2 (tod div 3600) @ '':'' @
                zero_pad 2 (tod mod 3600 div 60) @ '':'' @ zero_pad 2 (tod mod 60) @ fraction 9 (t mod nanos) @ ''Z''))"

definition marshal_report :: "report \<Rightarrow> json option" where
  "marshal_report r = map_option (\<lambda>t. JObj [(''groups'', JNum (FormatInt (int (Groups r)))),
     (''ndcg@10'', json_decimal (ShadowNDCG r)), (''mrr@10'', json_decimal (ShadowMRR10 r)),
     (''production_ndcg@10'', json_decimal (ProductionNDCG r)), (''heuristic_ndcg@10'', json_decimal (HeuristicNDCG r)),
     (''vs_production'', json_decimal (VsProduction r)), (''vs_heuristic'', json_decimal (VsHeuristic r)),
     (''window_days'', JNum (FormatInt (WindowDays r))), (''evaluated_at'', JStr t), (''feature_version'', JStr ''v1'')])
     (marshal_time (EvaluatedAt r))"

text \<open>The shadow models one by one; \<open>i\<close> numbers them, \<open>k\<close> the updates. A report that does not marshal
  is written as NULL, which the column refuses. The reports are what the gauges show.\<close>

fun shadow_loop ::
  "ext \<Rightarrow> pg \<Rightarrow> 'e leaves \<Rightarrow> string \<Rightarrow> real \<Rightarrow> int \<Rightarrow> shadow_env \<Rightarrow> imp_group list \<Rightarrow> nat \<Rightarrow> nat \<Rightarrow> recall_cache \<Rightarrow>
   model_row list \<Rightarrow> db \<Rightarrow> (sql_error + (string \<times> report) list) \<times> db" where
  "shadow_loop X P L dir pen n E groups i k cache [] s = (Inr [], s)"
| "shadow_loop X P L dir pen n E groups i k cache (m # ms) s =
     (case LoadModel L dir pen (sv_disk E i) m of
        Inl e \<Rightarrow> shadow_loop X P L dir pen n E groups (Suc i) k cache ms s
      | Inr learned \<Rightarrow>
         (case tally_groups X P E s (Learned_Rerank L learned) groups
                 (\<lparr> ty_n = 0, ty_prod = 0, ty_shadow = 0, ty_heur = 0, ty_mrr = 0 \<rparr>, cache) of
            (t, cache) \<Rightarrow>
              let rep = report_of n (sv_now E k) t
              in (case (if sv_update E k then marshal_report rep else None) of None \<Rightarrow> (Inl SqlError, s)
                  | Some j \<Rightarrow>
                      (case shadow_loop X P L dir pen n E groups (Suc i) (Suc k) cache ms (UpdateModelMetrics j (md_id m) s) of
                         (Inl e, s') \<Rightarrow> (Inl e, s') | (Inr reps, s') \<Rightarrow> (Inr ((md_version m, rep) # reps), s')))))"

definition NewShadowEvaluator :: "int \<Rightarrow> int" where
  "NewShadowEvaluator n = (if n < 1 then 14 else n)"

definition ShadowEvaluator_Run ::
  "ext \<Rightarrow> pg \<Rightarrow> 'e leaves \<Rightarrow> string \<Rightarrow> real \<Rightarrow> int \<Rightarrow> shadow_env \<Rightarrow> db \<Rightarrow> (sql_error + (string \<times> report) list) \<times> db" where
  "ShadowEvaluator_Run X P L dir pen n E s =
     (if \<not> sv_list E then (Inl SqlError, s)
      else let shadows = ListShadowModels ''ranker'' s
      in if shadows = [] then (Inr [], s)
         else if \<not> sv_imps E then (Inl SqlError, s)
         else let groups = groupImpressions (ShadowImpressions (sv_dbnow E) (int32 n) s)
           in shadow_loop X P L dir pen n E groups 0 0 [] shadows s)"

section \<open>The gain of an order\<close>

text \<open>The sum over the positions from \<open>j\<close> on, as a recursion.\<close>

definition gain :: "real \<Rightarrow> real" where
  "gain r = 2 powr r - 1"

definition discount :: "nat \<Rightarrow> real" where
  "discount i = 1 / log 2 (real (i + 2))"

fun dg :: "nat \<Rightarrow> nat \<Rightarrow> real list \<Rightarrow> real" where
  "dg j 0 xs = 0"
| "dg j (Suc k) [] = 0"
| "dg j (Suc k) (x # xs) = gain x * discount j + dg (Suc j) k xs"

lemma dg_sum: "(\<Sum>i\<leftarrow>[0..<min (length xs) k]. gain (xs ! i) * discount (i + j)) = dg j k xs"
proof (induction j k xs rule: dg.induct)
  case (3 j k x xs)
  have "[0..<min (length (x # xs)) (Suc k)] = 0 # map Suc [0..<min (length xs) k]"
    by (simp add: upt_conv_Cons map_Suc_upt del: upt_Suc)
  then show ?case using 3 by (simp add: comp_def)
qed simp_all

lemma dcgAt_dg: "dcgAt xs k = dg 0 k xs"
  using dg_sum [where j = 0] by (simp add: dcgAt_def gain_def discount_def)

lemma discount_pos: "0 < discount j" and discount_antimono: "discount (Suc j) \<le> discount j"
proof -
  show "0 < discount j" by (simp add: discount_def)
  have "log 2 (real (j + 2)) \<le> log 2 (real (Suc j + 2))" "0 < log 2 (real (j + 2))" by simp_all
  then show "discount (Suc j) \<le> discount j" unfolding discount_def by (intro divide_left_mono) simp_all
qed

lemma gain_mono: "x \<le> y \<Longrightarrow> gain x \<le> gain y"
  by (simp add: gain_def)

lemma gain_nonneg: "0 \<le> x \<Longrightarrow> 0 \<le> gain x" and gain_pos: "0 < x \<Longrightarrow> 0 < gain x"
  using gain_mono [of 0 x] by (simp_all add: gain_def)

lemma dg_nonneg: "\<forall>r \<in> set xs. 0 \<le> r \<Longrightarrow> 0 \<le> dg j k xs"
  by (induction j k xs rule: dg.induct) (simp_all add: gain_nonneg less_imp_le [OF discount_pos])

text \<open>Insertion into a descending list, and that it only gains.\<close>

fun ins :: "real \<Rightarrow> real list \<Rightarrow> real list" where
  "ins x [] = [x]"
| "ins x (y # ys) = (if y \<le> x then x # y # ys else y # ins x ys)"

lemma swap_gain: "x \<le> y \<Longrightarrow> gain x * discount j + gain y * discount (Suc j) \<le> gain y * discount j + gain x * discount (Suc j)"
proof -
  assume "x \<le> y"
  then have "0 \<le> (gain y - gain x) * (discount j - discount (Suc j))"
    using gain_mono discount_antimono [of j] by (intro mult_nonneg_nonneg) simp_all
  then show ?thesis by (simp add: algebra_simps)
qed

lemma dg_ins: "dg j k (x # ys) \<le> dg j k (ins x ys)"
proof (induction ys arbitrary: j k)
  case (Cons y ys)
  show ?case
  proof (cases "y \<le> x")
    case False
    show ?thesis
    proof (cases k)
      case (Suc n)
      have "gain x * discount j + dg (Suc j) n (y # ys) \<le> gain y * discount j + dg (Suc j) n (x # ys)"
        using False swap_gain [of x y j] gain_mono [of x y] discount_pos [of j]
        by (cases n) (auto simp: mult_right_mono)
      also have "\<dots> \<le> gain y * discount j + dg (Suc j) n (ins x ys)" using Cons by simp
      finally show ?thesis using False Suc by simp
    qed simp
  qed simp
qed simp

lemma dg_tail: "(\<And>j k. dg j k xs \<le> dg j k ys) \<Longrightarrow> dg j k (x # xs) \<le> dg j k (x # ys)"
  by (cases k) simp_all

lemma dg_descending: "dg j k xs \<le> dg j k (foldr ins xs [])"
proof (induction xs arbitrary: j k)
  case (Cons x xs)
  show ?case using order_trans [OF dg_tail [OF Cons] dg_ins] by simp
qed simp

lemma mset_ins [simp]: "mset (ins x ys) = add_mset x (mset ys)"
  by (induction ys) auto

lemma sorted_ins: "sorted_wrt (\<ge>) ys \<Longrightarrow> sorted_wrt (\<ge>) (ins x ys)"
proof (induction ys)
  case (Cons y ys)
  have "set (ins x ys) = insert x (set ys)" by (metis mset_ins set_mset_mset set_mset_add_mset_insert)
  then show ?case using Cons by auto
qed simp

lemma descending: "foldr ins xs [] = rev (sort xs)"
proof -
  have "sorted_wrt (\<ge>) (foldr ins xs [])" by (induction xs) (simp_all add: sorted_ins)
  moreover have "mset (foldr ins xs []) = mset xs" by (induction xs) simp_all
  ultimately have "sort xs = rev (foldr ins xs [])"
    by (intro properties_for_sort) (simp_all add: sorted_wrt_rev)
  then show ?thesis by simp
qed

text \<open>C34. The metric is what it claims. Over labels that are not negative the normalized gain of an order lies between 0
  and 1: no order of the same labels gains more than the descending one. A descending list that starts with a
  positive label scores exactly 1.\<close>

theorem ndcg_bounds:
  assumes "\<forall>r \<in> set rels. 0 \<le> r"
  shows "0 \<le> NDCGAt rels k \<and> NDCGAt rels k \<le> 1
    \<and> (sorted (rev rels) \<and> rels \<noteq> [] \<and> 0 < hd rels \<and> 0 < k \<longrightarrow> NDCGAt rels k = 1)"
proof -
  have ideal: "dcgAt rels k \<le> dcgAt (rev (sort rels)) k" using dg_descending [of 0 k rels] by (simp add: dcgAt_dg descending)
  have "0 \<le> dcgAt rels k" by (simp add: dcgAt_dg dg_nonneg assms)
  moreover have "NDCGAt rels k = 1" if "sorted (rev rels)" "rels \<noteq> []" "0 < hd rels" "0 < k"
  proof -
    have "sort rels = rev rels" by (rule properties_for_sort) (simp_all add: that(1))
    moreover have "0 < dcgAt rels k"
      using that(2-4) assms gain_pos dg_nonneg [of "tl rels" "Suc 0"] discount_pos [of 0]
      by (cases rels; cases k) (simp_all add: dcgAt_dg add_pos_nonneg)
    ultimately show ?thesis by (simp add: NDCGAt_def)
  qed
  ultimately show ?thesis using ideal by (auto simp: NDCGAt_def Let_def)
qed

section \<open>Rounding\<close>

text \<open>Negative differences are reported too high. The rounding is to the nearest ten-thousandth for a number that is not
  negative; below minus a half of one the truncation goes the wrong way, and what is
  reported exceeds the number by at least a half of a ten-thousandth and less than one and a half: \<open>-0.3\<close> becomes
  \<open>-0.2999\<close>. So every negative \<open>vs_production\<close> and \<open>vs_heuristic\<close> flatters the shadow model.\<close>

theorem negative_scores_rounded_up:
  "(if 0 \<le> v then \<bar>round4 v - v\<bar> \<le> 1 / 20000
    else if v < - 1 / 20000 then v + 1 / 20000 \<le> round4 v \<and> round4 v < v + 3 / 20000 else round4 v = 0)
   \<and> round4 (- 3 / 10) = - 2999 / 10000"
proof -
  let ?y = "v * 10000 + 1 / 2"
  have "\<bar>round4 v - v\<bar> \<le> 1 / 20000" if "0 \<le> v"
  proof -
    have "round4 v = real_of_int \<lfloor>?y\<rfloor> / 10000" using that by (simp add: round4_def trunc_def)
    moreover have "real_of_int \<lfloor>?y\<rfloor> \<le> ?y" "?y < real_of_int \<lfloor>?y\<rfloor> + 1" by linarith+
    ultimately show ?thesis unfolding abs_le_iff by linarith
  qed
  moreover have "v + 1 / 20000 \<le> round4 v \<and> round4 v < v + 3 / 20000" if "v < - 1 / 20000"
  proof -
    have "round4 v = real_of_int \<lceil>?y\<rceil> / 10000" using that by (simp add: round4_def trunc_def)
    moreover have "?y \<le> real_of_int \<lceil>?y\<rceil>" "real_of_int \<lceil>?y\<rceil> < ?y + 1" by linarith+
    ultimately show ?thesis by linarith
  qed
  moreover have "round4 v = 0" if "v < 0" "\<not> v < - 1 / 20000"
  proof -
    have "\<lfloor>?y\<rfloor> = 0" using that by (intro floor_eq2) (simp_all add: field_simps)
    then show ?thesis using that by (simp add: round4_def trunc_def field_simps)
  qed
  moreover have "round4 (- 3 / 10) = - 2999 / 10000"
  proof -
    have "\<lceil>- 3 / 10 * 10000 + 1 / 2 :: real\<rceil> = - 2999" by (rule ceiling_unique) simp_all
    then show ?thesis by (simp add: round4_def trunc_def)
  qed
  ultimately show ?thesis by auto
qed

section \<open>Labels in the order of a ranker\<close>

text \<open>Rankers are compared on the same labels. When a group shows no video twice, the labels in the order of any
  ranker are the served labels rearranged, so production, heuristic and shadow scores share one ideal.\<close>

theorem ranked_labels_permute:
  assumes "ext_ok X" and "reranker rank" and "distinct (map iiVideoID (igItems g))"
  shows "mset (relsInRankedOrder X (rank (docsForGroup X g fs)) g) = mset (relsInServedOrder g)
    \<and> dcgAt (rev (sort (relsInRankedOrder X (rank (docsForGroup X g fs)) g))) k = dcgAt (rev (sort (relsInServedOrder g))) k"
proof -
  let ?kvs = "map (\<lambda>it. (uuid_string X (iiVideoID it), iiRel it)) (igItems g)"
  have d: "distinct (map fst ?kvs)"
    using assms(3) by (simp add: comp_def distinct_map inj_on_def uuid_string_inject [OF assms(1)])
  have look: "lookup0 ?kvs (uuid_string X (iiVideoID it)) = iiRel it" if "it \<in> set (igItems g)" for it
  proof -
    have "map_of (rev ?kvs) (uuid_string X (iiVideoID it)) = Some (iiRel it)"
      using d that by (intro map_of_is_SomeI) (simp_all add: rev_map [symmetric])
    then show ?thesis by (simp add: lookup0_def)
  qed
  have "mset (relsInRankedOrder X (rank (docsForGroup X g fs)) g)
      = image_mset (lookup0 ?kvs) (mset (map fst (rank (docsForGroup X g fs))))"
    by (simp add: relsInRankedOrder_def image_mset.compositionality comp_def case_prod_unfold)
  also have "\<dots> = image_mset (lookup0 ?kvs) (mset (map VideoID (docsForGroup X g fs)))"
    by (simp only: reranker.permutes [OF assms(2)])
  also have "\<dots> = mset (map (\<lambda>it. lookup0 ?kvs (uuid_string X (iiVideoID it))) (igItems g))"
    by (simp add: docsForGroup_def image_mset.compositionality comp_def)
  also have "map (\<lambda>it. lookup0 ?kvs (uuid_string X (iiVideoID it))) (igItems g) = map iiRel (igItems g)"
    using look by simp
  finally have "mset (relsInRankedOrder X (rank (docsForGroup X g fs)) g) = mset (relsInServedOrder g)"
    by (simp add: relsInServedOrder_def)
  then show ?thesis using sorted_list_of_multiset_mset by metis
qed

text \<open>A repeated impression loses its label. A video that one session was shown twice for one query and clicked the
  first time only carries the labels 1 and 0; the order it was served in scores 1, while any ranker
  at all is scored 0, for the later label overwrites the earlier one.\<close>

theorem repeated_impression_scores_zero:
  assumes "reranker rank"
    and "igItems g = [\<lparr> iiVideoID = v, iiPosition = i, iiRel = 1 \<rparr>, \<lparr> iiVideoID = v, iiPosition = j, iiRel = 0 \<rparr>]"
  shows "usableGroup g \<and> NDCGAt (relsInServedOrder g) ndcgK = 1
    \<and> NDCGAt (relsInRankedOrder X (rank (docsForGroup X g fs)) g) ndcgK = 0"
proof -
  have "fst ` set (rank (docsForGroup X g fs)) = {uuid_string X v}"
    using reranker.set_rank [OF assms(1), of "docsForGroup X g fs"] by (simp add: docsForGroup_def assms(2))
  moreover have "length (rank (docsForGroup X g fs)) = 2"
    using reranker.length_rank [OF assms(1), of "docsForGroup X g fs"] by (simp add: docsForGroup_def assms(2))
  ultimately have "map fst (rank (docsForGroup X g fs)) = [uuid_string X v, uuid_string X v]"
    by (auto simp: length_Suc_conv numeral_2_eq_2)
  then have "relsInRankedOrder X (rank (docsForGroup X g fs)) g = [0, 0]"
    by (auto simp: relsInRankedOrder_def lookup0_def assms(2) map_eq_Cons_conv split_beta)
  moreover have "relsInServedOrder g = [1, 0]" by (simp add: relsInServedOrder_def assms(2))
  ultimately show ?thesis
    using assms(2) by (simp add: usableGroup_def NDCGAt_def dcgAt_def ndcgK_def)
qed

section \<open>What a run changes\<close>

definition metrics_of :: "int set \<Rightarrow> model_row \<Rightarrow> model_row \<Rightarrow> bool" where
  "metrics_of ids m m' \<longleftrightarrow> m' = m\<lparr> md_metrics := md_metrics m' \<rparr> \<and> (md_id m \<notin> ids \<longrightarrow> m' = m)"

definition metrics_only :: "int set \<Rightarrow> db \<Rightarrow> db \<Rightarrow> bool" where
  "metrics_only ids s s' \<longleftrightarrow> s' = s\<lparr> models := models s' \<rparr> \<and> list_all2 (metrics_of ids) (models s) (models s')"

lemma metrics_of_refl: "metrics_of ids m m"
  by (simp add: metrics_of_def)

lemma metrics_of_trans: "metrics_of ids a b \<Longrightarrow> metrics_of ids b c \<Longrightarrow> metrics_of ids a c"
  by (cases a; cases b; cases c) (auto simp: metrics_of_def)

lemma metrics_only_refl: "metrics_only ids s s"
  by (simp add: metrics_only_def list_all2_refl metrics_of_refl)

lemma metrics_only_trans: "metrics_only ids a b \<Longrightarrow> metrics_only ids b c \<Longrightarrow> metrics_only ids a c"
  using list_all2_trans [of "metrics_of ids" "metrics_of ids" "metrics_of ids" "models a" "models b" "models c"] metrics_of_trans
  by (cases a; cases b; cases c) (auto simp: metrics_only_def)

lemma Update_metrics_only: "mid \<in> ids \<Longrightarrow> metrics_only ids s (UpdateModelMetrics j mid s)"
  by (auto simp: metrics_only_def UpdateModelMetrics_def sql_update_def list_all2_conv_all_nth metrics_of_def)

lemma shadow_loop_metrics:
  "shadow_loop X P L dir pen n E groups i k cache ms s = (res, s') \<Longrightarrow> md_id ` set ms \<subseteq> ids \<Longrightarrow> metrics_only ids s s'"
proof (induction ms arbitrary: i k cache s s' res)
  case (Cons m ms)
  show ?case
  proof (cases "LoadModel L dir pen (sv_disk E i) m")
    case (Inl e)
    then show ?thesis using Cons by simp
  next
    case (Inr learned)
    obtain t cache' where t: "tally_groups X P E s (Learned_Rerank L learned) groups
        (\<lparr> ty_n = 0, ty_prod = 0, ty_shadow = 0, ty_heur = 0, ty_mrr = 0 \<rparr>, cache) = (t, cache')" by fastforce
    show ?thesis
    proof (cases "if sv_update E k then marshal_report (report_of n (sv_now E k) t) else None")
      case None
      then show ?thesis using Cons.prems by (simp add: Inr t Let_def metrics_only_refl)
    next
      case (Some j)
      obtain r s2 where r: "shadow_loop X P L dir pen n E groups (Suc i) (Suc k) cache' ms (UpdateModelMetrics j (md_id m) s) = (r, s2)"
        by fastforce
      have "metrics_only ids (UpdateModelMetrics j (md_id m) s) s2" using Cons.IH [OF r] Cons.prems by simp
      moreover have "s' = s2" using Cons.prems(1) Some by (simp add: Inr t Let_def r split: sum.split_asm)
      ultimately show ?thesis using Update_metrics_only Cons.prems(2) metrics_only_trans by fastforce
    qed
  qed
qed (simp add: metrics_only_refl)

lemma Run_metrics:
  assumes "ShadowEvaluator_Run X P L dir pen n E s = (res, s')"
  shows "metrics_only (md_id ` set (ListShadowModels ''ranker'' s)) s s'"
  using assms by (auto simp: ShadowEvaluator_Run_def Let_def metrics_only_refl intro: shadow_loop_metrics split: if_split_asm)

text \<open>C33. The evaluation never touches what is served. A run, complete or cut short anywhere, changes nothing but the
  metrics of shadow rankers; the loader of any instance refreshes as if it had not been.\<close>

theorem shadow_run_only_metrics:
  assumes "ShadowEvaluator_Run X P L dir pen n E s = (res, s')" and "distinct (map md_id (models s))"
  shows "s' = s\<lparr> models := models s' \<rparr>
    \<and> list_all2 (\<lambda>m m'. m' = m \<or> (md_kind m = ''ranker'' \<and> md_status m = ''shadow'' \<and> m' = m\<lparr> md_metrics := md_metrics m' \<rparr>))
        (models s) (models s')
    \<and> Loader_Refresh L' dir' pen' disk (Some s') cur = Loader_Refresh L' dir' pen' disk (Some s) cur"
proof -
  let ?R = "\<lambda>m m'. m' = m \<or> (md_kind m = ''ranker'' \<and> md_status m = ''shadow'' \<and> m' = m\<lparr> md_metrics := md_metrics m' \<rparr>)"
  note m = Run_metrics [OF assms(1), unfolded metrics_only_def]
  have shadow: "md_kind m = ''ranker'' \<and> md_status m = ''shadow''"
    if "m \<in> set (models s)" "md_id m \<in> md_id ` set (ListShadowModels ''ranker'' s)" for m
    using that assms(2) by (auto simp: ListShadowModels_def distinct_map inj_on_def)
  have all: "list_all2 ?R (models s) (models s')"
    using conjunct2 [OF m] by (rule list.rel_mono_strong) (use shadow in \<open>auto simp: metrics_of_def\<close>)
  have "list_all2 ?R xs ys \<Longrightarrow> filter (\<lambda>m. md_kind m = ''ranker'' \<and> md_status m = ''active'') ys
      = filter (\<lambda>m. md_kind m = ''ranker'' \<and> md_status m = ''active'') xs" for xs ys
    by (induction rule: list_all2_induct) (auto dest: arg_cong [of _ _ md_status])
  from this [OF all] have "GetActiveModel ''ranker'' s' = GetActiveModel ''ranker'' s" by (simp add: GetActiveModel_def)
  then have "Loader_Refresh L' dir' pen' disk (Some s') cur = Loader_Refresh L' dir' pen' disk (Some s) cur"
    by (simp add: Loader_Refresh_def)
  with m all show ?thesis by blast
qed

section \<open>Witnesses\<close>

lemma ndcg_bounds_witness: "0 \<le> NDCGAt [0, 2, 1] 10 \<and> NDCGAt [0, 2, 1] 10 \<le> 1"
  using ndcg_bounds [of "[0, 2, 1]" 10] by simp

definition two_shown :: imp_group where
  "two_shown = \<lparr> igQuery = ''cats'', igItems = [\<lparr> iiVideoID = 1, iiPosition = 0, iiRel = 0 \<rparr>, \<lparr> iiVideoID = 2, iiPosition = 1, iiRel = 2 \<rparr>] \<rparr>"

lemma ranked_labels_permute_witness:
  "mset (relsInRankedOrder sample_ext (heuristicRanker (docsForGroup sample_ext two_shown [])) two_shown)
   = mset (relsInServedOrder two_shown)"
  by (rule conjunct1 [OF ranked_labels_permute [OF ext_ok_sample heuristic.reranker_axioms]]) (simp add: two_shown_def)

lemma repeated_impression_scores_zero_witness:
  "NDCGAt (relsInRankedOrder sample_ext (heuristicRanker (docsForGroup sample_ext \<lparr> igQuery = ''cats'',
     igItems = [\<lparr> iiVideoID = 1, iiPosition = 0, iiRel = 1 \<rparr>, \<lparr> iiVideoID = 1, iiPosition = 0, iiRel = 0 \<rparr>] \<rparr> []))
     \<lparr> igQuery = ''cats'', igItems = [\<lparr> iiVideoID = 1, iiPosition = 0, iiRel = 1 \<rparr>, \<lparr> iiVideoID = 1, iiPosition = 0, iiRel = 0 \<rparr>] \<rparr>)
   ndcgK = 0"
  using repeated_impression_scores_zero [OF heuristic.reranker_axioms, of "\<lparr> igQuery = ''cats'',
     igItems = [\<lparr> iiVideoID = 1, iiPosition = 0, iiRel = 1 \<rparr>, \<lparr> iiVideoID = 1, iiPosition = 0, iiRel = 0 \<rparr>] \<rparr>" 1 0 0] by simp

definition calm_shadow :: shadow_env where
  "calm_shadow = \<lparr> sv_list = True, sv_imps = True, sv_recall = (\<lambda>i. True), sv_update = (\<lambda>i. True), sv_dbnow = 0,
     sv_recall_now = (\<lambda>i. 0), sv_now = (\<lambda>i. 0), sv_disk = (\<lambda>i. tree_disk) \<rparr>"

lemma shadow_run_only_metrics_witness:
  "Loader_Refresh one_tree ''/models'' 0 tree_disk
     (Some (snd (ShadowEvaluator_Run sample_ext sample_pg one_tree ''/models'' 0 14 calm_shadow registry))) None
   = Loader_Refresh one_tree ''/models'' 0 tree_disk (Some registry) None"
proof -
  have "distinct (map md_id (models registry))" by (simp add: registry_def)
  from shadow_run_only_metrics [OF surjective_pairing this] show ?thesis by blast
qed

end
