(* ===== verification/Telemetry.thy ===== *)
theory Telemetry
  imports Config Engagement
begin

text \<open>
  \<open>internal/telemetry\<close> and what it samples: the instruments as maps from label values (a histogram is the list of what was
  observed), the two collectors that read the database at scrape time, the estimates of \<open>internal/store/tablestats.go\<close>
  and the logger: its levels, and the line and the observation of every request (\<open>api/server.go\<close>).
\<close>

section \<open>Levels\<close>

datatype level = LevelDebug | LevelInfo | LevelWarn | LevelError

definition ParseLevel :: "(string \<Rightarrow> string) \<Rightarrow> string \<Rightarrow> level option" where
  "ParseLevel lower s = (let l = lower (TrimSpace s) in
     if l \<in> set ['''', ''info''] then Some LevelInfo
     else if l = ''debug'' then Some LevelDebug
     else if l \<in> set [''warn'', ''warning''] then Some LevelWarn
     else if l = ''error'' then Some LevelError else None)"

text \<open>The numbers of \<open>log/slog\<close>: a record is written when its level reaches the handler's.\<close>

primrec severity :: "level \<Rightarrow> int" where
  "severity LevelDebug = -4"
| "severity LevelInfo = 0"
| "severity LevelWarn = 4"
| "severity LevelError = 8"

lemma severity_inject: "severity a = severity b \<longleftrightarrow> a = b"
  by (cases a; cases b) simp_all

instantiation level :: linorder
begin

definition less_eq_level :: "level \<Rightarrow> level \<Rightarrow> bool" where
  "less_eq_level a b = (severity a \<le> severity b)"

definition less_level :: "level \<Rightarrow> level \<Rightarrow> bool" where
  "less_level a b = (severity a < severity b)"

instance
  by standard (auto simp: less_eq_level_def less_level_def severity_inject)

end

lemma level_top: "l \<le> LevelError"
  by (cases l) (simp_all add: less_eq_level_def)

datatype log_handler = JSONHandler level | TextHandler level

definition NewLogger :: "(string \<Rightarrow> string) \<Rightarrow> string \<Rightarrow> string \<Rightarrow> log_handler option" where
  "NewLogger lower level format = (case ParseLevel lower level of None \<Rightarrow> None
     | Some lvl \<Rightarrow> (let f = lower (TrimSpace format) in
         if f \<in> set ['''', ''json''] then Some (JSONHandler lvl) else if f = ''text'' then Some (TextHandler lvl) else None))"

primrec handler_level :: "log_handler \<Rightarrow> level" where
  "handler_level (JSONHandler l) = l"
| "handler_level (TextHandler l) = l"

section \<open>Instruments\<close>

record metrics =
  mtRequests :: "string \<times> string \<times> string \<Rightarrow> nat"
  mtDuration :: "string \<times> string \<times> string \<Rightarrow> real list"
  mtEvents :: "string \<times> string \<Rightarrow> nat"
  mtSuggest :: "real list"
  mtEventLag :: "real list"
  mtRollup :: "string \<Rightarrow> real list"
  mtWorkerErrors :: "string \<Rightarrow> nat"
  mtRejections :: "string \<times> string \<Rightarrow> nat"
  mtReconcileAge :: real
  mtModelLoadErrors :: nat
  mtLoadedModel :: "string \<times> string \<Rightarrow> real option"
  mtShadowEval :: "string \<times> string \<Rightarrow> real option"

definition NewMetrics :: metrics where
  "NewMetrics = \<lparr> mtRequests = (\<lambda>k. 0), mtDuration = (\<lambda>k. []), mtEvents = (\<lambda>k. 0), mtSuggest = [], mtEventLag = [], mtRollup = (\<lambda>k. []),
     mtWorkerErrors = (\<lambda>k. 0), mtRejections = (\<lambda>k. 0), mtReconcileAge = 0, mtModelLoadErrors = 0, mtLoadedModel = (\<lambda>k. None),
     mtShadowEval = (\<lambda>k. None) \<rparr>"

definition statusClass :: "int \<Rightarrow> string" where
  "statusClass code = (if 200 \<le> code \<and> code < 300 then ''2xx'' else if 300 \<le> code \<and> code < 400 then ''3xx''
     else if 400 \<le> code \<and> code < 500 then ''4xx'' else if 500 \<le> code then ''5xx'' else ''other'')"

definition seconds :: "int \<Rightarrow> real" where
  "seconds d = real_of_int d / 1000000000"

definition ObserveRequest :: "string \<Rightarrow> string \<Rightarrow> int \<Rightarrow> int \<Rightarrow> metrics \<Rightarrow> metrics" where
  "ObserveRequest method route status d m =
     (let route = (if route = [] then ''unmatched'' else route); k = (method, route, statusClass status)
      in m\<lparr> mtRequests := (mtRequests m)(k := mtRequests m k + 1), mtDuration := (mtDuration m)(k := mtDuration m k @ [seconds d]) \<rparr>)"

text \<open>The line and the observation of one answered request. \<open>route\<close> is the template the router matched, empty when none did.\<close>

record request_line =
  rlLevel :: level
  rlMethod :: string
  rlPath :: string
  rlStatus :: int
  rlLatencyMs :: int
  rlRequestID :: string
  rlCorrelationID :: "string option"
  rlError :: "string option"

definition requestLogPath :: "string \<Rightarrow> string \<Rightarrow> string" where
  "requestLogPath route raw_path = (if route \<noteq> [] then route else raw_path)"

definition request_level :: "int \<Rightarrow> level" where
  "request_level status = (if 500 \<le> status then LevelError else if 400 \<le> status then LevelWarn else LevelInfo)"

definition requestLogger :: "log_handler \<Rightarrow> string \<Rightarrow> string \<Rightarrow> string \<Rightarrow> int \<Rightarrow> int \<Rightarrow> string \<Rightarrow> string \<Rightarrow> string option
    \<Rightarrow> metrics option \<Rightarrow> request_line option \<times> metrics option" where
  "requestLogger h method route raw_path status latency request_id cid err m =
     (let l = request_level status;
          line = \<lparr> rlLevel = l, rlMethod = method, rlPath = requestLogPath route raw_path, rlStatus = status,
            rlLatencyMs = sgn latency * (\<bar>latency\<bar> div 1000000), rlRequestID = request_id,
            rlCorrelationID = (if cid = [] then None else Some cid), rlError = err \<rparr>
      in (if handler_level h \<le> l then Some line else None, map_option (ObserveRequest method route status latency) m))"

lemma request_level_mono: "status \<le> status' \<Longrightarrow> request_level status \<le> request_level status'"
  by (auto simp: request_level_def less_eq_level_def)

text \<open>No configured level hides a failure of the service: a request that ends with 500 or more is logged, and it is counted
  whatever the level is. Requests that succeed are logged exactly when the configured name is not one of those above info.\<close>

lemma failures_are_logged:
  "500 \<le> status \<Longrightarrow> fst (requestLogger h method route raw_path status latency request_id cid err m) \<noteq> None"
  by (simp add: requestLogger_def request_level_def level_top)

lemma successes_logged_iff:
  assumes "NewLogger lower name format = Some h" and "status < 400"
  shows "fst (requestLogger h method route raw_path status latency request_id cid err m) \<noteq> None
    \<longleftrightarrow> lower (TrimSpace name) \<in> {'''', ''info'', ''debug''}"
proof -
  obtain l where l: "ParseLevel lower name = Some l" "handler_level h = l"
    using assms(1) by (auto simp: NewLogger_def Let_def split: option.splits if_splits)
  have "l \<le> LevelInfo \<longleftrightarrow> lower (TrimSpace name) \<in> {'''', ''info'', ''debug''}"
    using l(1) by (auto simp: ParseLevel_def Let_def less_eq_level_def split: if_splits)
  then show ?thesis using assms(2) l(2) by (simp add: requestLogger_def request_level_def)
qed

text \<open>A request no route matches is counted under one label, but its line carries the path the client sent.\<close>

lemma unmatched_request:
  assumes "rlPath line = p" and "fst (requestLogger h method [] raw_path status latency request_id cid err (Some m)) = Some line"
  shows "p = raw_path"
    and "snd (requestLogger h method [] raw_path status latency request_id cid err (Some m)) = Some (ObserveRequest method ''unmatched'' status latency m)"
  using assms by (auto simp: requestLogger_def requestLogPath_def ObserveRequest_def Let_def split: if_splits)

definition ObserveEvent :: "string \<Rightarrow> string \<Rightarrow> metrics \<Rightarrow> metrics" where
  "ObserveEvent ty out m = m\<lparr> mtEvents := (mtEvents m)((ty, out) := mtEvents m (ty, out) + 1) \<rparr>"

definition ObserveSuggest :: "int \<Rightarrow> metrics \<Rightarrow> metrics" where
  "ObserveSuggest d m = m\<lparr> mtSuggest := mtSuggest m @ [seconds d] \<rparr>"

definition ObserveEventLag :: "real \<Rightarrow> metrics \<Rightarrow> metrics" where
  "ObserveEventLag s m = (if s < 0 then m else m\<lparr> mtEventLag := mtEventLag m @ [s] \<rparr>)"

definition ObserveRollup :: "string \<Rightarrow> real \<Rightarrow> metrics \<Rightarrow> metrics" where
  "ObserveRollup worker s m = m\<lparr> mtRollup := (mtRollup m)(worker := mtRollup m worker @ [s]) \<rparr>"

definition IncWorkerError :: "string \<Rightarrow> metrics \<Rightarrow> metrics" where
  "IncWorkerError worker m = m\<lparr> mtWorkerErrors := (mtWorkerErrors m)(worker := mtWorkerErrors m worker + 1) \<rparr>"

definition IncTrendingRejection :: "string \<Rightarrow> string \<Rightarrow> metrics \<Rightarrow> metrics" where
  "IncTrendingRejection domain why m = m\<lparr> mtRejections := (mtRejections m)((domain, why) := mtRejections m (domain, why) + 1) \<rparr>"

definition SetReconcileAge :: "real \<Rightarrow> metrics \<Rightarrow> metrics" where
  "SetReconcileAge s m = m\<lparr> mtReconcileAge := s \<rparr>"

definition IncModelLoadError :: "metrics \<Rightarrow> metrics" where
  "IncModelLoadError m = m\<lparr> mtModelLoadErrors := mtModelLoadErrors m + 1 \<rparr>"

text \<open>\<open>DeletePartialMatch\<close> takes every version of the kind away.\<close>

definition SetLoadedModel :: "string \<Rightarrow> string \<Rightarrow> metrics \<Rightarrow> metrics" where
  "SetLoadedModel kind version m =
     m\<lparr> mtLoadedModel := (\<lambda>k. if fst k = kind then None else mtLoadedModel m k)((kind, version) := Some 1) \<rparr>"

definition SetShadowMetric :: "string \<Rightarrow> string \<Rightarrow> real \<Rightarrow> metrics \<Rightarrow> metrics" where
  "SetShadowMetric version metric v m = m\<lparr> mtShadowEval := (mtShadowEval m)((version, metric) := Some v) \<rparr>"

text \<open>\<open>runOnce\<close>: a pass that failed counts as an error, one that did not is timed.\<close>

definition observe_pass :: "string \<Rightarrow> bool \<Rightarrow> int \<Rightarrow> metrics option \<Rightarrow> metrics option" where
  "observe_pass name ok took m = map_option (if ok then ObserveRollup name (seconds took) else IncWorkerError name) m"

definition knownTypes :: "string list" where
  "knownTypes = [TypeSnapshotPage, TypeSnapshotEnd, TypeVideoUpsert, TypeVideoSuppress, TypeVideoStats, TypeChannelUpsert,
     TypeChannelDelete, TypeUserSuppress, TypeUserHistoryDel, TypeConfigUpdated, TypeReconcileBegin, TypeReconcilePage, TypeReconcileEnd,
     TypeSearchSubmitted, TypeSearchSuggShown, TypeSearchSuggSelected, TypeSearchResultClicked, TypeVideoImpression, TypeVideoPlayStarted,
     TypeVideoWatchProgress, TypeVideoCompleted, TypeVideoMeaningfulWatch, TypeSearchReformulated, TypeSearchAbandoned]"

definition metricType :: "string \<Rightarrow> string" where
  "metricType t = (if t \<in> set knownTypes then t else ''unknown'')"

section \<open>What is sampled\<close>

text \<open>\<open>None\<close> is an estimate PostgreSQL does not have. \<open>reltuples\<close> is -1 on a table that was never analyzed.\<close>

record table_row_estimate =
  teTable :: string
  teRows :: "int option"

definition rowEstimate :: "int option \<Rightarrow> real \<Rightarrow> int option" where
  "rowEstimate nLiveTup reltuples = (case nLiveTup of Some v \<Rightarrow> Some v
     | None \<Rightarrow> if reltuples \<ge> 0 then Some \<lfloor>reltuples\<rfloor> else None)"

text \<open>The rows of the statement: name, live tuples, tuples of the planner; \<open>None\<close> is a failed query.\<close>

definition TableRowEstimates :: "(string \<times> int option \<times> real) list option \<Rightarrow> table_row_estimate list option" where
  "TableRowEstimates rows = map_option (map (\<lambda>(name, n, r). \<lparr> teTable = name, teRows = rowEstimate n r \<rparr>)) rows"

record table_depth =
  tdTable :: string
  tdRows :: "int option"

definition tableDepthSource :: "(string \<times> int option \<times> real) list option \<Rightarrow> table_depth list option" where
  "tableDepthSource rows = map_option (map (\<lambda>r. \<lparr> tdTable = teTable r, tdRows = teRows r \<rparr>)) (TableRowEstimates rows)"

text \<open>A scrape: the samples sent, by their label.\<close>

definition Collect_tables :: "table_depth list option \<Rightarrow> (string \<times> int) list" where
  "Collect_tables rows = (case rows of None \<Rightarrow> []
     | Some rows \<Rightarrow> concat (map (\<lambda>r. case tdRows r of None \<Rightarrow> [] | Some n \<Rightarrow> [(tdTable r, n)]) rows))"

record doc_count =
  dcEligible :: bool
  dcCount :: int

text \<open>\<open>GROUP BY eligible\<close>: a row per value that occurs.\<close>

definition CountDocumentsByEligibility :: "db \<Rightarrow> doc_count list" where
  "CountDocumentsByEligibility s = map (\<lambda>e. \<lparr> dcEligible = e, dcCount = int (length (filter (\<lambda>d. d_eligible d = e) (documents s))) \<rparr>)
     (remdups (map d_eligible (documents s)))"

definition documentGaugeSource :: "db option \<Rightarrow> doc_count list option" where
  "documentGaugeSource s = map_option CountDocumentsByEligibility s"

definition Collect_documents :: "doc_count list option \<Rightarrow> (string \<times> int) list" where
  "Collect_documents rows = (case rows of None \<Rightarrow> []
     | Some rows \<Rightarrow> map (\<lambda>r. (if dcEligible r then ''true'' else ''false'', dcCount r)) rows)"

section \<open>What the gauges say\<close>

text \<open>One served ranker per kind.\<close>

definition one_loaded :: "metrics \<Rightarrow> bool" where
  "one_loaded m \<longleftrightarrow> (\<forall>k v v'. mtLoadedModel m (k, v) \<noteq> None \<and> mtLoadedModel m (k, v') \<noteq> None \<longrightarrow> v = v')"

lemma one_loaded_new: "one_loaded NewMetrics"
  by (simp add: one_loaded_def NewMetrics_def)

lemma one_loaded_set: "one_loaded m \<Longrightarrow> one_loaded (SetLoadedModel kind version m)"
  by (auto simp: one_loaded_def SetLoadedModel_def split: if_split_asm)

lemma loaded_set: "mtLoadedModel (SetLoadedModel kind version m) (kind, v) = (if v = version then Some 1 else None)"
  by (simp add: SetLoadedModel_def)

text \<open>A table PostgreSQL knows nothing of has no sample; every other has its own.\<close>

lemma unknown_depth_is_gap:
  "(t, n) \<in> set (Collect_tables (tableDepthSource (Some rows))) \<longleftrightarrow> (\<exists>live r. (t, live, r) \<in> set rows \<and> rowEstimate live r = Some n)"
  by (force simp: Collect_tables_def tableDepthSource_def TableRowEstimates_def split: option.splits)

lemma never_analyzed: "rowEstimate None (-1) = None" and empty_table: "rowEstimate (Some 0) (-1) = Some 0"
  by (simp_all add: rowEstimate_def)

lemma filter_partition: "length (filter P xs) + length (filter (\<lambda>x. \<not> P x) xs) = length xs"
  by (induction xs) auto

text \<open>The gauge counts every document once. A scrape that reaches the database sends, for each value of \<open>eligible\<close>, a
  sample with the number of documents that have it, or none when there are none, and the samples add up to the
  table; one that does not reach it sends none.\<close>

theorem document_gauge_exact:
  "(let samples = Collect_documents (documentGaugeSource (Some s)) in
      distinct (map fst samples) \<and> sum_list (map snd samples) = int (length (documents s))
      \<and> map_of samples ''true'' = (let n = length (filter d_eligible (documents s)) in if n = 0 then None else Some (int n))
      \<and> map_of samples ''false'' = (let n = length (filter (\<lambda>d. \<not> d_eligible d) (documents s)) in if n = 0 then None else Some (int n)))
   \<and> Collect_documents (documentGaugeSource None) = []"
proof -
  let ?es = "map d_eligible (documents s)"
  let ?n = "length (filter d_eligible (documents s))" and ?m = "length (filter (\<lambda>d. \<not> d_eligible d) (documents s))"
  have t: "True \<in> set ?es \<longleftrightarrow> ?n \<noteq> 0" and f: "False \<in> set ?es \<longleftrightarrow> ?m \<noteq> 0"
    by (force simp: filter_empty_conv)+
  have "set (remdups ?es) \<subseteq> {True, False}" by auto
  moreover have "distinct (remdups ?es)" by simp
  ultimately consider "remdups ?es = []" | "remdups ?es = [True]" | "remdups ?es = [False]" | "remdups ?es = [True, False]"
    | "remdups ?es = [False, True]"
    by (cases "remdups ?es"; cases "tl (remdups ?es)"; cases "tl (tl (remdups ?es))") (auto simp del: distinct_remdups set_remdups)
  then have "remdups ?es \<in> {[], [True], [False], [True, False], [False, True]}" by cases auto
  moreover have "True \<in> set (remdups ?es) \<longleftrightarrow> ?n \<noteq> 0" "False \<in> set (remdups ?es) \<longleftrightarrow> ?m \<noteq> 0" using t f by simp_all
  moreover have "int ?n + int ?m = int (length (documents s))" using filter_partition [of d_eligible "documents s"] by linarith
  ultimately show ?thesis
    by (elim insertE emptyE, simp_all add: Collect_documents_def documentGaugeSource_def CountDocumentsByEligibility_def Let_def
        del: set_remdups)
qed

end
