(* ===== verification/Migrate.thy ===== *)
theory Migrate
  imports Config "HOL-Library.Sublist" "HOL-Library.List_Lexorder" "HOL-Library.Char_ord"
begin

text \<open>
  \<open>internal/dbmigrate/dbmigrate.go\<close> and the \<open>migrate\<close> command of \<open>cmd/api/migrate.go\<close>. The migration library (golang-migrate)
  and its source of embedded files are a record of functions over a state of the database; so is the part of \<open>net/url\<close>
  that takes a URL apart. Query strings, the command line and the rules around the ledger are written out.
\<close>

section \<open>Query strings\<close>

definition Cut :: "char \<Rightarrow> string \<Rightarrow> string \<times> string" where
  "Cut c s = (takeWhile (\<lambda>x. x \<noteq> c) s, tl (dropWhile (\<lambda>x. x \<noteq> c) s))"

text \<open>\<open>url.QueryUnescape\<close> and \<open>url.QueryEscape\<close>.\<close>

fun QueryUnescape :: "string \<Rightarrow> string option" where
  "QueryUnescape [] = Some []"
| "QueryUnescape (c # s) =
     (if c = CHR ''%'' then
        (case s of a # b # t \<Rightarrow>
            (case (hex_val a, hex_val b) of
               (Some x, Some y) \<Rightarrow> map_option ((#) (char_of (16 * x + y))) (QueryUnescape t) | _ \<Rightarrow> None)
         | _ \<Rightarrow> None)
      else map_option ((#) (if c = CHR ''+'' then CHR '' '' else c)) (QueryUnescape s))"

definition unreserved :: "char \<Rightarrow> bool" where
  "unreserved c \<longleftrightarrow> token_char c \<or> c = CHR ''~''"

definition upper_hex :: "nat \<Rightarrow> char" where
  "upper_hex d = (if d < 10 then char_of (48 + d) else char_of (55 + d))"

definition escape_byte :: "char \<Rightarrow> string" where
  "escape_byte c = (if unreserved c then [c] else if c = CHR '' '' then ''+''
     else [CHR ''%'', upper_hex (of_char c div 16), upper_hex (of_char c mod 16)])"

definition QueryEscape :: "string \<Rightarrow> string" where
  "QueryEscape s = concat (map escape_byte s)"

text \<open>\<open>url.Values\<close> as the pairs in their order; \<open>Get\<close> is the first value of a key.\<close>

type_synonym query_values = "(string \<times> string) list"

definition query_pair :: "string \<Rightarrow> query_values" where
  "query_pair piece = (if piece = [] \<or> CHR '';'' \<in> set piece then []
     else (case Cut (CHR ''='') piece of (k, v) \<Rightarrow>
       (case (QueryUnescape k, QueryUnescape v) of (Some k, Some v) \<Rightarrow> [(k, v)] | _ \<Rightarrow> [])))"

function ParseQuery :: "string \<Rightarrow> query_values" where
  "ParseQuery s = (if s = [] then [] else query_pair (fst (Cut (CHR ''&'') s)) @ ParseQuery (snd (Cut (CHR ''&'') s)))"
  by pat_completeness auto
termination
proof (relation "measure length")
  fix s :: string assume "s \<noteq> []"
  moreover have "length (dropWhile (\<lambda>x. x \<noteq> CHR ''&'') s) \<le> length s" by (rule length_dropWhile_le)
  ultimately show "(snd (Cut (CHR ''&'') s), s) \<in> measure length" by (cases s) (auto simp: Cut_def less_Suc_eq_le)
qed simp

declare ParseQuery.simps [simp del]

definition Has :: "query_values \<Rightarrow> string \<Rightarrow> bool" where
  "Has q k \<longleftrightarrow> k \<in> fst ` set q"

definition Get :: "query_values \<Rightarrow> string \<Rightarrow> string" where
  "Get q k = (case map_of q k of None \<Rightarrow> [] | Some v \<Rightarrow> v)"

definition Del :: "query_values \<Rightarrow> string \<Rightarrow> query_values" where
  "Del q k = filter (\<lambda>p. fst p \<noteq> k) q"

fun encode_pairs :: "query_values \<Rightarrow> string" where
  "encode_pairs [] = []"
| "encode_pairs [(k, v)] = QueryEscape k @ CHR ''='' # QueryEscape v"
| "encode_pairs ((k, v) # q) = QueryEscape k @ CHR ''='' # QueryEscape v @ CHR ''&'' # encode_pairs q"

text \<open>The keys in their order, the values of a key as they came.\<close>

definition Encode :: "query_values \<Rightarrow> string" where
  "Encode q = encode_pairs (sort_key fst q)"

section \<open>The connection string\<close>

definition Table :: string where "Table = ''vidra_search_migrations''"
definition Schema :: string where "Schema = ''public''"
definition legacyTableParam :: string where "legacyTableParam = ''x-migrations-table''"
definition searchPathParam :: string where "searchPathParam = ''search_path''"
definition optionsParam :: string where "optionsParam = ''options''"

datatype migrate_error = BadArguments | BadSetting config_error | BadURL | Disagrees string | NoConnection | ReadLedger | ApplyFailed
  | ForceFailed | BadVersion | NoSource | DirtyLedger nat

text \<open>\<open>net/url\<close>: the raw query of a URL, and its text with another one.\<close>

type_synonym url_lib = "string \<Rightarrow> (string \<times> (string \<Rightarrow> string)) option"

definition is_url :: "string \<Rightarrow> bool" where
  "is_url dsn \<longleftrightarrow> prefix ''postgres://'' dsn \<or> prefix ''postgresql://'' dsn"

definition normalizeDSN :: "url_lib \<Rightarrow> (string \<Rightarrow> string) \<Rightarrow> string \<Rightarrow> migrate_error + string" where
  "normalizeDSN U lower dsn =
     (if \<not> is_url dsn then Inr dsn
      else (case U dsn of None \<Rightarrow> Inl BadURL
        | Some (qs, rebuilt) \<Rightarrow> (let q = ParseQuery qs in
            if Has q searchPathParam then Inl (Disagrees searchPathParam)
            else if sublist searchPathParam (lower (Get q optionsParam)) then Inl (Disagrees optionsParam)
            else if \<not> Has q legacyTableParam then Inr dsn
            else if Get q legacyTableParam \<noteq> Table then Inl (Disagrees legacyTableParam)
            else Inr (rebuilt (Encode (Del q legacyTableParam))))))"

section \<open>The ledger\<close>

record ledger_status =
  Version :: nat
  Applied :: bool
  Dirty :: bool

definition Status_String :: "ledger_status \<Rightarrow> string" where
  "Status_String st = ''version='' @ (if Applied st then FormatInt (int (Version st)) else ''none'') @ '' dirty=''
     @ (if Dirty st then ''true'' else ''false'') @ '' table='' @ Table"

text \<open>The library: what it says of the ledger, of a run and of its source.\<close>

datatype version_answer = NilVersion bool | AtVersion nat bool | VersionFailed
datatype up_answer = UpDone | NoChange | UpFailed
datatype source_answer = Found nat | NotExist | SourceFailed

record 'm migrator =
  mg_source :: bool
  mg_First :: source_answer
  mg_Next :: "nat \<Rightarrow> source_answer"
  mg_open :: "string \<Rightarrow> string \<Rightarrow> string \<Rightarrow> 'm \<Rightarrow> bool \<times> 'm"
  mg_Version :: "'m \<Rightarrow> version_answer"
  mg_Up :: "'m \<Rightarrow> up_answer \<times> 'm"
  mg_Force :: "int \<Rightarrow> 'm \<Rightarrow> bool \<times> 'm"

text \<open>The ledger's table and schema are those compiled in, whatever the connection string says.\<close>

definition open_migrator :: "'m migrator \<Rightarrow> url_lib \<Rightarrow> (string \<Rightarrow> string) \<Rightarrow> string \<Rightarrow> 'm \<Rightarrow> migrate_error option \<times> 'm" where
  "open_migrator M U lower dsn m =
     (case normalizeDSN U lower dsn of Inl e \<Rightarrow> (Some e, m)
      | Inr d \<Rightarrow> if \<not> mg_source M then (Some NoSource, m)
          else (case mg_open M Schema Table d m of (ok, m') \<Rightarrow> (if ok then None else Some NoConnection, m')))"

definition ledger :: "'m migrator \<Rightarrow> 'm \<Rightarrow> migrate_error + ledger_status" where
  "ledger M m = (case mg_Version M m of
     NilVersion d \<Rightarrow> Inr \<lparr> Version = 0, Applied = False, Dirty = d \<rparr>
   | VersionFailed \<Rightarrow> Inl ReadLedger
   | AtVersion v d \<Rightarrow> Inr \<lparr> Version = v, Applied = True, Dirty = d \<rparr>)"

text \<open>The walk over the source; it may not end when the library runs in a circle, which is \<open>None\<close>.\<close>

partial_function (option) walk :: "(nat \<Rightarrow> source_answer) \<Rightarrow> nat \<Rightarrow> (migrate_error + nat) option" where
  "walk nxt v = (case nxt v of NotExist \<Rightarrow> Some (Inr v) | SourceFailed \<Rightarrow> Some (Inl NoSource) | Found n \<Rightarrow> walk nxt n)"

definition EmbeddedMax :: "'m migrator \<Rightarrow> (migrate_error + nat) option" where
  "EmbeddedMax M = (if \<not> mg_source M then Some (Inl NoSource)
     else (case mg_First M of NotExist \<Rightarrow> Some (Inr 0) | SourceFailed \<Rightarrow> Some (Inl NoSource) | Found v \<Rightarrow> walk (mg_Next M) v))"

definition LedgerAheadMessage :: "nat \<Rightarrow> nat \<Rightarrow> string" where
  "LedgerAheadMessage v embedded = ''schema version '' @ FormatInt (int v) @ '' is newer than this binary's newest migration ''
     @ FormatInt (int embedded) @ ''; nothing to apply''"

definition ahead_line :: "nat \<Rightarrow> nat \<Rightarrow> string" where
  "ahead_line v embedded = LedgerAheadMessage v embedded @ '' (ledger_version='' @ FormatInt (int v) @ '' embedded_max=''
     @ FormatInt (int embedded) @ '' dirty=false)''"

text \<open>A result, the lines printed, the database; \<open>None\<close> when it does not return.\<close>

type_synonym ('r, 'm) migration = "((migrate_error + 'r) \<times> string list \<times> 'm) option"

definition Up :: "'m migrator \<Rightarrow> url_lib \<Rightarrow> (string \<Rightarrow> string) \<Rightarrow> string \<Rightarrow> 'm \<Rightarrow> (ledger_status, 'm) migration" where
  "Up M U lower dsn m =
     (case open_migrator M U lower dsn m of
        (Some e, m1) \<Rightarrow> Some (Inl e, [], m1)
      | (None, m1) \<Rightarrow> (case ledger M m1 of
          Inl e \<Rightarrow> Some (Inl e, [], m1)
        | Inr before \<Rightarrow> (case EmbeddedMax M of
            None \<Rightarrow> None
          | Some (Inl e) \<Rightarrow> Some (Inl e, [], m1)
          | Some (Inr embedded) \<Rightarrow>
              if Applied before \<and> \<not> Dirty before \<and> Version before > embedded
              then Some (Inr before, [ahead_line (Version before) embedded], m1)
              else (case mg_Up M m1 of
                  (UpFailed, m2) \<Rightarrow> Some (Inl ApplyFailed, [], m2)
                | (_, m2) \<Rightarrow> Some (ledger M m2, [], m2)))))"

definition ReadVersion :: "'m migrator \<Rightarrow> url_lib \<Rightarrow> (string \<Rightarrow> string) \<Rightarrow> string \<Rightarrow> 'm \<Rightarrow> (migrate_error + ledger_status) \<times> 'm" where
  "ReadVersion M U lower dsn m = (case open_migrator M U lower dsn m of (Some e, m1) \<Rightarrow> (Inl e, m1) | (None, m1) \<Rightarrow> (ledger M m1, m1))"

definition Force :: "'m migrator \<Rightarrow> url_lib \<Rightarrow> (string \<Rightarrow> string) \<Rightarrow> string \<Rightarrow> int \<Rightarrow> 'm
    \<Rightarrow> (migrate_error + ledger_status \<times> ledger_status) \<times> 'm" where
  "Force M U lower dsn v m =
     (if v < -1 then (Inl BadVersion, m)
      else (case open_migrator M U lower dsn m of
          (Some e, m1) \<Rightarrow> (Inl e, m1)
        | (None, m1) \<Rightarrow> (case ledger M m1 of
            Inl e \<Rightarrow> (Inl e, m1)
          | Inr before \<Rightarrow> (case mg_Force M v m1 of (ok, m2) \<Rightarrow>
              if \<not> ok then (Inl ForceFailed, m2)
              else (case ledger M m2 of Inl e \<Rightarrow> (Inl e, m2) | Inr after \<Rightarrow> (Inr (before, after), m2))))))"

section \<open>The command\<close>

record migrate_cmd =
  mcName :: string
  mcVersion :: int

definition forceGateFlag :: string where "forceGateFlag = ''--yes-i-know''"

text \<open>The loop over the arguments: the version, whether the gate was there, whether a version was.\<close>

fun force_args :: "string list \<Rightarrow> int \<times> bool \<times> bool \<Rightarrow> (int \<times> bool \<times> bool) option" where
  "force_args [] acc = Some acc"
| "force_args (arg # args) (v, gated, have) =
     (if arg = forceGateFlag then force_args args (v, True, have)
      else (case ParseInt arg of None \<Rightarrow> None
        | Some n \<Rightarrow> if have then None else force_args args (n, gated, True)))"

definition parseForceArgs :: "string list \<Rightarrow> migrate_cmd option" where
  "parseForceArgs args = (case force_args args (0, False, False) of None \<Rightarrow> None
     | Some (v, gated, have) \<Rightarrow> if \<not> have \<or> v < -1 \<or> \<not> gated then None else Some \<lparr> mcName = ''force'', mcVersion = v \<rparr>)"

definition parseMigrateArgs :: "string list \<Rightarrow> migrate_cmd option" where
  "parseMigrateArgs args = (case args of [] \<Rightarrow> None
     | a # rest \<Rightarrow> if a \<in> set [''up'', ''version'', ''embedded-max''] then (if rest \<noteq> [] then None else Some \<lparr> mcName = a, mcVersion = 0 \<rparr>)
         else if a = ''force'' then parseForceArgs rest else None)"

definition dirtyLedgerErr :: "ledger_status \<Rightarrow> migrate_error option" where
  "dirtyLedgerErr st = (if Dirty st then Some (DirtyLedger (Version st)) else None)"

text \<open>The error, \<open>None\<close> for the exit status 0; what is printed; the database.\<close>

definition runMigrate ::
  "'m migrator \<Rightarrow> url_lib \<Rightarrow> (string \<Rightarrow> string) \<Rightarrow> env \<Rightarrow> string list \<Rightarrow> 'm \<Rightarrow> (migrate_error option \<times> string list \<times> 'm) option" where
  "runMigrate M U lower env args m =
     (case parseMigrateArgs args of None \<Rightarrow> Some (Some BadArguments, [], m)
      | Some cmd \<Rightarrow>
        if mcName cmd = ''embedded-max'' then
          (case EmbeddedMax M of None \<Rightarrow> None | Some (Inl e) \<Rightarrow> Some (Some e, [], m)
           | Some (Inr v) \<Rightarrow> Some (None, [FormatInt (int v)], m))
        else (case LoadDatabaseURL env of Inl e \<Rightarrow> Some (Some (BadSetting e), [], m)
          | Inr dsn \<Rightarrow>
            if mcName cmd = ''up'' then
              (case Up M U lower dsn m of None \<Rightarrow> None
               | Some (Inl e, out, m') \<Rightarrow> Some (Some e, out, m')
               | Some (Inr st, out, m') \<Rightarrow> Some (dirtyLedgerErr st, out @ [''migrate up: '' @ Status_String st], m'))
            else if mcName cmd = ''version'' then
              (case ReadVersion M U lower dsn m of (Inl e, m') \<Rightarrow> Some (Some e, [], m')
               | (Inr st, m') \<Rightarrow> Some (dirtyLedgerErr st, [Status_String st], m'))
            else (case Force M U lower dsn (mcVersion cmd) m of (Inl e, m') \<Rightarrow> Some (Some e, [], m')
               | (Inr (before, after), m') \<Rightarrow> Some (None, [''migrate force: before '' @ Status_String before,
                    ''migrate force: after  '' @ Status_String after,
                    ''migrate force: the ledger now claims version '' @ FormatInt (mcVersion cmd) @ ''; verify the schema matches it''], m'))))"

section \<open>Query strings, there and back\<close>

lemma hex_upper: "d < 16 \<Longrightarrow> hex_val (upper_hex d) = Some d"
  by (auto simp: hex_val_def upper_hex_def Let_def)

lemma upper_hex_code: "d < 16 \<Longrightarrow> (of_char (upper_hex d) :: nat) = (if d < 10 then 48 + d else 55 + d)"
  by (simp add: upper_hex_def)

lemma nibbles: "(of_char c :: nat) div 16 < 16" "(of_char c :: nat) mod 16 < 16"
  using less_mult_imp_div_less [of "of_char c :: nat" 16 16] nat_of_char_less_256 [of c] by simp_all

lemma escape_byte_plain: "CHR ''&'' \<notin> set (escape_byte c)" "CHR ''='' \<notin> set (escape_byte c)" "CHR '';'' \<notin> set (escape_byte c)"
proof -
  have hex: "x \<noteq> upper_hex d" if "d < 16" "(of_char x :: nat) \<in> {38, 59, 61}" for d x
  proof
    assume "x = upper_hex d"
    then have "(of_char x :: nat) = (if d < 10 then 48 + d else 55 + d)" using upper_hex_code [OF that(1)] by simp
    with that show False by (auto split: if_split_asm)
  qed
  have free: "\<not> unreserved (CHR ''&'')" "\<not> unreserved (CHR ''='')" "\<not> unreserved (CHR '';'')"
    by (simp_all add: unreserved_def token_char_def)
  show "CHR ''&'' \<notin> set (escape_byte c)" "CHR ''='' \<notin> set (escape_byte c)" "CHR '';'' \<notin> set (escape_byte c)"
    unfolding escape_byte_def using free hex [OF nibbles(1) [of c]] hex [OF nibbles(2) [of c]] by auto
qed

lemma QueryEscape_plain [simp]: "CHR ''&'' \<notin> set (QueryEscape s)" "CHR ''='' \<notin> set (QueryEscape s)" "CHR '';'' \<notin> set (QueryEscape s)"
  using escape_byte_plain by (auto simp: QueryEscape_def)

lemma unescape_byte: "QueryUnescape (escape_byte c @ s) = map_option ((#) c) (QueryUnescape s)"
proof (cases "unreserved c")
  case True
  then have "c \<noteq> CHR ''%'' \<and> c \<noteq> CHR ''+''" by (auto simp: unreserved_def token_char_def)
  with True show ?thesis by (simp add: escape_byte_def)
next
  case False
  have "char_of (16 * (of_char c div 16) + of_char c mod 16 :: nat) = c" by simp
  with False show ?thesis by (simp add: escape_byte_def hex_upper nibbles del: mult_div_mod_eq)
qed

lemma unescape_escape: "QueryUnescape (QueryEscape s) = Some s"
  by (induction s) (simp_all add: QueryEscape_def unescape_byte)

lemma Cut_first:
  assumes c: "c \<notin> set x"
  shows "Cut c (x @ c # s) = (x, s)" and "Cut c x = (x, [])"
proof -
  have tk: "takeWhile (\<lambda>y. y \<noteq> c) x = x" using c by (auto simp: takeWhile_eq_all_conv)
  have dw: "dropWhile (\<lambda>y. y \<noteq> c) x = []" using c by (auto simp: dropWhile_eq_Nil_conv)
  show "Cut c x = (x, [])" unfolding Cut_def tk dw by simp
  show "Cut c (x @ c # s) = (x, s)" using c by (simp add: Cut_def takeWhile_append dropWhile_append)
qed

lemma query_pair_encoded: "query_pair (QueryEscape k @ CHR ''='' # QueryEscape v) = [(k, v)]"
  by (simp add: query_pair_def Cut_first unescape_escape)

lemma ParseQuery_encoded: "ParseQuery (encode_pairs q) = q"
proof (induction q rule: encode_pairs.induct)
  case 1
  show ?case by (simp add: ParseQuery.simps)
next
  case (2 k v)
  have "ParseQuery [] = []" by (simp add: ParseQuery.simps)
  then show ?case
    by (simp add: ParseQuery.simps [of "QueryEscape k @ CHR ''='' # QueryEscape v"] Cut_first query_pair_encoded)
next
  case (3 k v p q)
  have "Cut (CHR ''&'') (encode_pairs ((k, v) # p # q)) = (QueryEscape k @ CHR ''='' # QueryEscape v, encode_pairs (p # q))"
    using Cut_first(1) [of "CHR ''&''" "QueryEscape k @ CHR ''='' # QueryEscape v" "encode_pairs (p # q)"] by simp
  moreover have "encode_pairs ((k, v) # p # q) \<noteq> []" by simp
  ultimately show ?case using 3 by (subst ParseQuery.simps) (simp add: query_pair_encoded)
qed

lemma ParseQuery_Encode: "ParseQuery (Encode q) = sort_key fst q"
  by (simp add: Encode_def ParseQuery_encoded)

lemma sorted_values: "map snd (filter (\<lambda>p. fst p = k) (sort_key fst q)) = map snd (filter (\<lambda>p. fst p = k) (q :: query_values))"
  by (simp add: filter_sort [symmetric] sort_key_stable)

text \<open>C39. What becomes of a connection URL that parses. It is refused exactly in three cases: it has a parameter \<open>search_path\<close>; the first
  value of its \<open>options\<close> has that very text, in any case of letters (other spellings of the setting pass, see \<open>other_spellings_pass\<close>); or its
  parameter of the old migration tool names another ledger. Otherwise it is handed to the driver as it is or, when it has that old
  parameter, rewritten to one whose query parses to the same values in the same order for every other parameter, and which no longer has
  the old one.\<close>

theorem normalized_dsn_keeps_parameters:
  assumes "is_url dsn" and "U dsn = Some (qs, rebuilt)"
  shows "case normalizeDSN U lower dsn of
      Inl e \<Rightarrow> (e = Disagrees searchPathParam \<and> Has (ParseQuery qs) searchPathParam)
        \<or> (e = Disagrees optionsParam \<and> sublist searchPathParam (lower (Get (ParseQuery qs) optionsParam)))
        \<or> (e = Disagrees legacyTableParam \<and> Has (ParseQuery qs) legacyTableParam \<and> Get (ParseQuery qs) legacyTableParam \<noteq> Table)
    | Inr d \<Rightarrow> \<not> Has (ParseQuery qs) searchPathParam \<and> \<not> sublist searchPathParam (lower (Get (ParseQuery qs) optionsParam))
        \<and> (if Has (ParseQuery qs) legacyTableParam
           then Get (ParseQuery qs) legacyTableParam = Table
             \<and> (\<exists>query. d = rebuilt query \<and> \<not> Has (ParseQuery query) legacyTableParam
               \<and> (\<forall>k. k \<noteq> legacyTableParam \<longrightarrow> map snd (filter (\<lambda>p. fst p = k) (ParseQuery query)) = map snd (filter (\<lambda>p. fst p = k) (ParseQuery qs))))
           else d = dsn)"
proof -
  let ?q = "ParseQuery qs"
  have gone: "\<not> Has (ParseQuery (Encode (Del ?q legacyTableParam))) legacyTableParam"
    by (auto simp: ParseQuery_Encode Has_def Del_def)
  have kept: "map snd (filter (\<lambda>p. fst p = k) (ParseQuery (Encode (Del ?q legacyTableParam)))) = map snd (filter (\<lambda>p. fst p = k) ?q)"
    if "k \<noteq> legacyTableParam" for k
  proof -
    have "filter (\<lambda>p. fst p = k) (Del ?q legacyTableParam) = filter (\<lambda>p. fst p = k) ?q"
      using that by (induction ?q) (auto simp: Del_def filter_filter intro!: filter_cong)
    then show ?thesis by (simp add: ParseQuery_Encode sorted_values)
  qed
  show ?thesis
    using assms gone kept by (auto simp: normalizeDSN_def Let_def)
qed

section \<open>The walk over the migrations\<close>

text \<open>What golang-migrate documents of a source: the versions in ascending order, each followed by the next.\<close>

definition lists_versions :: "'m migrator \<Rightarrow> nat list \<Rightarrow> bool" where
  "lists_versions M vs \<longleftrightarrow> mg_First M = (case vs of [] \<Rightarrow> NotExist | v # _ \<Rightarrow> Found v)
     \<and> (\<forall>i < length vs. mg_Next M (vs ! i) = (if Suc i < length vs then Found (vs ! Suc i) else NotExist))"

lemma walk_ends:
  assumes "\<forall>i < length vs. nxt (vs ! i) = (if Suc i < length vs then Found (vs ! Suc i) else NotExist)" and "i < length vs"
  shows "walk nxt (vs ! i) = Some (Inr (last vs))"
  using assms(2)
proof (induction "length vs - i" arbitrary: i)
  case (Suc n)
  show ?case
  proof (cases "Suc i < length vs")
    case True
    then have "walk nxt (vs ! Suc i) = Some (Inr (last vs))" using Suc by simp
    with True Suc.prems assms(1) show ?thesis by (simp add: walk.simps [of nxt "vs ! i"])
  next
    case False
    then have "i = length vs - 1" using Suc.prems by simp
    moreover have "walk nxt (vs ! i) = Some (Inr (vs ! i))"
      using False Suc.prems assms(1) by (simp add: walk.simps [of nxt "vs ! i"])
    moreover have "vs \<noteq> []" using Suc.prems by auto
    ultimately show ?thesis by (simp add: last_conv_nth)
  qed
qed simp

lemma walk_leaves:
  assumes "walk nxt u = Some r"
  shows "nxt u \<noteq> Found u"
  by (rule walk.raw_induct [where P = "\<lambda>f v y. f v \<noteq> Found v", OF _ assms]) auto

text \<open>The walk ends at the newest migration. Over a source that lists its versions the loop returns, with the last of
  them, or 0 when there is none; over one that runs in a circle it never does.\<close>

theorem embedded_max_is_newest:
  assumes "mg_source M"
  shows "(lists_versions M vs \<longrightarrow> EmbeddedMax M = Some (Inr (if vs = [] then 0 else last vs)))
    \<and> (mg_First M = Found v \<and> mg_Next M v = Found v \<longrightarrow> EmbeddedMax M = None)"
proof -
  have "EmbeddedMax M = Some (Inr (if vs = [] then 0 else last vs))" if l: "lists_versions M vs"
  proof (cases vs)
    case Nil
    with l assms show ?thesis by (simp add: EmbeddedMax_def lists_versions_def)
  next
    case (Cons w ws)
    then have "walk (mg_Next M) (vs ! 0) = Some (Inr (last vs))"
      using l walk_ends [of vs "mg_Next M" 0] by (simp add: lists_versions_def)
    with Cons l assms show ?thesis by (simp add: EmbeddedMax_def lists_versions_def)
  qed
  moreover have "walk (mg_Next M) v = None" if "mg_Next M v = Found v"
    using walk_leaves that by (cases "walk (mg_Next M) v") auto
  ultimately show ?thesis using assms by (auto simp: EmbeddedMax_def)
qed

section \<open>What the command may do to the ledger\<close>

lemma force_args_Some:
  "force_args args (v, g, h) = Some (v', g', h') \<longleftrightarrow>
     (case filter (\<lambda>a. a \<noteq> forceGateFlag) args of
        [] \<Rightarrow> v' = v \<and> h' = h
      | [a] \<Rightarrow> \<not> h \<and> ParseInt a = Some v' \<and> h'
      | _ \<Rightarrow> False) \<and> g' = (g \<or> forceGateFlag \<in> set args)"
proof (induction args arbitrary: v g h)
  case (Cons a args)
  have one: "force_args args (n, g, True) = Some (v', g', h') \<longleftrightarrow>
      filter (\<lambda>a. a \<noteq> forceGateFlag) args = [] \<and> v' = n \<and> h' \<and> g' = (g \<or> forceGateFlag \<in> set args)" for n
    unfolding Cons.IH by (auto split: list.split)
  show ?case
  proof (cases "a = forceGateFlag")
    case True
    then show ?thesis using Cons.IH [of v True h] by simp
  next
    case False
    then show ?thesis using one by (auto split: option.split list.split)
  qed
qed auto

lemma parseForce_iff:
  "parseMigrateArgs (''force'' # args) = Some cmd \<longleftrightarrow>
     (\<exists>a v. filter (\<lambda>a. a \<noteq> forceGateFlag) args = [a] \<and> ParseInt a = Some v \<and> -1 \<le> v \<and> forceGateFlag \<in> set args
        \<and> cmd = \<lparr> mcName = ''force'', mcVersion = v \<rparr>)"
proof -
  have "parseMigrateArgs (''force'' # args) = parseForceArgs args" by (simp add: parseMigrateArgs_def)
  moreover have "parseForceArgs args = Some cmd \<longleftrightarrow>
      (\<exists>v. force_args args (0, False, False) = Some (v, True, True) \<and> -1 \<le> v \<and> cmd = \<lparr> mcName = ''force'', mcVersion = v \<rparr>)"
    unfolding parseForceArgs_def by (auto split: option.split)
  moreover have "force_args args (0, False, False) = Some (v, True, True) \<longleftrightarrow>
      (\<exists>a. filter (\<lambda>a. a \<noteq> forceGateFlag) args = [a] \<and> ParseInt a = Some v) \<and> forceGateFlag \<in> set args" for v
    unfolding force_args_Some by (auto split: list.split)
  ultimately show ?thesis by auto
qed

lemma Up_clean: "Up M U lower dsn m = Some (Inr st, out, m') \<Longrightarrow> ledger M m' = Inr st"
  by (auto simp: Up_def split: prod.split_asm option.split_asm sum.split_asm if_split_asm up_answer.split_asm)

lemma ReadVersion_clean: "ReadVersion M U lower dsn m = (Inr st, m') \<Longrightarrow> ledger M m' = Inr st"
  by (auto simp: ReadVersion_def split: prod.split_asm option.split_asm)

lemma parsed_names: "parseMigrateArgs args = Some cmd \<Longrightarrow>
    args = [mcName cmd] \<and> mcName cmd \<in> set [''up'', ''version'', ''embedded-max''] \<or> (\<exists>rest. args = ''force'' # rest)"
  by (auto simp: parseMigrateArgs_def split: list.split_asm if_split_asm)

text \<open>The rollback floor: a clean ledger ahead of the binary is left as it is, and the command succeeds.\<close>

lemma rollback_floor:
  assumes "open_migrator M U lower dsn m = (None, m1)" and "mg_Version M m1 = AtVersion v False"
    and "EmbeddedMax M = Some (Inr n)" and "n < v"
  shows "Up M U lower dsn m = Some (Inr \<lparr> Version = v, Applied = True, Dirty = False \<rparr>, [ahead_line v n], m1)"
  using assms by (simp add: Up_def ledger_def)

text \<open>C38. The ledger is only rewritten behind the gate. A command that changes the database at all is exactly \<open>up\<close>, exactly
  \<open>version\<close>, or a \<open>force\<close> with the gate flag and with one version, of -1 or more; and when \<open>up\<close> or \<open>version\<close> succeeds, the
  ledger it leaves can be read and is not dirty.\<close>

theorem migrate_guarded:
  assumes "runMigrate M U lower env args m = Some (e, out, m')"
  shows "(m' = m \<or> args = [''up''] \<or> args = [''version'']
      \<or> (\<exists>rest a v. args = ''force'' # rest \<and> filter (\<lambda>a. a \<noteq> forceGateFlag) rest = [a] \<and> ParseInt a = Some v \<and> -1 \<le> v
          \<and> forceGateFlag \<in> set rest))
    \<and> (e = None \<and> (args = [''up''] \<or> args = [''version'']) \<longrightarrow> (\<exists>st. ledger M m' = Inr st \<and> \<not> Dirty st))"
proof (cases "parseMigrateArgs args")
  case None
  with assms show ?thesis by (auto simp: runMigrate_def)
next
  case (Some cmd)
  consider (up) "args = [''up'']" | (version) "args = [''version'']" | (embedded) "args = [''embedded-max'']" "mcName cmd = ''embedded-max''"
    | (force) rest where "args = ''force'' # rest"
    using parsed_names [OF Some] by auto
  then show ?thesis
  proof cases
    case up
    then have "parseMigrateArgs args = Some \<lparr> mcName = ''up'', mcVersion = 0 \<rparr>" by (simp add: parseMigrateArgs_def)
    with assms up show ?thesis
      by (auto simp: runMigrate_def dirtyLedgerErr_def dest: Up_clean split: sum.split_asm option.split_asm prod.split_asm if_split_asm)
  next
    case version
    then have "parseMigrateArgs args = Some \<lparr> mcName = ''version'', mcVersion = 0 \<rparr>" by (simp add: parseMigrateArgs_def)
    with assms version show ?thesis
      by (auto simp: runMigrate_def dirtyLedgerErr_def dest: ReadVersion_clean split: sum.split_asm option.split_asm prod.split_asm if_split_asm)
  next
    case embedded
    with assms Some show ?thesis by (auto simp: runMigrate_def split: sum.split_asm option.split_asm)
  next
    case force
    with Some show ?thesis using parseForce_iff [of rest cmd] by auto
  qed
qed

section \<open>Spellings of the search path\<close>

text \<open>PostgreSQL reads a dash in the name of an option as an underscore, and its options may be quoted with a backslash:
  both spellings move the search path, and neither is refused.\<close>

lemma other_spellings_pass:
  "list_all (\<lambda>opt. normalizeDSN (\<lambda>s. Some (''options='' @ opt, \<lambda>r. s)) (\<lambda>s. s) ''postgres://h/d'' = Inr ''postgres://h/d'')
     [''-csearch-path%3Devil'', ''-csearch%5C_path%3Devil'']"
  by code_simp

section \<open>Witnesses\<close>

text \<open>A library over a ledger of one version and a flag, with two migrations.\<close>

definition small_migrator :: "(nat option \<times> bool) migrator" where
  "small_migrator = \<lparr> mg_source = True, mg_First = Found 1, mg_Next = (\<lambda>v. if v = 1 then Found 2 else NotExist),
     mg_open = (\<lambda>schema table dsn m. (True, m)),
     mg_Version = (\<lambda>m. case fst m of None \<Rightarrow> NilVersion (snd m) | Some v \<Rightarrow> AtVersion v (snd m)),
     mg_Up = (\<lambda>m. if snd m then (UpFailed, m) else (UpDone, (Some 2, False))), mg_Force = (\<lambda>v m. (True, (Some (nat v), False))) \<rparr>"

definition no_urls :: url_lib where
  "no_urls s = (if s = ''postgres://h/d?options=x&x-migrations-table=vidra_search_migrations&a=1''
     then Some (''options=x&x-migrations-table=vidra_search_migrations&a=1'', (@) ''postgres://h/d?'') else None)"

lemma embedded_max_is_newest_witness: "EmbeddedMax small_migrator = Some (Inr 2)"
proof -
  have "mg_source small_migrator" "lists_versions small_migrator [1, 2]"
    by (auto simp: small_migrator_def lists_versions_def less_Suc_eq nth_Cons split: nat.split)
  then show ?thesis using embedded_max_is_newest [of small_migrator "[1, 2]"] by simp
qed

lemma migrate_guarded_witness:
  "snd (snd (the (runMigrate small_migrator no_urls (\<lambda>s. s) [''DATABASE_URL'' \<mapsto> ''host=x''] [''force'', ''1''] (Some 2, True)))) = (Some 2, True)"
proof -
  have ends: "runMigrate small_migrator no_urls (\<lambda>s. s) [''DATABASE_URL'' \<mapsto> ''host=x''] [''force'', ''1''] (Some 2, True)
      = Some (Some BadArguments, [], (Some 2, True))"
  proof -
    have "parseMigrateArgs [''force'', ''1''] = None" by code_simp
    then show ?thesis by (simp add: runMigrate_def)
  qed
  show ?thesis using migrate_guarded [OF ends] by (simp add: ends forceGateFlag_def)
qed

lemma normalized_dsn_keeps_parameters_witness:
  "normalizeDSN no_urls (\<lambda>s. s) ''postgres://h/d?options=x&x-migrations-table=vidra_search_migrations&a=1''
     = Inr ''postgres://h/d?a=1&options=x''
   \<and> \<not> Has (ParseQuery ''options=x&x-migrations-table=vidra_search_migrations&a=1'') searchPathParam"
proof -
  let ?dsn = "''postgres://h/d?options=x&x-migrations-table=vidra_search_migrations&a=1''"
  have n: "normalizeDSN no_urls (\<lambda>s. s) ?dsn = Inr ''postgres://h/d?a=1&options=x''" by code_simp
  have "is_url ?dsn" by code_simp
  moreover have "no_urls ?dsn = Some (''options=x&x-migrations-table=vidra_search_migrations&a=1'', (@) ''postgres://h/d?'')"
    by (simp add: no_urls_def)
  ultimately show ?thesis using normalized_dsn_keeps_parameters [of ?dsn no_urls _ _ "\<lambda>s. s"] unfolding n by fastforce
qed

end
