(* ===== verification/Trending.thy ===== *)
theory Trending
  imports Prelude
begin

text \<open>
  \<open>internal/trending/trending.go\<close>: the decay of a counter and the gates an item passes before it is
  exposed. \<open>WilsonLowerBound\<close> is \<open>None\<close> where the source's square root is of a negative number:
  the result is NaN, which compares as not below any floor.
\<close>

definition DefaultZ :: real where "DefaultZ = 196 / 100"

definition DecayFactor :: "real \<Rightarrow> real \<Rightarrow> real" where
  "DecayFactor elapsedSeconds halfLifeSeconds =
     (if halfLifeSeconds \<le> 0 then 1 else if elapsedSeconds \<le> 0 then 1
      else 2 powr (- elapsedSeconds / halfLifeSeconds))"

definition Decay :: "real \<Rightarrow> real \<Rightarrow> real \<Rightarrow> real" where
  "Decay v elapsedSeconds halfLifeSeconds = v * DecayFactor elapsedSeconds halfLifeSeconds"

definition WilsonLowerBound :: "real \<Rightarrow> real \<Rightarrow> real \<Rightarrow> real option" where
  "WilsonLowerBound pos n z =
     (if n \<le> 0 \<or> pos \<le> 0 then Some 0
      else (let phat = pos / n; z2 = z * z; denom = 1 + z2 / n; centre = phat + z2 / (2 * n);
                radicand = (phat * (1 - phat) + z2 / (4 * n)) / n
            in if radicand < 0 then None
               else (let lb = (centre - z * sqrt radicand) / denom in Some (if lb < 0 then 0 else lb))))"

datatype reason = ReasonOK | ReasonDistinctUsers | ReasonWilsonMinVol

definition EvaluateGate :: "int \<Rightarrow> real \<Rightarrow> int \<Rightarrow> real \<Rightarrow> real \<Rightarrow> bool \<times> reason" where
  "EvaluateGate distinctUsers volume minUsers wilsonFloor z =
     (if distinctUsers < minUsers then (False, ReasonDistinctUsers)
      else if (case WilsonLowerBound (real_of_int distinctUsers) volume z of None \<Rightarrow> False | Some lb \<Rightarrow> lb < wilsonFloor)
      then (False, ReasonWilsonMinVol) else (True, ReasonOK))"

section \<open>Decay\<close>

lemma DecayFactor_bounds: "0 < DecayFactor e h \<and> DecayFactor e h \<le> 1"
proof (cases "h > 0 \<and> e > 0")
  case True
  then have "2 powr (- e / h) \<le> 2 powr (0 :: real)" by (intro powr_mono) simp_all
  then show ?thesis by (simp add: DecayFactor_def)
qed (auto simp: DecayFactor_def)

text \<open>Decay is one clock: decaying in two steps is decaying once over the whole time, so how often a
  counter is swept does not matter; every half-life halves it, and it never grows nor changes sign.\<close>

theorem decay_in_steps:
  assumes "0 \<le> a" and "0 \<le> b"
  shows "Decay (Decay v a h) b h = Decay v (a + b) h \<and> (0 < h \<longrightarrow> Decay v h h = v / 2)
    \<and> \<bar>Decay v a h\<bar> \<le> \<bar>v\<bar> \<and> (0 \<le> v \<longrightarrow> 0 \<le> Decay v a h)"
proof -
  have "DecayFactor a h * DecayFactor b h = DecayFactor (a + b) h"
    using assms by (auto simp: DecayFactor_def powr_add [symmetric] add_divide_distrib diff_divide_distrib)
  moreover have "DecayFactor h h = 1 / 2" if "0 < h"
    using that by (simp add: DecayFactor_def powr_minus)
  moreover have "\<bar>v * DecayFactor a h\<bar> \<le> \<bar>v\<bar>"
    using DecayFactor_bounds [of a h] mult_left_le [of "DecayFactor a h" "\<bar>v\<bar>"] by (simp add: abs_mult)
  ultimately show ?thesis using DecayFactor_bounds [of a h] by (simp add: Decay_def mult.assoc)
qed

lemma decay_in_steps_witness: "Decay (Decay 8 60 60) 60 60 = Decay 8 (60 + 60) 60 \<and> Decay 8 60 60 = 8 / 2"
  using decay_in_steps [of 60 60 8 60] by linarith

section \<open>The gate\<close>

lemma radicand_ok:
  assumes "0 < pos" "pos \<le> n"
  shows "0 \<le> (pos / n * (1 - pos / n) + z * z / (4 * n)) / (n :: real)"
  using assms by simp

text \<open>The bound of a proportion \<open>p\<close> over \<open>n\<close> trials.\<close>

lemma wilson_below_rate:
  assumes "0 \<le> p" "p \<le> 1" "0 < n" "0 \<le> z"
  shows "p + z * z / (2 * n) - z * sqrt ((p * (1 - p) + z * z / (4 * n)) / n) \<le> p * (1 + z * z / n)"
proof -
  let ?r = "(p * (1 - p) + z * z / (4 * n)) / n"
  have "z * (1 - 2 * p) / (2 * n) \<le> sqrt ?r"
  proof (rule real_le_rsqrt)
    have "(1 - 2 * p)\<^sup>2 \<le> 1" using assms by (simp add: abs_square_le_1)
    then have "z * z * (1 - 2 * p)\<^sup>2 \<le> z * z" using mult_left_le by fastforce
    then have "z * z * (1 - 2 * p)\<^sup>2 / (4 * n * n) \<le> z * z / (4 * n * n)"
      using assms by (simp add: divide_right_mono)
    moreover have "z * z / (4 * n * n) \<le> ?r"
      using assms by (simp add: add_divide_distrib divide_divide_eq_left mult.assoc)
    moreover have "(z * (1 - 2 * p) / (2 * n))\<^sup>2 = z * z * (1 - 2 * p)\<^sup>2 / (4 * n * n)"
      by (simp only: power2_eq_square times_divide_times_eq) (simp add: mult_ac)
    ultimately show "(z * (1 - 2 * p) / (2 * n))\<^sup>2 \<le> ?r" by linarith
  qed
  then have "z * (z * (1 - 2 * p) / (2 * n)) \<le> z * sqrt ?r" using assms(4) by (rule mult_left_mono)
  moreover have "z * (z * (1 - 2 * p) / (2 * n)) = z * z / (2 * n) - p * (z * z / n)"
    using assms by (simp add: field_simps)
  ultimately show ?thesis by (simp add: algebra_simps)
qed

text \<open>The gate is sound where the estimate of the distinct users does not exceed the volume: the
  Wilson bound is then a number between zero and the naive rate, and whatever passes the gate has
  at least the minimum of distinct users and a naive rate that clears the floor.\<close>

theorem gate_sound:
  assumes "0 < volume" and "real_of_int users \<le> volume" and "0 \<le> users" and "0 \<le> z"
    and "EvaluateGate users volume minUsers flr z = (True, r)"
  shows "minUsers \<le> users \<and> flr \<le> real_of_int users / volume
    \<and> (\<exists>lb. WilsonLowerBound (real_of_int users) volume z = Some lb \<and> 0 \<le> lb \<and> lb \<le> real_of_int users / volume \<and> flr \<le> lb)"
proof -
  define d where "d = real_of_int users"
  define p where "p = d / volume"
  have p: "0 \<le> p" "p \<le> 1" using assms by (simp_all add: p_def d_def)
  have "\<exists>lb. WilsonLowerBound d volume z = Some lb \<and> 0 \<le> lb \<and> lb \<le> p"
  proof (cases "d \<le> 0")
    case False
    define r where "r = (p * (1 - p) + z * z / (4 * volume)) / volume"
    have r: "0 \<le> r" using p assms(1) by (simp add: r_def)
    have "0 \<le> z * z / volume" using assms by simp
    then have den: "0 < 1 + z * z / volume" by linarith
    have "(p + z * z / (2 * volume) - z * sqrt r) / (1 + z * z / volume) \<le> p"
      using wilson_below_rate [OF p assms(1,4)] den by (simp add: pos_divide_le_eq r_def)
    moreover have "WilsonLowerBound d volume z = Some (let lb = (p + z * z / (2 * volume) - z * sqrt r) / (1 + z * z / volume)
        in if lb < 0 then 0 else lb)"
      using False assms(1) r unfolding WilsonLowerBound_def Let_def p_def [symmetric] r_def [symmetric] by simp
    ultimately show ?thesis using p by (auto simp: Let_def)
  qed (use p in \<open>simp add: WilsonLowerBound_def\<close>)
  then obtain lb where lb: "WilsonLowerBound d volume z = Some lb" "0 \<le> lb" "lb \<le> p" by blast
  have "minUsers \<le> users" "flr \<le> lb"
    using assms(5) lb(1) by (simp_all add: EvaluateGate_def d_def [symmetric] split: if_split_asm)
  with lb show ?thesis by (simp add: p_def d_def)
qed

lemma gate_sound_witness: "5 \<le> (9 :: int) \<and> (0 :: real) \<le> 9 / 10"
proof -
  have "EvaluateGate 9 10 5 0 0 = (True, ReasonOK)"
    by (simp add: EvaluateGate_def WilsonLowerBound_def Let_def)
  from gate_sound [OF _ _ _ _ this] show ?thesis by simp
qed

end
