(* ===== verification/Sweep.thy ===== *)
theory Sweep
  imports WorkerBase Trending
begin

text \<open>
  The trending sweeper of \<open>internal/worker/worker.go\<close> over the Redis keyspace, and the table of jobs. The calls of one
  pass are numbered: \<open>sp_now i\<close> is when the \<open>i\<close>-th is made and \<open>sp_ok i\<close> whether it is
  answered. Nobody else writes during the pass.
\<close>

section \<open>The sweeper\<close>

record sweep_env =
  sp_now :: "nat \<Rightarrow> int"
  sp_ok :: "nat \<Rightarrow> bool"
  sp_hll :: "string set \<Rightarrow> int"

text \<open>The candidates one by one, two calls each; \<open>None\<close> when one is not answered. The number of the next call comes with it.\<close>

fun gate_items :: "worker_config \<Rightarrow> sweep_env \<Rightarrow> int \<Rightarrow> string \<Rightarrow> nat \<Rightarrow> (string \<times> real) list \<Rightarrow> redis \<Rightarrow> (nat \<times> (string \<times> real) list) option" where
  "gate_items cfg E minUsers d i [] m = Some (i, [])"
| "gate_items cfg E minUsers d i (cand # cands) m =
     (case TrendDistinctUsers (sp_hll E) (sp_now E i) (sp_ok E i) d (fst cand) (TrendWindowDays cfg) m of None \<Rightarrow> None
      | Some users \<Rightarrow>
        (case TrendTotal (sp_now E (i + 1)) (sp_ok E (i + 1)) d (fst cand) (TrendWindowDays cfg) m of None \<Rightarrow> None
         | Some volume \<Rightarrow>
           (case gate_items cfg E minUsers d (i + 2) cands m of None \<Rightarrow> None
            | Some (j, gated) \<Rightarrow>
                Some (j, if fst (EvaluateGate users volume minUsers (WilsonFloor cfg) DefaultZ) then cand # gated else gated))))"

definition sweep_domain :: "worker_config \<Rightarrow> sweep_env \<Rightarrow> int \<Rightarrow> string \<Rightarrow> nat \<Rightarrow> redis \<Rightarrow> nat option \<times> redis" where
  "sweep_domain cfg E minUsers d i m =
     (case TrendSweep (sp_now E i) (sp_ok E i) d (TrendingHalfLifeSeconds cfg) (TrendPruneFloor cfg) m of
        (None, m) \<Rightarrow> (None, m)
      | (Some n, m) \<Rightarrow>
          (case TrendTop (sp_now E (i + 1)) (sp_ok E (i + 1)) d (TrendingTopK cfg) m of None \<Rightarrow> (None, m)
           | Some tops \<Rightarrow>
               (case gate_items cfg E minUsers d (i + 2) tops m of None \<Rightarrow> (None, m)
                | Some (j, gated) \<Rightarrow>
                    (case WriteTrendingList (sp_now E j) (sp_ok E j) d gated (TrendingListTTL cfg) m of
                       (ok, m) \<Rightarrow> (if ok then Some (j + 1) else None, m)))))"

definition trendingSweeper :: "worker_config \<Rightarrow> bool \<Rightarrow> bool \<Rightarrow> db \<Rightarrow> sweep_env \<Rightarrow> redis \<Rightarrow> bool \<times> redis" where
  "trendingSweeper cfg has_cache read_ok s E m =
     (if \<not> has_cache then (True, m)
      else let minUsers = overlayInt (overlay read_ok s) ''minimum_query_user_count'' (MinQueryUserCount cfg)
      in (case sweep_domain cfg E minUsers ''q'' 0 m of (None, m) \<Rightarrow> (False, m)
          | (Some i, m) \<Rightarrow> (case sweep_domain cfg E minUsers ''v'' i m of (r, m) \<Rightarrow> (r \<noteq> None, m))))"

section \<open>The table of jobs\<close>

datatype job = AggregatesRollup | EngagementRollup | SessionizerJob | CovisRollup | TrendingSweeper | Retention
  | ReconcileGuard | SuggestibleReeval | ExtraJob nat

record periodic_job =
  pj_name :: string
  pj_interval :: int

definition AddJob :: "periodic_job \<Rightarrow> periodic_job list \<Rightarrow> periodic_job list" where
  "AddJob j extra = extra @ [if pj_interval j \<le> 0 then j\<lparr> pj_interval := minutes 1 \<rparr> else j]"

text \<open>What \<open>RunOnce\<close> runs under a name; \<open>None\<close> is its error.\<close>

definition RunOnce :: "periodic_job list \<Rightarrow> string \<Rightarrow> job option" where
  "RunOnce extra name =
     (if name = ''aggregates_rollup'' then Some AggregatesRollup
      else if name = ''engagement_rollup'' then Some EngagementRollup
      else if name = ''sessionizer'' then Some SessionizerJob
      else if name = ''covis_rollup'' then Some CovisRollup
      else if name = ''trending_sweeper'' then Some TrendingSweeper
      else if name = ''retention'' then Some Retention
      else if name = ''reconcile_guard'' then Some ReconcileGuard
      else if name = ''suggestible_reeval'' then Some SuggestibleReeval
      else map_option ExtraJob (find (\<lambda>i. pj_name (extra ! i) = name) [0..<length extra]))"

text \<open>The loops \<open>Start\<close> launches: name, interval, job.\<close>

definition Start :: "worker_config \<Rightarrow> bool \<Rightarrow> periodic_job list \<Rightarrow> (string \<times> int \<times> job) list" where
  "Start cfg has_cache extra =
     [(''aggregates_rollup'', AggregatesInterval cfg, AggregatesRollup), (''engagement_rollup'', EngagementInterval cfg, EngagementRollup),
      (''sessionizer'', SessionizerInterval cfg, SessionizerJob), (''covis_rollup'', CovisInterval cfg, CovisRollup),
      (''retention'', RetentionInterval cfg, Retention), (''reconcile_guard'', ReconcileGuardInterval cfg, ReconcileGuard),
      (''suggestible_reeval'', ReevalInterval cfg, SuggestibleReeval)]
     @ (if has_cache then [(''trending_sweeper'', TrendingInterval cfg, TrendingSweeper)] else [])
     @ map (\<lambda>i. (pj_name (extra ! i), pj_interval (extra ! i), ExtraJob i)) [0..<length extra]"

lemma dur_pos: "0 < dflt \<Longrightarrow> 0 < dur dflt d"
  by (simp add: dur_def)

text \<open>Every loop ticks at a positive interval (a ticker of none panics).\<close>

lemma started_intervals:
  assumes "(name, interval, j) \<in> set (Start (workerDefaults cfg) has_cache (fold AddJob extra []))"
  shows "0 < interval"
proof -
  have keep: "\<forall>j \<in> set js. 0 < pj_interval j \<Longrightarrow> \<forall>j \<in> set (fold AddJob extra js). 0 < pj_interval j" for js
  proof (induction extra arbitrary: js)
    case (Cons a extra)
    have "\<forall>j \<in> set (AddJob a js). 0 < pj_interval j" using Cons.prems by (auto simp: AddJob_def minutes_def nanos_def)
    from Cons.IH [OF this] show ?case by simp
  qed simp
  have "0 < pj_interval (fold AddJob extra [] ! i)" if "i < length (fold AddJob extra [])" for i
    using keep [of "[]"] that nth_mem by fastforce
  then have "list_all (\<lambda>(name, interval, j). 0 < interval) (Start (workerDefaults cfg) has_cache (fold AddJob extra []))"
    by (simp add: Start_def workerDefaults_def dur_pos minutes_def hours_def nanos_def list_all_iff ball_Un)
  then show ?thesis using assms by (auto simp: list_all_iff)
qed

section \<open>Keys the sweeper does not touch\<close>

lemma zrem_other: "k \<noteq> zk \<Longrightarrow> zrem t zk x m k = m k" and hdel_other: "k \<noteq> hk \<Longrightarrow> hdel t hk x m k = m k"
  by (simp_all add: zrem_def hdel_def split: list.split)

lemma sweep_one_other: "k \<noteq> zk \<Longrightarrow> k \<noteq> hk \<Longrightarrow> sweep_one t zk hk hl flr ms m k = m k"
  by (simp add: sweep_one_def hdel_other zrem_other hset_def zadd_def Let_def)

lemma TrendSweep_other:
  assumes "k \<noteq> trendZKey d" and "k \<noteq> trendTSKey d"
  shows "snd (TrendSweep t ok d hl flr m) k = m k"
proof -
  have "fold (sweep_one t (trendZKey d) (trendTSKey d) hl flr) xs m k = m k" for xs
    by (induction xs arbitrary: m) (simp_all add: sweep_one_other assms)
  then show ?thesis by (simp add: TrendSweep_def trendSweepScript_def Let_def)
qed

lemma sweep_domain_other:
  "k \<noteq> trendZKey d \<Longrightarrow> k \<noteq> trendTSKey d \<Longrightarrow> k \<noteq> trendTopKey d \<Longrightarrow> snd (sweep_domain cfg E minUsers d i m) k = m k"
  using TrendSweep_other [of k d "sp_now E i" "sp_ok E i" "TrendingHalfLifeSeconds cfg" "TrendPruneFloor cfg" m]
  by (auto simp: sweep_domain_def WriteTrendingList_def set_ex_def split: prod.split option.split)

text \<open>The counters of an item are keys of other prefixes.\<close>

definition same_counters :: "redis \<Rightarrow> redis \<Rightarrow> bool" where
  "same_counters m m' \<longleftrightarrow> (\<forall>d item day. m' (hllKey d item day) = m (hllKey d item day) \<and> m' (cntKey d item day) = m (cntKey d item day))"

lemma counters_apart:
  "hllKey d item day \<noteq> trendZKey d'" "hllKey d item day \<noteq> trendTSKey d'" "hllKey d item day \<noteq> trendTopKey d'"
  "cntKey d item day \<noteq> trendZKey d'" "cntKey d item day \<noteq> trendTSKey d'" "cntKey d item day \<noteq> trendTopKey d'"
  by (simp_all add: trend_keys)

lemma counters_read:
  assumes "same_counters m m'"
  shows "TrendDistinctUsers hll t ok d item n m' = TrendDistinctUsers hll t ok d item n m"
    and "TrendTotal t ok d item n m' = TrendTotal t ok d item n m"
proof -
  have "live t m' (hllKey d item day) = live t m (hllKey d item day)" "live t m' (cntKey d item day) = live t m (cntKey d item day)" for day
    using assms by (auto simp: same_counters_def intro!: live_cong)
  then show "TrendDistinctUsers hll t ok d item n m' = TrendDistinctUsers hll t ok d item n m"
    "TrendTotal t ok d item n m' = TrendTotal t ok d item n m"
    by (simp_all add: TrendDistinctUsers_def TrendTotal_def dayKeys_def hll_at_def int_at_def comp_def)
qed

lemma sweep_counters: "same_counters m (snd (sweep_domain cfg E minUsers d i m))"
  by (simp add: same_counters_def sweep_domain_other counters_apart)

section \<open>What is served\<close>

text \<open>An item passed the gate on the counters of the keyspace, each read at its time.\<close>

definition passed :: "worker_config \<Rightarrow> sweep_env \<Rightarrow> int \<Rightarrow> string \<Rightarrow> redis \<Rightarrow> string \<Rightarrow> bool" where
  "passed cfg E minUsers d m item \<longleftrightarrow> (\<exists>i users volume.
     TrendDistinctUsers (sp_hll E) (sp_now E i) True d item (TrendWindowDays cfg) m = Some users
     \<and> TrendTotal (sp_now E (i + 1)) True d item (TrendWindowDays cfg) m = Some volume
     \<and> minUsers \<le> users \<and> fst (EvaluateGate users volume minUsers (WilsonFloor cfg) DefaultZ))"

lemma gate_items_passed:
  "gate_items cfg E minUsers d i cands m = Some (j, gated) \<Longrightarrow>
   set gated \<subseteq> set cands \<and> length gated \<le> length cands \<and> (\<forall>c \<in> set gated. passed cfg E minUsers d m (fst c))
   \<and> (sorted_wrt R cands \<longrightarrow> sorted_wrt R gated)"
proof (induction cands arbitrary: i j gated)
  case (Cons cand cands)
  obtain users volume g where u: "TrendDistinctUsers (sp_hll E) (sp_now E i) (sp_ok E i) d (fst cand) (TrendWindowDays cfg) m = Some users"
    and v: "TrendTotal (sp_now E (i + 1)) (sp_ok E (i + 1)) d (fst cand) (TrendWindowDays cfg) m = Some volume"
    and g: "gate_items cfg E minUsers d (i + 2) cands m = Some (j, g)"
    and gated: "gated = (if fst (EvaluateGate users volume minUsers (WilsonFloor cfg) DefaultZ) then cand # g else g)"
    using Cons.prems by (auto split: option.split_asm prod.split_asm)
  have "passed cfg E minUsers d m (fst cand)" if "fst (EvaluateGate users volume minUsers (WilsonFloor cfg) DefaultZ)"
    unfolding passed_def using that u v
    by (intro exI [of _ i] exI [of _ users] exI [of _ volume])
      (auto simp: TrendDistinctUsers_def TrendTotal_def EvaluateGate_def split: if_split_asm)
  then show ?case using Cons.IH [OF g] by (auto simp: gated)
qed simp

interpretation by_scored: strict_weak_order scored_less
  by unfold_locales (auto simp: scored_less_def)

text \<open>One domain: what its list holds after a pass over it that went through.\<close>

definition gated_list :: "worker_config \<Rightarrow> sweep_env \<Rightarrow> int \<Rightarrow> string \<Rightarrow> redis \<Rightarrow> (string \<times> real) list \<Rightarrow> bool" where
  "gated_list cfg E minUsers d m xs \<longleftrightarrow> (\<forall>c \<in> set xs. passed cfg E minUsers d m (fst c))
     \<and> int (length xs) \<le> max 0 (TrendingTopK cfg) \<and> sorted_wrt (\<lambda>a b. snd a \<ge> snd b) xs"

lemma sweep_domain_list:
  assumes "sweep_domain cfg E minUsers d i m = (Some j, m')"
  shows "gated_list cfg E minUsers d m (readTrendingList t ok d m')"
proof -
  obtain r m1 where s: "TrendSweep (sp_now E i) (sp_ok E i) d (TrendingHalfLifeSeconds cfg) (TrendPruneFloor cfg) m = (r, m1)"
    by fastforce
  obtain tops where top: "TrendTop (sp_now E (i + 1)) (sp_ok E (i + 1)) d (TrendingTopK cfg) m1 = Some tops"
    using assms by (simp add: sweep_domain_def s split: option.split_asm)
  obtain k gated where g: "gate_items cfg E minUsers d (i + 2) tops m1 = Some (k, gated)"
    using assms top by (simp add: sweep_domain_def s split: option.split_asm prod.split_asm)
  have m': "m' = set_ex (sp_now E k) (trendTopKey d) (RScored gated) (TrendingListTTL cfg) m1"
    using assms top g by (simp add: sweep_domain_def s WriteTrendingList_def split: option.split_asm if_split_asm)
  have "same_counters m m1"
    using TrendSweep_other [of _ d "sp_now E i" "sp_ok E i" "TrendingHalfLifeSeconds cfg" "TrendPruneFloor cfg" m]
    by (simp add: s same_counters_def counters_apart)
  then have same: "passed cfg E minUsers d m1 item = passed cfg E minUsers d m item" for item
    by (simp add: passed_def counters_read)
  have "sorted_wrt (\<lambda>a b. snd a \<ge> snd b) (SliceStable scored_less xs)" for xs
    by (rule sorted_wrt_mono_rel [OF _ by_scored.sorted_SliceStable]) (auto simp: scored_less_def)
  then have "sorted_wrt (\<lambda>a b. snd a \<ge> snd b) tops"
    using top by (auto simp: TrendTop_def sorted_wrt_take split: if_split_asm)
  moreover have "int (length tops) \<le> max 0 (TrendingTopK cfg)"
    using top by (auto simp: TrendTop_def split: if_split_asm)
  ultimately have "gated_list cfg E minUsers d m gated"
    using gate_items_passed [OF g] by (force simp: gated_list_def same)
  moreover have "readTrendingList t ok d m' = gated \<or> readTrendingList t ok d m' = []"
    by (auto simp: m' readTrendingList_def live_def set_ex_def split: option.split)
  ultimately show ?thesis by (auto simp: gated_list_def)
qed

text \<open>What a pass makes of a domain, said without the keyspace in between: every member decayed by the time since it was
  touched, those below the floor gone; of the rest the best \<open>k\<close>; of these, in their order, those the gate lets through.\<close>

definition decay_items :: "(string \<Rightarrow> int) \<Rightarrow> int \<Rightarrow> real \<Rightarrow> real \<Rightarrow> (string \<times> real) list \<Rightarrow> (string \<times> real) list" where
  "decay_items touched t hl flr xs = filter (\<lambda>(x, score). \<not> score < flr)
     (map (\<lambda>(x, score). (x, score * script_factor hl (unix t - touched x))) xs)"

definition decayed :: "int \<Rightarrow> int \<Rightarrow> string \<Rightarrow> real \<Rightarrow> real \<Rightarrow> redis \<Rightarrow> (string \<times> real) list" where
  "decayed t t' d hl flr m = decay_items (\<lambda>x. script_last t (trendTSKey d) x m) t hl flr (zset_at t' m (trendZKey d))"

definition gate_at :: "worker_config \<Rightarrow> sweep_env \<Rightarrow> int \<Rightarrow> string \<Rightarrow> redis \<Rightarrow> nat \<Rightarrow> string \<Rightarrow> bool" where
  "gate_at cfg E minUsers d m i item =
     (case (TrendDistinctUsers (sp_hll E) (sp_now E i) True d item (TrendWindowDays cfg) m,
            TrendTotal (sp_now E (i + 1)) True d item (TrendWindowDays cfg) m) of
        (Some users, Some volume) \<Rightarrow> fst (EvaluateGate users volume minUsers (WilsonFloor cfg) DefaultZ) | _ \<Rightarrow> False)"

definition top_items :: "worker_config \<Rightarrow> sweep_env \<Rightarrow> string \<Rightarrow> nat \<Rightarrow> redis \<Rightarrow> (string \<times> real) list" where
  "top_items cfg E d i m = take (nat (TrendingTopK cfg)) (SliceStable scored_less
     (decayed (sp_now E i) (sp_now E (i + 1)) d (TrendingHalfLifeSeconds cfg) (TrendPruneFloor cfg) m))"

definition trending_items :: "worker_config \<Rightarrow> sweep_env \<Rightarrow> int \<Rightarrow> string \<Rightarrow> nat \<Rightarrow> redis \<Rightarrow> (string \<times> real) list" where
  "trending_items cfg E minUsers d i m =
     map snd (filter (\<lambda>(n, c). gate_at cfg E minUsers d m (i + 2 + 2 * n) (fst c)) (enumerate 0 (top_items cfg E d i m)))"

text \<open>The number of the call that writes the list, and what the list serves at a time \<open>t\<close>.\<close>

definition write_call :: "worker_config \<Rightarrow> sweep_env \<Rightarrow> string \<Rightarrow> nat \<Rightarrow> redis \<Rightarrow> nat" where
  "write_call cfg E d i m = i + 2 + 2 * length (top_items cfg E d i m)"

definition served_items :: "worker_config \<Rightarrow> sweep_env \<Rightarrow> int \<Rightarrow> string \<Rightarrow> nat \<Rightarrow> redis \<Rightarrow> int \<Rightarrow> bool \<Rightarrow> (string \<times> real) list" where
  "served_items cfg E minUsers d i m t up =
     (if up \<and> (TrendingListTTL cfg \<le> 0 \<or> t < sp_now E (write_call cfg E d i m) + TrendingListTTL cfg)
      then trending_items cfg E minUsers d i m else [])"

text \<open>A sorted set of Redis has every member once.\<close>

definition zsets_ok :: "redis \<Rightarrow> bool" where
  "zsets_ok m \<longleftrightarrow> (\<forall>k xs e. m k = Some (RZSet xs, e) \<longrightarrow> distinct (map fst xs))"

section \<open>The sweep against what it should leave\<close>

lemma hash_at_hset: "hash_at t (hset t k f v m) k = AList.update f v (hash_at t m k)"
  by (simp add: hset_def hash_at_def [of t "put t k w m" for w])

lemma hash_at_hdel: "hash_at t (hdel t k f m) k = AList.delete f (hash_at t m k)"
  by (cases "AList.delete f (hash_at t m k)") (simp_all add: hdel_def hash_at_def [of t "put t k w m" for w] hash_at_def [of t "del ks m" for ks])

lemma script_last_other:
  assumes "y \<noteq> fst ms" and "zk \<noteq> hk"
  shows "script_last t hk y (sweep_one t zk hk hl flr ms m) = script_last t hk y m"
proof -
  have hset: "map_of (hash_at t (hset t hk (fst ms) v m) hk) y = map_of (hash_at t m hk) y" for v m
    using assms(1) by (simp add: hash_at_hset update_conv')
  have hdel: "map_of (hash_at t (hdel t hk (fst ms) m) hk) y = map_of (hash_at t m hk) y" for m
    using assms(1) by (simp add: hash_at_hdel delete_conv')
  have z: "hash_at t (zrem t zk x m) hk = hash_at t m hk" "hash_at t (zadd t zk v x m) hk = hash_at t m hk" for x v m
    using assms(2) by (simp_all add: zadd_def zrem_def hash_at_def live_def split: list.split)
  show ?thesis by (simp add: script_last_def sweep_one_def Let_def hset hdel z)
qed

lemma delete_middle: "x \<notin> fst ` set pre \<Longrightarrow> x \<notin> fst ` set xs \<Longrightarrow> AList.delete x (pre @ (x, s) # xs) = pre @ xs"
  by (induction pre) auto

lemma update_middle: "x \<notin> fst ` set pre \<Longrightarrow> AList.update x v (pre @ (x, s) # xs) = pre @ (x, v) # xs"
  by (induction pre) auto

lemma sweep_one_zset:
  assumes "m zk = Some (RZSet (pre @ (x, score) # xs), e)" and "case e of None \<Rightarrow> True | Some u \<Rightarrow> t < u" and "zk \<noteq> hk"
    and "x \<notin> fst ` set pre" and "x \<notin> fst ` set xs"
  shows "sweep_one t zk hk hl flr (x, score) m zk =
    (let v = score * script_factor hl (unix t - script_last t hk x m); ys = pre @ (if v < flr then [] else [(x, v)]) @ xs
     in if ys = [] then None else Some (RZSet ys, e))"
proof -
  have z: "zset_at t m zk = pre @ (x, score) # xs" "live t m zk = Some (RZSet (pre @ (x, score) # xs), e)"
    using assms(1,2) by (simp_all add: zset_at_def live_def)
  show ?thesis
    using assms(3) by (cases "pre @ xs")
      (simp_all add: sweep_one_def Let_def hset_def hdel_other zrem_def zadd_def z delete_middle [OF assms(4,5)] update_middle [OF assms(4)]
        split: list.split)
qed

lemma sweep_fold:
  assumes "pre @ xs \<noteq> [] \<Longrightarrow> m zk = Some (RZSet (pre @ xs), e)" and "case e of None \<Rightarrow> True | Some u \<Rightarrow> t < u" and "zk \<noteq> hk"
    and "distinct (map fst (pre @ xs))" and "\<forall>x \<in> fst ` set xs. script_last t hk x m = touched x" and "xs \<noteq> []"
  shows "fold (sweep_one t zk hk hl flr) xs m zk =
    (let ys = pre @ decay_items touched t hl flr xs in if ys = [] then None else Some (RZSet ys, e))"
  using assms
proof (induction xs arbitrary: pre m)
  case (Cons c xs)
  obtain x score where c: "c = (x, score)" by (cases c)
  let ?m = "sweep_one t zk hk hl flr (x, score) m"
  let ?v = "score * script_factor hl (unix t - touched x)"
  let ?pre = "pre @ (if ?v < flr then [] else [(x, ?v)])"
  have x: "x \<notin> fst ` set pre" "x \<notin> fst ` set xs" using Cons.prems(4) by (auto simp: c)
  have one: "?m zk = (if ?pre @ xs = [] then None else Some (RZSet (?pre @ xs), e))"
    using sweep_one_zset [OF _ Cons.prems(2,3) x, of m score hl flr] Cons.prems(1,5) by (simp add: c Let_def)
  show ?case
  proof (cases "xs = []")
    case True
    then show ?thesis using one by (simp add: c decay_items_def Let_def)
  next
    case False
    have "fold (sweep_one t zk hk hl flr) xs ?m zk =
      (let ys = ?pre @ decay_items touched t hl flr xs in if ys = [] then None else Some (RZSet ys, e))"
    proof (rule Cons.IH [OF _ Cons.prems(2,3) _ _ False])
      show "?m zk = Some (RZSet (?pre @ xs), e)" using one False by simp
      show "distinct (map fst (?pre @ xs))" using Cons.prems(4) by (simp add: c)
      show "\<forall>y \<in> fst ` set xs. script_last t hk y ?m = touched y"
      proof
        fix y assume y: "y \<in> fst ` set xs"
        then have "y \<noteq> fst (x, score)" using x(2) by auto
        from script_last_other [OF this Cons.prems(3)] have "script_last t hk y ?m = script_last t hk y m" .
        moreover have "y \<in> fst ` set (c # xs)" using y by simp
        ultimately show "script_last t hk y ?m = touched y" using Cons.prems(5) by metis
      qed
    qed
    then show ?thesis by (simp add: c decay_items_def Let_def)
  qed
qed simp

lemma TrendSweep_zset:
  assumes s: "TrendSweep t ok d hl flr m = (Some n, m1)" and "t \<le> t'" and "zsets_ok m"
  shows "zset_at t' m1 (trendZKey d) = decayed t t' d hl flr m"
proof -
  let ?zk = "trendZKey d" and ?hk = "trendTSKey d"
  have m1: "m1 = fold (sweep_one t ?zk ?hk hl flr) (zset_at t m ?zk) m"
    using s by (auto simp: TrendSweep_def trendSweepScript_def Let_def split: if_split_asm)
  show ?thesis
  proof (cases "zset_at t m ?zk")
    case Nil
    have "zset_at t' m ?zk = []"
      using Nil assms(2) by (auto simp: zset_at_def live_def split: option.splits if_split_asm rvalue.splits)
    then show ?thesis using Nil by (simp add: m1 decayed_def decay_items_def)
  next
    case (Cons c cs)
    then obtain e where e: "m ?zk = Some (RZSet (c # cs), e)" "case e of None \<Rightarrow> True | Some u \<Rightarrow> t < u"
      by (auto simp: zset_at_def live_def split: option.splits if_split_asm rvalue.splits)
    let ?ys = "decay_items (\<lambda>x. script_last t ?hk x m) t hl flr (c # cs)"
    have "distinct (map fst (c # cs))" using assms(3) e(1) unfolding zsets_ok_def by blast
    then have "m1 ?zk = (if ?ys = [] then None else Some (RZSet ?ys, e))"
      unfolding m1 Cons
      using sweep_fold [of "[]" "c # cs" m ?zk e t ?hk "\<lambda>x. script_last t ?hk x m" hl flr] e by (simp add: trend_keys Let_def)
    then show ?thesis using e(1)
      by (cases "case e of None \<Rightarrow> True | Some u \<Rightarrow> t' < u") (simp_all add: zset_at_def live_def decayed_def decay_items_def)
  qed
qed

lemma gate_items_filter:
  "gate_items cfg E minUsers d (b + 2 * k) cands m = Some (j, gated) \<Longrightarrow>
   j = b + 2 * k + 2 * length cands
   \<and> gated = map snd (filter (\<lambda>(n, c). gate_at cfg E minUsers d m (b + 2 * n) (fst c)) (enumerate k cands))"
proof (induction cands arbitrary: k gated)
  case (Cons cand cands)
  obtain users volume g where u: "TrendDistinctUsers (sp_hll E) (sp_now E (b + 2 * k)) (sp_ok E (b + 2 * k)) d (fst cand) (TrendWindowDays cfg) m = Some users"
    and v: "TrendTotal (sp_now E (b + 2 * k + 1)) (sp_ok E (b + 2 * k + 1)) d (fst cand) (TrendWindowDays cfg) m = Some volume"
    and g: "gate_items cfg E minUsers d (b + 2 * Suc k) cands m = Some (j, g)"
    and gated: "gated = (if fst (EvaluateGate users volume minUsers (WilsonFloor cfg) DefaultZ) then cand # g else g)"
    using Cons.prems by (auto split: option.split_asm prod.split_asm)
  have "gate_at cfg E minUsers d m (b + 2 * k) (fst cand) = fst (EvaluateGate users volume minUsers (WilsonFloor cfg) DefaultZ)"
    using u v by (auto simp: gate_at_def TrendDistinctUsers_def TrendTotal_def split: if_split_asm)
  then show ?case using Cons.IH [OF g] by (simp add: gated)
qed simp

lemma gate_at_same: "same_counters m m' \<Longrightarrow> gate_at cfg E minUsers d m' i item = gate_at cfg E minUsers d m i item"
  by (simp add: gate_at_def counters_read)

lemma sweep_domain_serves:
  assumes "sweep_domain cfg E minUsers d i m = (Some j, m')" and "mono (sp_now E)" and "zsets_ok m"
  shows "j = write_call cfg E d i m + 1 \<and> readTrendingList t up d m' = served_items cfg E minUsers d i m t up"
proof -
  obtain r m1 where s: "TrendSweep (sp_now E i) (sp_ok E i) d (TrendingHalfLifeSeconds cfg) (TrendPruneFloor cfg) m = (r, m1)"
    by fastforce
  obtain n where r: "r = Some n" using assms(1) by (cases r) (simp_all add: sweep_domain_def s)
  obtain tops where top: "TrendTop (sp_now E (i + 1)) (sp_ok E (i + 1)) d (TrendingTopK cfg) m1 = Some tops"
    using assms(1) by (simp add: sweep_domain_def s split: option.split_asm)
  obtain k gated where g: "gate_items cfg E minUsers d (i + 2) tops m1 = Some (k, gated)"
    using assms(1) top by (simp add: sweep_domain_def s split: option.split_asm prod.split_asm)
  have m': "m' = set_ex (sp_now E k) (trendTopKey d) (RScored gated) (TrendingListTTL cfg) m1" and j: "j = k + 1"
    using assms(1) top g r by (simp_all add: sweep_domain_def s WriteTrendingList_def split: option.split_asm if_split_asm)
  have "sp_now E i \<le> sp_now E (i + 1)" using assms(2) by (simp add: monoD)
  from TrendSweep_zset [OF s [unfolded r] this assms(3)] have tops: "tops = top_items cfg E d i m"
    using top by (auto simp: TrendTop_def top_items_def split: if_split_asm)
  have same: "same_counters m m1"
    using TrendSweep_other [of _ d "sp_now E i" "sp_ok E i" "TrendingHalfLifeSeconds cfg" "TrendPruneFloor cfg" m]
    by (simp add: s same_counters_def counters_apart)
  have k: "k = write_call cfg E d i m" and gated: "gated = trending_items cfg E minUsers d i m"
    using gate_items_filter [of cfg E minUsers d "i + 2" 0 tops m1 k gated] g
    by (simp_all add: write_call_def tops trending_items_def gate_at_same [OF same])
  have "readTrendingList t up d m' = served_items cfg E minUsers d i m t up"
    unfolding m' gated k by (auto simp: readTrendingList_def live_def set_ex_def served_items_def)
  then show ?thesis using j k by simp
qed

lemma reference_cong:
  assumes "m' (trendZKey d) = m (trendZKey d)" and "m' (trendTSKey d) = m (trendTSKey d)" and "same_counters m m'"
  shows "top_items cfg E d i m' = top_items cfg E d i m" and "served_items cfg E minUsers d i m' t up = served_items cfg E minUsers d i m t up"
proof -
  have "decayed u u' d hl flr m' = decayed u u' d hl flr m" for u u' hl flr
    using live_cong [of m' "trendZKey d" m] live_cong [of m' "trendTSKey d" m] assms(1,2)
    by (simp add: decayed_def script_last_def hash_at_def zset_at_def)
  then show t: "top_items cfg E d i m' = top_items cfg E d i m" by (simp add: top_items_def)
  show "served_items cfg E minUsers d i m' t up = served_items cfg E minUsers d i m t up"
    unfolding served_items_def write_call_def trending_items_def t gate_at_same [OF assms(3)] by (rule refl)
qed

lemma sweep_domain_failed:
  assumes "sweep_domain cfg E minUsers d i m = (None, m')"
  shows "m' (trendTopKey d) = m (trendTopKey d)"
proof -
  have "snd (TrendSweep u ok d hl flr m) (trendTopKey d) = m (trendTopKey d)" for u ok hl flr
    by (rule TrendSweep_other) (simp_all add: trend_keys)
  then show ?thesis
    using assms by (auto simp: sweep_domain_def WriteTrendingList_def split: prod.split_asm option.split_asm if_split_asm) (metis snd_conv)+
qed

lemma zsets_ok_put:
  assumes "zsets_ok m" and "\<And>xs. v = RZSet xs \<Longrightarrow> distinct (map fst xs)"
  shows "zsets_ok (put t k v m)"
  using assms by (auto simp: zsets_ok_def)

lemma zset_at_distinct: "zsets_ok m \<Longrightarrow> distinct (map fst (zset_at t m k))"
  by (auto simp: zset_at_def live_def zsets_ok_def split: option.split rvalue.split)

text \<open>Every command keeps a member of a sorted set single.\<close>

lemma zsets_ok_del: "zsets_ok m \<Longrightarrow> zsets_ok (del ks m)"
  by (simp add: zsets_ok_def)

lemma zsets_ok_zadd: "zsets_ok m \<Longrightarrow> zsets_ok (zadd t k v x m)"
  unfolding zadd_def by (rule zsets_ok_put) (auto intro: distinct_update zset_at_distinct)

lemma zsets_ok_zrem: "zsets_ok m \<Longrightarrow> zsets_ok (zrem t k x m)"
proof (cases "AList.delete x (zset_at t m k)")
  case (Cons y ys)
  moreover assume m: "zsets_ok m"
  have "distinct (map fst (AList.delete x (zset_at t m k)))"
    by (simp add: delete_keys distinct_removeAll zset_at_distinct [OF m])
  ultimately show ?thesis using zsets_ok_put [OF m, of "RZSet (y # ys)"] by (simp add: zrem_def)
qed (simp add: zrem_def zsets_ok_del)

lemma zsets_ok_hash: "zsets_ok m \<Longrightarrow> zsets_ok (hset t k f v m)" "zsets_ok m \<Longrightarrow> zsets_ok (hdel t k f m)"
  by (auto simp: hset_def hdel_def zsets_ok_del split: list.split intro!: zsets_ok_put)

lemma zsets_ok_counters: "zsets_ok m \<Longrightarrow> zsets_ok (incr t k m)" "zsets_ok m \<Longrightarrow> zsets_ok (pfadd t k x m)"
  by (auto simp: incr_def pfadd_def intro!: zsets_ok_put)

lemma zsets_ok_expire: "zsets_ok m \<Longrightarrow> zsets_ok (expire t k ttl m)"
  by (auto simp: expire_def zsets_ok_def live_def split: option.split option.split_asm if_split_asm)

lemma zsets_ok_set: "zsets_ok m \<Longrightarrow> (\<And>xs. v \<noteq> RZSet xs) \<Longrightarrow> zsets_ok (set_ex t k v ttl m) \<and> zsets_ok (snd (set_nx t k v ttl m))"
  by (auto simp: set_nx_def set_ex_def zsets_ok_def split: option.split)

lemmas zsets_ok_commands = zsets_ok_zadd zsets_ok_zrem zsets_ok_hash zsets_ok_counters zsets_ok_expire

lemma zsets_ok_fold: "\<forall>c \<in> set cs. \<forall>m. zsets_ok m \<longrightarrow> zsets_ok (c m) \<Longrightarrow> zsets_ok m \<Longrightarrow> zsets_ok (fold (\<lambda>c. c) cs m)"
  by (induction cs arbitrary: m) simp_all

lemma zsets_ok_TrendBump:
  assumes "zsets_ok m"
  shows "zsets_ok (snd (TrendBump t sent nx_ok run_ok d item subject hl cap m))"
proof -
  let ?subject = "if subject = [] then ''anon'' else subject"
  define m1 where "m1 = fold (\<lambda>c. c) (take sent [incr t (cntKey d item (dayStamp t)), expire t (cntKey d item (dayStamp t)) counterTTL,
    pfadd t (hllKey d item (dayStamp t)) ?subject, expire t (hllKey d item (dayStamp t)) counterTTL]) m"
  have m1: "zsets_ok m1"
    unfolding m1_def by (rule zsets_ok_fold [OF _ assms]) (auto dest!: in_set_takeD intro: zsets_ok_commands)
  obtain b m2 where nx: "set_nx t (trendGuardKey d ?subject item) RFlag cap m1 = (b, m2)" by fastforce
  have "zsets_ok m2" using zsets_ok_set [OF m1, of RFlag t "trendGuardKey d ?subject item" cap] by (simp add: nx)
  then have "zsets_ok (trendBumpScript t zk hk x hl 1 ttl m2)" for zk hk x ttl
    by (simp add: trendBumpScript_def Let_def zsets_ok_commands)
  with \<open>zsets_ok m2\<close> m1 assms show ?thesis
    unfolding TrendBump_def Let_def m1_def [symmetric] nx by (simp split: bool.split)
qed

lemma zsets_ok_sweep_one: "zsets_ok m \<Longrightarrow> zsets_ok (sweep_one t zk hk hl flr ms m)"
  by (simp add: sweep_one_def Let_def zsets_ok_commands)

lemma sweep_domain_zsets:
  assumes "sweep_domain cfg E minUsers d i m = (r, m')" and "zsets_ok m"
  shows "zsets_ok m'"
proof -
  have "zsets_ok w \<Longrightarrow> zsets_ok (fold (sweep_one t zk hk hl flr) xs w)" for t zk hk hl flr xs w
    by (induction xs arbitrary: w) (simp_all add: zsets_ok_sweep_one)
  then have "zsets_ok (snd (TrendSweep u ok d hl flr m))" for u ok hl flr
    using assms(2) by (simp add: TrendSweep_def trendSweepScript_def Let_def)
  moreover have "zsets_ok w \<Longrightarrow> zsets_ok (set_ex u k (RScored xs) ttl w)" for w u k xs ttl
    by (simp add: zsets_ok_def set_ex_def)
  ultimately show ?thesis
    using assms(1) by (auto simp: sweep_domain_def WriteTrendingList_def split: prod.split_asm option.split_asm if_split_asm) (metis snd_conv)+
qed

text \<open>C35. What trends. After a pass that went through, what either list serves, to anyone and at any time until the next pass, is
  exactly this: of the members of the sorted set, decayed and pruned, the best \<open>k\<close> in order, and of those the ones the gate
  passes on the counters of the keyspace - the estimate of distinct users reaches the minimum and the Wilson
  bound the floor - and nothing once the list has expired. A pass that fails leaves the list of videos as it was.\<close>

theorem sweep_serves_gated:
  assumes "trendingSweeper cfg True read_ok s E m = (ok, m')"
    and "minUsers = overlayInt (overlay read_ok s) ''minimum_query_user_count'' (MinQueryUserCount cfg)"
    and "mono (sp_now E)" and "zsets_ok m"
  shows "if ok then readTrendingList t up ''q'' m' = served_items cfg E minUsers ''q'' 0 m t up
           \<and> readTrendingList t up ''v'' m' = served_items cfg E minUsers ''v'' (write_call cfg E ''q'' 0 m + 1) m t up
           \<and> gated_list cfg E minUsers ''q'' m (readTrendingList t up ''q'' m')
           \<and> gated_list cfg E minUsers ''v'' m (readTrendingList t up ''v'' m')
         else readTrendingList t up ''v'' m' = readTrendingList t up ''v'' m"
proof -
  obtain r m1 where q: "sweep_domain cfg E minUsers ''q'' 0 m = (r, m1)" by fastforce
  have same: "same_counters m m1" using sweep_counters [of m cfg E minUsers "''q''" 0] by (simp add: q)
  have keys: "m1 (trendTopKey ''v'') = m (trendTopKey ''v'')" "m1 (trendZKey ''v'') = m (trendZKey ''v'')"
    "m1 (trendTSKey ''v'') = m (trendTSKey ''v'')"
    using sweep_domain_other [of _ "''q''" cfg E minUsers 0 m] by (simp_all add: q trend_keys)
  show ?thesis
  proof (cases r)
    case None
    then have "\<not> ok \<and> m' = m1" using assms(1) by (simp add: trendingSweeper_def Let_def q flip: assms(2))
    then show ?thesis using keys live_cong [of m1 "trendTopKey ''v''" m] by (simp add: readTrendingList_def)
  next
    case (Some i)
    note first = sweep_domain_serves [OF q [unfolded Some] assms(3,4)] and gated = sweep_domain_list [OF q [unfolded Some]]
    obtain r2 m2 where v: "sweep_domain cfg E minUsers ''v'' i m1 = (r2, m2)" by fastforce
    have run: "ok = (r2 \<noteq> None)" "m' = m2"
      using assms(1) Some by (simp_all add: trendingSweeper_def Let_def q v flip: assms(2))
    show ?thesis
    proof (cases r2)
      case None
      then have "m2 (trendTopKey ''v'') = m (trendTopKey ''v'')" using sweep_domain_failed [OF v [unfolded None]] keys by simp
      then show ?thesis using None run live_cong [of m2 "trendTopKey ''v''" m] by (simp add: readTrendingList_def)
    next
      case (Some j)
      have "m2 (trendTopKey ''q'') = m1 (trendTopKey ''q'')"
        using sweep_domain_other [of "trendTopKey ''q''" "''v''" cfg E minUsers i m1] by (simp add: v trend_keys)
      then have q2: "readTrendingList t up ''q'' m2 = readTrendingList t up ''q'' m1"
        using live_cong [of m2 "trendTopKey ''q''" m1] by (simp add: readTrendingList_def)
      have "zsets_ok m1" by (rule sweep_domain_zsets [OF q assms(4)])
      note second = sweep_domain_serves [OF v [unfolded Some] assms(3) this] and gated2 = sweep_domain_list [OF v [unfolded Some]]
      have "gated_list cfg E minUsers ''v'' m (readTrendingList t up ''v'' m2)"
        using gated2 [of t up] same by (simp add: gated_list_def passed_def counters_read)
      moreover have "readTrendingList t up ''v'' m2 = served_items cfg E minUsers ''v'' i m t up"
        using second [of t up] reference_cong(2) [OF keys(2,3) same] by simp
      ultimately show ?thesis using run Some q2 first [of t up] gated [of t up] by simp
    qed
  qed
qed

text \<open>With every call answered the pass goes through.\<close>

lemma gate_items_answers: "\<forall>i. sp_ok E i \<Longrightarrow> \<exists>j gated. gate_items cfg E minUsers d i cands m = Some (j, gated)"
proof (induction cands arbitrary: i)
  case (Cons c cands)
  obtain j gated where "gate_items cfg E minUsers d (Suc (Suc i)) cands m = Some (j, gated)" using Cons by blast
  then show ?case using Cons.prems by (simp add: TrendDistinctUsers_def TrendTotal_def)
qed simp

lemma sweep_answers:
  assumes "\<forall>i. sp_ok E i"
  shows "fst (trendingSweeper cfg has_cache read_ok s E m)"
proof -
  have "\<exists>j m'. sweep_domain cfg E minUsers d i m = (Some j, m')" for minUsers d i m
    using gate_items_answers [OF assms] assms
    by (auto simp: sweep_domain_def TrendSweep_def TrendTop_def WriteTrendingList_def split: prod.split option.split)
      (metis option.distinct(1))+
  then show ?thesis by (simp add: trendingSweeper_def Let_def split: prod.split option.split) (metis option.distinct(1) prod.inject)
qed

definition bumped_cats :: redis where
  "bumped_cats = snd (TrendBump 0 4 True True ''q'' ''cats'' ''u1'' 3600 60 empty_redis)"

definition calm_sweep :: sweep_env where
  "calm_sweep = \<lparr> sp_now = int, sp_ok = (\<lambda>i. True), sp_hll = int \<circ> card \<rparr>"

text \<open>One bump, and a gate that one user passes.\<close>

definition open_gate :: worker_config where
  "open_gate = sample_worker\<lparr> MinQueryUserCount := 1, WilsonFloor := 0 \<rparr>"

lemma sweep_serves_gated_witness:
  "readTrendingList 9 True ''q'' (snd (trendingSweeper open_gate True True empty_db calm_sweep bumped_cats))
     = served_items open_gate calm_sweep 1 ''q'' 0 bumped_cats 9 True"
proof -
  have go: "fst (trendingSweeper open_gate True True empty_db calm_sweep bumped_cats)"
    by (rule sweep_answers) (simp add: calm_sweep_def)
  have min: "1 = overlayInt (overlay True empty_db) ''minimum_query_user_count'' (MinQueryUserCount open_gate)" by code_simp
  have "mono (sp_now calm_sweep)" by (simp add: calm_sweep_def mono_def)
  moreover have "zsets_ok bumped_cats"
    unfolding bumped_cats_def by (rule zsets_ok_TrendBump) (simp add: zsets_ok_def empty_redis_def)
  ultimately show ?thesis using sweep_serves_gated [OF surjective_pairing min, where E = calm_sweep and m = bumped_cats and t = 9 and up = True] go by simp
qed

end
