(* ===== verification/Moderation.thy ===== *)
theory Moderation
  imports Statements Basics
begin

text \<open>\<open>internal/moderation/service.go\<close>: bans of suggestions. \<open>up\<close> says whether the database answers.\<close>

datatype moderation_error = ErrEmptyQuery | StoreError sql_error

definition moderationDefaultLimit :: int where "moderationDefaultLimit = 20"
definition moderationMaxLimit :: int where "moderationMaxLimit = 100"

record ban_response =
  brNormalizedQuery :: string
  brBanned :: bool

record banned_entry =
  bnNormalizedQuery :: string
  bnQuery :: string
  bnTotalCount :: int
  bnDistinctUsers :: int
  bnFirstSeen :: int
  bnLastSeen :: int

record banned_page =
  bpEntries :: "banned_entry list"
  bpLimit :: int
  bpOffset :: int

definition Ban :: "ext \<Rightarrow> bool \<Rightarrow> int \<Rightarrow> string \<Rightarrow> db \<Rightarrow> (moderation_error + ban_response) \<times> db" where
  "Ban X up now query s =
     (let nq = normalize X query
      in if nq = [] then (Inl ErrEmptyQuery, s)
         else if \<not> up then (Inl (StoreError SqlError), s)
         else (case BanSuggestion now nq s of Inl e \<Rightarrow> (Inl (StoreError e), s)
           | Inr s' \<Rightarrow> (Inr \<lparr> brNormalizedQuery = nq, brBanned = True \<rparr>, s')))"

definition Unban :: "ext \<Rightarrow> bool \<Rightarrow> string \<Rightarrow> db \<Rightarrow> (moderation_error + unit) \<times> db" where
  "Unban X up query s =
     (let nq = normalize X query
      in if nq = [] then (Inl ErrEmptyQuery, s)
         else if \<not> up then (Inl (StoreError SqlError), s)
         else (case UnbanSuggestion nq s of Inl e \<Rightarrow> (Inl (StoreError e), s) | Inr s' \<Rightarrow> (Inr (), s')))"

definition banned_entry_of :: "aggregate_row \<Rightarrow> banned_entry" where
  "banned_entry_of r = \<lparr> bnNormalizedQuery = qa_normalized_query r,
     bnQuery = (if qa_display_query r = [] then qa_normalized_query r else qa_display_query r),
     bnTotalCount = qa_total_count r, bnDistinctUsers = qa_distinct_users r,
     bnFirstSeen = qa_first_seen r, bnLastSeen = qa_last_seen r \<rparr>"

definition ListBans :: "bool \<Rightarrow> int \<Rightarrow> int \<Rightarrow> db \<Rightarrow> moderation_error + banned_page" where
  "ListBans up limit offset s =
     (let limit = Limit limit moderationDefaultLimit moderationMaxLimit; offset = Offset offset
      in if \<not> up then Inl (StoreError SqlError)
         else (case ListBannedSuggestions (int32 limit) (int32 offset) s of Inl e \<Rightarrow> Inl (StoreError e)
           | Inr rows \<Rightarrow> Inr \<lparr> bpEntries = map banned_entry_of rows, bpLimit = limit, bpOffset = offset \<rparr>))"

section \<open>Paging\<close>

text \<open>The offset is cut to 32 bits after it was checked: one of \<open>2 ^ 31\<close> is negative in the query.\<close>

lemma ListBans_offset_wraps:
  assumes "2 ^ 31 \<le> offset" "offset < 2 ^ 32"
  shows "ListBans True limit offset s = Inl (StoreError SqlError)"
  using int32_wraps [OF assms] assms by (simp add: ListBans_def Let_def ListBannedSuggestions_def page_of_def Offset_def)

end
