(* ===== verification/History.thy ===== *)
theory History
  imports Statements Cache Basics
begin

text \<open>
  \<open>internal/history/service.go\<close>: what one user searched, and its deletion. An operation is a
  function of the tables and of the Redis keyspace; \<open>tx\<close> says whether the transaction could be
  started and committed, \<open>redis_up\<close> whether Redis answers, and \<open>has_redis\<close> whether the service was
  built with one. An operation that fails leaves both as they were.
\<close>

definition historyDefaultLimit :: int where "historyDefaultLimit = 20"
definition historyMaxLimit :: int where "historyMaxLimit = 100"

record history_entry =
  heQuery :: string
  heNormalizedQuery :: string
  heLastUsedAt :: int
  heUseCount :: int

record history_page =
  hpEntries :: "history_entry list"
  hpLimit :: int
  hpOffset :: int

definition List :: "uuid \<Rightarrow> int \<Rightarrow> int \<Rightarrow> db \<Rightarrow> sql_error + history_page" where
  "List userID limit offset s =
     (let limit = Limit limit historyDefaultLimit historyMaxLimit; offset = Offset offset
      in case ListUserSearchHistory userID (int32 limit) (int32 offset) s of
           Inl e \<Rightarrow> Inl e
         | Inr rows \<Rightarrow> Inr \<lparr> hpEntries = map (\<lambda>r. \<lparr> heQuery = uh_display_query r,
               heNormalizedQuery = uh_normalized_query r, heLastUsedAt = uh_last_used_at r, heUseCount = uh_use_count r \<rparr>) rows,
               hpLimit = limit, hpOffset = offset \<rparr>)"

definition deleteSearchFootprint ::
  "ext \<Rightarrow> bool \<times> bool \<Rightarrow> uuid \<Rightarrow> bool \<Rightarrow> db \<Rightarrow> (sql_error + string list) \<times> db" where
  "deleteSearchFootprint X tx userID withWatch s =
     inTx tx (\<lambda>s0. let sessions = ListUserSessionIDs userID s0;
         s1 = DeleteUserSearchHistory userID s0;
         s2 = (if withWatch then PurgeUserWatchProjection userID s1 else s1);
         s3 = DeleteQueryLogForUser userID s2
       in Inr (sessions, DeleteBehaviorEventsForUser X userID s3)) s"

definition dropSessionRecency :: "bool \<Rightarrow> bool \<Rightarrow> string list \<Rightarrow> redis \<Rightarrow> redis" where
  "dropSessionRecency has_redis redis_up sessions m =
     (if \<not> has_redis \<or> sessions = [] then m else snd (DropSessionRecency redis_up sessions m))"

definition delete_then_drop ::
  "bool \<Rightarrow> ext \<Rightarrow> bool \<times> bool \<Rightarrow> bool \<Rightarrow> bool \<Rightarrow> uuid \<Rightarrow> db \<times> redis \<Rightarrow> (sql_error + unit) \<times> db \<times> redis" where
  "delete_then_drop withWatch X tx has_redis redis_up userID w =
     (case deleteSearchFootprint X tx userID withWatch (fst w) of
        (Inl e, s') \<Rightarrow> (Inl e, s', snd w)
      | (Inr sessions, s') \<Rightarrow> (Inr (), s', dropSessionRecency has_redis redis_up sessions (snd w)))"

definition ClearAll ::
  "ext \<Rightarrow> bool \<times> bool \<Rightarrow> bool \<Rightarrow> bool \<Rightarrow> uuid \<Rightarrow> db \<times> redis \<Rightarrow> (sql_error + unit) \<times> db \<times> redis" where
  "ClearAll = delete_then_drop False"

definition PurgeUser ::
  "ext \<Rightarrow> bool \<times> bool \<Rightarrow> bool \<Rightarrow> bool \<Rightarrow> uuid \<Rightarrow> db \<times> redis \<Rightarrow> (sql_error + unit) \<times> db \<times> redis" where
  "PurgeUser = delete_then_drop True"

text \<open>A query that PostgreSQL cannot hold fails in the first statement.\<close>

definition DeleteEntry :: "ext \<Rightarrow> bool \<times> bool \<Rightarrow> uuid \<Rightarrow> string \<Rightarrow> db \<Rightarrow> (sql_error + unit) \<times> db" where
  "DeleteEntry X tx userID normalizedQuery s =
     inTx tx (\<lambda>s0. if \<not> pg_text normalizedQuery then Inl SqlError
       else (let s1 = DeleteUserSearchHistoryEntry userID normalizedQuery s0;
                 s2 = DeleteQueryLogForUserQuery userID normalizedQuery s1
             in Inr ((), DeleteBehaviorEventsForUserQuery X userID normalizedQuery s2))) s"

section \<open>What is left of a user\<close>

text \<open>No row of the tables names the user.\<close>

definition forgotten :: "ext \<Rightarrow> uuid \<Rightarrow> db \<Rightarrow> bool" where
  "forgotten X user s \<longleftrightarrow>
     (\<forall>r \<in> set (user_search_history s). uh_user_id r \<noteq> user)
     \<and> (\<forall>r \<in> set (query_log s). ql_user_id r \<noteq> Some user)
     \<and> (\<forall>r \<in> set (behavior_events s). \<not> names_user X user r)"

text \<open>What the tables say of everybody else.\<close>

definition others :: "ext \<Rightarrow> uuid \<Rightarrow> db \<Rightarrow> db" where
  "others X user s = s\<lparr> user_search_history := filter (\<lambda>r. uh_user_id r \<noteq> user) (user_search_history s),
     user_watch_projection := filter (\<lambda>r. wp_user_id r \<noteq> user) (user_watch_projection s),
     query_log := filter (\<lambda>r. ql_user_id r \<noteq> Some user) (query_log s),
     behavior_events := filter (\<lambda>r. \<not> names_user X user r) (behavior_events s) \<rparr>"

lemma footprint_deleted:
  "deleteSearchFootprint X (True, True) user withWatch s = (Inr (ListUserSessionIDs user s),
     s\<lparr> user_search_history := user_search_history (others X user s), query_log := query_log (others X user s),
        behavior_events := behavior_events (others X user s),
        user_watch_projection := (if withWatch then user_watch_projection (others X user s) else user_watch_projection s) \<rparr>)"
  by (simp add: deleteSearchFootprint_def inTx_def Let_def others_def DeleteUserSearchHistory_def
      PurgeUserWatchProjection_def DeleteQueryLogForUser_def DeleteBehaviorEventsForUser_def sql_delete_def)

lemma footprint_failed: "fst (deleteSearchFootprint X tx user withWatch s) = Inl e \<Longrightarrow>
    snd (deleteSearchFootprint X tx user withWatch s) = s"
  by (auto simp: deleteSearchFootprint_def inTx_def Let_def split: if_split_asm)

lemma footprint_ok: "fst (deleteSearchFootprint X tx user withWatch s) = Inr ss \<longleftrightarrow>
    tx = (True, True) \<and> ss = ListUserSessionIDs user s"
  by (cases tx) (auto simp: deleteSearchFootprint_def inTx_def Let_def)

lemma sessions_of_user:
  "sid \<in> set (ListUserSessionIDs user s) \<longleftrightarrow>
     (\<exists>r \<in> set (query_log s). ql_user_id r = Some user \<and> ql_session_id r = Some sid)
     \<or> (\<exists>r \<in> set (behavior_events s). be_user_id r = Some user \<and> be_session_id r = Some sid)"
  by (auto simp: ListUserSessionIDs_def map_filter_def image_iff)

lemma del_idem: "del [] m = m"
  by (simp add: del_def)

lemma drop_other:
  assumes "\<And>sid. sid \<in> set sids \<Longrightarrow> k \<noteq> sessionQueryKey sid \<and> k \<noteq> sessionVideoKey sid"
  shows "dropSessionRecency has_redis up sids m k = m k"
  using assms by (auto simp: dropSessionRecency_def DropSessionRecency_def Let_def del_def)

lemma drop_reads:
  assumes "sid \<in> set sids"
  shows "SessionQueries t ok sid (dropSessionRecency True True sids m) = []
    \<and> SessionVideos t ok sid (dropSessionRecency True True sids m) = []"
proof -
  have "fst (DropSessionRecency True sids m)" by (simp add: DropSessionRecency_def Let_def)
  then show ?thesis using DropSessionRecency_reads [OF _ assms, of True m] assms
    by (auto simp: dropSessionRecency_def)
qed

section \<open>Deletion forgets\<close>

text \<open>C8. Clearing deletes. After a clear or a purge that succeeded no row of the history and of the two
  ledgers names the user; what the tables say of everybody else is untouched, a clear keeps the
  watch projection and a purge empties it; and no session whose id the deleted rows carried has a
  recent query or video left, while every other key of Redis is as it was. A deletion that fails
  changes neither.\<close>

theorem deletion_forgets:
  assumes "(if withWatch then PurgeUser else ClearAll) X tx True True user (s, m) = (res, s', m')"
  shows "case res of Inl e \<Rightarrow> s' = s \<and> m' = m
    | Inr u \<Rightarrow> forgotten X user s'
        \<and> s' = (others X user s)\<lparr> user_watch_projection :=
             (if withWatch then filter (\<lambda>r. wp_user_id r \<noteq> user) (user_watch_projection s) else user_watch_projection s) \<rparr>
        \<and> (\<forall>sid t ok. sid \<in> set (ListUserSessionIDs user s) \<longrightarrow> SessionQueries t ok sid m' = [] \<and> SessionVideos t ok sid m' = [])
        \<and> (\<forall>k. k \<notin> (sessionQueryKey ` set (ListUserSessionIDs user s) \<union> sessionVideoKey ` set (ListUserSessionIDs user s))
            \<longrightarrow> m' k = m k)"
proof -
  have run: "delete_then_drop withWatch X tx True True user (s, m) = (res, s', m')"
    using assms by (cases withWatch) (simp_all add: ClearAll_def PurgeUser_def)
  show ?thesis
  proof (cases "fst (deleteSearchFootprint X tx user withWatch s)")
    case (Inl e)
    then show ?thesis using run footprint_failed [OF Inl] by (auto simp: delete_then_drop_def split_beta)
  next
    case (Inr ss)
    then have tx: "tx = (True, True)" by (simp add: footprint_ok)
    have "res = Inr ()" and m': "m' = dropSessionRecency True True (ListUserSessionIDs user s) m"
      and s': "s' = (others X user s)\<lparr> user_watch_projection :=
             (if withWatch then filter (\<lambda>r. wp_user_id r \<noteq> user) (user_watch_projection s) else user_watch_projection s) \<rparr>"
      using run by (auto simp: delete_then_drop_def tx footprint_deleted others_def)
    moreover have "forgotten X user s'" by (simp add: s' forgotten_def others_def)
    ultimately show ?thesis
      using drop_reads drop_other by (auto simp: m' image_iff)
  qed
qed

definition history_sample :: db where
  "history_sample = empty_db \<lparr> user_search_history := [\<lparr> uh_user_id = 1, uh_normalized_query = ''cats'',
       uh_display_query = ''Cats'', uh_use_count = 1, uh_last_used_at = 0, uh_hidden = False \<rparr>],
     query_log := [\<lparr> ql_id = 1, ql_event_id = None, ql_normalized_query = ''cats'', ql_display_query = ''Cats'',
       ql_user_id = Some 1, ql_session_id = Some ''s'', ql_subject_id = None, ql_results_count = None, ql_submitted_at = 0 \<rparr>] \<rparr>"

lemma deletion_forgets_witness:
  "forgotten sample_ext 1 (fst (snd (ClearAll sample_ext (True, True) True True 1 (history_sample, empty_redis))))
   \<and> \<not> forgotten sample_ext 1 history_sample"
proof -
  have "ClearAll sample_ext (True, True) True True 1 (history_sample, empty_redis)
    = (Inr (), fst (snd (ClearAll sample_ext (True, True) True True 1 (history_sample, empty_redis))),
       snd (snd (ClearAll sample_ext (True, True) True True 1 (history_sample, empty_redis))))"
    by (simp add: ClearAll_def delete_then_drop_def footprint_deleted)
  from deletion_forgets [of False, simplified, OF this] show ?thesis
    by (simp add: forgotten_def) (simp add: history_sample_def)
qed

end
