(* ===== verification/Privacy.thy ===== *)
theory Privacy
  imports History Reevaluate
begin

text \<open>
  The deletions against the anonymity floor: what removes rows of the query log - the three
  operations of \<open>internal/history\<close> and the retention job - can only lower the number of distinct
  subjects behind a query, so none of them can publish one.
\<close>

lemma inTx_query_log:
  assumes "\<And>x s1. fn s = Inr (x, s1) \<Longrightarrow> set (query_log s1) \<subseteq> set (query_log s)"
  shows "set (query_log (snd (inTx tx fn s))) \<subseteq> set (query_log s)"
  using assms by (auto simp: inTx_def split: sum.splits)

lemma footprint_query_log: "set (query_log (snd (deleteSearchFootprint X tx user w s))) \<subseteq> set (query_log s)"
  unfolding deleteSearchFootprint_def
  by (rule inTx_query_log) (auto simp: Let_def DeleteBehaviorEventsForUser_def DeleteQueryLogForUser_def
      PurgeUserWatchProjection_def DeleteUserSearchHistory_def sql_delete_def)

lemma ClearAll_query_log: "set (query_log (fst (snd (ClearAll X tx hr up user (s, m))))) \<subseteq> set (query_log s)"
  using footprint_query_log [of X tx user False s]
  by (simp add: ClearAll_def delete_then_drop_def split_beta split: sum.split)

lemma PurgeUser_query_log: "set (query_log (fst (snd (PurgeUser X tx hr up user (s, m))))) \<subseteq> set (query_log s)"
  using footprint_query_log [of X tx user True s]
  by (simp add: PurgeUser_def delete_then_drop_def split_beta split: sum.split)

lemma DeleteEntry_query_log: "set (query_log (snd (DeleteEntry X tx user nq s))) \<subseteq> set (query_log s)"
  unfolding DeleteEntry_def
  by (rule inTx_query_log) (auto simp: Let_def DeleteUserSearchHistoryEntry_def DeleteQueryLogForUserQuery_def
      DeleteBehaviorEventsForUserQuery_def sql_delete_def split: if_split_asm)

lemma retention_query_log: "set (query_log (snd (retention cfg read_ok sent clk s))) \<subseteq> set (query_log s)"
proof -
  have "query_log (fold (\<lambda>f. f) (take k [DeleteOldBehaviorEvents t1 d, PruneEventsInbox t2 n, PruneWatchProjection t3 h fl]) s1)
      = query_log s1" for k t1 t2 t3 d n h fl s1
    by (simp add: take_Cons' DeleteOldBehaviorEvents_def PruneEventsInbox_def PruneWatchProjection_def)
  moreover have "take sent (f # fs) = (if sent = 0 then [] else f # take (sent - 1) fs)" for f :: "db \<Rightarrow> db" and fs
    by (simp add: take_Cons')
  ultimately show ?thesis
    by (simp add: retention_def Let_def DeleteOldQueryLog_def sql_delete_def)
qed

lemma fewer_subjects:
  assumes "set (query_log s') \<subseteq> set (query_log s)"
  shows "distinct_subjects (survivors ws (query_log s') nq) \<le> distinct_subjects (survivors ws (query_log s) nq)"
    and "want mn ws (query_log s') a \<Longrightarrow> want mn ws (query_log s) a"
proof -
  show le: "distinct_subjects (survivors ws (query_log s') nq) \<le> distinct_subjects (survivors ws (query_log s) nq)" for nq
    by (intro distinct_subjects_mono survivors_mono assms)
  show "want mn ws (query_log s') a \<Longrightarrow> want mn ws (query_log s) a"
    using le [of "qa_normalized_query a"] by (simp add: want_def)
qed

text \<open>A deletion never publishes. Whatever a user deletes or retention prunes, completely or in part, no
  query gains a distinct subject in any window, so none that the floor holds back becomes suggestible
  by it at the next re-evaluation.\<close>

theorem deletion_never_publishes:
  assumes "s' \<in> {fst (snd (ClearAll X tx hr up user (s, m))), fst (snd (PurgeUser X tx hr up user (s, m))),
      snd (DeleteEntry X tx user nq s), snd (retention cfg read_ok sent clk s)}"
  shows "distinct_subjects (survivors ws (query_log s') q) \<le> distinct_subjects (survivors ws (query_log s) q)
    \<and> (\<not> want mn ws (query_log s) a \<longrightarrow> \<not> want mn ws (query_log s') a)"
proof -
  have "set (query_log s') \<subseteq> set (query_log s)"
    using assms ClearAll_query_log [of X tx hr up user s m] PurgeUser_query_log [of X tx hr up user s m]
      DeleteEntry_query_log [of X tx user nq s] retention_query_log [of cfg read_ok sent clk s] by auto
  then show ?thesis using fewer_subjects by blast
qed

lemma deletion_never_publishes_witness:
  "distinct_subjects (survivors 0 (query_log (snd (DeleteEntry sample_ext (True, True) 1 ''cats'' history_sample))) ''cats'')
   \<le> distinct_subjects (survivors 0 (query_log history_sample) ''cats'')"
  using deletion_never_publishes [of "snd (DeleteEntry sample_ext (True, True) 1 ''cats'' history_sample)" sample_ext
      "(True, True)" True True 1 history_sample empty_redis "''cats''" sample_worker True 4 "\<lambda>i. 0" 0 "''cats''"] by simp

end
