(* ===== verification/Sessionizer.thy ===== *)
theory Sessionizer
  imports Engagement
begin

text \<open>
  \<open>internal/worker/sessionize.go\<close> and the sessionizer job: the reformulated and abandoned searches
  of a batch of queries, and their insertion into the ledger.
\<close>

section \<open>Sessionize\<close>

record query_event =
  qeID :: int
  qeNormalizedQuery :: string
  qeUserID :: "uuid option"
  qeSessionID :: string
  qeSubmittedAt :: int

record signal =
  sgSessionID :: string
  sgNormalizedQuery :: string
  sgOccurredAt :: int

record derived =
  dvSourceID :: int
  dvType :: string
  dvUserID :: "uuid option"
  dvSessionID :: string
  dvNormalizedQuery :: string
  dvOccurredAt :: int
  dvFrom :: string
  dvTo :: string

record sessionize_config =
  szReformulationGap :: int
  szAbandonWindow :: int

definition event_before :: "query_event \<Rightarrow> query_event \<Rightarrow> bool" where
  "event_before a b = (if qeSessionID a \<noteq> qeSessionID b then qeSessionID a < qeSessionID b
     else if qeSubmittedAt a \<noteq> qeSubmittedAt b then qeSubmittedAt a < qeSubmittedAt b else qeID a < qeID b)"

definition hasEngagement :: "signal list \<Rightarrow> query_event \<Rightarrow> int \<Rightarrow> bool" where
  "hasEngagement signals q window = list_ex (\<lambda>s. \<not> (sgOccurredAt s < qeSubmittedAt q \<or> qeSubmittedAt q + window < sgOccurredAt s)
     \<and> (sgNormalizedQuery s = [] \<or> sgNormalizedQuery s = qeNormalizedQuery q)) signals"

definition is_reformulation :: "sessionize_config \<Rightarrow> query_event \<Rightarrow> query_event \<Rightarrow> bool" where
  "is_reformulation cfg prev q \<longleftrightarrow> qeSessionID prev = qeSessionID q \<and> qeNormalizedQuery q \<noteq> qeNormalizedQuery prev
     \<and> \<not> qeSubmittedAt q < qeSubmittedAt prev \<and> qeSubmittedAt q - qeSubmittedAt prev \<le> szReformulationGap cfg"

definition reformulated :: "query_event \<Rightarrow> query_event \<Rightarrow> derived" where
  "reformulated prev q = \<lparr> dvSourceID = qeID q, dvType = ''search.reformulated'', dvUserID = qeUserID q,
     dvSessionID = qeSessionID q, dvNormalizedQuery = qeNormalizedQuery q, dvOccurredAt = qeSubmittedAt q,
     dvFrom = qeNormalizedQuery prev, dvTo = qeNormalizedQuery q \<rparr>"

definition abandoned :: "query_event \<Rightarrow> derived" where
  "abandoned q = \<lparr> dvSourceID = qeID q, dvType = ''search.abandoned'', dvUserID = qeUserID q,
     dvSessionID = qeSessionID q, dvNormalizedQuery = qeNormalizedQuery q, dvOccurredAt = qeSubmittedAt q,
     dvFrom = [], dvTo = [] \<rparr>"

text \<open>The loop; \<open>prev\<close> is \<open>qs[i-1]\<close>.\<close>

fun sess_loop :: "sessionize_config \<Rightarrow> signal list \<Rightarrow> query_event option \<Rightarrow> query_event list \<Rightarrow> derived list" where
  "sess_loop cfg signals prev [] = []"
| "sess_loop cfg signals prev (q # qs) =
     (case prev of Some p \<Rightarrow> if is_reformulation cfg p q then [reformulated p q] else [] | None \<Rightarrow> [])
     @ (if hasEngagement (filter (\<lambda>s. sgSessionID s = qeSessionID q) signals) q (szAbandonWindow cfg) then [] else [abandoned q])
     @ sess_loop cfg signals (Some q) qs"

definition Sessionize :: "query_event list \<Rightarrow> signal list \<Rightarrow> sessionize_config \<Rightarrow> derived list" where
  "Sessionize queries signals cfg = (if queries = [] then [] else sess_loop cfg signals None (SliceStable event_before queries))"

definition MeaningfulWatchQualifies :: "real \<Rightarrow> real \<Rightarrow> int \<Rightarrow> int \<Rightarrow> bool" where
  "MeaningfulWatchQualifies positionSeconds durationSeconds thresholdSeconds thresholdPct =
     (if positionSeconds \<ge> real_of_int thresholdSeconds then True
      else durationSeconds > 0 \<and> positionSeconds \<ge> real_of_int thresholdPct / 100 * durationSeconds)"

section \<open>Statements\<close>

definition query_event_of :: "query_log_row \<Rightarrow> query_event" where
  "query_event_of r = \<lparr> qeID = ql_id r, qeNormalizedQuery = ql_normalized_query r, qeUserID = ql_user_id r,
     qeSessionID = DerefStr (ql_session_id r), qeSubmittedAt = ql_submitted_at r \<rparr>"

text \<open>Ordered by session, time and id.\<close>

definition ListQueryLogRange :: "int \<Rightarrow> int \<Rightarrow> db \<Rightarrow> query_log_row list" where
  "ListQueryLogRange cursor maxid s =
     SliceStable (\<lambda>a b. event_before (query_event_of a) (query_event_of b))
       (filter (\<lambda>r. cursor < ql_id r \<and> ql_id r \<le> maxid \<and> ql_session_id r \<noteq> None) (query_log s))"

definition ListEngagementSignals :: "int \<Rightarrow> int \<Rightarrow> db \<Rightarrow> behavior_row list" where
  "ListEngagementSignals fromTs toTs s =
     filter (\<lambda>r. be_type r \<in> {''search.result_clicked'', ''video.play_started''} \<and> be_session_id r \<noteq> None
       \<and> pg_ts fromTs \<le> be_occurred_at r \<and> be_occurred_at r \<le> pg_ts toTs) (behavior_events s)"

definition InsertDerivedBehaviorEvent :: "behavior_row \<Rightarrow> db \<Rightarrow> db" where
  "InsertDerivedBehaviorEvent row s = s\<lparr>
     behavior_events := fst (sql_insert_ignore be_event_id (row\<lparr> be_id := seq_behavior s \<rparr>) (behavior_events s)),
     seq_behavior := seq_behavior s + 1 \<rparr>"

section \<open>The job\<close>

definition signal_of :: "behavior_row \<Rightarrow> signal" where
  "signal_of r = \<lparr> sgSessionID = DerefStr (be_session_id r), sgNormalizedQuery = DerefStr (be_normalized_query r),
     sgOccurredAt = be_occurred_at r \<rparr>"

definition derived_event :: "ext \<Rightarrow> derived \<Rightarrow> behavior_row" where
  "derived_event X d = \<lparr> be_id = 0,
     be_event_id = uuid_v5 X (dvType d @ ''|'' @ dvSessionID d @ ''|'' @ FormatInt (dvSourceID d)),
     be_type = dvType d, be_user_id = dvUserID d, be_session_id = Some (dvSessionID d),
     be_normalized_query = Some (dvNormalizedQuery d), be_video_id = None, be_position = None, be_model_version = None,
     be_occurred_at = dvOccurredAt d, be_props = JObj [(''from'', JStr (dvFrom d)), (''to'', JStr (dvTo d))] \<rparr>"

text \<open>\<open>wall\<close> is read twice: for the cutoff and for the end of the signals.\<close>

definition sessionizer ::
  "ext \<Rightarrow> worker_config \<Rightarrow> bool \<times> bool \<Rightarrow> int \<Rightarrow> int \<Rightarrow> int \<Rightarrow> db \<Rightarrow> (sql_error + unit) \<times> db" where
  "sessionizer X cfg tx now wall wall' s =
     inTx tx (\<lambda>s0. let cursor = getCursor ''sessionizer'' s0; maxid = MaxSettledQueryLogID (wall - AbandonWindow cfg) s0
       in if maxid \<le> cursor then Inr ((), s0)
          else (let rows = ListQueryLogRange cursor maxid s0 in
            if rows = [] then Inr ((), SetWorkerCursor now ''sessionizer'' maxid s0)
            else (let from = Min (set (map ql_submitted_at rows));
                      signals = map signal_of (ListEngagementSignals from wall' s0);
                      ds = Sessionize (map query_event_of rows) signals
                             \<lparr> szReformulationGap = ReformulationGap cfg, szAbandonWindow = AbandonWindow cfg \<rparr>
                  in Inr ((), SetWorkerCursor now ''sessionizer'' maxid
                       (fold (\<lambda>d. InsertDerivedBehaviorEvent (derived_event X d)) ds s0))))) s"

section \<open>What is derived\<close>

interpretation by_event: strict_weak_order event_before
  by unfold_locales (auto simp: event_before_def split: if_split_asm)

definition adjacent :: "'a \<Rightarrow> 'a \<Rightarrow> 'a list \<Rightarrow> bool" where
  "adjacent p q xs \<longleftrightarrow> (\<exists>us vs. xs = us @ p # q # vs)"

lemma adjacent_Nil [simp]: "\<not> adjacent p q []"
  by (simp add: adjacent_def)

lemma adjacent_Cons: "adjacent p q (x # xs) \<longleftrightarrow> (x = p \<and> (\<exists>ys. xs = q # ys)) \<or> adjacent p q xs"
  by (auto simp: adjacent_def Cons_eq_append_conv)

lemma adjacent_between:
  assumes "sorted_wrt lt xs" and "\<And>a b. lt a b \<Longrightarrow> \<not> lt b a" and "\<And>a. \<not> lt a a"
  shows "adjacent p q xs \<longleftrightarrow> p \<in> set xs \<and> q \<in> set xs \<and> lt p q \<and> (\<forall>r \<in> set xs. \<not> (lt p r \<and> lt r q))"
  using assms(1)
proof (induction xs)
  case (Cons x xs)
  note ih = Cons.IH [OF sorted_wrt.simps(2) [THEN iffD1, OF Cons.prems, THEN conjunct2]]
  have lo: "lt x y" if "y \<in> set xs" for y using Cons.prems that by simp
  show ?case
  proof (cases "p = x")
    case True
    then have np: "p \<notin> set xs" using lo assms(3) by blast
    then have "\<not> adjacent p q xs" using ih by blast
    moreover have "(\<exists>ys. xs = q # ys) \<longleftrightarrow> q \<in> set xs \<and> (\<forall>r \<in> set xs. \<not> lt r q)"
      using Cons.prems assms(2,3) by (cases xs) auto
    ultimately show ?thesis using True np lo assms(2,3) by (auto simp: adjacent_Cons)
  next
    case False
    have "q \<noteq> x" if "lt p q" "p \<in> set xs" using that lo assms(2) by blast
    moreover have "\<not> lt p x" if "p \<in> set xs" using that lo assms(2) by blast
    ultimately show ?thesis using False ih by (auto simp: adjacent_Cons)
  qed
qed simp

lemma adjacent_Cons2: "adjacent a b (p # q # qs) \<longleftrightarrow> (a = p \<and> b = q) \<or> adjacent a b (q # qs)"
  by (subst adjacent_Cons) auto

lemma in_sess_loop:
  "d \<in> set (sess_loop cfg sg prev qs) \<longleftrightarrow>
     (\<exists>q. d = abandoned q \<and> q \<in> set qs
        \<and> \<not> hasEngagement (filter (\<lambda>s. sgSessionID s = qeSessionID q) sg) q (szAbandonWindow cfg))
     \<or> (\<exists>p q. d = reformulated p q \<and> adjacent p q (case prev of None \<Rightarrow> qs | Some p \<Rightarrow> p # qs) \<and> is_reformulation cfg p q)"
proof (induction qs arbitrary: prev)
  case Nil
  show ?case by (cases prev) (simp_all add: adjacent_Cons)
next
  case (Cons q qs)
  show ?case
  proof (cases prev)
    case None
    then show ?thesis using Cons [of "Some q"] by auto
  next
    case (Some p)
    then show ?thesis using Cons [of "Some q"] by (auto simp: adjacent_Cons2)
  qed
qed

lemma set_sess_loop:
  "set (sess_loop cfg sg prev qs) =
     {abandoned q |q. q \<in> set qs \<and> \<not> hasEngagement (filter (\<lambda>s. sgSessionID s = qeSessionID q) sg) q (szAbandonWindow cfg)}
     \<union> {reformulated p q |p q. adjacent p q (case prev of None \<Rightarrow> qs | Some p \<Rightarrow> p # qs) \<and> is_reformulation cfg p q}"
  by (rule set_eqI) (simp only: in_sess_loop Un_iff mem_Collect_eq)

text \<open>C22. The derivation in closed form, whatever order the rows arrive in: a search is abandoned exactly when no
  click on it and no play of its session falls into its window, and it reformulates another exactly when that one
  is its immediate predecessor in the session - no query of the session lies between them - is a
  different query, and is at most the gap older.\<close>

theorem sessionize_spec:
  assumes "distinct (map qeID queries)"
  shows "set (Sessionize queries sg cfg) =
     {abandoned q |q. q \<in> set queries \<and> \<not> (\<exists>s \<in> set sg. sgSessionID s = qeSessionID q
          \<and> qeSubmittedAt q \<le> sgOccurredAt s \<and> sgOccurredAt s \<le> qeSubmittedAt q + szAbandonWindow cfg
          \<and> (sgNormalizedQuery s = [] \<or> sgNormalizedQuery s = qeNormalizedQuery q))}
     \<union> {reformulated p q |p q. p \<in> set queries \<and> q \<in> set queries \<and> qeSessionID p = qeSessionID q
          \<and> event_before p q \<and> (\<forall>r \<in> set queries. \<not> (event_before p r \<and> event_before r q))
          \<and> qeNormalizedQuery p \<noteq> qeNormalizedQuery q \<and> qeSubmittedAt q - qeSubmittedAt p \<le> szReformulationGap cfg}"
proof (cases "queries = []")
  case False
  let ?qs = "SliceStable event_before queries"
  have total: "a = b" if "a \<in> set queries" "b \<in> set queries" "\<not> event_before a b" "\<not> event_before b a" for a b
  proof -
    have "qeID a = qeID b" using that(3,4) by (auto simp: event_before_def split: if_split_asm)
    then show ?thesis using assms that(1,2) by (auto simp: distinct_map dest: inj_onD)
  qed
  have "distinct (map qeID ?qs)" using assms by simp
  then have "distinct ?qs" by (simp add: distinct_map)
  then have "sorted_wrt (\<lambda>a b. \<not> event_before b a \<and> a \<noteq> b) ?qs"
    using by_event.sorted_SliceStable [of queries] by (simp add: sorted_wrt_iff_nth_less nth_eq_iff_index_eq)
  then have srt: "sorted_wrt event_before ?qs"
    by (rule sorted_wrt_mono_rel [rotated]) (use total in auto)
  have adj: "adjacent p q ?qs \<longleftrightarrow> p \<in> set queries \<and> q \<in> set queries \<and> event_before p q
      \<and> (\<forall>r \<in> set queries. \<not> (event_before p r \<and> event_before r q))" for p q
    using adjacent_between [OF srt by_event.asym by_event.irrefl] by simp
  have ref: "event_before p q \<Longrightarrow> is_reformulation cfg p q \<longleftrightarrow> qeSessionID p = qeSessionID q
      \<and> qeNormalizedQuery p \<noteq> qeNormalizedQuery q \<and> qeSubmittedAt q - qeSubmittedAt p \<le> szReformulationGap cfg" for p q
    by (auto simp: is_reformulation_def event_before_def split: if_split_asm)
  have eng: "hasEngagement (filter (\<lambda>s. sgSessionID s = qeSessionID q) sg) q w \<longleftrightarrow>
      (\<exists>s \<in> set sg. sgSessionID s = qeSessionID q \<and> qeSubmittedAt q \<le> sgOccurredAt s \<and> sgOccurredAt s \<le> qeSubmittedAt q + w
          \<and> (sgNormalizedQuery s = [] \<or> sgNormalizedQuery s = qeNormalizedQuery q))" for q w
    by (auto simp: hasEngagement_def list_ex_iff not_less)
  have R: "adjacent p q ?qs \<and> is_reformulation cfg p q \<longleftrightarrow> p \<in> set queries \<and> q \<in> set queries
      \<and> qeSessionID p = qeSessionID q \<and> event_before p q \<and> (\<forall>r \<in> set queries. \<not> (event_before p r \<and> event_before r q))
      \<and> qeNormalizedQuery p \<noteq> qeNormalizedQuery q \<and> qeSubmittedAt q - qeSubmittedAt p \<le> szReformulationGap cfg" for p q
    using adj [of p q] ref [of p q] by blast
  show ?thesis
    by (simp only: Sessionize_def if_not_P [OF False] set_sess_loop option.case R eng set_SliceStable)
qed (simp add: Sessionize_def)

definition sample_query_event :: "int \<Rightarrow> string \<Rightarrow> int \<Rightarrow> query_event" where
  "sample_query_event i q t = \<lparr> qeID = i, qeNormalizedQuery = q, qeUserID = None, qeSessionID = ''s'', qeSubmittedAt = t \<rparr>"

lemma sessionize_spec_witness:
  "reformulated (sample_query_event 1 ''cat'' 0) (sample_query_event 2 ''cats'' 5)
     \<in> set (Sessionize [sample_query_event 2 ''cats'' 5, sample_query_event 1 ''cat'' 0] []
          \<lparr> szReformulationGap = 10, szAbandonWindow = 10 \<rparr>)"
proof -
  have d: "distinct (map qeID [sample_query_event 2 ''cats'' 5, sample_query_event 1 ''cat'' 0])"
    by (simp add: sample_query_event_def)
  show ?thesis
    unfolding sessionize_spec [OF d]
    by (intro UnI2 CollectI exI [of _ "sample_query_event 1 ''cat'' 0"] exI [of _ "sample_query_event 2 ''cats'' 5"])
      (simp add: sample_query_event_def event_before_def)
qed

section \<open>Which searches are judged\<close>

lemma fold_derived_ids:
  "be_event_id ` set (behavior_events s) \<union> (\<lambda>d. be_event_id (derived_event X d)) ` set ds
    \<subseteq> be_event_id ` set (behavior_events (fold (\<lambda>d. InsertDerivedBehaviorEvent (derived_event X d)) ds s))"
proof (induction ds arbitrary: s)
  case (Cons d ds)
  let ?s = "InsertDerivedBehaviorEvent (derived_event X d) s"
  have "be_event_id ` set (behavior_events s) \<union> {be_event_id (derived_event X d)} \<subseteq> be_event_id ` set (behavior_events ?s)"
    by (auto simp: InsertDerivedBehaviorEvent_def sql_insert_ignore_def)
  then show ?case using Cons [of ?s] by auto
qed simp

lemma MaxSettled_ge: "r \<in> set (query_log s) \<Longrightarrow> ql_submitted_at r \<le> pg_ts t \<Longrightarrow> ql_id r \<le> MaxSettledQueryLogID t s"
  by (auto simp: MaxSettledQueryLogID_def max_or_zero_def filter_empty_conv)

lemma set_ListQueryLogRange:
  "set (ListQueryLogRange cursor maxid s) = {r \<in> set (query_log s). cursor < ql_id r \<and> ql_id r \<le> maxid \<and> ql_session_id r \<noteq> None}"
  by (simp add: ListQueryLogRange_def)

text \<open>A search is judged as soon as a later row is old enough, not when its own window has closed. Ids follow the
  order of arrival and times come from the events, so when an older search arrives after a newer one
  the cutoff covers both: the newer is recorded as abandoned - with no click of its session so far - although
  its window may still be open, and the cursor passes it for good.\<close>

theorem unsettled_search_abandoned:
  assumes "r \<in> set (query_log s)" and "ql_session_id r = Some sid" and "getCursor ''sessionizer'' s < ql_id r"
    and "r' \<in> set (query_log s)" and "ql_id r \<le> ql_id r'" and "ql_submitted_at r' \<le> pg_ts (wall - AbandonWindow cfg)"
    and "distinct (map ql_id (query_log s))" and "list_all (\<lambda>b. be_session_id b \<noteq> Some sid) (behavior_events s)"
  shows "\<exists>s'. sessionizer X cfg (True, True) now wall wall' s = (Inr (), s')
    \<and> uuid_v5 X (''search.abandoned|'' @ sid @ ''|'' @ FormatInt (ql_id r)) \<in> be_event_id ` set (behavior_events s')
    \<and> ql_id r \<le> getCursor ''sessionizer'' s'"
proof -
  define maxid where "maxid = MaxSettledQueryLogID (wall - AbandonWindow cfg) s"
  define rows where "rows = ListQueryLogRange (getCursor ''sessionizer'' s) maxid s"
  define signals where "signals = map signal_of (ListEngagementSignals (Min (set (map ql_submitted_at rows))) wall' s)"
  define ds where "ds = Sessionize (map query_event_of rows) signals
    \<lparr> szReformulationGap = ReformulationGap cfg, szAbandonWindow = AbandonWindow cfg \<rparr>"
  define s' where "s' = SetWorkerCursor now ''sessionizer'' maxid (fold (\<lambda>d. InsertDerivedBehaviorEvent (derived_event X d)) ds s)"
  have max: "ql_id r \<le> maxid" using MaxSettled_ge [OF assms(4,6)] assms(5) by (simp add: maxid_def)
  have r: "r \<in> set rows" using assms(1-3) max by (simp add: rows_def set_ListQueryLogRange)
  have run: "sessionizer X cfg (True, True) now wall wall' s = (Inr (), s')"
    using r max assms(3) unfolding sessionizer_def inTx_Inr Let_def
    by (auto simp: s'_def ds_def signals_def rows_def maxid_def)
  have "distinct (map ql_id rows)" using assms(7) by (simp add: rows_def ListQueryLogRange_def distinct_map_filter)
  then have dist: "distinct (map qeID (map query_event_of rows))" by (simp add: query_event_of_def comp_def)
  have none: "sgSessionID sg \<noteq> sid" if "sg \<in> set signals" for sg
    using that assms(8) by (auto simp: signals_def ListEngagementSignals_def signal_of_def list_all_iff DerefStr_def)
  have "qeSessionID (query_event_of r) = sid" using assms(2) by (simp add: query_event_of_def DerefStr_def)
  then have "abandoned (query_event_of r) \<in> set ds"
    unfolding ds_def sessionize_spec [OF dist] using r none by (intro UnI1 CollectI exI [of _ "query_event_of r"]) auto
  moreover have "be_event_id (derived_event X (abandoned (query_event_of r)))
      = uuid_v5 X (''search.abandoned|'' @ sid @ ''|'' @ FormatInt (ql_id r))"
    using assms(2) by (simp add: derived_event_def abandoned_def query_event_of_def DerefStr_def)
  ultimately have "uuid_v5 X (''search.abandoned|'' @ sid @ ''|'' @ FormatInt (ql_id r)) \<in> be_event_id ` set (behavior_events s')"
    using fold_derived_ids [of s X ds] by (force simp: s'_def SetWorkerCursor_def)
  with run max show ?thesis by (simp add: s'_def getCursor_set)
qed

text \<open>A search of ten past twelve, judged at ten past twelve because one of noon arrived late.\<close>

definition session_row :: "int \<Rightarrow> int \<Rightarrow> query_log_row" where
  "session_row i t = \<lparr> ql_id = i, ql_event_id = None, ql_normalized_query = ''cats'', ql_display_query = ''Cats'',
     ql_user_id = None, ql_session_id = Some ''s'', ql_subject_id = None, ql_results_count = None, ql_submitted_at = t \<rparr>"

definition late_arrival :: db where
  "late_arrival = empty_db \<lparr> query_log := [session_row 1 (minutes 10), session_row 2 0] \<rparr>"

lemma unsettled_search_abandoned_witness:
  "uuid_v5 sample_ext (''search.abandoned|'' @ ''s'' @ ''|'' @ FormatInt 1)
     \<in> be_event_id ` set (behavior_events (snd (sessionizer sample_ext sample_worker (True, True) 0 (minutes 10) (minutes 10) late_arrival)))
   \<and> minutes 10 < minutes 10 + AbandonWindow sample_worker"
proof -
  have "\<exists>s'. sessionizer sample_ext sample_worker (True, True) 0 (minutes 10) (minutes 10) late_arrival = (Inr (), s')
    \<and> uuid_v5 sample_ext (''search.abandoned|'' @ ''s'' @ ''|'' @ FormatInt (ql_id (session_row 1 (minutes 10)))) \<in> be_event_id ` set (behavior_events s')
    \<and> ql_id (session_row 1 (minutes 10)) \<le> getCursor ''sessionizer'' s'"
    by (rule unsettled_search_abandoned [where r' = "session_row 2 0"])
      (simp_all add: late_arrival_def empty_db_def session_row_def getCursor_def GetWorkerCursor_def sql_get_def pg_ts_def minutes_def nanos_def)
  then show ?thesis by (auto simp: session_row_def minutes_def nanos_def)
qed

end
