(* ===== verification/Suggest.thy ===== *)
theory Suggest
  imports TextSearch Cache "HOL-Library.Sublist"
begin

text \<open>
  \<open>internal/suggest/service.go\<close> and \<open>queries/suggestions.sql\<close>: the streams of candidates for a prefix, and
  the service that blends them behind a cache of short prefixes. A request runs its queries outside a
  transaction: \<open>dbs i\<close> is the database its \<open>i\<close>-th statement sees. Rows that tie in an order are in table order.
\<close>

section \<open>Statements\<close>

record title_row =
  ti_title :: string
  ti_views :: int
  ti_video :: uuid

definition title_of :: "document \<Rightarrow> title_row" where
  "title_of d = \<lparr> ti_title = d_title d, ti_views = d_views d, ti_video = d_video_id d \<rparr>"

definition SuggestTitlePrefix :: "pg \<Rightarrow> bool \<Rightarrow> string \<Rightarrow> int \<Rightarrow> db \<Rightarrow> sql_error + title_row list" where
  "SuggestTitlePrefix P hs pat lmt s =
     (if \<not> pg_text pat then Inl SqlError
      else first_rows lmt (map title_of (distinct_on (\<lambda>d. pg_lower P (d_title d))
        (SliceStable (\<lambda>a b. pg_lower P (d_title a) < pg_lower P (d_title b)
             \<or> (pg_lower P (d_title a) = pg_lower P (d_title b) \<and> d_views a > d_views b))
          (filter (\<lambda>d. visible hs d \<and> like pat (pg_lower P (d_title d))) (documents s))))))"

record channel_row =
  ch_name :: string
  ch_handle :: string
  ch_views :: int
  ch_video :: uuid

definition channel_docs :: "pg \<Rightarrow> bool \<Rightarrow> string \<Rightarrow> db \<Rightarrow> document list" where
  "channel_docs P hs pat s = filter (\<lambda>d. visible hs d
     \<and> (case d_channel_name d of None \<Rightarrow> False | Some n \<Rightarrow> like pat (pg_lower P n))) (documents s)"

text \<open>\<open>candidates\<close>: the names with the most views of one of their documents.\<close>

definition channel_groups :: "document list \<Rightarrow> (string \<times> int) list" where
  "channel_groups ds = SliceStable (\<lambda>a b. snd a > snd b \<or> (snd a = snd b \<and> fst a < fst b))
     (map (\<lambda>n. (n, Max (d_views ` set (filter (\<lambda>d. d_channel_name d = Some n) ds))))
       (remdups (List.map_filter d_channel_name ds)))"

text \<open>\<open>witness\<close>: the document of the smallest id that has the name and the views.\<close>

definition channel_witness :: "bool \<Rightarrow> string \<times> int \<Rightarrow> db \<Rightarrow> channel_row list" where
  "channel_witness hs g s =
     (case sort_key d_video_id (filter (\<lambda>d. visible hs d \<and> d_channel_name d = Some (fst g) \<and> d_views d = snd g) (documents s)) of
        [] \<Rightarrow> []
      | d # ds \<Rightarrow> [\<lparr> ch_name = fst g, ch_handle = DerefStr (d_channel_handle d), ch_views = snd g, ch_video = d_video_id d \<rparr>])"

definition SuggestChannelPrefix :: "pg \<Rightarrow> bool \<Rightarrow> string \<Rightarrow> int \<Rightarrow> db \<Rightarrow> sql_error + channel_row list" where
  "SuggestChannelPrefix P hs pat lmt s =
     (if \<not> pg_text pat then Inl SqlError
      else case first_rows lmt (channel_groups (channel_docs P hs pat s)) of Inl e \<Rightarrow> Inl e
       | Inr gs \<Rightarrow> Inr (concat (map (\<lambda>g. channel_witness hs g s) gs)))"

record tag_row =
  tg_tag :: string
  tg_cnt :: int
  tg_video :: uuid

text \<open>\<open>unnest(d.tags)\<close> of the visible documents, NULL elements matching no pattern.\<close>

definition tag_instances :: "pg \<Rightarrow> bool \<Rightarrow> string \<Rightarrow> db \<Rightarrow> string list" where
  "tag_instances P hs pat s = filter (\<lambda>t. like pat (pg_lower P t))
     (concat (map (\<lambda>d. List.map_filter id (d_tags d)) (filter (visible hs) (documents s))))"

definition tag_groups :: "string list \<Rightarrow> (string \<times> int) list" where
  "tag_groups ts = SliceStable (\<lambda>a b. snd a > snd b \<or> (snd a = snd b \<and> fst a < fst b))
     (map (\<lambda>t. (t, int (length (filter (\<lambda>x. x = t) ts)))) (remdups ts))"

definition tag_witness :: "bool \<Rightarrow> string \<times> int \<Rightarrow> db \<Rightarrow> tag_row list" where
  "tag_witness hs g s =
     (case SliceStable (\<lambda>a b. d_views a > d_views b \<or> (d_views a = d_views b \<and> d_video_id a < d_video_id b))
        (filter (\<lambda>d. visible hs d \<and> Some (fst g) \<in> set (d_tags d)) (documents s)) of
        [] \<Rightarrow> [] | d # ds \<Rightarrow> [\<lparr> tg_tag = fst g, tg_cnt = snd g, tg_video = d_video_id d \<rparr>])"

definition SuggestTagPrefix :: "pg \<Rightarrow> bool \<Rightarrow> string \<Rightarrow> int \<Rightarrow> db \<Rightarrow> sql_error + tag_row list" where
  "SuggestTagPrefix P hs pat lmt s =
     (if \<not> pg_text pat then Inl SqlError
      else case first_rows lmt (tag_groups (tag_instances P hs pat s)) of Inl e \<Rightarrow> Inl e
       | Inr gs \<Rightarrow> Inr (concat (map (\<lambda>g. tag_witness hs g s) gs)))"

text \<open>Titles of one lower case form have one similarity.\<close>

definition SuggestTitleFuzzy :: "pg \<Rightarrow> string \<Rightarrow> bool \<Rightarrow> int \<Rightarrow> db \<Rightarrow> sql_error + title_row list" where
  "SuggestTitleFuzzy P q hs lmt s =
     (if \<not> pg_text q then Inl SqlError
      else first_rows lmt (map title_of (distinct_on (\<lambda>d. pg_lower P (d_title d))
        (SliceStable (\<lambda>a b. pg_lower P (d_title a) < pg_lower P (d_title b))
          (filter (\<lambda>d. visible hs d \<and> pg_similar P (pg_lower P (d_title d)) q
             \<and> pg_similarity P (pg_lower P (d_title d)) q \<ge> 35 / 100) (documents s))))))"

definition SuggestUserHistoryPrefix :: "uuid \<Rightarrow> string \<Rightarrow> int \<Rightarrow> db \<Rightarrow> sql_error + history_row list" where
  "SuggestUserHistoryPrefix user pat lmt s =
     (if \<not> pg_text pat then Inl SqlError
      else first_rows lmt (SliceStable (\<lambda>a b. uh_last_used_at a > uh_last_used_at b)
        (filter (\<lambda>r. uh_user_id r = user \<and> \<not> uh_hidden r \<and> like pat (uh_normalized_query r)) (user_search_history s))))"

definition SuggestAggregatePrefix :: "string \<Rightarrow> int \<Rightarrow> db \<Rightarrow> sql_error + aggregate_row list" where
  "SuggestAggregatePrefix pat lmt s =
     (if \<not> pg_text pat then Inl SqlError
      else first_rows lmt (SliceStable (\<lambda>a b. qa_decayed_freq a > qa_decayed_freq b)
        (filter (\<lambda>r. qa_suggestible r \<and> \<not> qa_banned r \<and> like pat (qa_normalized_query r)) (query_aggregates s))))"

section \<open>The prefix pattern\<close>

fun escape_like :: "string \<Rightarrow> string" where
  "escape_like [] = []"
| "escape_like (c # s) = (if c = CHR 0x5C \<or> c = CHR ''%'' \<or> c = CHR ''_'' then [CHR 0x5C, c] else [c]) @ escape_like s"

definition likePrefix :: "string \<Rightarrow> string" where
  "likePrefix q = escape_like q @ ''%''"

lemma escape_like_plain: "like (escape_like q @ ''%'') s \<longleftrightarrow> prefix q s"
proof (induction q arbitrary: s)
  case Nil
  have "like ''%'' s" by (induction s) simp_all
  then show ?case by (simp del: like.simps)
next
  case (Cons c q)
  then show ?case by (cases s) auto
qed

text \<open>A prefix is matched literally: the pattern built for a normalized query matches exactly the texts that
  begin with it, whatever wildcards or escapes the query holds.\<close>

theorem prefix_is_literal: "like (likePrefix q) s \<longleftrightarrow> prefix q s"
  by (simp add: likePrefix_def escape_like_plain)

section \<open>The service\<close>

definition suggestDefaultLimit :: int where "suggestDefaultLimit = 10"
definition suggestMaxLimit :: int where "suggestMaxLimit = 20"
definition streamLimit :: int where "streamLimit = 15"
definition cacheTTL :: int where "cacheTTL = 60 * nanos"
definition cachePrefixMax :: nat where "cachePrefixMax = 3"

record suggest_request =
  sqFence :: string
  sqQuery :: string
  sqLimit :: int
  sqHideSensitive :: bool
  sqPersonalized :: bool
  sqIncludeHistory :: bool
  sqLang :: string
  sqUserID :: string
  sqSessionID :: string
  sqMode :: string

record suggest_response =
  srQuery :: string
  srNormalized :: string
  srSuggestions :: "suggestion list"
  srModelVersion :: string

text \<open>What surrounds one request: the clock \<open>en_t\<close>, whether Redis is wired at all, which of its four uses
  (\<open>Get\<close>, session, trending, \<open>Set\<close>) get through, the keyspace, and the databases the statements see,
  \<open>None\<close> when PostgreSQL does not answer.\<close>

record suggest_env =
  en_t :: int
  en_wired :: bool
  en_get :: bool
  en_session :: bool
  en_trend :: bool
  en_set :: bool
  en_redis :: redis
  en_dbs :: "nat \<Rightarrow> db option"

definition ask :: "suggest_env \<Rightarrow> nat \<Rightarrow> (db \<Rightarrow> sql_error + 'a list) \<Rightarrow> sql_error + 'a list" where
  "ask E i stmt = (case en_dbs E i of None \<Rightarrow> Inl SqlError | Some s \<Rightarrow> stmt s)"

text \<open>The cache of short prefixes: the keys \<open>sugg:...\<close> of Redis. A list that is written is the list that
  is read: what is cached is text of PostgreSQL, so the JSON round trip is exact.\<close>

type_synonym suggest_cache = "string \<Rightarrow> (suggestion list \<times> int) option"

definition Cache_Get :: "suggest_env \<Rightarrow> string \<Rightarrow> suggest_cache \<Rightarrow> suggestion list option" where
  "Cache_Get E k c = (if en_get E then (case c k of None \<Rightarrow> None | Some (xs, e) \<Rightarrow> if en_t E < e then Some xs else None) else None)"

definition Cache_Set :: "suggest_env \<Rightarrow> string \<Rightarrow> suggestion list \<Rightarrow> suggest_cache \<Rightarrow> suggest_cache" where
  "Cache_Set E k xs c = (if en_set E then c(k \<mapsto> (xs, en_t E + cacheTTL)) else c)"

definition candidate_of :: "string \<Rightarrow> kind \<Rightarrow> source \<Rightarrow> string \<Rightarrow> string \<Rightarrow> bool \<Rightarrow> bool \<Rightarrow> real \<Rightarrow> candidate" where
  "candidate_of txt k src vid handle personal exact pop =
     \<lparr> cText = txt, cKind = k, cSource = src, cVideoID = vid, cChannelHandle = handle, cIsPersonal = personal,
       cExactPrefix = exact, cTrending = False, cPopularity = pop \<rparr>"

definition title_cand :: "ext \<Rightarrow> bool \<Rightarrow> title_row \<Rightarrow> candidate" where
  "title_cand X exact r = candidate_of (ti_title r) KindQuery SourceDoc (uuid_string X (ti_video r)) [] False exact
     (real_of_int (ti_views r))"

definition channel_cand :: "ext \<Rightarrow> channel_row \<Rightarrow> candidate" where
  "channel_cand X r = candidate_of (ch_name r) KindChannel SourceDoc (uuid_string X (ch_video r)) (ch_handle r) False True
     (real_of_int (ch_views r))"

definition tag_cand :: "ext \<Rightarrow> tag_row \<Rightarrow> candidate" where
  "tag_cand X r = candidate_of (tg_tag r) KindTag SourceDoc (uuid_string X (tg_video r)) [] False True (real_of_int (tg_cnt r))"

definition display_or :: "string \<Rightarrow> string \<Rightarrow> string" where
  "display_or display normalized = (if display = [] then normalized else display)"

definition aggregate_cand :: "aggregate_row \<Rightarrow> candidate" where
  "aggregate_cand r = candidate_of (display_or (qa_display_query r) (qa_normalized_query r)) KindQuery SourceQuery [] [] False True
     (qa_decayed_freq r)"

definition history_cand :: "history_row \<Rightarrow> candidate" where
  "history_cand r = candidate_of (display_or (uh_display_query r) (uh_normalized_query r)) KindHistory SourceHistory [] [] True True
     (real_of_int (uh_use_count r))"

definition session_cand :: "string \<Rightarrow> candidate" where
  "session_cand q = candidate_of q KindHistory SourceHistory [] [] True True 0"

definition StoreAggregate_Suggest :: "string \<Rightarrow> int \<Rightarrow> db \<Rightarrow> sql_error + candidate list" where
  "StoreAggregate_Suggest normalizedPrefix lmt s =
     (case SuggestAggregatePrefix (likePrefix normalizedPrefix) (int32 lmt) s of Inl e \<Rightarrow> Inl e
      | Inr rows \<Rightarrow> Inr (map aggregate_cand rows))"

text \<open>One stream after another; the first that fails ends it.\<close>

fun gather :: "(sql_error + 'a list) list \<Rightarrow> sql_error + 'a list" where
  "gather [] = Inr []"
| "gather (r # rs) = (case r of Inl e \<Rightarrow> Inl e | Inr xs \<Rightarrow> (case gather rs of Inl e \<Rightarrow> Inl e | Inr ys \<Rightarrow> Inr (xs @ ys)))"

definition history_stream :: "ext \<Rightarrow> suggest_env \<Rightarrow> string \<Rightarrow> suggest_request \<Rightarrow> sql_error + candidate list" where
  "history_stream X E like_p req =
     (if sqIncludeHistory req \<and> sqUserID req \<noteq> []
      then (case uuid_parse X (sqUserID req) of None \<Rightarrow> Inr []
        | Some uid \<Rightarrow> map_rows history_cand (ask E 4 (SuggestUserHistoryPrefix uid like_p streamLimit)))
      else Inr [])"

definition session_stream :: "suggest_env \<Rightarrow> string \<Rightarrow> suggest_request \<Rightarrow> candidate list" where
  "session_stream E normalized req =
     (if sqIncludeHistory req \<and> sqSessionID req \<noteq> [] \<and> en_wired E
      then map session_cand (filter (\<lambda>q. prefix normalized q) (SessionQueries (en_t E) (en_session E) (sqSessionID req) (en_redis E)))
      else [])"

definition mark_trending :: "ext \<Rightarrow> suggest_env \<Rightarrow> candidate \<Rightarrow> candidate" where
  "mark_trending X E c =
     (if en_wired E \<and> TrendingQuerySet (en_t E) (en_trend E) (en_redis E) (normalize X (cText c)) \<noteq> None
      then c\<lparr> cTrending := True \<rparr> else c)"

definition candidates :: "ext \<Rightarrow> pg \<Rightarrow> suggest_env \<Rightarrow> string \<Rightarrow> suggest_request \<Rightarrow> int \<Rightarrow> sql_error + candidate list" where
  "candidates X P E normalized req lmt =
     (let like_p = likePrefix normalized; hs = sqHideSensitive req
      in case gather [map_rows (title_cand X True) (ask E 0 (SuggestTitlePrefix P hs like_p streamLimit)),
             map_rows (channel_cand X) (ask E 1 (SuggestChannelPrefix P hs like_p streamLimit)),
             map_rows (tag_cand X) (ask E 2 (SuggestTagPrefix P hs like_p streamLimit)),
             ask E 3 (StoreAggregate_Suggest normalized streamLimit),
             history_stream X E like_p req, Inr (session_stream E normalized req)] of
           Inl e \<Rightarrow> Inl e
         | Inr cs0 \<Rightarrow> (let cs = map (mark_trending X E) cs0
             in if int (length (filter cExactPrefix cs)) < lmt
                then (case ask E 5 (SuggestTitleFuzzy P normalized hs streamLimit) of Inl e \<Rightarrow> Inl e
                  | Inr rows \<Rightarrow> Inr (cs @ map (title_cand X False) rows))
                else Inr cs))"

definition suggest_key :: "suggest_request \<Rightarrow> string \<Rightarrow> string" where
  "suggest_key req normalized = ''sugg:'' @ sqFence req @ '':'' @ (if sqMode req = [] then ''simple'' else sqMode req)
     @ '':'' @ (if sqHideSensitive req then ''true'' else ''false'') @ '':'' @ normalized"

definition personal_request :: "suggest_request \<Rightarrow> bool" where
  "personal_request req \<longleftrightarrow> sqIncludeHistory req \<and> (sqUserID req \<noteq> [] \<or> sqSessionID req \<noteq> [])"

definition cacheable :: "suggest_env \<Rightarrow> suggest_request \<Rightarrow> string \<Rightarrow> bool" where
  "cacheable E req normalized \<longleftrightarrow> en_wired E \<and> \<not> personal_request req \<and> rune_count normalized \<le> cachePrefixMax"

definition suggest_reply :: "suggest_request \<Rightarrow> string \<Rightarrow> suggestion list \<Rightarrow> suggest_response" where
  "suggest_reply req normalized xs =
     \<lparr> srQuery = sqQuery req, srNormalized = normalized, srSuggestions = xs, srModelVersion = ''heuristic-v1'' \<rparr>"

definition Suggest ::
  "ext \<Rightarrow> pg \<Rightarrow> ((string \<times> scored_candidate) list \<Rightarrow> (string \<times> scored_candidate) list) \<Rightarrow> suggest_env
     \<Rightarrow> suggest_request \<Rightarrow> suggest_cache \<Rightarrow> suggest_response \<times> suggest_cache" where
  "Suggest X P iter E req c =
     (let normalized = normalize X (sqQuery req)
      in if normalized = [] then (suggest_reply req normalized [], c)
         else (let lmt = Limit (sqLimit req) suggestDefaultLimit suggestMaxLimit;
                   cab = cacheable E req normalized; key = suggest_key req normalized
           in case (if cab then Cache_Get E key c else None) of
                Some cached \<Rightarrow> (suggest_reply req normalized cached, c)
              | None \<Rightarrow> (case candidates X P E normalized req lmt of
                   Inl e \<Rightarrow> (suggest_reply req normalized [], c)
                 | Inr cands \<Rightarrow> (let xs = Blend X iter cands lmt DefaultWeights
                     in (suggest_reply req normalized xs, if cab then Cache_Set E key xs c else c)))))"

section \<open>Where candidates come from\<close>

lemma ask_Inr: "ask E i stmt = Inr xs \<Longrightarrow> \<exists>s. en_dbs E i = Some s \<and> stmt s = Inr xs"
  by (simp add: ask_def split: option.splits)

lemma map_rows_Inr: "map_rows f r = Inr ys \<Longrightarrow> \<exists>xs. r = Inr xs \<and> ys = map f xs"
  by (auto simp: map_rows_def split: sum.splits)

lemma gather_Inr: "gather rs = Inr ys \<Longrightarrow> y \<in> set ys \<Longrightarrow> \<exists>xs. Inr xs \<in> set rs \<and> y \<in> set xs"
  by (induction rs arbitrary: ys) (fastforce split: sum.splits)+

lemma title_prefix_visible:
  assumes "SuggestTitlePrefix P hs pat lmt s = Inr rows" and "r \<in> set rows"
  shows "\<exists>d \<in> set (documents s). visible hs d \<and> ti_video r = d_video_id d"
proof -
  have "r \<in> title_of ` set (filter (\<lambda>d. visible hs d \<and> like pat (pg_lower P (d_title d))) (documents s))"
    using assms set_distinct_on by (fastforce simp: SuggestTitlePrefix_def split: if_split_asm dest!: first_rows_set)
  then show ?thesis by (auto simp: title_of_def)
qed

lemma title_fuzzy_visible:
  assumes "SuggestTitleFuzzy P q hs lmt s = Inr rows" and "r \<in> set rows"
  shows "\<exists>d \<in> set (documents s). visible hs d \<and> ti_video r = d_video_id d"
proof -
  have "r \<in> title_of ` set (filter (visible hs) (documents s))"
    using assms set_distinct_on by (fastforce simp: SuggestTitleFuzzy_def split: if_split_asm dest!: first_rows_set)
  then show ?thesis by (auto simp: title_of_def)
qed

lemma in_case_hd: "r \<in> set (case xs of [] \<Rightarrow> [] | d # ds \<Rightarrow> [f d]) \<Longrightarrow> \<exists>d \<in> set xs. r = f d"
  by (cases xs) auto

lemma channel_prefix_visible:
  assumes "SuggestChannelPrefix P hs pat lmt s = Inr rows" and "r \<in> set rows"
  shows "\<exists>d \<in> set (documents s). visible hs d \<and> ch_video r = d_video_id d"
proof -
  obtain g where "r \<in> set (channel_witness hs g s)"
    using assms by (auto simp: SuggestChannelPrefix_def split: if_split_asm sum.split_asm)
  from in_case_hd [OF this [unfolded channel_witness_def]] show ?thesis by auto
qed

lemma tag_prefix_visible:
  assumes "SuggestTagPrefix P hs pat lmt s = Inr rows" and "r \<in> set rows"
  shows "\<exists>d \<in> set (documents s). visible hs d \<and> tg_video r = d_video_id d"
proof -
  obtain g where "r \<in> set (tag_witness hs g s)"
    using assms by (auto simp: SuggestTagPrefix_def split: if_split_asm sum.split_asm)
  from in_case_hd [OF this [unfolded tag_witness_def]] show ?thesis by auto
qed

definition from_document :: "ext \<Rightarrow> suggest_env \<Rightarrow> suggest_request \<Rightarrow> string \<Rightarrow> bool" where
  "from_document X E req vid \<longleftrightarrow> (\<exists>i s. en_dbs E i = Some s
     \<and> (\<exists>d \<in> set (documents s). visible (sqHideSensitive req) d \<and> vid = uuid_string X (d_video_id d)))"

definition from_aggregate :: "ext \<Rightarrow> suggest_env \<Rightarrow> suggest_request \<Rightarrow> string \<Rightarrow> bool" where
  "from_aggregate X E req txt \<longleftrightarrow> (\<exists>s. en_dbs E 3 = Some s
     \<and> (\<exists>a \<in> set (query_aggregates s). qa_suggestible a \<and> \<not> qa_banned a
          \<and> prefix (normalize X (sqQuery req)) (qa_normalized_query a)
          \<and> txt = display_or (qa_display_query a) (qa_normalized_query a)))"

definition sourced :: "ext \<Rightarrow> suggest_env \<Rightarrow> suggest_request \<Rightarrow> candidate \<Rightarrow> bool" where
  "sourced X E req c \<longleftrightarrow>
     (from_document X E req (cVideoID c) \<and> \<not> cIsPersonal c)
   \<or> (cVideoID c = [] \<and> \<not> cIsPersonal c \<and> from_aggregate X E req (cText c))
   \<or> (cVideoID c = [] \<and> cIsPersonal c \<and> personal_request req)"

lemma sourced_trending [simp]: "sourced X E req (mark_trending X E c) = sourced X E req c"
  by (simp add: sourced_def mark_trending_def)

lemma sourced_document:
  assumes "en_dbs E i = Some s" and "\<exists>d \<in> set (documents s). visible (sqHideSensitive req) d \<and> v = d_video_id d"
    and "cVideoID c = uuid_string X v" and "\<not> cIsPersonal c"
  shows "sourced X E req c"
  using assms unfolding sourced_def from_document_def by metis

lemma cand_simps [simp]:
  "cVideoID (title_cand X exact r) = uuid_string X (ti_video r)" "\<not> cIsPersonal (title_cand X exact r)"
  "cVideoID (channel_cand X cr) = uuid_string X (ch_video cr)" "\<not> cIsPersonal (channel_cand X cr)"
  "cVideoID (tag_cand X tr) = uuid_string X (tg_video tr)" "\<not> cIsPersonal (tag_cand X tr)"
  "cVideoID (aggregate_cand ar) = []" "\<not> cIsPersonal (aggregate_cand ar)"
  "cVideoID (history_cand hr) = []" "cIsPersonal (history_cand hr)"
  "cVideoID (session_cand q) = []" "cIsPersonal (session_cand q)"
  by (simp_all add: title_cand_def channel_cand_def tag_cand_def aggregate_cand_def history_cand_def session_cand_def candidate_of_def)

lemma rows_sourced:
  assumes "c \<in> set cs" and "map_rows f (ask E i stmt) = Inr cs"
    and "\<And>s rows r. stmt s = Inr rows \<Longrightarrow> r \<in> set rows \<Longrightarrow> \<exists>d \<in> set (documents s). visible (sqHideSensitive req) d \<and> vid r = d_video_id d"
    and "\<And>r. cVideoID (f r) = uuid_string X (vid r)" and "\<And>r. \<not> cIsPersonal (f r)"
  shows "sourced X E req c"
proof -
  obtain rows r where r: "ask E i stmt = Inr rows" "r \<in> set rows" "c = f r"
    using assms(1,2) map_rows_Inr by fastforce
  obtain s where s: "en_dbs E i = Some s" "stmt s = Inr rows" using ask_Inr r(1) by blast
  show ?thesis
    using sourced_document [OF s(1) assms(3) [OF s(2) r(2)]] assms(4,5) r(3) by metis
qed

lemma aggregate_sourced:
  assumes "c \<in> set cs" and "ask E 3 (StoreAggregate_Suggest (normalize X (sqQuery req)) n) = Inr cs"
  shows "sourced X E req c"
proof -
  obtain s where s: "en_dbs E 3 = Some s" "StoreAggregate_Suggest (normalize X (sqQuery req)) n s = Inr cs"
    using ask_Inr assms(2) by blast
  obtain rows where rows: "SuggestAggregatePrefix (likePrefix (normalize X (sqQuery req))) (int32 n) s = Inr rows" "cs = map aggregate_cand rows"
    using s(2) by (auto simp: StoreAggregate_Suggest_def split: sum.split_asm)
  obtain a where a: "a \<in> set rows" "c = aggregate_cand a" using assms(1) rows(2) by auto
  have "a \<in> set (query_aggregates s)" "qa_suggestible a" "\<not> qa_banned a" "prefix (normalize X (sqQuery req)) (qa_normalized_query a)"
    using rows(1) a(1) by (auto simp: SuggestAggregatePrefix_def likePrefix_def escape_like_plain split: if_split_asm dest!: first_rows_set)
  then have "from_aggregate X E req (cText c)"
    using s(1) unfolding from_aggregate_def a(2) by (auto simp: aggregate_cand_def candidate_of_def)
  then show ?thesis by (simp add: sourced_def a(2))
qed

lemma personal_sourced: "cVideoID c = [] \<Longrightarrow> cIsPersonal c \<Longrightarrow> personal_request req \<Longrightarrow> sourced X E req c"
  by (simp add: sourced_def)

lemma history_sourced:
  assumes "c \<in> set cs" and "history_stream X E pat req = Inr cs"
  shows "sourced X E req c"
proof -
  have "c \<in> range history_cand \<and> personal_request req"
    using assms by (auto simp: history_stream_def personal_request_def split: if_split_asm option.split_asm dest!: map_rows_Inr)
  then show ?thesis by (auto intro: personal_sourced)
qed

lemma session_sourced: "c \<in> set (session_stream E q req) \<Longrightarrow> sourced X E req c"
  by (auto simp: session_stream_def personal_request_def split: if_split_asm intro!: personal_sourced)

lemma candidates_sourced:
  assumes "candidates X P E (normalize X (sqQuery req)) req lmt = Inr cs" and "c \<in> set cs"
  shows "sourced X E req c"
proof -
  let ?p = "likePrefix (normalize X (sqQuery req))" and ?hs = "sqHideSensitive req"
  let ?rs = "[map_rows (title_cand X True) (ask E 0 (SuggestTitlePrefix P ?hs ?p streamLimit)),
             map_rows (channel_cand X) (ask E 1 (SuggestChannelPrefix P ?hs ?p streamLimit)),
             map_rows (tag_cand X) (ask E 2 (SuggestTagPrefix P ?hs ?p streamLimit)),
             ask E 3 (StoreAggregate_Suggest (normalize X (sqQuery req)) streamLimit),
             history_stream X E ?p req, Inr (session_stream E (normalize X (sqQuery req)) req)]"
  obtain cs0 where cs0: "gather ?rs = Inr cs0"
    and cs: "c \<in> mark_trending X E ` set cs0
      \<or> (\<exists>rows. ask E 5 (SuggestTitleFuzzy P (normalize X (sqQuery req)) ?hs streamLimit) = Inr rows \<and> c \<in> set (map (title_cand X False) rows))"
    using assms by (auto simp: candidates_def Let_def split: sum.split_asm if_split_asm)
  have stream: "sourced X E req x" if "x \<in> set cs0" for x
  proof -
    obtain xs where xs: "Inr xs \<in> set ?rs" "x \<in> set xs" using gather_Inr [OF cs0 \<open>x \<in> set cs0\<close>] by blast
    then consider "map_rows (title_cand X True) (ask E 0 (SuggestTitlePrefix P ?hs ?p streamLimit)) = Inr xs"
      | "map_rows (channel_cand X) (ask E 1 (SuggestChannelPrefix P ?hs ?p streamLimit)) = Inr xs"
      | "map_rows (tag_cand X) (ask E 2 (SuggestTagPrefix P ?hs ?p streamLimit)) = Inr xs"
      | "ask E 3 (StoreAggregate_Suggest (normalize X (sqQuery req)) streamLimit) = Inr xs"
      | "history_stream X E ?p req = Inr xs" | "xs = session_stream E (normalize X (sqQuery req)) req"
      unfolding set_simps insert_iff empty_iff by (metis sum.inject(2))
    then show ?thesis
    proof cases
      case 1
      show ?thesis by (rule rows_sourced [OF xs(2) 1 title_prefix_visible]) simp_all
    next
      case 2
      show ?thesis by (rule rows_sourced [OF xs(2) 2 channel_prefix_visible]) simp_all
    next
      case 3
      show ?thesis by (rule rows_sourced [OF xs(2) 3 tag_prefix_visible]) simp_all
    qed (use xs(2) in \<open>auto intro: aggregate_sourced history_sourced session_sourced\<close>)
  qed
  from cs show ?thesis
  proof
    assume "\<exists>rows. ask E 5 (SuggestTitleFuzzy P (normalize X (sqQuery req)) ?hs streamLimit) = Inr rows \<and> c \<in> set (map (title_cand X False) rows)"
    then obtain rows where "map_rows (title_cand X False) (ask E 5 (SuggestTitleFuzzy P (normalize X (sqQuery req)) ?hs streamLimit))
        = Inr (map (title_cand X False) rows)" "c \<in> set (map (title_cand X False) rows)"
      by (auto simp: map_rows_def)
    from rows_sourced [OF this(2,1) title_fuzzy_visible] show ?thesis by simp
  qed (use stream in auto)
qed

section \<open>What a reply shows\<close>

definition uuid_text_ok :: "ext \<Rightarrow> bool" where
  "uuid_text_ok X \<longleftrightarrow> ext_ok X \<and> uuid_parse X [] = None"

lemma uuid_string_not_empty: "uuid_text_ok X \<Longrightarrow> uuid_string X u \<noteq> []"
  unfolding uuid_text_ok_def using ext_ok_uuid [of X u] by auto

text \<open>A reply that is computed, not taken from the cache.\<close>

lemma computed_sourced:
  assumes "uuid_text_ok X" and "\<And>xs. mset (iter xs) = mset xs"
    and "sg \<in> set (srSuggestions (fst (Suggest X P iter E req (\<lambda>k. None))))"
  shows "(sVideoID sg \<noteq> [] \<longrightarrow> from_document X E req (sVideoID sg))
    \<and> (sVideoID sg = [] \<longrightarrow> from_aggregate X E req (sText sg) \<or> (sIsPersonal sg \<and> personal_request req))"
proof -
  let ?n = "normalize X (sqQuery req)"
  obtain cs where cs: "candidates X P E ?n req (Limit (sqLimit req) suggestDefaultLimit suggestMaxLimit) = Inr cs"
    "sg \<in> set (Blend X iter cs (Limit (sqLimit req) suggestDefaultLimit suggestMaxLimit) DefaultWeights)"
    using assms(3) by (auto simp: Suggest_def Let_def suggest_reply_def Cache_Get_def split: if_split_asm sum.split_asm option.split_asm)
  let ?g = "filter (\<lambda>c. normalize X (cText c) = normalize X (sText sg)) cs"
  have g: "sText sg \<in> cText ` set ?g" "sVideoID sg = [] \<longleftrightarrow> list_all (\<lambda>c. cVideoID c = []) ?g"
    "sVideoID sg \<noteq> [] \<longrightarrow> sVideoID sg \<in> cVideoID ` set ?g" "sIsPersonal sg \<longleftrightarrow> list_ex cIsPersonal ?g"
    using blend_keeps_video_ids [OF assms(2) cs(2)] by auto
  have src: "sourced X E req c" if "c \<in> set ?g" for c
    using candidates_sourced [OF cs(1)] that by auto
  show ?thesis
  proof (cases "sVideoID sg = []")
    case False
    then obtain c where c: "c \<in> set ?g" "sVideoID sg = cVideoID c" using g(3) by auto
    then show ?thesis using src [OF c(1)] False by (auto simp: sourced_def)
  next
    case True
    then have none: "c \<in> set ?g \<Longrightarrow> cVideoID c = []" for c using g(2) by (auto simp: list_all_iff)
    obtain c where c: "c \<in> set ?g" "sText sg = cText c" using g(1) by auto
    have "\<not> from_document X E req (cVideoID c)"
      using none [OF c(1)] uuid_string_not_empty [OF assms(1)] unfolding from_document_def by metis
    then have "from_aggregate X E req (cText c) \<or> (cIsPersonal c \<and> personal_request req)"
      using src [OF c(1)] by (auto simp: sourced_def)
    then show ?thesis using True c g(4) by (auto simp: list_ex_iff)
  qed
qed

section \<open>Replies over a history of requests\<close>

text \<open>The key of the cache says which filter and which query an entry is for: with at most three runes behind it, the
  text of the flag cannot be part of the query.\<close>

definition ascii :: "char \<Rightarrow> bool" where
  "ascii c \<longleftrightarrow> of_char c < (128 :: nat)"

lemma wide_rune:
  assumes "i < rune_width s" and "rune_width s \<noteq> 1"
  shows "\<not> ascii (s ! i)"
proof -
  have len: "rune_width s \<le> length s" using assms by (auto simp: rune_width_def Let_def split: if_split_asm)
  have nth: "j < length s \<Longrightarrow> map of_char s ! j = (of_char (s ! j) :: nat)" for j by simp
  have "i = 0 \<or> i = 1 \<or> i = 2 \<or> i = 3" using assms by (auto simp: rune_width_def Let_def split: if_split_asm)
  then show ?thesis
    using assms nth [of i] len unfolding ascii_def
    by (elim disjE) (auto simp: rune_width_def Let_def split: if_split_asm)
qed

lemma ascii_of_rune: "length (filter ascii (take (rune_width s) s)) \<le> 1"
proof (cases "rune_width s = 1")
  case True
  then show ?thesis using length_filter_le [of ascii "take 1 s"] by simp
next
  case False
  then have "filter ascii (take (rune_width s) s) = []"
    using wide_rune by (auto simp: filter_empty_conv in_set_conv_nth)
  then show ?thesis by simp
qed

lemma ascii_runes: "length (filter ascii s) \<le> rune_count s"
proof (induction s rule: rune_count.induct)
  case (2 c s)
  let ?w = "rune_width (c # s)"
  have "length (filter ascii (c # s)) = length (filter ascii (take ?w (c # s))) + length (filter ascii (drop ?w (c # s)))"
    by (metis append_take_drop_id filter_append length_append)
  then show ?case using 2 ascii_of_rune [of "c # s"] by simp
qed simp

definition flag :: "suggest_request \<Rightarrow> string" where
  "flag req = (if sqHideSensitive req then ''true'' else ''false'')"

lemma flag_tail: "rev (u @ '':'' @ flag req @ '':'') = rev z @ CHR '':'' # v \<Longrightarrow> z = [] \<or> 4 \<le> length (filter ascii z)"
proof -
  assume e: "rev (u @ '':'' @ flag req @ '':'') = rev z @ CHR '':'' # v"
  have "rev z = [] \<or> 4 \<le> length (filter ascii (rev z))"
    using e by (cases "rev z"; cases "tl (rev z)"; cases "tl (tl (rev z))"; cases "tl (tl (tl (rev z)))")
      (auto simp: flag_def ascii_def split: if_split_asm)
  then show ?thesis by (simp add: rev_filter [symmetric])
qed

lemma flagged_same:
  assumes "u @ '':'' @ flag req @ '':'' @ n = u' @ '':'' @ flag req' @ '':'' @ n'"
    and "rune_count n \<le> 3" and "rune_count n' \<le> 3"
  shows "n = n' \<and> sqHideSensitive req = sqHideSensitive req'"
proof -
  have ext: "n = n'" if k: "u @ '':'' @ flag req @ '':'' @ n = u' @ '':'' @ flag req' @ '':'' @ n'"
    and r: "rune_count n' \<le> 3" and l: "length n \<le> length n'" for n n' u u' req req'
  proof -
    obtain z where z: "n' = z @ n" "u @ '':'' @ flag req @ '':'' = u' @ '':'' @ flag req' @ '':'' @ z"
      using k l append_eq_append_conv2 [of "u @ '':'' @ flag req @ '':''" n "u' @ '':'' @ flag req' @ '':''" n'] by auto
    have "rev (u @ '':'' @ flag req @ '':'') = rev z @ CHR '':'' # rev (u' @ '':'' @ flag req')"
      unfolding z(2) by simp
    from flag_tail [OF this] show ?thesis using ascii_runes [of n'] r z(1) by auto
  qed
  have n: "n = n'"
  proof (cases "length n \<le> length n'")
    case True
    then show ?thesis using ext [OF assms(1,3)] by blast
  next
    case False
    then show ?thesis using ext [OF assms(1) [symmetric] assms(2)] by simp
  qed
  with assms(1) have "u @ '':'' @ flag req = u' @ '':'' @ flag req'" by simp
  from arg_cong [OF this, of rev] have "sqHideSensitive req = sqHideSensitive req'" by (auto simp: flag_def split: if_split_asm)
  with n show ?thesis by blast
qed

lemma one_key:
  assumes "suggest_key req n = suggest_key req' n'" and "cacheable E req n" and "cacheable E' req' n'"
  shows "n = n' \<and> sqHideSensitive req = sqHideSensitive req'"
proof (rule flagged_same)
  show "(''sugg:'' @ sqFence req @ '':'' @ (if sqMode req = [] then ''simple'' else sqMode req)) @ '':'' @ flag req @ '':'' @ n
    = (''sugg:'' @ sqFence req' @ '':'' @ (if sqMode req' = [] then ''simple'' else sqMode req')) @ '':'' @ flag req' @ '':'' @ n'"
    using assms(1) by (simp add: suggest_key_def flag_def)
qed (use assms(2,3) in \<open>simp_all add: cacheable_def cachePrefixMax_def\<close>)

text \<open>A request that was served: the order of its maps, what it met and what it asked.\<close>

type_synonym visit = "((string \<times> scored_candidate) list \<Rightarrow> (string \<times> scored_candidate) list) \<times> suggest_env \<times> suggest_request"

definition cache_after :: "ext \<Rightarrow> pg \<Rightarrow> visit list \<Rightarrow> suggest_cache" where
  "cache_after X P past = fold (\<lambda>(iter, E, req) c. snd (Suggest X P iter E req c)) past (\<lambda>k. None)"

text \<open>Every entry was computed for a request with its key, and lives as long as the code says.\<close>

lemma entry_origin:
  assumes "cache_after X P past k = Some (xs, e)"
  shows "\<exists>iter E req. (iter, E, req) \<in> set past \<and> cacheable E req (normalize X (sqQuery req))
    \<and> k = suggest_key req (normalize X (sqQuery req)) \<and> e = en_t E + cacheTTL
    \<and> xs = srSuggestions (fst (Suggest X P iter E req (\<lambda>k. None)))"
  using assms
proof (induction past rule: rev_induct)
  case (snoc v past)
  obtain iter E req where v: "v = (iter, E, req)" by (metis prod.exhaust)
  have after: "cache_after X P (past @ [v]) = snd (Suggest X P iter E req (cache_after X P past))"
    by (simp add: cache_after_def v)
  show ?case
  proof (cases "cache_after X P past k = Some (xs, e)")
    case True
    with snoc.IH show ?thesis by fastforce
  next
    case False
    then have "cacheable E req (normalize X (sqQuery req)) \<and> k = suggest_key req (normalize X (sqQuery req))
        \<and> e = en_t E + cacheTTL \<and> xs = srSuggestions (fst (Suggest X P iter E req (\<lambda>k. None)))"
      using snoc.prems unfolding after
      by (auto simp: Suggest_def Let_def Cache_Set_def Cache_Get_def suggest_reply_def split: if_split_asm option.split_asm sum.split_asm)
    then show ?thesis unfolding v by fastforce
  qed
qed (simp add: cache_after_def)

text \<open>C12. Everything a reply shows has a source that may be shown. After any requests that shared the cache, a suggestion with
  a video id carries the id of a document that was eligible - and not sensitive, when the request hides those - in a
  database read by the request itself or, when the reply came out of the cache, by an earlier request with the same cache
  key whose entry is less than its life time, a minute, old; a suggestion without one is the text of an aggregate that
  was suggestible there, not banned, and begins with the prefix, or it is personal and the request asked for its own history.\<close>

theorem suggestions_sourced:
  assumes "uuid_text_ok X" and "\<forall>v \<in> set (past @ [(iter, E, req)]). \<forall>xs. mset (fst v xs) = mset xs"
    and "sg \<in> set (srSuggestions (fst (Suggest X P iter E req (cache_after X P past))))"
  shows "\<exists>E'. (E' = E \<or> (\<exists>iter' req'. (iter', E', req') \<in> set past \<and> en_t E < en_t E' + cacheTTL
        \<and> suggest_key req' (normalize X (sqQuery req')) = suggest_key req (normalize X (sqQuery req))))
    \<and> (sVideoID sg \<noteq> [] \<longrightarrow> from_document X E' req (sVideoID sg))
    \<and> (sVideoID sg = [] \<longrightarrow> from_aggregate X E' req (sText sg) \<or> (sIsPersonal sg \<and> personal_request req))"
proof -
  let ?n = "normalize X (sqQuery req)" and ?c = "cache_after X P past"
  show ?thesis
  proof (cases "?n \<noteq> [] \<and> cacheable E req ?n \<and> Cache_Get E (suggest_key req ?n) ?c \<noteq> None")
    case True
    then obtain xs e where hit: "?c (suggest_key req ?n) = Some (xs, e)" "en_t E < e" "cacheable E req ?n" "?n \<noteq> []" "en_get E"
      by (auto simp: Cache_Get_def split: option.split_asm if_split_asm)
    then have sg: "sg \<in> set xs" using assms(3) by (simp add: Suggest_def Let_def Cache_Get_def suggest_reply_def)
    obtain iter' E' req' where o: "(iter', E', req') \<in> set past" "cacheable E' req' (normalize X (sqQuery req'))"
      "suggest_key req ?n = suggest_key req' (normalize X (sqQuery req'))" "e = en_t E' + cacheTTL"
      "xs = srSuggestions (fst (Suggest X P iter' E' req' (\<lambda>k. None)))"
      using entry_origin [OF hit(1)] by blast
    have same: "normalize X (sqQuery req') = ?n" "sqHideSensitive req' = sqHideSensitive req"
      using one_key [OF o(3) hit(3) o(2)] by simp_all
    have "mset (iter' ys) = mset ys" for ys using assms(2) o(1) by force
    from computed_sourced [OF assms(1) this] sg o(2,5)
    have "(sVideoID sg \<noteq> [] \<longrightarrow> from_document X E' req' (sVideoID sg)) \<and> (sVideoID sg = [] \<longrightarrow> from_aggregate X E' req' (sText sg))"
      by (auto simp: cacheable_def)
    then have "(sVideoID sg \<noteq> [] \<longrightarrow> from_document X E' req (sVideoID sg)) \<and> (sVideoID sg = [] \<longrightarrow> from_aggregate X E' req (sText sg))"
      by (simp add: from_document_def from_aggregate_def same)
    moreover have "\<exists>iter' req'. (iter', E', req') \<in> set past \<and> en_t E < en_t E' + cacheTTL
        \<and> suggest_key req' (normalize X (sqQuery req')) = suggest_key req ?n"
      using o(1,3,4) hit(2) by metis
    ultimately show ?thesis by blast
  next
    case False
    then have "srSuggestions (fst (Suggest X P iter E req ?c)) = srSuggestions (fst (Suggest X P iter E req (\<lambda>k. None)))"
      by (auto simp: Suggest_def Let_def Cache_Get_def suggest_reply_def split: option.split sum.split)
    then have "sg \<in> set (srSuggestions (fst (Suggest X P iter E req (\<lambda>k. None))))" using assms(3) by simp
    moreover have "mset (iter ys) = mset ys" for ys using assms(2) by simp
    ultimately show ?thesis using computed_sourced [OF assms(1)] by blast
  qed
qed

section \<open>The shared cache\<close>

definition anonymous :: "suggest_request \<Rightarrow> suggest_request" where
  "anonymous req = req\<lparr> sqIncludeHistory := False, sqUserID := [], sqSessionID := [] \<rparr>"

definition impersonal :: "suggest_cache \<Rightarrow> bool" where
  "impersonal c \<longleftrightarrow> (\<forall>k xs e. c k = Some (xs, e) \<longrightarrow> list_all (\<lambda>sg. \<not> sIsPersonal sg) xs)"

lemma anonymous_simps [simp]:
  "sqQuery (anonymous req) = sqQuery req" "sqLimit (anonymous req) = sqLimit req"
  "sqHideSensitive (anonymous req) = sqHideSensitive req" "suggest_key (anonymous req) = suggest_key req"
  "\<not> personal_request (anonymous req)" "\<not> sqIncludeHistory (anonymous req)"
  "suggest_reply (anonymous req) = suggest_reply req"
  by (simp_all add: anonymous_def suggest_key_def personal_request_def suggest_reply_def fun_eq_iff)

lemma streams_anonymous:
  assumes "\<not> personal_request req"
  shows "history_stream X E pat req = Inr []" "session_stream E n req = []"
    "history_stream X E pat (anonymous req) = Inr []" "session_stream E n (anonymous req) = []"
  using assms by (auto simp: history_stream_def session_stream_def personal_request_def)

lemma candidates_anonymous: "\<not> personal_request req \<Longrightarrow> candidates X P E n (anonymous req) lmt = candidates X P E n req lmt"
  by (simp add: candidates_def Let_def streams_anonymous)

lemma Suggest_anonymous: "\<not> personal_request req \<Longrightarrow> Suggest X P iter E (anonymous req) c = Suggest X P iter E req c"
  by (simp add: Suggest_def Let_def candidates_anonymous cacheable_def split: option.split sum.split)

lemma Suggest_personal: "personal_request req \<Longrightarrow> Suggest X P iter E req c = (fst (Suggest X P iter E req c'), c)"
  by (simp add: Suggest_def Let_def cacheable_def split: option.split sum.split)

lemma candidates_impersonal:
  assumes "\<not> personal_request req" and "candidates X P E (normalize X (sqQuery req)) req lmt = Inr cs"
  shows "list_all (\<lambda>c. \<not> cIsPersonal c) cs"
  using candidates_sourced [OF assms(2)] assms(1) by (auto simp: list_all_iff sourced_def)

text \<open>C13. The shared cache never carries one person's history to another. A request that asks for its own history
  is answered as if there were no cache and leaves the cache alone; any other request is answered, and fills
  the cache, as if it named no user and no session; and a cache without personal suggestions stays so.\<close>

theorem shared_cache_impersonal:
  assumes "\<And>xs. mset (iter xs) = mset xs"
  shows "(if personal_request req
      then Suggest X P iter E req c = (fst (Suggest X P iter E req (\<lambda>k. None)), c)
      else Suggest X P iter E req c = Suggest X P iter E (anonymous req) c)
    \<and> (impersonal c \<longrightarrow> impersonal (snd (Suggest X P iter E req c)))"
proof
  show "if personal_request req then Suggest X P iter E req c = (fst (Suggest X P iter E req (\<lambda>k. None)), c)
      else Suggest X P iter E req c = Suggest X P iter E (anonymous req) c"
    using Suggest_personal [of req X P iter E c "\<lambda>k. None"] Suggest_anonymous [of req X P iter E c] by simp
  show "impersonal c \<longrightarrow> impersonal (snd (Suggest X P iter E req c))"
  proof (cases "personal_request req")
    case True
    then show ?thesis using Suggest_personal [OF True, of X P iter E c] by (metis snd_conv)
  next
    case False
    let ?lmt = "Limit (sqLimit req) suggestDefaultLimit suggestMaxLimit"
    have "list_all (\<lambda>sg. \<not> sIsPersonal sg) (Blend X iter cs ?lmt DefaultWeights)"
      if "candidates X P E (normalize X (sqQuery req)) req ?lmt = Inr cs" for cs
      using candidates_impersonal [OF False that] blend_keeps_video_ids [of iter _ X cs ?lmt DefaultWeights] assms
      by (fastforce simp: list_all_iff list_ex_iff)
    then show ?thesis
      by (auto simp: Suggest_def Let_def impersonal_def Cache_Set_def split: option.split sum.split if_split_asm)
  qed
qed

text \<open>The cache forgets the limit. Its key names the catalogue, the mode, the sensitivity filter and the
  prefix, but not the limit: for a minute every request of that key is answered with the list that was
  computed for the first one's limit, however long or short a list it asks for.\<close>

theorem cached_reply_ignores_limit:
  assumes "Suggest X P iter E req c = (reply, c')" and "cacheable E req (normalize X (sqQuery req))"
    and "normalize X (sqQuery req) \<noteq> []" and "en_set E"
    and "Cache_Get E (suggest_key req (normalize X (sqQuery req))) c = None"
    and "candidates X P E (normalize X (sqQuery req)) req (Limit (sqLimit req) suggestDefaultLimit suggestMaxLimit) = Inr cs"
    and "en_wired E'" and "en_get E'" and "en_t E' < en_t E + cacheTTL"
  shows "srSuggestions (fst (Suggest X P iter E' (req\<lparr> sqLimit := anyLimit \<rparr>) c')) = srSuggestions reply"
proof -
  have key: "suggest_key (req\<lparr> sqLimit := anyLimit \<rparr>) = suggest_key req" "cacheable E' (req\<lparr> sqLimit := anyLimit \<rparr>) = cacheable E' req"
    by (simp_all add: suggest_key_def cacheable_def personal_request_def fun_eq_iff)
  have "cacheable E' req (normalize X (sqQuery req))" using assms(2,7) by (simp add: cacheable_def)
  then show ?thesis
    using assms by (auto simp: Suggest_def Let_def key suggest_reply_def Cache_Set_def Cache_Get_def)
qed

section \<open>Two titles\<close>

definition two_titles :: db where
  "two_titles = empty_db\<lparr> documents := [titled 1 ''cab'', titled 2 ''cat''] \<rparr>"

definition calm_env :: "db \<Rightarrow> suggest_env" where
  "calm_env s = \<lparr> en_t = 0, en_wired = True, en_get = True, en_session = True, en_trend = True, en_set = True,
     en_redis = empty_redis, en_dbs = (\<lambda>i. Some s) \<rparr>"

lemma calm_simps: "en_t (calm_env s) = 0" "en_wired (calm_env s)" "en_get (calm_env s)" "en_set (calm_env s)"
  by (simp_all add: calm_env_def)

definition ca_request :: "int \<Rightarrow> suggest_request" where
  "ca_request lmt = \<lparr> sqFence = [], sqQuery = ''ca'', sqLimit = lmt, sqHideSensitive = False, sqPersonalized = False,
     sqIncludeHistory = False, sqLang = [], sqUserID = [], sqSessionID = [], sqMode = [] \<rparr>"

lemma ca_normal: "normalize sample_ext ''ca'' = ''ca''"
  by code_simp

definition ca_reply :: "suggest_response \<times> suggest_cache" where
  "ca_reply = Suggest sample_ext sample_pg id (calm_env two_titles) (ca_request 20) (\<lambda>k. None)"

lemma ca_reply_titles: "map (\<lambda>sg. (sText sg, sVideoID sg)) (srSuggestions (fst ca_reply)) = [(''cab'', ''1''), (''cat'', ''2'')]"
  by code_simp

lemma uuid_text_ok_sample: "uuid_text_ok sample_ext"
proof -
  have "uuid_parse sample_ext [] = None" by code_simp
  then show ?thesis by (simp add: uuid_text_ok_def ext_ok_sample)
qed

text \<open>A second request is answered from the cache, although its database is empty by then.\<close>

definition later_env :: suggest_env where
  "later_env = (calm_env empty_db)\<lparr> en_t := 30 * nanos \<rparr>"

definition later_reply :: suggest_response where
  "later_reply = fst (Suggest sample_ext sample_pg id later_env (ca_request 20)
     (cache_after sample_ext sample_pg [(id, calm_env two_titles, ca_request 20)]))"

lemma later_titles: "map (\<lambda>sg. (sText sg, sVideoID sg)) (srSuggestions later_reply) = [(''cab'', ''1''), (''cat'', ''2'')]"
  by code_simp

lemma suggestions_sourced_witness:
  "map sVideoID (srSuggestions later_reply) = [''1'', ''2'']
   \<and> list_all (from_document sample_ext (calm_env two_titles) (ca_request 20)) (map sVideoID (srSuggestions later_reply))"
proof -
  let ?past = "[(id, calm_env two_titles, ca_request 20)]"
  have ids: "map sVideoID (srSuggestions later_reply) = [''1'', ''2'']"
    using arg_cong [OF later_titles, of "map snd"] by (simp add: comp_def)
  have "from_document sample_ext (calm_env two_titles) (ca_request 20) (sVideoID sg)"
    if sg: "sg \<in> set (srSuggestions later_reply)" for sg
  proof -
    have "sVideoID sg \<in> {''1'', ''2''}" using ids imageI [OF sg, of sVideoID] by (metis list.set_map list.simps(15) empty_set)
    then have "sVideoID sg \<noteq> []" by auto
    moreover have "\<not> from_document sample_ext later_env (ca_request 20) v" for v
      by (simp add: from_document_def later_env_def calm_env_def empty_db_def)
    ultimately show ?thesis
      using suggestions_sourced [OF uuid_text_ok_sample, of ?past id later_env "ca_request 20" sg sample_pg] sg
      by (auto simp: later_reply_def)
  qed
  then have "list_all (from_document sample_ext (calm_env two_titles) (ca_request 20)) (map sVideoID (srSuggestions later_reply))"
    by (simp add: list_all_iff)
  then show ?thesis using ids by blast
qed

lemma shared_cache_impersonal_witness: "impersonal (snd ca_reply)"
  using shared_cache_impersonal [where iter = id and X = sample_ext and P = sample_pg and E = "calm_env two_titles"
      and req = "ca_request 20" and c = "\<lambda>k. None"]
  by (simp add: ca_reply_def impersonal_def [of "\<lambda>k. None"])

lemma cached_reply_ignores_limit_witness:
  "length (srSuggestions (fst (Suggest sample_ext sample_pg id (calm_env two_titles) (ca_request 1) (snd ca_reply)))) = 2"
proof -
  have n: "normalize sample_ext (sqQuery (ca_request 20)) = ''ca''" using ca_normal by (simp add: ca_request_def)
  have "case candidates sample_ext sample_pg (calm_env two_titles) ''ca'' (ca_request 20) 20 of Inl e \<Rightarrow> False | Inr cs \<Rightarrow> True"
    by code_simp
  then obtain cs where cs: "candidates sample_ext sample_pg (calm_env two_titles) ''ca'' (ca_request 20) 20 = Inr cs"
    by (auto split: sum.split_asm)
  have "Limit (sqLimit (ca_request 20)) suggestDefaultLimit suggestMaxLimit = 20"
    by (simp add: ca_request_def Limit_def suggestDefaultLimit_def suggestMaxLimit_def)
  moreover have "cacheable (calm_env two_titles) (ca_request 20) ''ca''" by code_simp
  ultimately have "srSuggestions (fst (Suggest sample_ext sample_pg id (calm_env two_titles) (ca_request 20\<lparr> sqLimit := 1 \<rparr>) (snd ca_reply)))
      = srSuggestions (fst ca_reply)"
    by (intro cached_reply_ignores_limit [where E = "calm_env two_titles" and cs = cs and c = "\<lambda>k. None"])
      (simp_all add: ca_reply_def n cs calm_simps Cache_Get_def cacheTTL_def nanos_def)
  moreover have "length (srSuggestions (fst ca_reply)) = 2" using arg_cong [OF ca_reply_titles, of length] by simp
  ultimately show ?thesis by (simp add: ca_request_def)
qed

end
