(* ===== verification/System.thy ===== *)
theory System
  imports CatalogHttp EventProps Moderation Privacy Engagement Sessionizer Covis Suggest
begin

text \<open>
  The service as one machine over its database: every operation of the API and every job of the worker that writes
  to it, in any order. Each acts at once here, as its transaction does; \<open>ReevaluateSuggestible\<close> and the retention job, which
  commit more than once, act from one instant too. Each carries the outcomes of what it asks of the
  network and the clock.
\<close>

section \<open>Operations\<close>

datatype operation =
    Op_events event_config "bool \<times> bool" int "nat \<Rightarrow> int" "envelope list"
  | Op_epoch bool "body option"
  | Op_catalog "bool \<times> bool" int "nat \<Rightarrow> int" "body option"
  | Op_prune int
  | Op_ban bool int string
  | Op_unban bool string
  | Op_clear "bool \<times> bool" bool bool uuid redis
  | Op_purge "bool \<times> bool" bool bool uuid redis
  | Op_forget "bool \<times> bool" uuid string
  | Op_rollup worker_config bool "bool \<times> bool" int int
  | Op_reeval worker_config bool int
  | Op_retention worker_config bool nat "nat \<Rightarrow> int"
  | Op_engagement worker_config bool "bool \<times> bool" int
  | Op_sessionize worker_config "bool \<times> bool" int int int
  | Op_covis worker_config bool "bool \<times> bool"

fun perform :: "ext \<Rightarrow> (json \<Rightarrow> int) \<Rightarrow> operation \<Rightarrow> db \<Rightarrow> db" where
  "perform X rl (Op_events cfg tx now wall evs) s = snd (Ingest X cfg tx now wall evs s)"
| "perform X rl (Op_epoch st b) s = snd (handleCatalogEpoch X st b s)"
| "perform X rl (Op_catalog tx now clk b) s = snd (handleCatalogEvents X rl tx now clk b s)"
| "perform X rl (Op_prune clk) s = snd (PruneCatalogSnapshots clk s)"
| "perform X rl (Op_ban up now q) s = snd (Ban X up now q s)"
| "perform X rl (Op_unban up q) s = snd (Unban X up q s)"
| "perform X rl (Op_clear tx hr up u m) s = fst (snd (ClearAll X tx hr up u (s, m)))"
| "perform X rl (Op_purge tx hr up u m) s = fst (snd (PurgeUser X tx hr up u (s, m)))"
| "perform X rl (Op_forget tx u q) s = snd (DeleteEntry X tx u q s)"
| "perform X rl (Op_rollup cfg rd tx wall now) s = snd (aggregatesRollup cfg rd tx wall now s)"
| "perform X rl (Op_reeval cfg rd wall) s = snd (suggestibleReeval cfg rd wall s)"
| "perform X rl (Op_retention cfg rd n clk) s = snd (retention cfg rd n clk s)"
| "perform X rl (Op_engagement cfg rd tx now) s = snd (engagementRollup X cfg rd tx now s)"
| "perform X rl (Op_sessionize cfg tx now wall wall') s = snd (sessionizer X cfg tx now wall wall' s)"
| "perform X rl (Op_covis cfg rd tx) s = snd (covisRollup cfg rd tx s)"

definition perform_all :: "ext \<Rightarrow> (json \<Rightarrow> int) \<Rightarrow> operation list \<Rightarrow> db \<Rightarrow> db" where
  "perform_all X rl ops s = fold (perform X rl) ops s"

section \<open>What holds of the database\<close>

text \<open>A banned query is not suggestible.\<close>

definition bans_ok :: "db \<Rightarrow> bool" where
  "bans_ok s \<longleftrightarrow> (\<forall>a \<in> set (query_aggregates s). qa_banned a \<longrightarrow> \<not> qa_suggestible a)"

definition system_ok :: "ext \<Rightarrow> db \<Rightarrow> bool" where
  "system_ok X s \<longleftrightarrow> keys_ok s \<and> visible_ok s \<and> bans_ok s \<and> receiver_ok X s"

definition banned :: "string \<Rightarrow> db \<Rightarrow> bool" where
  "banned q s = is_banned (query_aggregates s) q"

section \<open>Frames\<close>

lemma receiver_same:
  assumes "same_catalog s s'"
  shows "receiver_ok X s' = receiver_ok X s"
proof -
  have "epochs_of s' = epochs_of s" "authority s' = authority s" "catalog_inv X s' = catalog_inv X s"
    using assms catalog_inv_cong [of s' s X] by (simp_all add: same_catalog_def epochs_of_def authority_def scope_of_def)
  then show ?thesis unfolding receiver_ok_def history_ok_def by (simp only:)
qed

text \<open>The database without documents and catalog tables.\<close>

definition rest :: "db \<Rightarrow> db" where
  "rest s = s\<lparr> documents := [], catalog_epochs := [], catalog_scopes := [], catalog_snapshots := [], catalog_pages := [] \<rparr>"

lemma rest_simps [simp]:
  "rest (s\<lparr> documents := x \<rparr>) = rest s" "rest (s\<lparr> catalog_epochs := e \<rparr>) = rest s" "rest (s\<lparr> catalog_scopes := c \<rparr>) = rest s"
  "rest (s\<lparr> catalog_snapshots := n \<rparr>) = rest s" "rest (s\<lparr> catalog_pages := p \<rparr>) = rest s" "rest (delete_snapshots P s) = rest s"
  by (simp_all add: rest_def delete_snapshots_def Let_def)

lemma rest_tables:
  assumes "rest s' = rest s"
  shows "query_aggregates s' = query_aggregates s" "keys_ok s' \<longleftrightarrow> distinct (map d_video_id (documents s')) \<and> keys_ok (s\<lparr> documents := [] \<rparr>)"
proof -
  have "query_aggregates (rest s') = query_aggregates (rest s)" "events_inbox (rest s') = events_inbox (rest s)"
    "service_config (rest s') = service_config (rest s)" "query_log (rest s') = query_log (rest s)"
    "user_search_history (rest s') = user_search_history (rest s)" "user_watch_projection (rest s') = user_watch_projection (rest s)"
    "behavior_events (rest s') = behavior_events (rest s)" using assms by simp_all
  then show "query_aggregates s' = query_aggregates s" "keys_ok s' \<longleftrightarrow> distinct (map d_video_id (documents s')) \<and> keys_ok (s\<lparr> documents := [] \<rparr>)"
    by (simp_all add: rest_def keys_ok_def)
qed

lemma keys_documents_split: "keys_ok s \<longleftrightarrow> distinct (map d_video_id (documents s)) \<and> keys_ok (s\<lparr> documents := [] \<rparr>)"
  by (auto simp: keys_ok_def)

section \<open>The catalog operations\<close>

definition doc_ok :: "db \<Rightarrow> bool" where
  "doc_ok s \<longleftrightarrow> distinct (map d_video_id (documents s)) \<and> visible_ok s"

definition catalog_like :: "db \<Rightarrow> db \<Rightarrow> bool" where
  "catalog_like s s' \<longleftrightarrow> rest s' = rest s \<and> (doc_ok s \<longrightarrow> doc_ok s')"

lemma catalog_like_refl: "catalog_like s s"
  by (simp add: catalog_like_def)

lemma catalog_like_trans: "catalog_like s t \<Longrightarrow> catalog_like t u \<Longrightarrow> catalog_like s u"
  by (simp add: catalog_like_def)

lemma catalog_like_frame: "rest s' = rest s \<Longrightarrow> documents s' = documents s \<Longrightarrow> catalog_like s s'"
  by (simp add: catalog_like_def doc_ok_def visible_ok_def)

lemma SetCatalogEpoch_like: "SetCatalogEpoch s sc e x = Inr s' \<Longrightarrow> catalog_like s s'"
  by (rule catalog_like_frame)
    (auto simp: SetCatalogEpoch_def reset_epoch_def Let_def split: if_split_asm option.split_asm)

lemma Admit_like: "AdmitCatalogGeneration now clk s v = Inr s' \<Longrightarrow> catalog_like s s'"
  by (rule catalog_like_frame)
    (auto simp: AdmitCatalogGeneration_def Let_def split: if_split_asm option.split_asm sum.split_asm)

lemma insert_page_like: "insert_page X s v page canonical stored ids = Inr s' \<Longrightarrow> catalog_like s s'"
  by (rule catalog_like_frame) (auto simp: insert_page_def Let_def split: if_split_asm option.split_asm)

lemma project_visible: "visible_doc old \<Longrightarrow> visible_doc (project_row now r old)"
  by (simp add: visible_doc_def project_row_def refresh_row_def)

lemma project_all_visible:
  "\<forall>r \<in> set rows. visible_doc r \<Longrightarrow> \<forall>d \<in> set docs. visible_doc d \<Longrightarrow> \<forall>d \<in> set (project_all now rows docs). visible_doc d"
proof (induction rows arbitrary: docs)
  case (Cons r rows)
  have "visible_doc d" if "d \<in> insert r (set docs \<union> project_row now r ` set docs)" for d
    using that Cons.prems project_visible by auto
  then have "\<forall>d \<in> set (sql_upsert d_video_id r (project_row now r) docs). visible_doc d"
    using set_sql_upsert [of d_video_id r "project_row now r" docs] by blast
  from Cons.IH [OF _ this] Cons.prems(1) show ?case by simp
qed simp

lemma incoming_visible: "incoming_row X now d = Some r \<Longrightarrow> visible_doc r"
  by (auto simp: incoming_row_def Let_def visible_doc_def split: option.split_asm)

lemma Complete_like:
  assumes "CompleteCatalogSnapshot X now clk s v = Inr (b, s')"
  shows "catalog_like s s'"
proof (cases b)
  case False
  then show ?thesis using CompleteCatalogSnapshot_False [of X now clk s v s'] assms catalog_like_refl by simp
next
  case True
  with assms have "CompleteCatalogSnapshot X now clk s v = Inr (True, s')" by simp
  then show ?thesis
  proof (rule CompleteCatalogSnapshot_True)
    fix m ids rows
    assume rows: "map (incoming_row X now) (concat (map (elements \<circ> pr_documents) (pages_at s v))) = map Some rows"
      and a: "activate now s v m rows = Inr s'"
    have vis: "\<forall>r \<in> set rows. visible_doc r"
    proof
      fix r assume "r \<in> set rows"
      then have "Some r \<in> set (map (incoming_row X now) (concat (map (elements \<circ> pr_documents) (pages_at s v))))"
        unfolding rows by simp
      then show "visible_doc r" by (auto simp del: set_concat dest!: sym [of "Some r"] intro: incoming_visible)
    qed
    have "rest s' = rest s" unfolding activate_Inr [OF a] by simp
    moreover have "doc_ok s'" if ok: "doc_ok s"
    proof -
      have "\<forall>d \<in> set (documents s'). visible_doc d"
        using project_all_visible [OF vis, of "documents s" now] ok unfolding activate_Inr [OF a]
        by (auto simp: doc_ok_def visible_ok_def set_sql_update visible_doc_def orphan_row_def)
      moreover have "distinct (map d_video_id (documents s'))"
        using ok unfolding activate_Inr [OF a] by (simp add: doc_ok_def keys_sql_update distinct_project_all)
      ultimately show ?thesis by (simp add: doc_ok_def visible_ok_def)
    qed
    ultimately show ?thesis by (simp add: catalog_like_def)
  qed
qed

lemma stage_like:
  assumes "stage_event X now clk s ev = Inr (v, s')"
  shows "catalog_like s s'"
  using assms
proof (cases rule: stage_event_cases)
  case (page docs)
  show ?thesis
    using page(4) by (cases rule: StageCatalogPage_cases) (blast intro: Admit_like insert_page_like catalog_like_trans)+
next
  case (ending m)
  from ending(4) show ?thesis
  proof (cases rule: StageCatalogEnd_cases)
    case (completed c)
    then show ?thesis by (simp add: catalog_like_refl)
  next
    case (again n)
    then show ?thesis by (blast intro: Admit_like)
  next
    case (fresh s1 n)
    have "catalog_like s1 s'" by (rule catalog_like_frame) (simp_all add: fresh(10))
    then show ?thesis using Admit_like [OF fresh(1)] catalog_like_trans by blast
  qed
qed

lemma catalog_one_like: "catalog_like s (snd (catalog_one X now clk i ev s))"
proof (cases "applyCatalogOne X now (clk i) ev s")
  case (Inl e)
  then show ?thesis by (simp add: catalog_one_def catalog_like_refl)
next
  case (Inr s')
  obtain v s1 b where "stage_event X now (clk i) s ev = Inr (v, s1)" "CompleteCatalogSnapshot X now (clk i) s1 v = Inr (b, s')"
    using Inr by (auto simp: applyCatalogOne_def split: if_split_asm sum.split_asm)
  then show ?thesis using stage_like Complete_like catalog_like_trans Inr by (fastforce simp: catalog_one_def)
qed

lemma catalog_loop_like: "catalog_like s (snd (catalog_loop X now clk i evs s))"
proof (induction evs arbitrary: i s)
  case (Cons ev evs)
  then show ?case using catalog_one_like catalog_like_trans by (simp add: Let_def split_beta) blast
qed (simp add: catalog_like_refl)

lemma catalog_step_like: "catalog_step X s s' \<Longrightarrow> catalog_like s s'"
proof (erule catalog_stepE)
  fix tx now clk evs res assume "IngestCatalog X tx now clk evs s = (res, s')"
  then have "s' = s \<or> s' = snd (catalog_loop X now clk 0 evs s)"
    by (auto simp: IngestCatalog_def Let_def split_beta split: if_split_asm)
  then show "catalog_like s s'" using catalog_loop_like catalog_like_refl by auto
next
  fix clk n assume "PruneCatalogSnapshots clk s = (n, s')"
  then show "catalog_like s s'" by (intro catalog_like_frame) (auto simp: PruneCatalogSnapshots_def Let_def)
qed (rule SetCatalogEpoch_like)

lemma catalog_run_like: "catalog_run X s s' \<Longrightarrow> catalog_like s s'"
  by (induction rule: rtranclp_induct) (blast intro: catalog_like_refl catalog_like_trans catalog_step_like)+

lemma catalog_ok:
  assumes X: "ext_ok X" and run: "catalog_run X s s'" and ok: "system_ok X s"
  shows "system_ok X s' \<and> query_aggregates s' = query_aggregates s"
proof -
  note like = catalog_run_like [OF run, unfolded catalog_like_def]
  have "doc_ok s" using ok keys_documents_split [of s] by (simp add: system_ok_def doc_ok_def)
  then have d: "doc_ok s'" "rest s' = rest s" using like by simp_all
  have "keys_ok s'" using d rest_tables(2) [OF d(2)] ok keys_documents_split [of s] by (simp add: system_ok_def doc_ok_def)
  moreover have q: "query_aggregates s' = query_aggregates s" by (rule rest_tables(1) [OF d(2)])
  moreover have "receiver_ok X s'" using catalog_run_moves [OF X run] ok by (simp add: system_ok_def)
  ultimately show ?thesis using ok d(1) by (simp add: system_ok_def doc_ok_def bans_ok_def)
qed

section \<open>The events\<close>

interpretation aggregates_untouched: free_relation "\<lambda>s s'. query_aggregates s' = query_aggregates s"
  by unfold_locales
    (auto simp: statements Let_def split: if_split_asm option.split_asm prod.split_asm)

lemma events_ok: "system_ok X s \<Longrightarrow> system_ok X (snd (Ingest X cfg tx now wall evs s))
    \<and> query_aggregates (snd (Ingest X cfg tx now wall evs s)) = query_aggregates s"
  using keys.Ingest_free [of s X cfg tx now wall evs] visible.Ingest_free [of s X cfg tx now wall evs]
    aggregates_untouched.Ingest_free [of X cfg tx now wall evs s]
    receiver_same [OF catalog_untouched.Ingest_free, of X X cfg tx now wall evs s]
  by (simp add: system_ok_def bans_ok_def)

section \<open>Bans, history and the jobs\<close>

text \<open>What the other operations touch is neither documents nor catalog tables.\<close>

definition outside :: "db \<Rightarrow> db \<Rightarrow> bool" where
  "outside s s' \<longleftrightarrow> documents s' = documents s \<and> same_catalog s s' \<and> (keys_ok s \<longrightarrow> keys_ok s')"

lemma outside_ok:
  assumes "outside s s'" and "system_ok X s" and "bans_ok s'"
  shows "system_ok X s'"
  using assms receiver_same [of s s' X] by (auto simp: outside_def system_ok_def visible_ok_def)

lemma outside_refl: "outside s s"
  by (simp add: outside_def same_catalog_def)

lemma outside_trans: "outside s t \<Longrightarrow> outside t u \<Longrightarrow> outside s u"
  by (simp add: outside_def same_catalog_def)

text \<open>A transaction keeps what its body keeps.\<close>

lemma inTx_keeps:
  assumes "R s s" and "\<And>x s'. fn s = Inr (x, s') \<Longrightarrow> R s s'"
  shows "R s (snd (inTx tx fn s))"
  using assms by (auto simp: inTx_def split: sum.split)

definition quiet :: "db \<Rightarrow> db \<Rightarrow> bool" where
  "quiet s s' \<longleftrightarrow> outside s s' \<and> query_aggregates s' = query_aggregates s"

lemma quiet_refl: "quiet s s"
  by (simp add: quiet_def outside_refl)

lemma quiet_trans: "quiet s t \<Longrightarrow> quiet t u \<Longrightarrow> quiet s u"
  using outside_trans by (auto simp: quiet_def)

lemma quiet_ok: "quiet s s' \<Longrightarrow> system_ok X s \<Longrightarrow> system_ok X s' \<and> query_aggregates s' = query_aggregates s"
  using outside_ok [of s s' X] by (auto simp: quiet_def system_ok_def bans_ok_def)

lemmas deletions = DeleteUserSearchHistory_def DeleteUserSearchHistoryEntry_def PurgeUserWatchProjection_def
  DeleteQueryLogForUser_def DeleteQueryLogForUserQuery_def DeleteBehaviorEventsForUser_def DeleteBehaviorEventsForUserQuery_def
  DeleteOldQueryLog_def DeleteOldBehaviorEvents_def PruneEventsInbox_def PruneWatchProjection_def

lemma quiet_deletions:
  "quiet s (DeleteUserSearchHistory u s)" "quiet s (PurgeUserWatchProjection u s)" "quiet s (DeleteQueryLogForUser u s)"
  "quiet s (DeleteBehaviorEventsForUser X u s)" "quiet s (DeleteQueryLogForUserQuery u q s)"
  "quiet s (DeleteBehaviorEventsForUserQuery X u q s)" "quiet s (DeleteOldQueryLog t n s)" "quiet s (DeleteOldBehaviorEvents t n s)"
  "quiet s (PruneEventsInbox t n s)" "quiet s (PruneWatchProjection t h f s)" "quiet s (DeleteUserSearchHistoryEntry u q s)"
  by (auto simp: quiet_def outside_def same_catalog_def deletions keys_ok_def intro: distinct_sql_delete map_filter_delete)

text \<open>Jobs that append derived events and move a cursor.\<close>

lemma quiet_cursor: "quiet s (SetWorkerCursor now name pos s)"
  by (simp add: quiet_def outside_def same_catalog_def SetWorkerCursor_def keys_ok_def)

lemma quiet_behavior:
  "(keys_ok s \<longrightarrow> distinct (map be_event_id evs)) \<Longrightarrow> quiet s (s\<lparr> behavior_events := evs, seq_behavior := n \<rparr>)"
  by (simp add: quiet_def outside_def same_catalog_def keys_ok_def)

lemma quiet_derived: "quiet s (InsertDerivedBehaviorEvent row s)"
  unfolding InsertDerivedBehaviorEvent_def by (rule quiet_behavior) (simp add: distinct_insert_ignore keys_okD)

lemma quiet_fold: "(\<And>x s. quiet s (f x s)) \<Longrightarrow> quiet s (fold f xs s)"
  by (induction xs arbitrary: s) (auto intro: quiet_refl quiet_trans)

lemma quiet_insert_events: "quiet s (snd (insert_events rs s))"
proof (induction rs arbitrary: s)
  case (Cons r rs)
  let ?s1 = "s\<lparr> behavior_events := fst (sql_insert_ignore be_event_id (r\<lparr> be_id := seq_behavior s \<rparr>) (behavior_events s)),
     seq_behavior := seq_behavior s + 1 \<rparr>"
  have "quiet s ?s1" by (rule quiet_behavior) (simp add: distinct_insert_ignore keys_okD)
  then show ?case using Cons quiet_trans by (simp add: Let_def)
qed (simp add: quiet_refl)

lemma quiet_counters: "quiet s (s\<lparr> query_video_engagement := x \<rparr>)" "quiet s (s\<lparr> item_neighbors := y \<rparr>)"
  by (simp_all add: quiet_def outside_def same_catalog_def keys_ok_def)

lemma quiet_project: "quiet s (project_watch cfg now mw s)"
  by (auto simp: project_watch_def quiet_refl quiet_def outside_def same_catalog_def UpsertWatchProjection_def
      intro!: keys_projection distinct_sql_upsert keys_okD simp: wp_key_def split: option.split)

lemma quiet_clear: "quiet s (fst (snd (delete_then_drop w X tx hr up u (s, m))))"
proof -
  have "quiet s (snd (deleteSearchFootprint X tx u w s))"
    unfolding deleteSearchFootprint_def
    by (rule inTx_keeps [OF quiet_refl]) (auto simp: Let_def intro!: quiet_trans [OF _ quiet_deletions(4)] quiet_trans [OF _ quiet_deletions(3)]
        quiet_trans [OF _ quiet_deletions(2)] quiet_deletions(1) split: if_split_asm)
  then show ?thesis by (simp add: delete_then_drop_def split_beta split: sum.split)
qed

lemma quiet_forget: "quiet s (snd (DeleteEntry X tx u q s))"
  unfolding DeleteEntry_def
  by (rule inTx_keeps [OF quiet_refl]) (auto simp: Let_def intro!: quiet_trans [OF _ quiet_deletions(6)] quiet_trans [OF _ quiet_deletions(5)]
      quiet_deletions(11) split: if_split_asm)

lemma quiet_retention: "quiet s (snd (retention cfg rd n clk s))"
proof -
  have run: "quiet s (fold (\<lambda>f. f) fs s)" if "\<forall>f \<in> set fs. \<forall>s. quiet s (f s)" for fs
    using that by (induction fs arbitrary: s) (auto intro: quiet_refl quiet_trans)
  show ?thesis unfolding retention_def Let_def snd_conv
    by (rule run) (auto dest!: in_set_takeD simp: quiet_deletions)
qed

section \<open>The aggregates\<close>

definition aggs_ok :: "aggregate_row list \<Rightarrow> bool" where
  "aggs_ok rows \<longleftrightarrow> distinct (map qa_normalized_query rows) \<and> (\<forall>a \<in> set rows. qa_banned a \<longrightarrow> \<not> qa_suggestible a)"

text \<open>A change of the aggregates that lifts at most the ban of \<open>lifted\<close>.\<close>

definition aggs_like :: "string option \<Rightarrow> aggregate_row list \<Rightarrow> aggregate_row list \<Rightarrow> bool" where
  "aggs_like lifted rows rows' \<longleftrightarrow> (aggs_ok rows \<longrightarrow> aggs_ok rows'
     \<and> (\<forall>q. is_banned rows q \<longrightarrow> Some q = lifted \<or> is_banned rows' q))"

definition ledgered :: "string option \<Rightarrow> db \<Rightarrow> db \<Rightarrow> bool" where
  "ledgered lifted s s' \<longleftrightarrow> (\<exists>rows c. s' = s\<lparr> query_aggregates := rows, worker_cursors := c \<rparr> \<and> aggs_like lifted (query_aggregates s) rows)"

lemma aggs_like_refl: "aggs_like l rows rows"
  by (simp add: aggs_like_def)

lemma aggs_like_trans: "aggs_like l a b \<Longrightarrow> aggs_like l b c \<Longrightarrow> aggs_like l a c"
  by (auto simp: aggs_like_def)

lemma ledgered_refl: "ledgered l s s"
  unfolding ledgered_def by (rule exI [of _ "query_aggregates s"], rule exI [of _ "worker_cursors s"]) (simp add: aggs_like_refl)

lemma ledgered_trans: "ledgered l s t \<Longrightarrow> ledgered l t u \<Longrightarrow> ledgered l s u"
  unfolding ledgered_def by (fastforce intro: aggs_like_trans)

lemma ledgered_rows: "aggs_like l (query_aggregates s) rows \<Longrightarrow> ledgered l s (s\<lparr> query_aggregates := rows \<rparr>)"
  unfolding ledgered_def by (rule exI [of _ rows], rule exI [of _ "worker_cursors s"]) simp

lemma ledgered_cursor: "ledgered l s (SetWorkerCursor now name pos s)"
  unfolding ledgered_def SetWorkerCursor_def
  by (rule exI [of _ "query_aggregates s"], rule exI) (simp add: aggs_like_refl)

lemma ledgered_ok:
  assumes "ledgered l s s'" and "system_ok X s"
  shows "system_ok X s' \<and> (\<forall>q. banned q s \<longrightarrow> Some q = l \<or> banned q s')"
proof -
  obtain rows c where s': "s' = s\<lparr> query_aggregates := rows, worker_cursors := c \<rparr>" and like: "aggs_like l (query_aggregates s) rows"
    using assms(1) by (auto simp: ledgered_def)
  have "aggs_ok (query_aggregates s)" using assms(2) by (simp add: system_ok_def keys_ok_def bans_ok_def aggs_ok_def)
  then have rows: "aggs_ok rows" "\<forall>q. is_banned (query_aggregates s) q \<longrightarrow> Some q = l \<or> is_banned rows q"
    using like by (simp_all add: aggs_like_def)
  have "receiver_ok X s' = receiver_ok X s" by (rule receiver_same) (simp add: s' same_catalog_def)
  then show ?thesis using assms(2) rows
    by (simp add: s' system_ok_def keys_ok_def bans_ok_def visible_ok_def aggs_ok_def banned_def)
qed

text \<open>An update that keeps the key of every row, and bans if it is to.\<close>

lemma aggs_update:
  assumes key: "\<And>a. qa_normalized_query (f a) = qa_normalized_query a"
    and ok: "\<And>a. qa_banned a \<longrightarrow> \<not> qa_suggestible a \<Longrightarrow> qa_banned (f a) \<longrightarrow> \<not> qa_suggestible (f a)"
    and ban: "\<And>a. P a \<Longrightarrow> qa_banned a \<Longrightarrow> Some (qa_normalized_query a) = l \<or> qa_banned (f a)"
  shows "aggs_like l rows (sql_update P f rows)"
proof -
  have "is_banned rows q \<longrightarrow> Some q = l \<or> is_banned (sql_update P f rows) q" for q
    by (induction rows) (use key ban in \<open>auto simp: sql_update_def is_banned_def sql_get_def\<close>)
  then show ?thesis using key ok
    by (auto simp: aggs_like_def aggs_ok_def set_sql_update keys_sql_update)
qed

lemma aggs_put:
  assumes ok: "qa_banned row \<longrightarrow> \<not> qa_suggestible row"
    and ban: "is_banned rows (qa_normalized_query row) \<Longrightarrow> qa_banned row"
  shows "aggs_like l rows (put_aggregate row rows)"
proof -
  have "a = row \<or> a \<in> set rows" if "aggs_ok rows" "a \<in> set (put_aggregate row rows)" for a
    using that by (auto simp: put_aggregate_def sql_upsert_def sql_update_def split: if_split_asm)
  moreover have "is_banned (put_aggregate row rows) q" if "is_banned rows q" for q
    using that ban by (auto simp: is_banned_def agg_at_put)
  ultimately show ?thesis using ok by (auto simp: aggs_like_def aggs_ok_def distinct_put)
qed

lemma ledgered_ban: "ledgered l s (snd (Ban X up now q s))"
proof -
  let ?row = "\<lparr> qa_normalized_query = normalize X q, qa_display_query = normalize X q, qa_total_count = 0, qa_distinct_users = 0,
    qa_decayed_freq = 0, qa_first_seen = now, qa_last_seen = now, qa_suggestible = False, qa_banned = True \<rparr>"
  let ?f = "\<lambda>r. r\<lparr> qa_suggestible := False, qa_banned := True \<rparr>"
  have "aggs_like l rows (sql_upsert qa_normalized_query ?row ?f rows)" for rows
  proof (cases "normalize X q \<in> qa_normalized_query ` set rows")
    case True
    then show ?thesis by (simp add: sql_upsert_def) (rule aggs_update, simp_all)
  next
    case False
    then have "sql_upsert qa_normalized_query ?row ?f rows = put_aggregate ?row rows"
      by (simp add: sql_upsert_def put_aggregate_def)
    then show ?thesis by (simp add: aggs_put)
  qed
  then show ?thesis by (auto simp: Ban_def BanSuggestion_def Let_def intro: ledgered_refl ledgered_rows)
qed

lemma ledgered_unban: "ledgered (Some (normalize X q)) s (snd (Unban X up q s))"
  by (auto simp: Unban_def UnbanSuggestion_def Let_def intro!: ledgered_refl ledgered_rows aggs_update)

lemma ledgered_rollup:
  assumes "RollupQueryAggregates hl mn from maxid w s = Inr s'"
  shows "ledgered l s s'"
proof -
  let ?R = "rollup_row hl mn (pg_ts w) (query_log s) (query_aggregates s)"
  have "aggs_like l rows (fold (\<lambda>nq. put_aggregate (?R nq)) qs rows)"
    if "\<And>q. is_banned rows q \<Longrightarrow> is_banned (query_aggregates s) q" for qs rows
    using that
  proof (induction qs arbitrary: rows)
    case (Cons q qs)
    have "aggs_like l rows (put_aggregate (?R q) rows)"
      by (rule aggs_put) (use Cons.prems in \<open>auto simp: rollup_row_def Let_def\<close>)
    moreover have "is_banned (query_aggregates s) k" if "is_banned (put_aggregate (?R q) rows) k" for k
      using that Cons.prems [of k] by (simp add: is_banned_def agg_at_put split: if_split_asm) (simp add: rollup_row_def Let_def is_banned_def)
    ultimately show ?case using Cons.IH aggs_like_trans by (fastforce simp del: put_aggregate_def)
  qed (simp add: aggs_like_refl)
  then show ?thesis using assms by (auto simp: RollupQueryAggregates_def Let_def intro!: ledgered_rows split: if_split_asm)
qed

lemma ledgered_reeval: "ReevaluateSuggestible w hl mn lmt s = Inr (n, s') \<Longrightarrow> ledgered l s s'"
  by (auto simp: ReevaluateSuggestible_def Let_def want_def reeval_row_def intro!: ledgered_rows aggs_update split: if_split_asm)

lemma ledgered_batches: "ledgered l s (snd (reeval_batches k (ReevaluateSuggestible w hl mn lmt) rep s))"
proof (induction k arbitrary: rep s)
  case (Suc k)
  then show ?case
    using ledgered_reeval [of w hl mn lmt s _ _ l] ledgered_trans
    by (auto simp: Let_def intro: ledgered_refl split: sum.split)
qed (simp add: ledgered_refl)

lemma ledgered_jobs:
  "ledgered l s (snd (aggregatesRollup cfg rd tx wall now s))" "ledgered l s (snd (suggestibleReeval cfg rd wall s))"
proof -
  show "ledgered l s (snd (aggregatesRollup cfg rd tx wall now s))"
    unfolding aggregatesRollup_def Let_def
    by (rule inTx_keeps [OF ledgered_refl])
      (auto intro: ledgered_refl ledgered_trans [OF ledgered_rollup ledgered_cursor] split: if_split_asm sum.split_asm)
  have "ledgered l s (snd (Runner_ReevaluateSuggestible cfg rd wall dry s))" for dry
    by (simp add: Runner_ReevaluateSuggestible_def Let_def ledgered_refl ledgered_batches)
  then show "ledgered l s (snd (suggestibleReeval cfg rd wall s))"
    by (simp add: suggestibleReeval_def split_beta split: sum.split)
qed

section \<open>The other jobs\<close>

lemma quiet_sessionizer: "quiet s (snd (sessionizer X cfg tx now wall wall' s))"
  unfolding sessionizer_def Let_def
  by (rule inTx_keeps [OF quiet_refl])
    (auto intro: quiet_refl quiet_cursor quiet_trans [OF quiet_fold [OF quiet_derived] quiet_cursor] split: if_split_asm)

lemma quiet_engagement: "quiet s (snd (engagementRollup X cfg rd tx now s))"
  unfolding engagementRollup_def Let_def
proof (rule inTx_keeps [OF quiet_refl], goal_cases)
  case (1 x s')
  then obtain newMW s1 s2 where d: "derive_new X cfg rd s = Inr (newMW, s1)"
    and r: "RebuildQueryVideoEngagement now (ClearQueryVideoEngagement s1) = Inr s2"
    and s': "s' = fold (project_watch cfg now) newMW s2 \<or> (\<exists>m. s' = SetWorkerCursor now ''engagement'' m (fold (project_watch cfg now) newMW s2))"
    by (auto split: sum.split_asm prod.split_asm if_split_asm)
  have "quiet s s1" using d quiet_insert_events
    by (auto simp: derive_new_def DeriveMeaningfulWatch_def Let_def quiet_refl split: if_split_asm sum.split_asm)
       (metis snd_conv)
  moreover have "quiet s1 s2" using r quiet_counters(1) [of s1]
    by (auto simp: RebuildQueryVideoEngagement_def ClearQueryVideoEngagement_def Let_def split: if_split_asm)
  moreover have "quiet s2 (fold (project_watch cfg now) newMW s2)" by (rule quiet_fold) (rule quiet_project)
  then have "quiet s2 s'" using s' quiet_trans [OF _ quiet_cursor] by blast
  ultimately show ?case using quiet_trans by blast
qed

lemma quiet_covis: "quiet s (snd (covisRollup cfg rd tx s))"
  unfolding covisRollup_def Let_def
  by (rule inTx_keeps [OF quiet_refl])
    (auto simp: RebuildCovisNeighbors_def ClearCovisNeighbors_def Let_def intro: quiet_counters split: if_split_asm sum.split_asm)

section \<open>Every operation\<close>

fun lifts :: "ext \<Rightarrow> operation \<Rightarrow> string option" where
  "lifts X (Op_unban up q) = Some (normalize X q)"
| "lifts X op = None"

lemma perform_ok:
  assumes X: "ext_ok X" and ok: "system_ok X s"
  shows "system_ok X (perform X rl op s) \<and> (\<forall>q. banned q s \<longrightarrow> Some q = lifts X op \<or> banned q (perform X rl op s))"
proof -
  have idle: "system_ok X s' \<and> query_aggregates s' = query_aggregates s \<Longrightarrow>
      system_ok X s' \<and> (\<forall>q. banned q s \<longrightarrow> banned q s')" for s'
    by (simp add: banned_def)
  note settle = idle [OF quiet_ok [OF _ ok]] and runs = idle [OF catalog_ok [OF X _ ok]]
  show ?thesis
  proof (cases op)
    case (Op_events cfg tx now wall evs)
    then show ?thesis using idle [OF events_ok [OF ok]] by simp
  next
    case (Op_epoch st b)
    then show ?thesis using runs [OF handleCatalogEpoch_step] by (simp add: prod_eq_iff)
  next
    case (Op_catalog tx now clk b)
    then show ?thesis using runs [OF handleCatalogEvents_step] by (simp add: prod_eq_iff)
  next
    case (Op_prune clk)
    have "catalog_run X s (snd (PruneCatalogSnapshots clk s))" by (rule r_into_rtranclp) (rule catalog_step.prune, rule prod.collapse [symmetric])
    then show ?thesis using runs Op_prune by simp
  next
    case (Op_clear tx hr up u m)
    then show ?thesis by (simp add: ClearAll_def settle [OF quiet_clear])
  next
    case (Op_purge tx hr up u m)
    then show ?thesis by (simp add: PurgeUser_def settle [OF quiet_clear])
  qed (use ledgered_ok [OF ledgered_ban [where l = None] ok] ledgered_ok [OF ledgered_unban ok]
       ledgered_ok [OF ledgered_jobs(1) [where l = None] ok] ledgered_ok [OF ledgered_jobs(2) [where l = None] ok] settle quiet_forget quiet_retention
       quiet_engagement quiet_sessionizer quiet_covis in \<open>simp_all\<close>)
qed

lemma perform_all_ok:
  assumes X: "ext_ok X" and ok: "system_ok X s"
  shows "system_ok X (perform_all X rl ops s)
    \<and> (banned q s \<and> Some q \<notin> lifts X ` set ops \<longrightarrow> banned q (perform_all X rl ops s))"
  using ok
proof (induction ops arbitrary: s)
  case (Cons op ops)
  then show ?case using perform_ok [OF X Cons.prems, of rl op] Cons.IH [of "perform X rl op s"]
    by (auto simp: perform_all_def)
qed (simp add: perform_all_def)

lemma system_ok_empty: "system_ok X empty_db"
  using keys_ok_empty visible_ok_empty receiver_empty by (simp add: system_ok_def bans_ok_def empty_db_def)

text \<open>C2. One invariant for the whole service. From the empty database, whatever the API is asked and whatever jobs
  run, in any order, with transactions that fail to start or to commit anywhere: the unique keys hold, a document
  that is eligible has no reason to be withheld, a banned query is never suggestible, and the catalog tables are those of a
  receiver - one epoch lineage, pages and manifests that belong to the pending snapshot.\<close>

theorem system_invariant:
  assumes "ext_ok X"
  shows "system_ok X (perform_all X rl ops empty_db)"
  using perform_all_ok [OF assms system_ok_empty] by blast

lemma system_invariant_witness:
  "system_ok sample_ext (perform_all sample_ext (\<lambda>j. 0)
     [Op_events sample_config (True, True) 0 (\<lambda>i. 0) [sample_search], Op_ban True 5 ''cats'',
      Op_rollup sample_worker True (True, True) 0 0, Op_forget (True, False) 7 ''cats''] empty_db)"
  by (rule system_invariant [OF ext_ok_sample])

text \<open>C3. A ban outlives everything but its lifting. From any database that satisfies the invariant, a banned query is still banned
  after any operations - new searches of it, rollups, re-evaluations, deletions, retention - among which no unban
  normalizes to it, and the completion of no prefix shows it.\<close>

theorem ban_outlives:
  assumes "ext_ok X" and "system_ok X s" and "banned q s"
    and "\<forall>op \<in> set ops. lifts X op \<noteq> Some q"
  shows "banned q (perform_all X rl ops s)
    \<and> (\<forall>pat n rows. SuggestAggregatePrefix pat n (perform_all X rl ops s) = Inr rows
        \<longrightarrow> q \<notin> qa_normalized_query ` set rows)"
proof -
  let ?s = "perform_all X rl ops s"
  have ok: "system_ok X ?s" and b: "banned q ?s"
    using perform_all_ok [OF assms(1,2), of rl ops q] assms(3,4) by (auto simp: image_iff) 
  have "q \<notin> qa_normalized_query ` set rows" if r: "SuggestAggregatePrefix pat n ?s = Inr rows" for pat n rows
  proof
    assume "q \<in> qa_normalized_query ` set rows"
    then obtain a where a: "a \<in> set (query_aggregates ?s)" "qa_normalized_query a = q" "\<not> qa_banned a"
      using r by (auto simp: SuggestAggregatePrefix_def split: if_split_asm dest!: first_rows_set)
    have "sql_get (\<lambda>x. qa_normalized_query x = q) (query_aggregates ?s) = Some a"
      using ok a(1) sql_get_key [of qa_normalized_query "query_aggregates ?s" a] by (simp add: system_ok_def keys_okD a(2))
    then show False using b a(3) by (simp add: banned_def is_banned_def)
  qed
  with b show ?thesis by blast
qed

definition banned_cats :: db where
  "banned_cats = perform sample_ext (\<lambda>j. 0) (Op_ban True 5 ''Cats'') empty_db"

lemma banned_cats_state: "system_ok sample_ext banned_cats" "banned ''cats'' banned_cats"
proof -
  show "system_ok sample_ext banned_cats"
    unfolding banned_cats_def using perform_ok [OF ext_ok_sample system_ok_empty] by blast
  have "banned ''cats'' (snd (Ban sample_ext True 5 ''Cats'' empty_db))" by code_simp
  then show "banned ''cats'' banned_cats" by (simp add: banned_cats_def)
qed

lemma ban_outlives_witness:
  "banned ''cats'' (perform_all sample_ext (\<lambda>j. 0)
     [Op_events sample_config (True, True) 0 (\<lambda>i. 0) [sample_search], Op_unban True ''dogs'',
      Op_rollup sample_worker True (True, True) 0 0, Op_reeval sample_worker True 9] banned_cats)"
proof -
  have "normalize sample_ext ''dogs'' = ''dogs''" by code_simp
  then show ?thesis
    by (intro conjunct1 [OF ban_outlives [OF ext_ok_sample banned_cats_state]]) simp
qed

section \<open>Reads under a fence\<close>

text \<open>The history of the catalog tables alone: what moves it, and what leaves it.\<close>

abbreviation catalog_part :: "db \<Rightarrow> db" where
  "catalog_part s \<equiv> s\<lparr> documents := [] \<rparr>"

lemma catalog_part_simps [simp]:
  "epochs_of (catalog_part s) = epochs_of s" "authority (catalog_part s) = authority s" "fence_of (catalog_part s) = fence_of s"
  "history_ok (catalog_part s) = history_ok s"
proof -
  show e: "epochs_of (catalog_part s) = epochs_of s" "authority (catalog_part s) = authority s"
    by (simp_all add: epochs_of_def authority_def scope_of_def)
  show "fence_of (catalog_part s) = fence_of s" "history_ok (catalog_part s) = history_ok s"
    unfolding fence_of_def history_ok_def e by (rule refl)+
qed

lemma advances_part: "advances s s' \<Longrightarrow> advances (catalog_part s) (catalog_part s')"
  by (simp add: advances_def)

lemma untouched_part:
  assumes "same_catalog s s'"
  shows "advances (catalog_part s) (catalog_part s')"
proof -
  have "epochs_of s' = epochs_of s" "authority s' = authority s"
    using assms by (simp_all add: same_catalog_def epochs_of_def authority_def scope_of_def)
  then show ?thesis by (auto simp: advances_def)
qed

fun is_events :: "operation \<Rightarrow> bool" where
  "is_events (Op_events cfg tx now wall evs) = True"
| "is_events op = False"

text \<open>Each operation is a move of the receiver, an event batch, or something that touches neither.\<close>

lemma perform_moves:
  assumes X: "ext_ok X" and ok: "system_ok X s"
  shows "advances (catalog_part s) (catalog_part (perform X rl op s)) \<and> (is_events op \<or> advances s (perform X rl op s))"
proof -
  have run: "catalog_run X s s' \<Longrightarrow> advances s s'" for s'
    using catalog_run_moves [OF X] ok by (simp add: system_ok_def)
  have out: "outside s s' \<Longrightarrow> advances s s'" for s'
    using untouched_part [of s s'] by (auto simp: outside_def advances_def)
  have still: "quiet s s' \<Longrightarrow> advances s s'" for s' using out by (simp add: quiet_def)
  have ledger: "ledgered l s s' \<Longrightarrow> advances s s'" for s' l
    by (auto simp: ledgered_def advances_def epochs_of_def authority_def scope_of_def fence_of_def)
  show ?thesis
  proof (cases op)
    case (Op_events cfg tx now wall evs)
    have "same_catalog s (snd (Ingest X cfg tx now wall evs s))" by (rule catalog_untouched.Ingest_free)
    then show ?thesis using untouched_part Op_events by simp
  next
    case (Op_epoch st b)
    then show ?thesis using run [OF handleCatalogEpoch_step] advances_part by (simp add: prod_eq_iff)
  next
    case (Op_catalog tx now clk b)
    then show ?thesis using run [OF handleCatalogEvents_step] advances_part by (simp add: prod_eq_iff)
  next
    case (Op_prune clk)
    have "catalog_run X s (snd (PruneCatalogSnapshots clk s))" by (rule r_into_rtranclp) (rule catalog_step.prune, rule prod.collapse [symmetric])
    then show ?thesis using run advances_part Op_prune by simp
  next
    case (Op_clear tx hr up u m)
    then show ?thesis using still [OF quiet_clear] advances_part by (simp add: ClearAll_def)
  next
    case (Op_purge tx hr up u m)
    then show ?thesis using still [OF quiet_clear] advances_part by (simp add: PurgeUser_def)
  qed (use ledger [OF ledgered_ban [where l = None]] ledger [OF ledgered_unban] ledger [OF ledgered_jobs(1) [where l = None]]
       ledger [OF ledgered_jobs(2) [where l = None]] still quiet_forget quiet_retention quiet_engagement quiet_sessionizer
       quiet_covis advances_part in \<open>simp_all\<close>)
qed

lemma performed_history:
  assumes X: "ext_ok X" and ok: "system_ok X s"
  shows "advances (catalog_part s) (catalog_part (perform_all X rl ops s))"
  using ok
proof (induction ops arbitrary: s)
  case (Cons op ops)
  let ?t = "perform X rl op s"
  have t: "system_ok X ?t" using perform_ok [OF X Cons.prems] by blast
  moreover have "system_ok X (perform_all X rl ops ?t)" using perform_all_ok [OF X t] by blast
  ultimately have "history_ok ?t" "history_ok (perform_all X rl ops ?t)" by (simp_all add: system_ok_def receiver_ok_def)
  then show ?case
    using advances_trans [of "catalog_part s" "catalog_part ?t" "catalog_part (perform_all X rl ops ?t)"]
      perform_moves [OF X Cons.prems, of rl op] Cons.IH [OF t] by (simp add: perform_all_def)
qed (simp add: perform_all_def)

lemma perform_split:
  "perform_all X rl ops s = perform_all X rl (drop n ops) (perform_all X rl (take n ops) s)"
  unfolding perform_all_def by (metis append_take_drop_id comp_apply fold_append)

text \<open>Between two states with one fence every state has it, and its history.\<close>

lemma fence_held:
  assumes X: "ext_ok X" and ok: "system_ok X s" and f: "fence_of (perform_all X rl ops s) = fence_of s"
  shows "fence_of (perform_all X rl (take n ops) s) = fence_of s \<and> epochs_of (perform_all X rl (take n ops) s) = epochs_of s"
proof -
  let ?t = "perform_all X rl (take n ops) s" and ?u = "perform_all X rl ops s"
  have sys: "system_ok X ?t" "system_ok X ?u" using perform_all_ok [OF X ok] by blast+
  then have h: "history_ok s" "history_ok ?t" "history_ok ?u" using ok by (simp_all add: system_ok_def receiver_ok_def)
  have st: "advances (catalog_part s) (catalog_part ?t)" by (rule performed_history [OF X ok])
  have tu: "advances (catalog_part ?t) (catalog_part ?u)"
    using performed_history [OF X sys(1), of rl "drop n ops"] perform_split [of X rl ops s n] by simp
  have su: "advances (catalog_part s) (catalog_part ?u)" by (rule performed_history [OF X ok])
  have e: "epochs_of ?u = epochs_of s" using same_epoch_same_history [OF su] h f by simp
  show ?thesis using fence_between [OF st tu] epochs_between [OF st tu] e f h by simp
qed

text \<open>C18. A read that found one fence ran over one catalogue. Whatever operations and jobs ran between the two looks at the
  fence - epochs, observations, events, jobs, in any order, failed or not - in every state in between the epoch and the
  completed generation were those of the start, and no operation but an event batch changed any document: an observation
  of the catalogue that changes one moves the fence, and bans, deletions and jobs change none. Event batches, statistics among them,
  are not fenced. And under a fence no document of another instance was eligible at either look.\<close>

theorem fenced_read_one_catalogue:
  assumes "ext_ok X" and "system_ok X s" and "s' = perform_all X rl ops s"
    and "beginCatalogRead X hs (status_in s) = Inr f" and "finishCatalogRead X hs (status_in s') f = Inr ()"
  shows "fence_of (perform_all X rl (take n ops) s) = fence_of s
    \<and> (n < length ops \<and> \<not> is_events (ops ! n)
        \<longrightarrow> documents (perform_all X rl (take (Suc n) ops) s) = documents (perform_all X rl (take n ops) s))
    \<and> (f = ([], []) \<or> list_all (\<lambda>d. d_eligible d \<longrightarrow> d_kind d = ''local'') (documents s @ documents s'))"
proof -
  let ?t = "perform_all X rl (take n ops) s"
  have fin: "beginCatalogRead X hs (status_in s') = Inr f"
    using assms(5) by (auto simp: finishCatalogRead_def split: sum.split_asm if_split_asm)
  have f: "fence_of s' = fence_of s" by (rule same_fence [OF assms(1,4) fin])
  note held = fence_held [OF assms(1,2) f [unfolded assms(3)]]
  have "documents (perform_all X rl (take (Suc n) ops) s) = documents ?t" if n: "n < length ops" "\<not> is_events (ops ! n)"
  proof -
    have next_state: "perform_all X rl (take (Suc n) ops) s = perform X rl (ops ! n) ?t"
      using n(1) by (simp add: take_Suc_conv_app_nth perform_all_def)
    have "system_ok X ?t" using perform_all_ok [OF assms(1,2)] by blast
    then have "advances ?t (perform X rl (ops ! n) ?t)" using perform_moves [OF assms(1)] n(2) by blast
    then show ?thesis using held [of n] held [of "Suc n"] unfolding next_state advances_def by simp
  qed
  then show ?thesis
    using held [of n] beginCatalogRead_fence [OF assms(4)] beginCatalogRead_fence [OF fin] f
    by (auto split: option.split_asm)
qed

lemma sample_completed_state:
  "system_ok sample_ext sample_completed"
  "beginCatalogRead sample_ext [(''X-Vidra-Catalog-Epoch'', ''5''), (''X-Vidra-Catalog-Generation'', ''1'')]
     (status_in sample_completed) = Inr (''5'', ''1'')"
proof -
  have docs: "documents sample_pending = []" by (simp add: sample_pending_def empty_db_def)
  have h: "history_ok sample_pending"
    by (simp add: history_ok_def epochs_of_def authority_def scope_of_def sample_pending_def sql_get_def sample_scope_def new_scope_def empty_db_def)
  have v: "doc_ok sample_pending" by (simp add: doc_ok_def visible_ok_def docs)
  have "rest sample_pending = rest empty_db" by (simp add: sample_pending_def)
  then have r: "rest sample_completed = rest empty_db" "doc_ok sample_completed"
    using Complete_like [OF sample_completed_ok] v by (simp_all add: catalog_like_def)
  have "keys_ok sample_completed" using r rest_tables(2) [OF r(1)] keys_ok_empty keys_documents_split [of empty_db] by (simp add: doc_ok_def)
  moreover have "bans_ok sample_completed" using rest_tables(1) [OF r(1)] by (simp add: bans_ok_def empty_db_def)
  moreover have "receiver_ok sample_ext sample_completed"
    using CompleteCatalogSnapshot_inv [OF sample_pending_inv sample_completed_ok]
      Complete_moves [OF sample_pending_inv h sample_completed_ok] by (simp add: receiver_ok_def)
  ultimately show "system_ok sample_ext sample_completed" using r by (simp add: system_ok_def doc_ok_def)
  obtain m rows where a: "activate 3000 sample_pending sample_identity m rows = Inr sample_completed"
    and local: "\<forall>r \<in> set rows. d_kind r = ''local'' \<and> d_eligible r" "distinct (map d_video_id rows)"
    by (rule completed_parts [OF ext_ok_sample sample_pending_inv sample_completed_ok])
  have scope: "scope_of sample_completed ''local'' = Some (publish 3000 sample_identity m sample_scope)"
    unfolding activate_Inr [OF a]
    by (simp add: scope_of_def sql_get_def sql_update_def sample_pending_def sample_identity_def sample_scope_def new_scope_def
        publish_def ScopeLocal_def)
  have "d_kind d = ''local''" if "d \<in> set (documents sample_completed)" "d_eligible d" for d
  proof -
    have "distinct (map d_video_id (documents sample_completed))" using r(2) by (simp add: doc_ok_def)
    then have "lookup (documents sample_completed) (d_video_id d) = Some d" using that(1) lookup_member by blast
    moreover have "lookup [] u = None" for u by (simp add: lookup_def sql_get_def)
    ultimately show ?thesis using lookup_activated [OF a local(2), of "d_video_id d"] local(1) that(2)
      by (auto simp: docs split: option.split_asm dest: lookup_Some)
  qed
  moreover have "uuid_string sample_ext 5 = ''5''" "FormatInt 1 = ''1''" by code_simp+
  ultimately show "beginCatalogRead sample_ext [(''X-Vidra-Catalog-Epoch'', ''5''), (''X-Vidra-Catalog-Generation'', ''1'')]
     (status_in sample_completed) = Inr (''5'', ''1'')"
    by (auto simp: beginCatalogRead_def ReadCatalogStatus_def scope publish_def sample_identity_def sample_scope_def new_scope_def
        Header_Get_def Let_def)
qed

lemma same_look:
  assumes "documents s = documents t \<and> catalog_scopes s = catalog_scopes t"
  shows "beginCatalogRead X hs (status_in s) = beginCatalogRead X hs (status_in t)"
  using assms by (cases "scope_of t ''local''") (simp_all add: beginCatalogRead_def ReadCatalogStatus_def scope_of_def Let_def)

lemma fenced_read_one_catalogue_witness:
  "fence_of (perform_all sample_ext (\<lambda>j. 0) [Op_ban True 5 ''Cats''] sample_completed) = fence_of sample_completed
   \<and> documents (perform_all sample_ext (\<lambda>j. 0) [Op_ban True 5 ''Cats'', Op_prune 0] sample_completed)
     = documents (perform_all sample_ext (\<lambda>j. 0) [Op_ban True 5 ''Cats''] sample_completed)"
proof -
  let ?ops = "[Op_ban True 5 ''Cats'', Op_prune 0]"
  let ?hs = "[(''X-Vidra-Catalog-Epoch'', ''5''), (''X-Vidra-Catalog-Generation'', ''1'')]"
  let ?s' = "perform_all sample_ext (\<lambda>j. 0) ?ops sample_completed"
  obtain rows c where ban: "perform sample_ext (\<lambda>j. 0) (Op_ban True 5 ''Cats'') sample_completed
      = sample_completed\<lparr> query_aggregates := rows, worker_cursors := c \<rparr>"
    using ledgered_ban [of None sample_completed sample_ext True 5 "''Cats''"] by (auto simp: ledgered_def)
  have "documents ?s' = documents sample_completed \<and> catalog_scopes ?s' = catalog_scopes sample_completed"
    by (simp add: perform_all_def ban PruneCatalogSnapshots_def Let_def del: perform.simps(5)) 
  from same_look [OF this] have "finishCatalogRead sample_ext ?hs (status_in ?s') (''5'', ''1'') = Inr ()"
    using sample_completed_state(2) by (simp add: finishCatalogRead_def)
  from fenced_read_one_catalogue [OF ext_ok_sample sample_completed_state(1) refl sample_completed_state(2) this, of 1]
  show ?thesis by (simp add: numeral_2_eq_2)
qed

end
