(* ===== verification/Diversity.thy ===== *)
theory Diversity
  imports Hashes "HOL-Library.List_Lexorder" "HOL-Library.Char_ord"
begin

text \<open>
  \<open>internal/ranking/diversity.go\<close>: the selection by maximal marginal relevance and the
  deterministic exploration slot. A token set is a finite set of strings.
\<close>

unbundle bit_operations_syntax

record mmr_doc =
  mVideoID :: string
  mRelevance :: real
  mTokens :: "string set"

definition jaccard :: "string set \<Rightarrow> string set \<Rightarrow> real" where
  "jaccard a b =
     (if card a = 0 \<or> card b = 0 then 0
      else (let inter = card (a \<inter> b); uni = card a + card b - inter
            in if uni = 0 then 0 else real inter / real uni))"

definition mmr_before :: "mmr_doc \<Rightarrow> mmr_doc \<Rightarrow> bool" where
  "mmr_before a b = (if mRelevance a \<noteq> mRelevance b then mRelevance a > mRelevance b else mVideoID a < mVideoID b)"

definition max_sim :: "mmr_doc \<Rightarrow> mmr_doc list \<Rightarrow> real" where
  "max_sim d selected = foldl (\<lambda>m s. let sim = jaccard (mTokens d) (mTokens s) in if sim > m then sim else m) 0 selected"

definition marginal :: "real \<Rightarrow> mmr_doc list \<Rightarrow> mmr_doc \<Rightarrow> real" where
  "marginal lam selected d = lam * mRelevance d - (1 - lam) * max_sim d selected"

text \<open>One round over the candidates: the first unused one of the highest marginal score.\<close>

definition mmr_pick :: "real \<Rightarrow> mmr_doc list \<Rightarrow> bool list \<Rightarrow> mmr_doc list \<Rightarrow> (nat \<times> real) option" where
  "mmr_pick lam cand used selected =
     foldl (\<lambda>best i. if used ! i then best
        else (let mmr = marginal lam selected (cand ! i)
              in case best of None \<Rightarrow> Some (i, mmr) | Some (j, s) \<Rightarrow> if mmr > s then Some (i, mmr) else best))
       None [0..<length cand]"

fun mmr_loop :: "real \<Rightarrow> mmr_doc list \<Rightarrow> nat \<Rightarrow> bool list \<Rightarrow> mmr_doc list \<Rightarrow> nat list" where
  "mmr_loop lam cand 0 used selected = []"
| "mmr_loop lam cand (Suc k) used selected =
     (case mmr_pick lam cand used selected of None \<Rightarrow> []
      | Some (i, s) \<Rightarrow> i # mmr_loop lam cand k (used[i := True]) (selected @ [cand ! i]))"

definition MMR :: "mmr_doc list \<Rightarrow> real \<Rightarrow> int \<Rightarrow> string list" where
  "MMR docs lam k =
     (if docs = [] \<or> k \<le> 0 then []
      else (let k = min (nat k) (length docs); cand = SliceStable mmr_before docs
            in map (\<lambda>i. mVideoID (cand ! i)) (mmr_loop lam cand k (replicate (length cand) False) [])))"

definition hashSeed :: "string \<Rightarrow> 64 word" where
  "hashSeed seed = fnv1a64 seed"

definition ExplorationSlot :: "string \<Rightarrow> real \<Rightarrow> int \<Rightarrow> bool \<times> int" where
  "ExplorationSlot seed epsilon poolSize =
     (if poolSize \<le> 0 \<or> epsilon \<le> 0 then (False, 0)
      else (let h = hashSeed seed; draw = real (unat (h AND 0x3FFF)) / real 0x4000
            in if draw \<ge> epsilon then (False, 0) else (True, uint (drop_bit 20 h mod word_of_int poolSize))))"

section \<open>The greedy selection\<close>

interpretation by_relevance: strict_weak_order mmr_before
  by unfold_locales (auto simp: mmr_before_def split: if_split_asm)

lemma pick_upto:
  assumes "n \<le> length cand"
  shows "(case foldl (\<lambda>best i. if used ! i then best
        else (let mmr = marginal lam selected (cand ! i)
              in case best of None \<Rightarrow> Some (i, mmr) | Some (j, s) \<Rightarrow> if mmr > s then Some (i, mmr) else best))
       None [0..<n] of
     None \<Rightarrow> \<forall>j < n. used ! j
   | Some (i, s) \<Rightarrow> i < n \<and> \<not> used ! i \<and> s = marginal lam selected (cand ! i)
       \<and> (\<forall>j < n. \<not> used ! j \<longrightarrow> marginal lam selected (cand ! j) \<le> s)
       \<and> (\<forall>j < i. \<not> used ! j \<longrightarrow> marginal lam selected (cand ! j) < s))"
  using assms
proof (induction n)
  case (Suc n)
  then show ?case
    by (auto simp: Let_def less_Suc_eq split: option.splits prod.splits if_splits)
qed simp

lemma mmr_pick_spec:
  "(case mmr_pick lam cand used selected of
     None \<Rightarrow> \<forall>j < length cand. used ! j
   | Some (i, s) \<Rightarrow> i < length cand \<and> \<not> used ! i \<and> s = marginal lam selected (cand ! i)
       \<and> (\<forall>j < length cand. \<not> used ! j \<longrightarrow> marginal lam selected (cand ! j) \<le> s)
       \<and> (\<forall>j < i. \<not> used ! j \<longrightarrow> marginal lam selected (cand ! j) < s))"
  unfolding mmr_pick_def by (rule pick_upto) simp

text \<open>\<open>D\<close> are the indices that were used before, \<open>ds\<close> the documents they selected.\<close>

lemma loop_greedy:
  assumes "length used = length cand" and "\<forall>j < length cand. used ! j \<longleftrightarrow> j \<in> D" and "D \<subseteq> {..<length cand}"
  shows "distinct (mmr_loop lam cand k used ds) \<and> set (mmr_loop lam cand k used ds) \<subseteq> {..<length cand} - D
    \<and> length (mmr_loop lam cand k used ds) = min k (length cand - card D)
    \<and> (\<forall>t < length (mmr_loop lam cand k used ds). \<forall>j < length cand. j \<notin> D \<and> j \<notin> set (take t (mmr_loop lam cand k used ds)) \<longrightarrow>
         marginal lam (ds @ map ((!) cand) (take t (mmr_loop lam cand k used ds))) (cand ! j)
           \<le> marginal lam (ds @ map ((!) cand) (take t (mmr_loop lam cand k used ds))) (cand ! (mmr_loop lam cand k used ds ! t)))"
  using assms
proof (induction k arbitrary: used D ds)
  case (Suc k)
  let ?n = "length cand"
  show ?case
  proof (cases "mmr_pick lam cand used ds")
    case None
    then have "\<forall>j < ?n. j \<in> D" using mmr_pick_spec [where lam = lam and cand = cand and used = used and selected = ds] Suc.prems(2) by simp
    then have "D = {..<?n}" using Suc.prems(3) by auto
    then show ?thesis using None by simp
  next
    case (Some p)
    then obtain i s where p: "mmr_pick lam cand used ds = Some (i, s)" by (cases p) auto
    then have i: "i < ?n" "i \<notin> D" and best: "\<forall>j < ?n. j \<notin> D \<longrightarrow> marginal lam ds (cand ! j) \<le> marginal lam ds (cand ! i)"
      using mmr_pick_spec [where lam = lam and cand = cand and used = used and selected = ds] Suc.prems(2) by auto
    let ?r = "mmr_loop lam cand k (used[i := True]) (ds @ [cand ! i])"
    have "\<forall>j < ?n. used[i := True] ! j \<longleftrightarrow> j \<in> insert i D"
      using Suc.prems(1,2) i(1) by (auto simp: nth_list_update)
    moreover have "insert i D \<subseteq> {..<?n}" using i Suc.prems(3) by auto
    ultimately have ih: "distinct ?r" "set ?r \<subseteq> {..<?n} - insert i D" "length ?r = min k (?n - card (insert i D))"
      "\<forall>t < length ?r. \<forall>j < ?n. j \<notin> insert i D \<and> j \<notin> set (take t ?r) \<longrightarrow>
         marginal lam ((ds @ [cand ! i]) @ map ((!) cand) (take t ?r)) (cand ! j)
           \<le> marginal lam ((ds @ [cand ! i]) @ map ((!) cand) (take t ?r)) (cand ! (?r ! t))"
      using Suc.IH [of "used[i := True]" "insert i D" "ds @ [cand ! i]"] Suc.prems(1) by simp_all
    have card: "card (insert i D) = Suc (card D)" "card D < ?n"
    proof -
      have fin: "finite D" using Suc.prems(3) finite_subset by blast
      then show "card (insert i D) = Suc (card D)" using i by simp
      have "D \<subset> {..<?n}" using Suc.prems(3) i by blast
      then show "card D < ?n" by (metis card_lessThan finite_lessThan psubset_card_mono)
    qed
    have step: "marginal lam (ds @ map ((!) cand) (take t (i # ?r))) (cand ! j)
        \<le> marginal lam (ds @ map ((!) cand) (take t (i # ?r))) (cand ! ((i # ?r) ! t))"
      if "t < length (i # ?r)" "j < ?n" "j \<notin> D" "j \<notin> set (take t (i # ?r))" for t j
      using that best ih(4) by (cases t) auto
    show ?thesis
      using p i ih card step by (simp add: min_def) auto
  qed
qed simp

lemma replicate_unused: "\<forall>j < n. replicate n False ! j \<longleftrightarrow> j \<in> {}"
  by simp

text \<open>The selection is greedy maximal marginal relevance: it takes as many different candidates as
  were asked for and there are, and each one it takes has, of all that are not taken yet, the highest
  relevance net of its likeness to those already taken.\<close>

theorem mmr_greedy:
  assumes "0 < k" and "docs \<noteq> []" and "cand = SliceStable mmr_before docs"
  shows "\<exists>is. MMR docs lam k = map (\<lambda>i. mVideoID (cand ! i)) is \<and> distinct is \<and> set is \<subseteq> {..<length cand}
    \<and> length is = min (nat k) (length docs)
    \<and> (\<forall>t < length is. \<forall>j < length cand. j \<notin> set (take t is) \<longrightarrow>
         marginal lam (map ((!) cand) (take t is)) (cand ! j) \<le> marginal lam (map ((!) cand) (take t is)) (cand ! (is ! t)))"
proof -
  let ?is = "mmr_loop lam cand (min (nat k) (length docs)) (replicate (length cand) False) []"
  have len: "length cand = length docs" by (simp add: assms(3))
  have "MMR docs lam k = map (\<lambda>i. mVideoID (cand ! i)) ?is" using assms by (simp add: MMR_def Let_def)
  moreover note loop_greedy [of "replicate (length cand) False" cand "{}" lam "min (nat k) (length docs)" "[]", OF _ replicate_unused]
  ultimately show ?thesis by (intro exI [of _ ?is]) (simp add: len)
qed

definition sample_mmr :: "mmr_doc list" where
  "sample_mmr = [\<lparr> mVideoID = ''a'', mRelevance = 9, mTokens = {''cats''} \<rparr>, \<lparr> mVideoID = ''b'', mRelevance = 8, mTokens = {''cats''} \<rparr>,
     \<lparr> mVideoID = ''c'', mRelevance = 7, mTokens = {''dogs''} \<rparr>]"

lemma mmr_greedy_witness:
  "\<exists>is. MMR sample_mmr (1 / 2) 2 = map (\<lambda>i. mVideoID (SliceStable mmr_before sample_mmr ! i)) is \<and> distinct is \<and> length is = 2"
  using mmr_greedy [of 2 sample_mmr, OF _ _ refl, of "1 / 2"] by (auto simp: sample_mmr_def)

lemma marginal_one [simp]: "marginal 1 selected d = mRelevance d"
  by (simp add: marginal_def)

lemma loop_relevance:
  assumes "sorted_wrt (\<lambda>a b. \<not> mmr_before b a) cand" "m + k \<le> length cand"
    and "length used = length cand" "\<forall>j < length cand. used ! j \<longleftrightarrow> j < m"
  shows "mmr_loop 1 cand k used ds = [m..<m + k]"
  using assms
proof (induction k arbitrary: used m ds)
  case (Suc k)
  let ?n = "length cand"
  have rel: "mRelevance (cand ! j) \<le> mRelevance (cand ! i)" if "i \<le> j" "j < ?n" for i j
    using sorted_wrt_nth_less [OF Suc.prems(1), of i j] that
    by (cases "i = j") (auto simp: mmr_before_def split: if_split_asm)
  have m: "m < ?n" using Suc.prems(2) by simp
  obtain i s where p: "mmr_pick 1 cand used ds = Some (i, s)" "i < ?n" "\<not> used ! i" "s = mRelevance (cand ! i)"
    "\<forall>j < i. \<not> used ! j \<longrightarrow> mRelevance (cand ! j) < s"
    using mmr_pick_spec [where lam = 1 and cand = cand and used = used and selected = ds] m Suc.prems(4)
    by (cases "mmr_pick 1 cand used ds") (auto split: prod.split_asm)
  have "m \<le> i" using p Suc.prems(4) by auto
  have "i = m"
  proof (rule ccontr)
    assume "i \<noteq> m"
    then have "mRelevance (cand ! m) < mRelevance (cand ! i)" using p m \<open>m \<le> i\<close> Suc.prems(4) by auto
    then show False using rel [of m i] p \<open>m \<le> i\<close> by simp
  qed
  have "\<forall>j < ?n. used[m := True] ! j \<longleftrightarrow> j < Suc m"
    using Suc.prems(3,4) m by (auto simp: nth_list_update)
  then have "mmr_loop 1 cand k (used[m := True]) (ds @ [cand ! m]) = [Suc m..<Suc m + k]"
    using Suc.prems by (intro Suc.IH) auto
  then show ?case using p(1) \<open>i = m\<close> by (simp add: upt_conv_Cons)
qed simp

text \<open>With the parameter one, the selection is the plain ranking: the ids of the most relevant
  candidates in order.\<close>

theorem mmr_pure_relevance:
  "0 < k \<Longrightarrow> MMR docs 1 k = map mVideoID (take (nat k) (SliceStable mmr_before docs))"
proof -
  assume k: "0 < k"
  let ?cand = "SliceStable mmr_before docs" and ?k = "min (nat k) (length docs)"
  have "mmr_loop 1 ?cand ?k (replicate (length ?cand) False) [] = [0..<0 + ?k]"
    by (rule loop_relevance) (simp_all add: by_relevance.sorted_SliceStable)
  then have "MMR docs 1 k = map (\<lambda>i. mVideoID (?cand ! i)) [0..<?k]"
    using k by (simp add: MMR_def Let_def)
  also have "\<dots> = map mVideoID (map ((!) ?cand) [0..<?k])" by simp
  also have "map ((!) ?cand) [0..<?k] = take (nat k) ?cand"
    by (rule nth_equalityI) simp_all
  finally show ?thesis .
qed

lemma mmr_pure_relevance_witness: "MMR sample_mmr 1 2 = map mVideoID (take 2 (SliceStable mmr_before sample_mmr))"
  using mmr_pure_relevance [of 2 sample_mmr] by simp

section \<open>The exploration slot\<close>

text \<open>The slot is a function of the seed, in range, and calibrated at the ends: it never fires for a
  share of zero, always for a share of one, and more often for a larger share.\<close>

theorem exploration_slot_in_range:
  assumes "0 < poolSize" and "poolSize < 2 ^ 63"
  shows "0 \<le> snd (ExplorationSlot seed eps poolSize) \<and> snd (ExplorationSlot seed eps poolSize) < poolSize
    \<and> \<not> fst (ExplorationSlot seed 0 poolSize) \<and> fst (ExplorationSlot seed 1 poolSize)
    \<and> (eps \<le> eps' \<longrightarrow> fst (ExplorationSlot seed eps poolSize) \<longrightarrow> ExplorationSlot seed eps' poolSize = ExplorationSlot seed eps poolSize)"
proof -
  have size: "uint (word_of_int poolSize :: 64 word) = poolSize"
    using assms by (simp add: uint_word_of_int take_bit_eq_mod)
  have idx: "0 \<le> uint (w mod word_of_int poolSize) \<and> uint (w mod word_of_int poolSize) < poolSize" for w :: "64 word"
    using assms(1) by (simp add: uint_mod_distrib size)
  have "unat (h AND 0x3FFF) < 16384" for h :: "64 word"
  proof -
    have "h AND 0x3FFF = take_bit 14 h" by (simp add: take_bit_eq_mask mask_numeral)
    then show ?thesis using take_bit_nat_less_exp [of 14 "unat h"] by (simp add: unsigned_take_bit_eq)
  qed
  then have "real (unat (hashSeed seed AND 0x3FFF)) < real 16384" by (simp only: of_nat_less_iff)
  then have draw: "real (unat (hashSeed seed AND 0x3FFF)) / 16384 < 1" by simp
  show ?thesis
    using assms(1) idx draw by (auto simp: ExplorationSlot_def Let_def)
qed

lemma exploration_slot_in_range_witness: "fst (ExplorationSlot ''s'' 1 7)"
  using exploration_slot_in_range [of 7 "''s''" 1 1] by simp

end
