(* ===== verification/Feeds.thy ===== *)
theory Feeds
  imports Search Diversity
begin

text \<open>
  \<open>internal/recommendation/service.go\<close> with \<open>queries/recommendations.sql\<close>: the composer that
  dedupes and caps a feed, and the related and home feeds of the simple mode. A request runs outside a transaction:
  \<open>fe_dbs i\<close> is the database its statement number \<open>i\<close> sees, \<open>None\<close> when PostgreSQL does not answer.
\<close>

section \<open>Statements\<close>

type_synonym feed_row = "uuid \<times> uuid option"

definition feed_row_of :: "document \<Rightarrow> feed_row" where
  "feed_row_of d = (d_video_id d, d_channel_id d)"

text \<open>A NULL among the tags of a row cannot be scanned into a \<open>[]string\<close>.\<close>

definition GetDocument :: "uuid \<Rightarrow> db \<Rightarrow> sql_error + document option" where
  "GetDocument vid s = (case find (\<lambda>d. d_video_id d = vid) (documents s) of None \<Rightarrow> Inr None
     | Some d \<Rightarrow> if None \<in> set (d_tags d) then Inl SqlError else Inr (Some d))"

definition published_before :: "document \<Rightarrow> document \<Rightarrow> bool" where
  "published_before a b \<longleftrightarrow> newer (d_published_at a) (d_published_at b)
     \<or> (d_published_at a = d_published_at b \<and> d_video_id a < d_video_id b)"

definition RelatedSameChannel :: "bool \<Rightarrow> uuid \<Rightarrow> uuid \<Rightarrow> int \<Rightarrow> db \<Rightarrow> sql_error + feed_row list" where
  "RelatedSameChannel hs ch vid lmt s = first_rows lmt (map feed_row_of (SliceStable published_before
     (filter (\<lambda>d. visible hs d \<and> d_channel_id d = Some ch \<and> d_video_id d \<noteq> vid) (documents s))))"

text \<open>What a comparison with a NULL leaves undecided counts for nothing.\<close>

definition overlap_of :: "string option \<Rightarrow> string option \<Rightarrow> string list \<Rightarrow> document \<Rightarrow> int" where
  "overlap_of category language tags d =
     (if category \<noteq> None \<and> d_category d = category then 1 else 0)
     + (if language \<noteq> None \<and> d_language d = language then 1 else 0)
     + int (length (remdups (filter (\<lambda>t. t \<in> set tags) (List.map_filter id (d_tags d)))))"

definition overlap_before :: "int \<times> document \<Rightarrow> int \<times> document \<Rightarrow> bool" where
  "overlap_before a b \<longleftrightarrow> fst a > fst b \<or> (fst a = fst b \<and> (d_views (snd a) > d_views (snd b)
     \<or> (d_views (snd a) = d_views (snd b) \<and> published_before (snd a) (snd b))))"

definition RelatedByOverlap ::
  "string option \<Rightarrow> string option \<Rightarrow> string list \<Rightarrow> bool \<Rightarrow> uuid \<Rightarrow> int \<Rightarrow> db \<Rightarrow> sql_error + (feed_row \<times> int) list" where
  "RelatedByOverlap category language tags hs vid lmt s =
     first_rows lmt (map (\<lambda>(n, d). (feed_row_of d, n)) (SliceStable overlap_before
       (map (\<lambda>d. (overlap_of category language tags d, d)) (filter (\<lambda>d. visible hs d \<and> d_video_id d \<noteq> vid
          \<and> ((category \<noteq> None \<and> d_category d = category) \<or> (language \<noteq> None \<and> d_language d = language)
             \<or> list_ex (\<lambda>t. Some t \<in> set (d_tags d)) tags)) (documents s)))))"

definition PopularEligible :: "bool \<Rightarrow> uuid list \<Rightarrow> int \<Rightarrow> db \<Rightarrow> sql_error + feed_row list" where
  "PopularEligible hs excl lmt s = first_rows lmt (map feed_row_of (SliceStable
     (\<lambda>a b. d_views a > d_views b \<or> (d_views a = d_views b \<and> published_before a b))
     (filter (\<lambda>d. visible hs d \<and> d_video_id d \<notin> set excl) (documents s))))"

text \<open>The sort key \<open>($3 IS NOT NULL AND d.language = $3)\<close>, read descending: NULL, which a document without
  a language gives, sorts before true, and true before false.\<close>

definition language_key :: "string option \<Rightarrow> document \<Rightarrow> nat" where
  "language_key pref d = (case pref of None \<Rightarrow> 0
     | Some l \<Rightarrow> (case d_language d of None \<Rightarrow> 2 | Some l' \<Rightarrow> if l' = l then 1 else 0))"

definition recent_before :: "string option \<Rightarrow> document \<Rightarrow> document \<Rightarrow> bool" where
  "recent_before pref a b \<longleftrightarrow> language_key pref a > language_key pref b
     \<or> (language_key pref a = language_key pref b \<and> published_before a b)"

definition HomeRecent :: "bool \<Rightarrow> uuid list \<Rightarrow> string option \<Rightarrow> int \<Rightarrow> db \<Rightarrow> sql_error + feed_row list" where
  "HomeRecent hs excl pref lmt s =
     (if \<not> pg_text_opt pref then Inl SqlError
      else first_rows lmt (map feed_row_of (SliceStable (recent_before pref)
        (filter (\<lambda>d. visible hs d \<and> d_video_id d \<notin> set excl) (documents s)))))"

text \<open>Hours since publication plus two. \<open>power\<close> of a negative number with the exponent 1.5 raises, and so does the
  division by the power of zero; every row that passes the conditions is scored before the sort.\<close>

definition gravity_hours :: "int \<Rightarrow> document \<Rightarrow> real" where
  "gravity_hours now d = real_of_int (now - doc_time d) / real_of_int nanos / 3600 + 2"

definition gravity_score :: "int \<Rightarrow> document \<Rightarrow> real" where
  "gravity_score now d = real_of_int (d_views d) / (gravity_hours now d powr (3 / 2))"

definition trending_before :: "string option \<Rightarrow> document \<times> real \<Rightarrow> document \<times> real \<Rightarrow> bool" where
  "trending_before pref a b \<longleftrightarrow> language_key pref (fst a) > language_key pref (fst b)
     \<or> (language_key pref (fst a) = language_key pref (fst b) \<and> (snd a > snd b
        \<or> (snd a = snd b \<and> d_video_id (fst a) < d_video_id (fst b))))"

definition HomeTrending :: "int \<Rightarrow> bool \<Rightarrow> uuid list \<Rightarrow> string option \<Rightarrow> int \<Rightarrow> db \<Rightarrow> sql_error + feed_row list" where
  "HomeTrending now hs excl pref lmt s =
     (let docs = filter (\<lambda>d. visible hs d \<and> d_video_id d \<notin> set excl) (documents s)
      in if \<not> pg_text_opt pref \<or> list_ex (\<lambda>d. gravity_hours now d \<le> 0) docs then Inl SqlError
         else first_rows lmt (map (\<lambda>(d, x). feed_row_of d)
           (SliceStable (trending_before pref) (map (\<lambda>d. (d, gravity_score now d)) docs))))"

definition ListEligibleByIDs :: "bool \<Rightarrow> uuid list \<Rightarrow> db \<Rightarrow> feed_row list" where
  "ListEligibleByIDs hs ids s = map feed_row_of (filter (\<lambda>d. visible hs d \<and> d_video_id d \<in> set ids) (documents s))"

section \<open>The composer\<close>

definition recDefaultLimit :: int where "recDefaultLimit = 20"
definition maxRelatedLimit :: int where "maxRelatedLimit = 50"
definition maxHomeLimit :: int where "maxHomeLimit = 100"
definition perChannelCap :: int where "perChannelCap = 2"
definition sameChannelCap :: int where "sameChannelCap = 2"

definition ReasonSubscribed :: string where "ReasonSubscribed = ''subscribed''"
definition ReasonSimilar :: string where "ReasonSimilar = ''similar''"
definition ReasonTrending :: string where "ReasonTrending = ''trending''"
definition ReasonCoWatch :: string where "ReasonCoWatch = ''co_watch''"
definition ReasonFresh :: string where "ReasonFresh = ''fresh''"
definition ReasonPopular :: string where "ReasonPopular = ''popular''"

record feed_cand =
  fcVideo :: uuid
  fcChannel :: "uuid option"
  fcReason :: string

record feed_item =
  itVideo :: string
  itScore :: real
  itReason :: string

record composer =
  cmLimit :: int
  cmSeen :: "uuid set"
  cmPerChan :: "uuid \<Rightarrow> int"
  cmExcludes :: "uuid list"
  cmPicks :: "feed_cand list"

definition newComposer :: "int \<Rightarrow> composer" where
  "newComposer lmt = \<lparr> cmLimit = lmt, cmSeen = {}, cmPerChan = (\<lambda>ch. 0), cmExcludes = [], cmPicks = [] \<rparr>"

definition exclude :: "uuid \<Rightarrow> composer \<Rightarrow> composer" where
  "exclude v c = c\<lparr> cmSeen := insert v (cmSeen c), cmExcludes := cmExcludes c @ [v] \<rparr>"

definition excluded :: "composer \<Rightarrow> uuid list" where
  "excluded c = cmExcludes c @ map fcVideo (cmPicks c)"

definition full :: "composer \<Rightarrow> bool" where
  "full c \<longleftrightarrow> int (length (cmPicks c)) \<ge> cmLimit c"

definition add_cand :: "feed_cand \<Rightarrow> composer \<Rightarrow> composer" where
  "add_cand cand c =
     (if full c \<or> fcVideo cand \<in> cmSeen c then c
      else (let pick = (\<lambda>c. c\<lparr> cmSeen := insert (fcVideo cand) (cmSeen c), cmPicks := cmPicks c @ [cand] \<rparr>)
            in case fcChannel cand of None \<Rightarrow> pick c
               | Some ch \<Rightarrow> if cmPerChan c ch \<ge> perChannelCap then c
                    else pick (c\<lparr> cmPerChan := (cmPerChan c)(ch := cmPerChan c ch + 1) \<rparr>)))"

definition add_all :: "feed_cand list \<Rightarrow> composer \<Rightarrow> composer" where
  "add_all cs c = fold add_cand cs c"

definition items :: "ext \<Rightarrow> composer \<Rightarrow> feed_item list" where
  "items X c =
     (let n = length (cmPicks c)
      in map (\<lambda>(i, p). \<lparr> itVideo = uuid_string X (fcVideo p), itScore = real (n - i) / real n, itReason = fcReason p \<rparr>)
           (zip [0..<n] (cmPicks c)))"

section \<open>The service, simple mode\<close>

record feed_response =
  rsItems :: "feed_item list"
  rsModelVersion :: string
  rsExperiment :: "assignment option"

record related_request =
  rrVideoID :: uuid
  rrLimit :: int
  rrHideSensitive :: bool
  rrUserID :: string
  rrSessionID :: string
  rrPersonalized :: bool

record home_request =
  hqLimit :: int
  hqHideSensitive :: bool
  hqLang :: string
  hqUserID :: string
  hqSessionID :: string
  hqPersonalized :: bool

text \<open>What a request runs in: the clocks of the database and of the process, the databases, what the reader of trending
  videos, the experiments and the reader of session videos give, each absent or present.\<close>

record feed_env =
  fe_dbnow :: int
  fe_now :: int
  fe_dbs :: "nat \<Rightarrow> db option"
  fe_trend :: "(string \<times> real) list option"
  fe_exp :: "registry option"
  fe_session :: "(string \<Rightarrow> string list) option"

definition query :: "feed_env \<Rightarrow> nat \<Rightarrow> (db \<Rightarrow> sql_error + 'a) \<Rightarrow> sql_error + 'a" where
  "query E i stmt = (case fe_dbs E i of None \<Rightarrow> Inl SqlError | Some s \<Rightarrow> stmt s)"

definition advancedMode :: "feed_env \<Rightarrow> bool" where
  "advancedMode E = (case query E 0 (\<lambda>s. Inr (ListServiceConfig s)) of Inl e \<Rightarrow> False
     | Inr rows \<Rightarrow> (case find (\<lambda>r. sc_key r = ''search_mode'') rows of None \<Rightarrow> False | Some r \<Rightarrow> sc_text r = ''advanced''))"

definition cand_of :: "string \<Rightarrow> feed_row \<Rightarrow> feed_cand" where
  "cand_of reason r = \<lparr> fcVideo = fst r, fcChannel = snd r, fcReason = reason \<rparr>"

definition feed_reply :: "feed_item list \<Rightarrow> feed_response" where
  "feed_reply its = \<lparr> rsItems = its, rsModelVersion = ''simple-v1'', rsExperiment = None \<rparr>"

definition relatedSimple :: "ext \<Rightarrow> feed_env \<Rightarrow> uuid \<Rightarrow> int \<Rightarrow> bool \<Rightarrow> sql_error + feed_response" where
  "relatedSimple X E videoID lmt0 hs =
     (let lmt = Limit lmt0 recDefaultLimit maxRelatedLimit
      in case query E 1 (GetDocument videoID) of Inl e \<Rightarrow> Inl e
         | Inr None \<Rightarrow> Inr (feed_reply [])
         | Inr (Some seed) \<Rightarrow>
            (let c0 = exclude videoID (newComposer lmt)
             in case (case d_channel_id seed of None \<Rightarrow> Inr []
                  | Some ch \<Rightarrow> query E 2 (RelatedSameChannel hs ch videoID sameChannelCap)) of Inl e \<Rightarrow> Inl e
                | Inr same \<Rightarrow>
                   (let c1 = add_all (map (cand_of ReasonSimilar) same) c0
                    in case (if full c1 then Inr []
                         else query E 3 (RelatedByOverlap (d_category seed) (d_language seed) (List.map_filter id (d_tags seed)) hs videoID
                           (int32 (lmt * 3)))) of Inl e \<Rightarrow> Inl e
                       | Inr overlap \<Rightarrow>
                          (let c2 = add_all (map (cand_of ReasonSimilar \<circ> fst) overlap) c1
                           in case (if full c2 then Inr [] else query E 4 (PopularEligible hs (excluded c2) (int32 lmt))) of Inl e \<Rightarrow> Inl e
                              | Inr popular \<Rightarrow> Inr (feed_reply (items X (add_all (map (cand_of ReasonPopular) popular) c2)))))))"

text \<open>\<open>redisTrendingCandidates\<close>: \<open>None\<close> is the nil that makes the caller fall back.\<close>

definition redisTrendingCandidates :: "ext \<Rightarrow> feed_env \<Rightarrow> bool \<Rightarrow> feed_cand list option" where
  "redisTrendingCandidates X E hs =
     (case fe_trend E of None \<Rightarrow> None
      | Some scored \<Rightarrow>
         (let ids = List.map_filter (\<lambda>sc. uuid_parse X (fst sc)) scored
          in if scored = [] \<or> ids = [] then None
             else (case query E 5 (\<lambda>s. Inr (ListEligibleByIDs hs ids s)) of Inl e \<Rightarrow> None
                | Inr rows \<Rightarrow>
                   (let eligible = map_of (rev rows);
                        cands = List.map_filter (\<lambda>id. map_option (\<lambda>ch. cand_of ReasonTrending (id, ch)) (eligible id)) ids
                    in if cands = [] then None else Some cands))))"

text \<open>The round robin: in round \<open>i\<close> the \<open>i\<close>-th of every stream that has one, until the feed is full or a round finds nothing.\<close>

definition round_of :: "'a list list \<Rightarrow> nat \<Rightarrow> 'a list" where
  "round_of streams i = List.map_filter (\<lambda>st. if i < length st then Some (st ! i) else None) streams"

function round_robin :: "feed_cand list list \<Rightarrow> nat \<Rightarrow> composer \<Rightarrow> composer" where
  "round_robin streams i c =
     (if full c \<or> \<not> list_ex (\<lambda>st. i < length st) streams then c
      else round_robin streams (i + 1) (add_all (round_of streams i) c))"
  by pat_completeness auto

lemma member_le_sum: "st \<in> set streams \<Longrightarrow> length st \<le> sum_list (map length streams)"
  by (induction streams) auto

termination round_robin
proof (relation "measure (\<lambda>(streams, i, c). sum_list (map length streams) - i)")
  fix streams :: "feed_cand list list" and i :: nat and c :: composer
  assume "\<not> (full c \<or> \<not> list_ex (\<lambda>st. i < length st) streams)"
  then obtain st where "st \<in> set streams" "i < length st" by (auto simp: list_ex_iff)
  then have "i < sum_list (map length streams)" using member_le_sum less_le_trans by blast
  then show "((streams, i + 1, add_all (round_of streams i) c), streams, i, c)
      \<in> measure (\<lambda>(streams, i, c). sum_list (map length streams) - i)" by simp
qed simp

declare round_robin.simps [simp del]

text \<open>The streams of the home feed, best first.\<close>

definition home_streams :: "ext \<Rightarrow> feed_env \<Rightarrow> int \<Rightarrow> bool \<Rightarrow> string \<Rightarrow> sql_error + feed_cand list list" where
  "home_streams X E fetch hs lang =
     (let language = OptStr lang
      in case (case redisTrendingCandidates X E hs of Some cands \<Rightarrow> Inr cands
           | None \<Rightarrow> map_rows (cand_of ReasonTrending) (query E 6 (HomeTrending (fe_dbnow E) hs [] language fetch))) of Inl e \<Rightarrow> Inl e
         | Inr trendingCands \<Rightarrow> (case query E 7 (HomeRecent hs [] language fetch) of Inl e \<Rightarrow> Inl e
             | Inr recent \<Rightarrow> (case query E 8 (PopularEligible hs [] fetch) of Inl e \<Rightarrow> Inl e
                 | Inr popular \<Rightarrow> Inr [trendingCands, map (cand_of ReasonFresh) recent, map (cand_of ReasonPopular) popular])))"

definition homeSimple :: "ext \<Rightarrow> feed_env \<Rightarrow> int \<Rightarrow> bool \<Rightarrow> string \<Rightarrow> sql_error + feed_response" where
  "homeSimple X E lmt0 hs lang =
     (let lmt = Limit lmt0 recDefaultLimit maxHomeLimit
      in case home_streams X E (int32 (lmt * 2)) hs lang of Inl e \<Rightarrow> Inl e
         | Inr streams \<Rightarrow> Inr (feed_reply (items X (round_robin streams 0 (newComposer lmt)))))"

section \<open>What the composer keeps\<close>

definition chan_count :: "uuid \<Rightarrow> feed_cand list \<Rightarrow> int" where
  "chan_count ch ps = int (length (filter (\<lambda>p. fcChannel p = Some ch) ps))"

definition composer_ok :: "composer \<Rightarrow> bool" where
  "composer_ok c \<longleftrightarrow> distinct (map fcVideo (cmPicks c)) \<and> cmSeen c = set (cmExcludes c) \<union> fcVideo ` set (cmPicks c)
     \<and> set (cmExcludes c) \<inter> fcVideo ` set (cmPicks c) = {} \<and> int (length (cmPicks c)) \<le> cmLimit c
     \<and> (\<forall>ch. cmPerChan c ch = chan_count ch (cmPicks c) \<and> chan_count ch (cmPicks c) \<le> 2)"

lemma chan_count_simps [simp]:
  "chan_count ch [] = 0"
  "chan_count ch (ps @ [p]) = chan_count ch ps + (if fcChannel p = Some ch then 1 else 0)"
  by (simp_all add: chan_count_def)

lemma composer_ok_new: "0 \<le> lmt \<Longrightarrow> composer_ok (newComposer lmt)"
  by (simp add: composer_ok_def newComposer_def)

lemma newComposer_simps [simp]: "cmLimit (newComposer lmt) = lmt" "cmPicks (newComposer lmt) = []"
  by (simp_all add: newComposer_def)

lemma composer_ok_exclude: "composer_ok c \<Longrightarrow> cmPicks c = [] \<Longrightarrow> composer_ok (exclude v c)"
  by (auto simp: composer_ok_def exclude_def)

lemma composer_ok_add: "composer_ok c \<Longrightarrow> composer_ok (add_cand x c)"
  by (auto simp: composer_ok_def add_cand_def full_def Let_def perChannelCap_def split: option.split)

lemma add_cand_simps [simp]:
  "cmLimit (add_cand x c) = cmLimit c" "cmExcludes (add_cand x c) = cmExcludes c"
  by (auto simp: add_cand_def Let_def split: option.split)

lemma add_all_simps [simp]:
  "add_all [] c = c" "add_all (x # xs) c = add_all xs (add_cand x c)" "add_all (xs @ ys) c = add_all ys (add_all xs c)"
  by (simp_all add: add_all_def)

lemma add_all_keeps [simp]: "cmLimit (add_all xs c) = cmLimit c" "cmExcludes (add_all xs c) = cmExcludes c"
  by (induction xs arbitrary: c) auto

lemma composer_ok_add_all: "composer_ok c \<Longrightarrow> composer_ok (add_all xs c)"
  by (induction xs arbitrary: c) (auto intro: composer_ok_add)

lemma picks_add: "set (cmPicks (add_cand x c)) \<subseteq> insert x (set (cmPicks c))"
  by (auto simp: add_cand_def Let_def split: option.split_asm if_split_asm)

lemma picks_add_all: "set (cmPicks (add_all xs c)) \<subseteq> set (cmPicks c) \<union> set xs"
proof (induction xs arbitrary: c)
  case (Cons x xs)
  then show ?case using picks_add [of x c] by fastforce
qed simp

text \<open>A candidate is served when it stands in the feed, is excluded, exceeds the cap of its channel, or the feed is full.\<close>

definition served :: "feed_cand \<Rightarrow> composer \<Rightarrow> bool" where
  "served x c \<longleftrightarrow> full c \<or> fcVideo x \<in> cmSeen c \<or> (\<exists>ch. fcChannel x = Some ch \<and> cmPerChan c ch \<ge> 2)"

lemma served_add: "served x (add_cand x c)"
  by (auto simp: served_def add_cand_def Let_def perChannelCap_def split: option.split)

lemma served_mono: "served x c \<Longrightarrow> served x (add_cand y c)"
  by (auto simp: served_def add_cand_def full_def Let_def split: option.split)

lemma served_mono_all: "served x c \<Longrightarrow> served x (add_all ys c)"
  by (induction ys arbitrary: c) (auto intro: served_mono)

lemma served_add_all: "x \<in> set xs \<Longrightarrow> served x (add_all xs c)"
  by (induction xs arbitrary: c) (auto intro: served_mono_all served_add)

section \<open>The round robin\<close>

lemma set_round_of: "x \<in> set (round_of streams i) \<longleftrightarrow> (\<exists>st \<in> set streams. i < length st \<and> x = st ! i)"
  by (auto simp: round_of_def map_filter_def image_iff split: if_split_asm)

lemma round_robin_adds: "\<exists>xs. round_robin streams i c = add_all xs c \<and> set xs \<subseteq> \<Union> (set ` set streams)"
proof (induction streams i c rule: round_robin.induct)
  case (1 streams i c)
  show ?case
  proof (cases "full c \<or> \<not> list_ex (\<lambda>st. i < length st) streams")
    case True
    then show ?thesis by (intro exI [of _ "[]"]) (subst round_robin.simps, simp)
  next
    case False
    with 1 obtain xs where xs: "round_robin streams (i + 1) (add_all (round_of streams i) c) = add_all xs (add_all (round_of streams i) c)"
      "set xs \<subseteq> \<Union> (set ` set streams)" by blast
    have "set (round_of streams i) \<subseteq> \<Union> (set ` set streams)" using nth_mem by (fastforce simp: set_round_of)
    then show ?thesis
      using xs False by (intro exI [of _ "round_of streams i @ xs"]) (subst round_robin.simps, simp)
  qed
qed

lemma round_robin_serves:
  "st \<in> set streams \<Longrightarrow> i \<le> j \<Longrightarrow> j < length st \<Longrightarrow> served (st ! j) (round_robin streams i c)"
proof (induction streams i c rule: round_robin.induct)
  case (1 streams i c)
  show ?case
  proof (cases "full c \<or> \<not> list_ex (\<lambda>st. i < length st) streams")
    case True
    moreover have "list_ex (\<lambda>st. i < length st) streams" using "1.prems" by (auto simp: list_ex_iff intro!: bexI [of _ st])
    ultimately show ?thesis by (subst round_robin.simps) (simp add: served_def)
  next
    case False
    then have eq: "round_robin streams i c = round_robin streams (i + 1) (add_all (round_of streams i) c)"
      by (subst round_robin.simps) simp
    show ?thesis
    proof (cases "i = j")
      case True
      obtain xs where xs: "round_robin streams (i + 1) (add_all (round_of streams i) c) = add_all xs (add_all (round_of streams i) c)"
        using round_robin_adds by blast
      have "st ! j \<in> set (round_of streams i)" using "1.prems" True by (auto simp: set_round_of)
      then show ?thesis unfolding eq xs by (intro served_mono_all served_add_all)
    next
      case ne: False
      then show ?thesis unfolding eq using "1.IH" [OF False] "1.prems" by simp
    qed
  qed
qed

section \<open>Statements that offer rows\<close>

definition offered :: "feed_env \<Rightarrow> bool \<Rightarrow> feed_cand \<Rightarrow> bool" where
  "offered E hs c \<longleftrightarrow> (\<exists>i s. fe_dbs E i = Some s \<and> (\<exists>d \<in> set (documents s). visible hs d
     \<and> fcVideo c = d_video_id d \<and> fcChannel c = d_channel_id d))"

text \<open>What the composition relies on: the rows of a statement are those of visible documents.\<close>

locale offers_rows =
  fixes stmt :: "db \<Rightarrow> sql_error + 'r list" and row :: "'r \<Rightarrow> feed_row" and hs :: bool
  assumes rows_visible: "stmt s = Inr rows \<Longrightarrow> r \<in> set rows \<Longrightarrow> \<exists>d \<in> set (documents s). visible hs d \<and> row r = feed_row_of d"
begin

lemma query_offers:
  assumes "query E i stmt = Inr rows" and "r \<in> set rows"
  shows "offered E hs (cand_of reason (row r))"
proof -
  obtain s where s: "fe_dbs E i = Some s" "stmt s = Inr rows"
    using assms(1) by (auto simp: query_def split: option.split_asm)
  obtain d where "d \<in> set (documents s)" "visible hs d" "row r = feed_row_of d" using rows_visible [OF s(2) assms(2)] by blast
  then show ?thesis
    unfolding offered_def using s(1) by (intro exI [of _ i] exI [of _ s]) (auto simp: cand_of_def feed_row_of_def)
qed

end

lemma first_rows_map: "first_rows n (map f xs) = Inr ys \<Longrightarrow> y \<in> set ys \<Longrightarrow> \<exists>x \<in> set xs. y = f x"
  by (drule first_rows_set, assumption) auto

interpretation same_channel: offers_rows "RelatedSameChannel hs ch vid lmt" id hs for hs ch vid lmt
  by unfold_locales (auto simp: RelatedSameChannel_def dest!: first_rows_map)

interpretation by_overlap: offers_rows "RelatedByOverlap cat lang tags hs vid lmt" fst hs for cat lang tags hs vid lmt
  by unfold_locales (auto simp: RelatedByOverlap_def dest!: first_rows_map)

interpretation most_viewed: offers_rows "PopularEligible hs excl lmt" id hs for hs excl lmt
  by unfold_locales (auto simp: PopularEligible_def dest!: first_rows_map)

interpretation most_recent: offers_rows "HomeRecent hs excl lang lmt" id hs for hs excl lang lmt
  by unfold_locales (auto simp: HomeRecent_def dest!: first_rows_map split: if_split_asm)

interpretation by_gravity: offers_rows "HomeTrending now hs excl lang lmt" id hs for now hs excl lang lmt
  by unfold_locales (auto simp: HomeTrending_def Let_def dest!: first_rows_map split: if_split_asm)

interpretation listed: offers_rows "\<lambda>s. Inr (ListEligibleByIDs hs ids s)" id hs for hs ids
  by unfold_locales (auto simp: ListEligibleByIDs_def)

section \<open>What a feed holds\<close>

text \<open>A feed composed of offered candidates: what every feed of the service is, with the excluded videos \<open>ex\<close>.\<close>

definition composed :: "ext \<Rightarrow> feed_env \<Rightarrow> bool \<Rightarrow> uuid set \<Rightarrow> int \<Rightarrow> feed_item list \<Rightarrow> bool" where
  "composed X E hs ex lmt its \<longleftrightarrow> (\<exists>c. its = items X c \<and> composer_ok c \<and> cmLimit c = lmt
     \<and> (\<forall>p \<in> set (cmPicks c). offered E hs p \<and> fcVideo p \<notin> ex))"

lemma items_Nil: "cmPicks c = [] \<Longrightarrow> items X c = []"
  by (simp add: items_def)

lemma composed_Nil: "0 \<le> lmt \<Longrightarrow> composed X E hs ex lmt []"
  unfolding composed_def
  by (intro exI [of _ "newComposer lmt"]) (simp add: items_def composer_ok_new)

lemma composed_add_all:
  assumes "0 \<le> lmt" and "\<And>p. p \<in> set xs \<Longrightarrow> offered E hs p"
  shows "composed X E hs {} lmt (items X (add_all xs (newComposer lmt)))"
    and "composed X E hs {v} lmt (items X (add_all xs (exclude v (newComposer lmt))))"
proof -
  have ok: "composer_ok (add_all xs (newComposer lmt))" "composer_ok (add_all xs (exclude v (newComposer lmt)))"
    using assms(1) by (auto intro!: composer_ok_add_all composer_ok_exclude composer_ok_new)
  have ex: "fcVideo p \<noteq> v" if "p \<in> set (cmPicks (add_all xs (exclude v (newComposer lmt))))" for p
    using ok(2) that by (auto simp: composer_ok_def exclude_def newComposer_def)
  show "composed X E hs {} lmt (items X (add_all xs (newComposer lmt)))"
    unfolding composed_def using ok assms(2) picks_add_all [of xs "newComposer lmt"]
    by (intro exI [of _ "add_all xs (newComposer lmt)"]) auto
  show "composed X E hs {v} lmt (items X (add_all xs (exclude v (newComposer lmt))))"
    unfolding composed_def using ok assms(2) ex picks_add_all [of xs "exclude v (newComposer lmt)"]
    by (intro exI [of _ "add_all xs (exclude v (newComposer lmt))"]) (auto simp: exclude_def)
qed

definition may_recommend :: "ext \<Rightarrow> feed_env \<Rightarrow> bool \<Rightarrow> string \<Rightarrow> bool" where
  "may_recommend X E hs v \<longleftrightarrow> (\<exists>i s. fe_dbs E i = Some s \<and> (\<exists>d \<in> set (documents s). visible hs d \<and> v = uuid_string X (d_video_id d)))"

text \<open>The items of a feed that stand, in the database \<open>s\<close>, for a video of the channel.\<close>

definition of_channel :: "ext \<Rightarrow> db \<Rightarrow> uuid \<Rightarrow> feed_item \<Rightarrow> bool" where
  "of_channel X s ch it \<longleftrightarrow> list_ex (\<lambda>d. d_channel_id d = Some ch \<and> itVideo it = uuid_string X (d_video_id d)) (documents s)"

definition at_rest :: "feed_env \<Rightarrow> db \<Rightarrow> bool" where
  "at_rest E s \<longleftrightarrow> (\<forall>i. fe_dbs E i = Some s \<or> fe_dbs E i = None) \<and> distinct (map d_video_id (documents s))"

lemma map_items: "map itVideo (items X c) = map (uuid_string X \<circ> fcVideo) (cmPicks c)"
  by (rule nth_equalityI) (auto simp: items_def Let_def)

lemma items_scores: "sorted_wrt (>) (map itScore (items X c)) \<and> list_all (\<lambda>it. 0 < itScore it \<and> itScore it \<le> 1) (items X c)"
proof -
  let ?n = "length (cmPicks c)"
  have "map itScore (items X c) = map (\<lambda>i. real (?n - i) / real ?n) [0..<?n]"
    by (rule nth_equalityI) (auto simp: items_def Let_def)
  moreover have "sorted_wrt (>) (map (\<lambda>i. real (?n - i) / real ?n) [0..<?n])"
    by (auto simp: sorted_wrt_iff_nth_less intro!: divide_strict_right_mono)
  moreover have "list_all (\<lambda>it. 0 < itScore it \<and> itScore it \<le> 1) (items X c)"
    by (auto simp: items_def Let_def list_all_iff in_set_zip divide_le_eq zero_less_divide_iff)
  ultimately show ?thesis by simp
qed

lemma composed_facts:
  assumes "composed X E hs ex lmt its" and "ext_ok X"
  shows "(\<forall>it \<in> set its. may_recommend X E hs (itVideo it)) \<and> distinct (map itVideo its) \<and> int (length its) \<le> lmt
    \<and> (\<forall>v \<in> ex. uuid_string X v \<notin> itVideo ` set its) \<and> sorted_wrt (>) (map itScore its)
    \<and> (at_rest E s \<longrightarrow> length (filter (of_channel X s ch) its) \<le> 2)"
proof -
  obtain c where c: "its = items X c" "composer_ok c" "cmLimit c = lmt"
    "\<And>p. p \<in> set (cmPicks c) \<Longrightarrow> offered E hs p \<and> fcVideo p \<notin> ex" using assms(1) by (auto simp: composed_def)
  have inj: "inj_on (uuid_string X) A" for A using uuid_string_inject [OF assms(2)] by (auto intro: inj_onI)
  have ids: "itVideo ` set its = (uuid_string X \<circ> fcVideo) ` set (cmPicks c)"
    using map_items [of X c] c(1) by (metis list.set_map)
  have len: "length its = length (cmPicks c)" using arg_cong [OF map_items [of X c], of length] c(1) by simp
  have may: "may_recommend X E hs (uuid_string X (fcVideo p))" if "p \<in> set (cmPicks c)" for p
    using c(4) [OF that] unfolding offered_def may_recommend_def by metis
  have "may_recommend X E hs (itVideo it)" if "it \<in> set its" for it
  proof -
    have "itVideo it \<in> (uuid_string X \<circ> fcVideo) ` set (cmPicks c)" using ids that by blast
    then show ?thesis using may by auto
  qed
  moreover have "distinct (map itVideo its)"
    using c(2) inj unfolding c(1) map_items by (auto simp: composer_ok_def distinct_map intro: comp_inj_on)
  moreover have "int (length its) \<le> lmt" using c(2,3) len by (simp add: composer_ok_def)
  moreover have "uuid_string X v \<notin> itVideo ` set its" if "v \<in> ex" for v
    using c(4) that uuid_string_inject [OF assms(2)] unfolding ids by auto
  moreover have "length (filter (of_channel X s ch) its) \<le> 2" if rest: "at_rest E s"
  proof -
    have fc: "fcChannel p = Some ch" if p: "p \<in> set (cmPicks c)" and of: "of_channel X s ch it" "itVideo it = uuid_string X (fcVideo p)" for p it
    proof -
      obtain d where d: "d \<in> set (documents s)" "d_channel_id d = Some ch" "d_video_id d = fcVideo p"
        using of uuid_string_inject [OF assms(2)] by (auto simp: of_channel_def list_ex_iff)
      obtain d' where "d' \<in> set (documents s)" "fcVideo p = d_video_id d'" "fcChannel p = d_channel_id d'"
        using c(4) [OF p] rest unfolding offered_def at_rest_def by (metis option.distinct(1) option.inject)
      moreover have "inj_on d_video_id (set (documents s))" using rest by (simp add: at_rest_def distinct_map)
      ultimately show ?thesis using d by (metis inj_onD)
    qed
    have "length (filter (of_channel X s ch) its) = length (filter (\<lambda>v. list_ex (\<lambda>d. d_channel_id d = Some ch
        \<and> v = uuid_string X (d_video_id d)) (documents s)) (map itVideo its))"
      by (simp add: filter_map comp_def of_channel_def [abs_def])
    also have "\<dots> = length (filter (\<lambda>p. list_ex (\<lambda>d. d_channel_id d = Some ch \<and> uuid_string X (fcVideo p) = uuid_string X (d_video_id d))
        (documents s)) (cmPicks c))"
      unfolding c(1) map_items by (simp add: filter_map comp_def)
    also have "\<dots> \<le> length (filter (\<lambda>p. fcChannel p = Some ch) (cmPicks c))"
    proof -
      let ?f = "\<lambda>p. list_ex (\<lambda>d. d_channel_id d = Some ch \<and> uuid_string X (fcVideo p) = uuid_string X (d_video_id d)) (documents s)"
      have "filter ?f (cmPicks c) = filter (\<lambda>p. fcChannel p = Some ch \<and> ?f p) (cmPicks c)"
        by (rule filter_cong [OF refl]) (use fc in \<open>auto simp: of_channel_def intro: feed_item.select_convs(1)\<close>)
      also have "\<dots> = filter ?f (filter (\<lambda>p. fcChannel p = Some ch) (cmPicks c))" by (simp add: conj_commute)
      finally have eq: "filter ?f (cmPicks c) = filter ?f (filter (\<lambda>p. fcChannel p = Some ch) (cmPicks c))" .
      show ?thesis unfolding eq by (rule length_filter_le)
    qed
    also have "\<dots> \<le> 2" using c(2) by (simp add: composer_ok_def chan_count_def)
    finally show ?thesis .
  qed
  ultimately show ?thesis using items_scores [of X c] c(1) by simp
qed

section \<open>The feeds of the simple mode\<close>

lemma limit_nonneg: "0 \<le> Limit v recDefaultLimit maxRelatedLimit" "0 \<le> Limit v recDefaultLimit maxHomeLimit"
  by (simp_all add: Limit_def recDefaultLimit_def maxRelatedLimit_def maxHomeLimit_def)

lemma offered_rows:
  assumes "\<And>r. r \<in> set rows \<Longrightarrow> offered E hs (cand_of reason (row r))" and "p \<in> set (map (cand_of reason \<circ> row) rows)"
  shows "offered E hs p"
  using assms by auto

lemma relatedSimple_composed:
  assumes "relatedSimple X E v lmt0 hs = Inr r"
  shows "composed X E hs {v} (Limit lmt0 recDefaultLimit maxRelatedLimit) (rsItems r)"
proof -
  let ?lmt = "Limit lmt0 recDefaultLimit maxRelatedLimit" and ?c0 = "exclude v (newComposer (Limit lmt0 recDefaultLimit maxRelatedLimit))"
  consider "rsItems r = []" | seed where "query E 1 (GetDocument v) = Inr (Some seed)"
    using assms by (auto simp: relatedSimple_def Let_def feed_reply_def split: sum.split_asm option.split_asm)
  then show ?thesis
  proof cases
    case 1
    then show ?thesis using composed_Nil limit_nonneg by metis
  next
    case 2
    obtain same where same: "(case d_channel_id seed of None \<Rightarrow> Inr [] | Some ch \<Rightarrow> query E 2 (RelatedSameChannel hs ch v sameChannelCap)) = Inr same"
      using assms 2 by (auto simp: relatedSimple_def Let_def split: sum.split_asm)
    define c1 where "c1 = add_all (map (cand_of ReasonSimilar) same) ?c0"
    obtain overlap where overlap: "(if full c1 then Inr [] else query E 3 (RelatedByOverlap (d_category seed) (d_language seed)
        (List.map_filter id (d_tags seed)) hs v (int32 (?lmt * 3)))) = Inr overlap"
      using assms 2 same by (auto simp: relatedSimple_def Let_def c1_def [symmetric] split: sum.split_asm)
    define c2 where "c2 = add_all (map (cand_of ReasonSimilar \<circ> fst) overlap) c1"
    obtain popular where popular: "(if full c2 then Inr [] else query E 4 (PopularEligible hs (excluded c2) (int32 ?lmt))) = Inr popular"
      using assms 2 same overlap by (auto simp: relatedSimple_def Let_def c1_def [symmetric] c2_def [symmetric] split: sum.split_asm)
    let ?xs = "map (cand_of ReasonSimilar) same @ map (cand_of ReasonSimilar \<circ> fst) overlap @ map (cand_of ReasonPopular) popular"
    have "rsItems r = items X (add_all ?xs ?c0)"
      using assms 2 same overlap popular
      by (auto simp: relatedSimple_def Let_def c1_def [symmetric] c2_def [symmetric] feed_reply_def)
    moreover have "offered E hs p" if "p \<in> set ?xs" for p
      using that same overlap popular same_channel.query_offers [of E 2 hs _ v sameChannelCap]
        by_overlap.query_offers [of E 3] most_viewed.query_offers [of E 4 hs]
      by (auto split: option.split_asm if_split_asm)
    ultimately show ?thesis using composed_add_all(2) [OF limit_nonneg(1)] by metis
  qed
qed

lemma redis_offered: "redisTrendingCandidates X E hs = Some cs \<Longrightarrow> p \<in> set cs \<Longrightarrow> offered E hs p"
proof -
  assume r: "redisTrendingCandidates X E hs = Some cs" and p: "p \<in> set cs"
  then obtain ids rows where rows: "query E 5 (\<lambda>s. Inr (ListEligibleByIDs hs ids s)) = Inr rows"
    and cs: "cs = List.map_filter (\<lambda>id. map_option (\<lambda>ch. cand_of ReasonTrending (id, ch)) (map_of (rev rows) id)) ids"
    by (auto simp: redisTrendingCandidates_def Let_def split: option.split_asm if_split_asm sum.split_asm)
  obtain id ch where "p = cand_of ReasonTrending (id, ch)" "map_of (rev rows) id = Some ch"
    using p by (auto simp: cs map_filter_def)
  then show "offered E hs p" using listed.query_offers [OF rows] by (auto dest!: map_of_SomeD)
qed

lemma home_streams_offered:
  assumes "home_streams X E fetch hs lang = Inr streams" and "st \<in> set streams" and "p \<in> set st"
  shows "offered E hs p"
  using assms redis_offered [of X E hs] by_gravity.query_offers [of E 6 _ hs] most_recent.query_offers [of E 7 hs]
    most_viewed.query_offers [of E 8 hs]
  by (auto simp: home_streams_def Let_def map_rows_def split: option.split_asm sum.split_asm)

lemma homeSimple_streams:
  assumes "homeSimple X E lmt0 hs lang = Inr r"
  obtains streams where "home_streams X E (int32 (Limit lmt0 recDefaultLimit maxHomeLimit * 2)) hs lang = Inr streams"
    "rsItems r = items X (round_robin streams 0 (newComposer (Limit lmt0 recDefaultLimit maxHomeLimit)))"
  using assms by (auto simp: homeSimple_def Let_def feed_reply_def split: sum.split_asm)

lemma homeSimple_composed:
  assumes "homeSimple X E lmt0 hs lang = Inr r"
  shows "composed X E hs {} (Limit lmt0 recDefaultLimit maxHomeLimit) (rsItems r)"
proof -
  let ?lmt = "Limit lmt0 recDefaultLimit maxHomeLimit"
  from homeSimple_streams [OF assms] obtain streams where
    st: "home_streams X E (int32 (?lmt * 2)) hs lang = Inr streams" and its: "rsItems r = items X (round_robin streams 0 (newComposer ?lmt))" .
  obtain xs where xs: "round_robin streams 0 (newComposer ?lmt) = add_all xs (newComposer ?lmt)" "set xs \<subseteq> \<Union> (set ` set streams)"
    using round_robin_adds [of streams 0 "newComposer ?lmt"] by (elim exE conjE) (rule that)
  have "offered E hs p" if "p \<in> set xs" for p using home_streams_offered [OF st] xs(2) that by blast
  from composed_add_all(1) [OF limit_nonneg(2) this] show ?thesis unfolding its xs(1) by simp
qed

lemma two_of_channel:
  assumes "chan_count ch ps \<ge> 2" and "distinct (map fcVideo ps)"
  obtains y z where "y \<in> set ps" "z \<in> set ps" "fcVideo y \<noteq> fcVideo z" "fcChannel y = Some ch" "fcChannel z = Some ch"
proof -
  let ?f = "filter (\<lambda>p. fcChannel p = Some ch) ps"
  have d: "distinct (map fcVideo ?f)" using assms(2) by (simp add: distinct_map_filter)
  have l: "Suc 0 < length ?f" using assms(1) by (simp add: chan_count_def)
  then have "?f \<noteq> []" by (metis length_0_conv not_less_zero)
  then have "fcVideo (?f ! 0) \<noteq> fcVideo (?f ! 1)" using nth_eq_iff_index_eq [OF d, of 0 1] l by simp
  moreover have "?f ! 0 \<in> set ?f" using l by (intro nth_mem) linarith
  moreover have "?f ! 1 \<in> set ?f" using l by (intro nth_mem) linarith
  ultimately show ?thesis using l that [of "?f ! 0" "?f ! 1"] by simp
qed

text \<open>The home feed leaves nothing out without a reason. A feed shorter than its limit holds every candidate its three streams
  fetched, except for a video whose channel already has two others in the feed: the round robin stops for no other reason.\<close>

theorem home_feed_complete:
  assumes "homeSimple X E lmt0 hs lang = Inr r"
    and "home_streams X E (int32 (Limit lmt0 recDefaultLimit maxHomeLimit * 2)) hs lang = Inr streams"
    and "x \<in> set (concat streams)"
  shows "int (length (rsItems r)) = Limit lmt0 recDefaultLimit maxHomeLimit
    \<or> uuid_string X (fcVideo x) \<in> set (map itVideo (rsItems r))
    \<or> (\<exists>(y :: feed_cand) (z :: feed_cand) ch. fcChannel x = Some ch \<and> fcChannel y = Some ch \<and> fcChannel z = Some ch \<and> fcVideo y \<noteq> fcVideo z
         \<and> {uuid_string X (fcVideo y), uuid_string X (fcVideo z)} \<subseteq> set (map itVideo (rsItems r)))"
proof -
  let ?lmt = "Limit lmt0 recDefaultLimit maxHomeLimit"
  define c where "c = round_robin streams 0 (newComposer ?lmt)"
  have its: "rsItems r = items X c" using homeSimple_streams [OF assms(1)] assms(2) by (auto simp: c_def)
  obtain xs where xs: "c = add_all xs (newComposer ?lmt)" unfolding c_def using round_robin_adds by blast
  have ok: "composer_ok c" unfolding xs by (intro composer_ok_add_all composer_ok_new limit_nonneg)
  have seen: "cmSeen c = fcVideo ` set (cmPicks c)" using ok by (simp add: composer_ok_def xs newComposer_def)
  have ids: "set (map itVideo (rsItems r)) = uuid_string X ` fcVideo ` set (cmPicks c)" unfolding its map_items by (simp add: image_comp)
  have len: "length (rsItems r) = length (cmPicks c)" using arg_cong [OF map_items [of X c], of length] its by simp
  obtain st j where "st \<in> set streams" "j < length st" "x = st ! j" using assms(3) by (auto simp: in_set_conv_nth)
  then have "served x c" unfolding c_def using round_robin_serves [of st streams 0 j] by simp
  then consider "full c" | "fcVideo x \<in> cmSeen c" | ch where "fcChannel x = Some ch" "cmPerChan c ch \<ge> 2" unfolding served_def by blast
  then show ?thesis
  proof cases
    case 1
    then have "int (length (rsItems r)) = ?lmt" using ok len by (simp add: full_def composer_ok_def xs)
    then show ?thesis ..
  next
    case 2
    then show ?thesis using seen ids by blast
  next
    case 3
    have "chan_count ch (cmPicks c) \<ge> 2" "distinct (map fcVideo (cmPicks c))" using ok 3(2) by (simp_all add: composer_ok_def)
    then obtain y z where yz: "y \<in> set (cmPicks c)" "z \<in> set (cmPicks c)" "fcVideo y \<noteq> fcVideo z" "fcChannel y = Some ch" "fcChannel z = Some ch"
      by (rule two_of_channel)
    then have "{uuid_string X (fcVideo y), uuid_string X (fcVideo z)} \<subseteq> set (map itVideo (rsItems r))" unfolding ids by blast
    then show ?thesis using 3(1) yz by blast
  qed
qed

section \<open>A publication date in the future\<close>

lemma gravity_hours_neg: "gravity_hours now d \<le> 0 \<longleftrightarrow> now + hours 2 \<le> doc_time d"
proof -
  have "gravity_hours now d \<le> 0 \<longleftrightarrow> real_of_int (now - doc_time d) \<le> - real_of_int (2 * 3600 * nanos)"
    by (simp add: gravity_hours_def nanos_def divide_le_eq le_divide_eq field_simps)
  also have "\<dots> \<longleftrightarrow> now - doc_time d \<le> - (2 * 3600 * nanos)" by (metis of_int_le_iff of_int_minus)
  finally show ?thesis by (auto simp: hours_def)
qed

text \<open>C30. One publication date in the future takes the home feed down. When Redis has no trending list to offer and every statement
  gets through, the home feed of the simple mode answers exactly when no visible document is dated two hours or
  more ahead of the database's clock: for such a document the gravity score raises the power of a number that is not positive.\<close>

theorem home_feed_answers_iff:
  assumes "\<And>i. fe_dbs E i = Some s" and "redisTrendingCandidates X E hs = None" and "pg_text_opt (OptStr lang)"
  shows "(\<exists>r. homeSimple X E lmt hs lang = Inr r) \<longleftrightarrow>
    list_all (\<lambda>d. visible hs d \<longrightarrow> doc_time d < fe_dbnow E + hours 2) (documents s)"
proof -
  let ?n = "Limit lmt recDefaultLimit maxHomeLimit * 2"
  have n: "int32 ?n = ?n" "0 \<le> ?n"
    using limit_nonneg(2) [of lmt] by (auto intro!: int32_id simp: in_int32_def Limit_def recDefaultLimit_def maxHomeLimit_def)
  have rows: "\<exists>rows. first_rows ?n xs = Inr rows" for xs :: "feed_row list" using n(2) by (auto simp: first_rows_def page_of_def)
  have recent: "\<exists>rows. query E 7 (HomeRecent hs [] (OptStr lang) ?n) = Inr rows"
    using rows assms(1,3) by (simp add: query_def HomeRecent_def)
  have popular: "\<exists>rows. query E 8 (PopularEligible hs [] ?n) = Inr rows"
    using rows assms(1) by (simp add: query_def PopularEligible_def)
  have trending: "(\<exists>rows. query E 6 (HomeTrending (fe_dbnow E) hs [] (OptStr lang) ?n) = Inr rows)
      \<longleftrightarrow> list_all (\<lambda>d. visible hs d \<longrightarrow> doc_time d < fe_dbnow E + hours 2) (documents s)"
    using rows assms(1,3) by (auto simp: query_def HomeTrending_def Let_def gravity_hours_neg list_ex_iff list_all_iff not_le)
  have "(\<exists>r. homeSimple X E lmt hs lang = Inr r) \<longleftrightarrow> (\<exists>rows. query E 6 (HomeTrending (fe_dbnow E) hs [] (OptStr lang) ?n) = Inr rows)"
    using recent popular assms(2) by (auto simp: homeSimple_def home_streams_def Let_def n(1) map_rows_def split: sum.splits)
  then show ?thesis using trending by simp
qed

section \<open>Documents without a language\<close>

interpretation by_recency: strict_weak_order "recent_before pref" for pref
  by unfold_locales (auto simp: recent_before_def published_before_def newer_def split: option.split_asm)

text \<open>A preferred language prefers documents that have none. Of the recent videos fetched for a language, no video that names that language
  comes before one that names no language at all, although the statement is meant to put the same language first: a
  comparison with NULL sorts before true in a descending order.\<close>

theorem unlabelled_before_preferred:
  assumes "HomeRecent hs excl (Some lang) lmt s = Inr rows"
  shows "\<exists>ds. rows = map feed_row_of ds \<and> set ds \<subseteq> set (documents s)
    \<and> sorted_wrt (\<lambda>a b. d_language a = Some lang \<longrightarrow> d_language b \<noteq> None) ds"
proof -
  let ?ds = "SliceStable (recent_before (Some lang)) (filter (\<lambda>d. visible hs d \<and> d_video_id d \<notin> set excl) (documents s))"
  have rows: "rows = map feed_row_of (take (nat lmt) ?ds)"
    using assms by (auto simp: HomeRecent_def first_rows_def page_of_def take_map split: if_split_asm)
  have "sorted_wrt (\<lambda>a b. \<not> recent_before (Some lang) b a) (take (nat lmt) ?ds)"
    by (rule sorted_wrt_take) (rule by_recency.sorted_SliceStable)
  then have "sorted_wrt (\<lambda>a b. d_language a = Some lang \<longrightarrow> d_language b \<noteq> None) (take (nat lmt) ?ds)"
    by (rule sorted_wrt_mono_rel [rotated]) (auto simp: recent_before_def language_key_def split: option.split_asm)
  then show ?thesis using rows by (intro exI [of _ "take (nat lmt) ?ds"]) (auto dest: in_set_takeD)
qed

end
