(* ===== verification/FeedsAdvanced.thy ===== *)
theory FeedsAdvanced
  imports Feeds
begin

text \<open>
  \<open>internal/recommendation/advanced.go\<close>: the advanced feeds. Candidates of several generators are merged by
  video, filtered and scored on their documents, diversified, given at most one exploration video and composed under
  the cap per channel. Scores are reals.
\<close>

section \<open>Candidates\<close>

definition recWBase :: real where "recWBase = 1"
definition recWAffinity :: real where "recWAffinity = 6 / 10"
definition recWChannel :: real where "recWChannel = 4 / 10"
definition recWFresh :: real where "recWFresh = 3 / 10"
definition recMMRLambda :: real where "recMMRLambda = 7 / 10"
definition recExploreEpsilon :: real where "recExploreEpsilon = 1 / 10"
definition recFreshMaxViews :: int where "recFreshMaxViews = 100"
definition recSubscribedThreshold :: real where "recSubscribedThreshold = 8 / 10"
definition recFreshnessHalfLifeDays :: real where "recFreshnessHalfLifeDays = 30"

definition prioPopular :: int where "prioPopular = 0"
definition prioFresh :: int where "prioFresh = 1"
definition prioTrending :: int where "prioTrending = 1"
definition prioSimilar :: int where "prioSimilar = 2"
definition prioCoWatch :: int where "prioCoWatch = 3"

record adv_cand =
  acId :: uuid
  acChannel :: "uuid option"
  acBase :: real
  acReason :: string
  acPriority :: int
  acTokens :: "string set"
  acViews :: real
  acAge :: real
  acEligible :: bool
  acAffinity :: real
  acChannelAff :: real

text \<open>The set points to its candidates: a candidate is changed by changing its entry in \<open>csByID\<close>.\<close>

record candidate_set =
  csByID :: "uuid \<Rightarrow> adv_cand option"
  csExclude :: "uuid set"
  csOrder :: "uuid list"

definition newCandidateSet :: candidate_set where
  "newCandidateSet = \<lparr> csByID = (\<lambda>v. None), csExclude = {}, csOrder = [] \<rparr>"

definition skip :: "uuid \<Rightarrow> candidate_set \<Rightarrow> candidate_set" where
  "skip v cs = cs\<lparr> csExclude := insert v (csExclude cs) \<rparr>"

definition new_cand :: "uuid \<Rightarrow> uuid option \<Rightarrow> real \<Rightarrow> string \<Rightarrow> int \<Rightarrow> adv_cand" where
  "new_cand v ch base reason prio = \<lparr> acId = v, acChannel = ch, acBase = base, acReason = reason, acPriority = prio, acTokens = {},
     acViews = 0, acAge = 0, acEligible = False, acAffinity = 0, acChannelAff = 0 \<rparr>"

definition cs_add :: "uuid \<times> uuid option \<times> real \<times> string \<times> int \<Rightarrow> candidate_set \<Rightarrow> candidate_set" where
  "cs_add = (\<lambda>(v, ch, base, reason, prio) cs.
     if v \<in> csExclude cs then cs
     else (case csByID cs v of
         Some cur \<Rightarrow>
           (let cur1 = (if prio > acPriority cur \<or> (prio = acPriority cur \<and> base > acBase cur)
                  then cur\<lparr> acReason := reason, acPriority := prio \<rparr> else cur);
                cur2 = (if base > acBase cur then cur1\<lparr> acBase := base \<rparr> else cur1)
            in cs\<lparr> csByID := (csByID cs)(v \<mapsto> cur2) \<rparr>)
       | None \<Rightarrow> cs\<lparr> csByID := (csByID cs)(v \<mapsto> new_cand v ch base reason prio), csOrder := csOrder cs @ [v] \<rparr>))"

definition cs_add_all :: "(uuid \<times> uuid option \<times> real \<times> string \<times> int) list \<Rightarrow> candidate_set \<Rightarrow> candidate_set" where
  "cs_add_all xs cs = fold cs_add xs cs"

section \<open>Statements\<close>

definition FreshLowViewEligible :: "bool \<Rightarrow> int \<Rightarrow> string option \<Rightarrow> int \<Rightarrow> db \<Rightarrow> sql_error + feed_row list" where
  "FreshLowViewEligible hs maxViews lang lmt s =
     (if \<not> pg_text_opt lang then Inl SqlError
      else first_rows lmt (map feed_row_of (SliceStable published_before (filter (\<lambda>d. visible hs d \<and> d_views d \<le> maxViews
        \<and> (case lang of None \<Rightarrow> True | Some l \<Rightarrow> d_language d = Some l)) (documents s)))))"

definition ListDocFeaturesByIDs :: "bool \<Rightarrow> uuid list \<Rightarrow> db \<Rightarrow> sql_error + document list" where
  "ListDocFeaturesByIDs hs ids s =
     (let docs = filter (\<lambda>d. visible hs d \<and> d_video_id d \<in> set ids) (documents s)
      in if list_ex (\<lambda>d. None \<in> set (d_tags d)) docs then Inl SqlError else Inr docs)"

definition RecentlyWatchedVideos :: "uuid \<Rightarrow> int \<Rightarrow> db \<Rightarrow> sql_error + uuid list" where
  "RecentlyWatchedVideos user lmt s = first_rows lmt (map wp_video_id (SliceStable
     (\<lambda>a b. wp_last_watched_at a > wp_last_watched_at b
        \<or> (wp_last_watched_at a = wp_last_watched_at b \<and> wp_video_id a < wp_video_id b))
     (filter (\<lambda>w. wp_user_id w = user) (user_watch_projection s))))"

section \<open>Scoring\<close>

definition tokensOf :: "string list \<Rightarrow> string option \<Rightarrow> string set" where
  "tokensOf tags category = (\<lambda>t. ''tag:'' @ t) ` set tags
     \<union> (case category of None \<Rightarrow> {} | Some c \<Rightarrow> if c \<noteq> [] then {''cat:'' @ c} else {})"

definition with_features :: "int \<Rightarrow> adv_cand \<Rightarrow> document \<Rightarrow> adv_cand" where
  "with_features now c d = c\<lparr> acEligible := True, acChannel := d_channel_id d, acViews := real_of_int (d_views d),
     acAge := AgeDays (d_published_at d) (d_source_updated_at d) now,
     acTokens := tokensOf (List.map_filter id (d_tags d)) (d_category d) \<rparr>"

definition fillAffinity :: "feed_env \<Rightarrow> uuid \<Rightarrow> adv_cand list \<Rightarrow> sql_error + adv_cand list" where
  "fillAffinity E uid cands =
     (case query E 14 (\<lambda>s. Inr (NeighborAffinity uid (map acId cands) s)) of Inl e \<Rightarrow> Inl e
      | Inr affRows \<Rightarrow> (case query E 15 (\<lambda>s. Inr (UserChannelAffinity uid s)) of Inl e \<Rightarrow> Inl e
          | Inr chanRows \<Rightarrow> Inr (map (\<lambda>c. c\<lparr> acAffinity := lookup0 affRows (acId c),
               acChannelAff := (case acChannel c of None \<Rightarrow> acChannelAff c | Some ch \<Rightarrow> lookup0 chanRows ch) \<rparr>) cands)))"

definition norm_by :: "real \<Rightarrow> real \<Rightarrow> real" where
  "norm_by v m = (if m > 0 then v / m else 0)"

definition max_of :: "(adv_cand \<Rightarrow> real) \<Rightarrow> adv_cand list \<Rightarrow> real" where
  "max_of f cands = foldl (\<lambda>m c. max m (f c)) 0 cands"

definition relevance :: "adv_cand list \<Rightarrow> adv_cand \<Rightarrow> real" where
  "relevance cands c = recWBase * norm_by (acBase c) (max_of acBase cands) + recWAffinity * norm_by (acAffinity c) (max_of acAffinity cands)
     + recWChannel * norm_by (acChannelAff c) (max_of acChannelAff cands)
     + recWFresh * exp (- ln 2 * acAge c / recFreshnessHalfLifeDays)"

definition with_reason :: "bool \<Rightarrow> adv_cand list \<Rightarrow> adv_cand \<Rightarrow> adv_cand" where
  "with_reason personalized cands c =
     (if personalized \<and> norm_by (acChannelAff c) (max_of acChannelAff cands) \<ge> recSubscribedThreshold
      then c\<lparr> acReason := ReasonSubscribed \<rparr> else c)"

definition mmr_docs :: "ext \<Rightarrow> adv_cand list \<Rightarrow> mmr_doc list" where
  "mmr_docs X cands = map (\<lambda>c. \<lparr> mVideoID = uuid_string X (acId c), mRelevance = relevance cands c, mTokens = acTokens c \<rparr>) cands"

text \<open>The exploration video is registered in the set and put in the fourth place.\<close>

definition insertExploration ::
  "ext \<Rightarrow> feed_env \<Rightarrow> string list \<Rightarrow> candidate_set \<Rightarrow> bool \<Rightarrow> string \<Rightarrow> string \<Rightarrow> int \<Rightarrow> string list \<times> candidate_set" where
  "insertExploration X E ordered cs hs lang subject lmt =
     (if subject = [] then (ordered, cs)
      else (case query E 16 (FreshLowViewEligible hs recFreshMaxViews (OptStr lang) (int32 (lmt * 2))) of Inl e \<Rightarrow> (ordered, cs)
        | Inr pool \<Rightarrow>
           (let fresh = filter (\<lambda>(v, ch). v \<notin> csExclude cs \<and> \<not> (case csByID cs v of None \<Rightarrow> False | Some c \<Rightarrow> acEligible c)) pool;
                (fire, idx) = ExplorationSlot subject recExploreEpsilon (int (length fresh))
            in if fresh = [] \<or> \<not> fire then (ordered, cs)
               else (let (v, ch) = fresh ! nat idx; slot = min 3 (length ordered)
                     in (take slot ordered @ uuid_string X v # drop slot ordered,
                         cs\<lparr> csByID := (csByID cs)(v \<mapsto> (new_cand v ch 0 ReasonFresh prioFresh)\<lparr> acEligible := True \<rparr>) \<rparr>)))))"

definition composed_cands :: "ext \<Rightarrow> string list \<Rightarrow> candidate_set \<Rightarrow> feed_cand list" where
  "composed_cands X ordered cs = List.map_filter (\<lambda>v. case uuid_parse X v of None \<Rightarrow> None
     | Some vid \<Rightarrow> (case csByID cs vid of None \<Rightarrow> None
         | Some c \<Rightarrow> if acEligible c then Some \<lparr> fcVideo = acId c, fcChannel = acChannel c, fcReason = acReason c \<rparr> else None)) ordered"

definition composeAdvanced ::
  "ext \<Rightarrow> feed_env \<Rightarrow> candidate_set \<Rightarrow> int \<Rightarrow> bool \<Rightarrow> string \<Rightarrow> bool \<Rightarrow> string \<Rightarrow> string \<Rightarrow> sql_error + feed_item list" where
  "composeAdvanced X E cs lmt hs userID personalized lang subject =
     (if csOrder cs = [] then Inr []
      else (case query E 13 (ListDocFeaturesByIDs hs (csOrder cs)) of Inl e \<Rightarrow> Inl e
        | Inr feats \<Rightarrow>
           (let eligible = List.map_filter (\<lambda>d. map_option (\<lambda>c. with_features (fe_now E) c d) (csByID cs (d_video_id d))) feats
            in if eligible = [] then Inr []
               else (case (if personalized then (case uuid_parse X userID of None \<Rightarrow> Inr eligible
                        | Some uid \<Rightarrow> fillAffinity E uid eligible) else Inr eligible) of Inl e \<Rightarrow> Inl e
                  | Inr cands \<Rightarrow>
                     (let cands' = map (with_reason personalized cands) cands;
                          cs' = cs\<lparr> csByID := csByID cs ++ map_of (map (\<lambda>c. (acId c, c)) cands') \<rparr>;
                          ordered = MMR (mmr_docs X cands) recMMRLambda (int (length cands));
                          (ordered', cs'') = insertExploration X E ordered cs' hs lang subject lmt
                      in Inr (items X (add_all (composed_cands X ordered' cs'') (newComposer lmt))))))))"

section \<open>The service\<close>

definition attachExperiment :: "feed_env \<Rightarrow> string \<Rightarrow> feed_response \<Rightarrow> feed_response" where
  "attachExperiment E subject resp = (case fe_exp E of None \<Rightarrow> resp
     | Some reg \<Rightarrow> (case Assign reg ''rec_ranker'' subject of None \<Rightarrow> resp | Some a \<Rightarrow> resp\<lparr> rsExperiment := Some a \<rparr>))"

definition advanced_reply :: "feed_env \<Rightarrow> string \<Rightarrow> feed_response" where
  "advanced_reply E subject = attachExperiment E subject \<lparr> rsItems = [], rsModelVersion = ''advanced-v1'', rsExperiment = None \<rparr>"

text \<open>What a generator adds; a neighbor comes without its channel.\<close>

definition near :: "(uuid \<times> real) list \<Rightarrow> (uuid \<times> uuid option \<times> real \<times> string \<times> int) list" where
  "near rows = map (\<lambda>(v, x). (v, None, x, ReasonCoWatch, prioCoWatch)) rows"

definition rated :: "real \<Rightarrow> string \<Rightarrow> int \<Rightarrow> feed_row list \<Rightarrow> (uuid \<times> uuid option \<times> real \<times> string \<times> int) list" where
  "rated base reason prio rows = map (\<lambda>(v, ch). (v, ch, base, reason, prio)) rows"

definition addSessionCoWatch :: "ext \<Rightarrow> feed_env \<Rightarrow> string \<Rightarrow> int \<Rightarrow> candidate_set \<Rightarrow> candidate_set" where
  "addSessionCoWatch X E sessionID lmt cs =
     (case fe_session E of None \<Rightarrow> cs
      | Some reader \<Rightarrow> if sessionID = [] then cs
          else (let seeds = ParseUUIDs (uuid_parse X) (reader sessionID)
                in if seeds = [] then cs
                   else (case query E 9 (NeighborsForSeeds seeds (int32 (lmt * 2))) of Inl e \<Rightarrow> cs
                     | Inr rows \<Rightarrow> cs_add_all (near rows) cs)))"

definition homeTrendingCandidates :: "ext \<Rightarrow> feed_env \<Rightarrow> bool \<Rightarrow> string \<Rightarrow> int \<Rightarrow> feed_row list" where
  "homeTrendingCandidates X E hs lang fetch =
     (case redisTrendingCandidates X E hs of Some cands \<Rightarrow> map (\<lambda>c. (fcVideo c, fcChannel c)) cands
      | None \<Rightarrow> (case query E 6 (HomeTrending (fe_dbnow E) hs [] (OptStr lang) fetch) of Inl e \<Rightarrow> [] | Inr rows \<Rightarrow> rows))"

text \<open>The candidates of the related feed: neighbors of the seed, its channel, overlap, the session, popular videos.\<close>

definition related_cands :: "ext \<Rightarrow> feed_env \<Rightarrow> related_request \<Rightarrow> int \<Rightarrow> document \<Rightarrow> sql_error + candidate_set" where
  "related_cands X E req lmt seed =
     (let vid = rrVideoID req; hs = rrHideSensitive req
      in case query E 10 (NeighborsForVideo vid (int32 (lmt * 4))) of Inl e \<Rightarrow> Inl e
         | Inr neighbors \<Rightarrow>
            (case (case d_channel_id seed of None \<Rightarrow> Inr [] | Some ch \<Rightarrow> query E 2 (RelatedSameChannel hs ch vid sameChannelCap)) of
                Inl e \<Rightarrow> Inl e
              | Inr same \<Rightarrow>
                 (case query E 3 (RelatedByOverlap (d_category seed) (d_language seed) (List.map_filter id (d_tags seed)) hs vid
                     (int32 (lmt * 3))) of Inl e \<Rightarrow> Inl e
                  | Inr overlap \<Rightarrow>
                     (let cs1 = cs_add_all (near (map (\<lambda>n. (nb_neighbor_id n, nb_score n)) neighbors)) (skip vid newCandidateSet);
                          cs2 = cs_add_all (rated (5 / 10) ReasonSimilar prioSimilar same) cs1;
                          cs3 = cs_add_all (map (\<lambda>((v, ch), n). (v, ch, real_of_int n, ReasonSimilar, prioSimilar)) overlap) cs2;
                          cs4 = addSessionCoWatch X E (rrSessionID req) lmt cs3
                      in case query E 4 (PopularEligible hs [vid] (int32 lmt)) of Inl e \<Rightarrow> Inl e
                         | Inr popular \<Rightarrow> Inr (cs_add_all (rated 0 ReasonPopular prioPopular popular) cs4)))))"

definition relatedAdvanced :: "ext \<Rightarrow> feed_env \<Rightarrow> related_request \<Rightarrow> sql_error + feed_response" where
  "relatedAdvanced X E req =
     (let lmt = Limit (rrLimit req) recDefaultLimit maxRelatedLimit; subject = SubjectOf (rrUserID req) (rrSessionID req);
          resp = advanced_reply E subject
      in case query E 1 (GetDocument (rrVideoID req)) of Inl e \<Rightarrow> Inl e
         | Inr None \<Rightarrow> Inr resp
         | Inr (Some seed) \<Rightarrow>
            (case related_cands X E req lmt seed of Inl e \<Rightarrow> Inl e
             | Inr cs \<Rightarrow>
                (case composeAdvanced X E cs lmt (rrHideSensitive req) (rrUserID req) (rrPersonalized req) [] subject of Inl e \<Rightarrow> Inl e
                 | Inr its \<Rightarrow> Inr (resp\<lparr> rsItems := its \<rparr>))))"

text \<open>The personal part of the home feed: what the user watched last is skipped, what goes with it is added.\<close>

definition home_personal :: "ext \<Rightarrow> feed_env \<Rightarrow> home_request \<Rightarrow> int \<Rightarrow> sql_error + candidate_set" where
  "home_personal X E req fetch =
     (case (if hqPersonalized req then uuid_parse X (hqUserID req) else None) of None \<Rightarrow> Inr newCandidateSet
      | Some uid \<Rightarrow> (case query E 11 (RecentlyWatchedVideos uid 200) of Inl e \<Rightarrow> Inl e
          | Inr watched \<Rightarrow> (case query E 12 (NeighborsForUserWatches uid fetch) of Inl e \<Rightarrow> Inl e
              | Inr neigh \<Rightarrow> Inr (cs_add_all (near neigh) (fold skip watched newCandidateSet)))))"

definition home_cands :: "ext \<Rightarrow> feed_env \<Rightarrow> home_request \<Rightarrow> int \<Rightarrow> sql_error + candidate_set" where
  "home_cands X E req lmt =
     (let fetch = int32 (lmt * 2); hs = hqHideSensitive req; lang = hqLang req
      in case home_personal X E req fetch of Inl e \<Rightarrow> Inl e
         | Inr cs0 \<Rightarrow>
            (let cs1 = cs_add_all (rated 1 ReasonTrending prioTrending (homeTrendingCandidates X E hs lang fetch)) cs0
             in case query E 7 (HomeRecent hs [] (OptStr lang) fetch) of Inl e \<Rightarrow> Inl e
                | Inr recent \<Rightarrow> (case query E 8 (PopularEligible hs [] fetch) of Inl e \<Rightarrow> Inl e
                    | Inr popular \<Rightarrow>
                       Inr (addSessionCoWatch X E (hqSessionID req) lmt (cs_add_all (rated 0 ReasonPopular prioPopular popular)
                         (cs_add_all (rated (5 / 10) ReasonFresh prioFresh recent) cs1))))))"

definition homeAdvanced :: "ext \<Rightarrow> feed_env \<Rightarrow> home_request \<Rightarrow> sql_error + feed_response" where
  "homeAdvanced X E req =
     (let lmt = Limit (hqLimit req) recDefaultLimit maxHomeLimit; subject = SubjectOf (hqUserID req) (hqSessionID req);
          resp = advanced_reply E subject
      in case home_cands X E req lmt of Inl e \<Rightarrow> Inl e
         | Inr cs \<Rightarrow>
            (case composeAdvanced X E cs lmt (hqHideSensitive req) (hqUserID req) (hqPersonalized req) (hqLang req) subject of Inl e \<Rightarrow> Inl e
             | Inr its \<Rightarrow> Inr (resp\<lparr> rsItems := its \<rparr>)))"

definition Related :: "ext \<Rightarrow> feed_env \<Rightarrow> related_request \<Rightarrow> sql_error + feed_response" where
  "Related X E req = (if advancedMode E then relatedAdvanced X E req
     else relatedSimple X E (rrVideoID req) (rrLimit req) (rrHideSensitive req))"

definition Home :: "ext \<Rightarrow> feed_env \<Rightarrow> home_request \<Rightarrow> sql_error + feed_response" where
  "Home X E req = (if advancedMode E then homeAdvanced X E req
     else homeSimple X E (hqLimit req) (hqHideSensitive req) (hqLang req))"

section \<open>Candidate sets\<close>

text \<open>Before it is scored, a set holds every candidate under its id, none that is excluded, and none that counts as eligible.\<close>

definition cs_ok :: "candidate_set \<Rightarrow> bool" where
  "cs_ok cs \<longleftrightarrow> (\<forall>v c. csByID cs v = Some c \<longrightarrow> acId c = v \<and> v \<notin> csExclude cs \<and> \<not> acEligible c)"

lemma cs_ok_new: "cs_ok newCandidateSet" "cs_ok (skip v newCandidateSet)" "cs_ok (fold skip vs newCandidateSet)"
proof -
  have "csByID (fold skip vs cs) = csByID cs" for cs by (induction vs arbitrary: cs) (simp_all add: skip_def)
  then show "cs_ok (fold skip vs newCandidateSet)" by (simp add: cs_ok_def newCandidateSet_def)
qed (simp_all add: cs_ok_def newCandidateSet_def skip_def)

lemma excluded_by [simp]:
  "csExclude newCandidateSet = {}" "csExclude (skip v cs) = insert v (csExclude cs)" "csExclude (fold skip vs cs) = set vs \<union> csExclude cs"
proof -
  show "csExclude (fold skip vs cs) = set vs \<union> csExclude cs" by (induction vs arbitrary: cs) (simp_all add: skip_def)
qed (simp_all add: newCandidateSet_def skip_def)

lemma cs_add_keeps: "csExclude (cs_add x cs) = csExclude cs \<and> (cs_ok cs \<longrightarrow> cs_ok (cs_add x cs))"
  by (cases x) (auto simp: cs_add_def cs_ok_def new_cand_def Let_def split: option.split)

lemma cs_add_all_keeps: "csExclude (cs_add_all xs cs) = csExclude cs \<and> (cs_ok cs \<longrightarrow> cs_ok (cs_add_all xs cs))"
  unfolding cs_add_all_def by (induction xs arbitrary: cs) (simp_all add: cs_add_keeps)

lemma addSessionCoWatch_keeps: "csExclude (addSessionCoWatch X E sid lmt cs) = csExclude cs \<and> (cs_ok cs \<longrightarrow> cs_ok (addSessionCoWatch X E sid lmt cs))"
  using cs_add_all_keeps by (auto simp: addSessionCoWatch_def Let_def split: option.split sum.split)

lemma related_cands_ok:
  assumes "related_cands X E req lmt seed = Inr cs"
  shows "cs_ok cs \<and> csExclude cs = {rrVideoID req}"
  using assms cs_ok_new(2) [of "rrVideoID req"]
  by (auto simp: related_cands_def Let_def cs_add_all_keeps addSessionCoWatch_keeps split: sum.split_asm)

text \<open>What the home feed hides.\<close>

definition hidden :: "ext \<Rightarrow> feed_env \<Rightarrow> home_request \<Rightarrow> uuid set" where
  "hidden X E req = (case (if hqPersonalized req then uuid_parse X (hqUserID req) else None) of None \<Rightarrow> {}
     | Some uid \<Rightarrow> (case query E 11 (RecentlyWatchedVideos uid 200) of Inl e \<Rightarrow> {} | Inr watched \<Rightarrow> set watched))"

lemma home_cands_ok:
  assumes "home_cands X E req lmt = Inr cs"
  shows "cs_ok cs \<and> csExclude cs = hidden X E req"
proof -
  obtain cs0 where cs0: "home_personal X E req (int32 (lmt * 2)) = Inr cs0"
    using assms by (auto simp: home_cands_def Let_def split: sum.split_asm)
  have "cs_ok cs0 \<and> csExclude cs0 = hidden X E req"
  proof (cases "if hqPersonalized req then uuid_parse X (hqUserID req) else None")
    case None
    then show ?thesis using cs0 cs_ok_new(1) by (auto simp: home_personal_def hidden_def)
  next
    case (Some uid)
    then show ?thesis using cs0 cs_ok_new(3)
      by (auto simp: home_personal_def hidden_def cs_add_all_keeps split: sum.split_asm)
  qed
  moreover obtain sid lmt' xs ys zs where "cs = addSessionCoWatch X E sid lmt' (cs_add_all xs (cs_add_all ys (cs_add_all zs cs0)))"
    using assms cs0 by (auto simp: home_cands_def Let_def simp del: map_map split: sum.split_asm)
  ultimately show ?thesis by (simp add: cs_add_all_keeps addSessionCoWatch_keeps)
qed

section \<open>What the composition takes\<close>

text \<open>A candidate that counts as eligible stands for a document a statement of the request read.\<close>

definition backed :: "feed_env \<Rightarrow> bool \<Rightarrow> uuid set \<Rightarrow> adv_cand \<Rightarrow> bool" where
  "backed E hs ex c \<longleftrightarrow> acId c \<notin> ex \<and> offered E hs \<lparr> fcVideo = acId c, fcChannel = acChannel c, fcReason = acReason c \<rparr>"

lemma offered_cong: "offered E hs p \<longleftrightarrow> offered E hs (p\<lparr> fcReason := r \<rparr>)"
  by (simp add: offered_def)

lemma backed_cong:
  "acId c' = acId c \<Longrightarrow> acChannel c' = acChannel c \<Longrightarrow> backed E hs ex c \<Longrightarrow> backed E hs ex c'"
  using offered_cong [of E hs "\<lparr> fcVideo = acId c, fcChannel = acChannel c, fcReason = acReason c \<rparr>" "acReason c'"]
  by (simp add: backed_def)

interpretation low_view: offers_rows "FreshLowViewEligible hs mx lang lmt" id hs for hs mx lang lmt
  by unfold_locales (auto simp: FreshLowViewEligible_def dest!: first_rows_map split: if_split_asm)

lemma backed_features:
  assumes "query E 13 (ListDocFeaturesByIDs hs ids) = Inr feats" and "d \<in> set feats" and "cs_ok cs"
    and "csByID cs (d_video_id d) = Some c"
  shows "backed E hs (csExclude cs) (with_features now c d)"
proof -
  obtain s where "fe_dbs E 13 = Some s" "d \<in> set (documents s)" "visible hs d"
    using assms(1,2) by (auto simp: query_def ListDocFeaturesByIDs_def Let_def split: option.split_asm if_split_asm)
  moreover have "acId c = d_video_id d" "d_video_id d \<notin> csExclude cs" using assms(3,4) by (auto simp: cs_ok_def)
  ultimately show ?thesis
    unfolding backed_def offered_def by (intro conjI exI [of _ 13] exI [of _ s] bexI [of _ d]) (simp_all add: with_features_def)
qed

lemma fillAffinity_keeps:
  "fillAffinity E uid cands = Inr cands' \<Longrightarrow> \<forall>c \<in> set cands. P (acId c) (acChannel c) \<Longrightarrow> \<forall>c \<in> set cands'. P (acId c) (acChannel c)"
  by (auto simp: fillAffinity_def split: sum.split_asm)

lemma fillAffinity_backed:
  assumes "fillAffinity E uid cands = Inr cands'" and "\<forall>c \<in> set cands. backed E hs ex c"
  shows "\<forall>c \<in> set cands'. backed E hs ex c"
proof
  fix c' assume "c' \<in> set cands'"
  then obtain c where "c \<in> set cands" "acId c' = acId c" "acChannel c' = acChannel c"
    using assms(1) by (auto simp: fillAffinity_def split: sum.split_asm)
  then show "backed E hs ex c'" using assms(2) backed_cong by blast
qed

lemma with_reason_backed: "backed E hs ex c \<Longrightarrow> backed E hs ex (with_reason p cands c)"
  by (rule backed_cong [of _ c]) (simp_all add: with_reason_def)

definition eligible_backed :: "feed_env \<Rightarrow> bool \<Rightarrow> uuid set \<Rightarrow> candidate_set \<Rightarrow> bool" where
  "eligible_backed E hs ex cs \<longleftrightarrow> (\<forall>v c. csByID cs v = Some c \<longrightarrow> acEligible c \<longrightarrow> backed E hs ex c)"

lemma scored_backed:
  assumes "cs_ok cs" and "\<forall>c \<in> set cands. backed E hs ex c"
  shows "eligible_backed E hs ex (cs\<lparr> csByID := csByID cs ++ map_of (map (\<lambda>c. (acId c, c)) cands) \<rparr>)"
  using assms by (auto simp: eligible_backed_def cs_ok_def map_add_def split: option.split_asm dest!: map_of_SomeD)

lemma pool_length:
  "query E i (FreshLowViewEligible hs mx lang (int32 n)) = Inr pool \<Longrightarrow> int (length pool) < 2 ^ 63"
proof -
  assume q: "query E i (FreshLowViewEligible hs mx lang (int32 n)) = Inr pool"
  have "length pool \<le> nat (int32 n)"
    using q by (auto simp: query_def FreshLowViewEligible_def first_rows_def page_of_def split: option.split_asm if_split_asm)
  moreover have "int32 n < 2 ^ 31" using int32_range [of n] by (simp add: in_int32_def)
  ultimately show ?thesis by simp
qed

lemma insertExploration_cases:
  assumes "insertExploration X E ordered cs hs lang subject lmt = (ordered', cs')"
  obtains "cs' = cs"
  | pool v ch where "query E 16 (FreshLowViewEligible hs recFreshMaxViews (OptStr lang) (int32 (lmt * 2))) = Inr pool"
      "(v, ch) \<in> set pool" "v \<notin> csExclude cs"
      "cs' = cs\<lparr> csByID := (csByID cs)(v \<mapsto> (new_cand v ch 0 ReasonFresh prioFresh)\<lparr> acEligible := True \<rparr>) \<rparr>"
proof (cases "query E 16 (FreshLowViewEligible hs recFreshMaxViews (OptStr lang) (int32 (lmt * 2)))")
  case (Inl e)
  then show ?thesis using assms that(1) by (auto simp: insertExploration_def split: if_split_asm)
next
  case (Inr pool)
  define fresh where "fresh = filter (\<lambda>(v, ch). v \<notin> csExclude cs \<and> \<not> (case csByID cs v of None \<Rightarrow> False | Some c \<Rightarrow> acEligible c)) pool"
  obtain fire idx where slot: "ExplorationSlot subject recExploreEpsilon (int (length fresh)) = (fire, idx)" by fastforce
  show ?thesis
  proof (cases "subject = [] \<or> fresh = [] \<or> \<not> fire")
    case True
    then show ?thesis using assms that(1) Inr slot
      by (auto simp: insertExploration_def Let_def fresh_def [symmetric] split: if_split_asm)
  next
    case False
    have "length fresh \<le> length pool" by (simp add: fresh_def)
    then have "0 < int (length fresh)" "int (length fresh) < 2 ^ 63" using False pool_length [OF Inr] by simp_all
    then have "0 \<le> idx \<and> idx < int (length fresh)" using exploration_slot_in_range [of "int (length fresh)"] slot by (metis snd_conv)
    then have mem: "fresh ! nat idx \<in> set fresh" by (intro nth_mem) linarith
    obtain v ch where pick: "fresh ! nat idx = (v, ch)" by fastforce
    have "cs' = cs\<lparr> csByID := (csByID cs)(v \<mapsto> (new_cand v ch 0 ReasonFresh prioFresh)\<lparr> acEligible := True \<rparr>) \<rparr>"
      using assms Inr slot False pick by (auto simp: insertExploration_def Let_def fresh_def [symmetric])
    then show ?thesis using that(2) Inr mem pick by (auto simp: fresh_def)
  qed
qed

lemma insertExploration_backed:
  assumes "insertExploration X E ordered cs hs lang subject lmt = (ordered', cs')" and "eligible_backed E hs (csExclude cs) cs"
  shows "eligible_backed E hs (csExclude cs) cs'"
  using assms(1)
proof (cases rule: insertExploration_cases)
  case 1
  then show ?thesis using assms by simp
next
  case (2 pool v ch)
  have "offered E hs (cand_of ReasonFresh (v, ch))" using low_view.query_offers [OF 2(1,2)] by simp
  then have "backed E hs (csExclude cs) ((new_cand v ch 0 ReasonFresh prioFresh)\<lparr> acEligible := True \<rparr>)"
    using 2(3) by (simp add: backed_def new_cand_def cand_of_def)
  then show ?thesis using assms(2) by (auto simp: eligible_backed_def 2(4))
qed

lemma in_map_filter: "y \<in> set (List.map_filter f xs) \<longleftrightarrow> (\<exists>x \<in> set xs. f x = Some y)"
  by (force simp: map_filter_def)

lemma composed_with:
  assumes "0 \<le> lmt" and "\<And>p. p \<in> set xs \<Longrightarrow> offered E hs p \<and> fcVideo p \<notin> ex"
  shows "composed X E hs ex lmt (items X (add_all xs (newComposer lmt)))"
  unfolding composed_def using assms(2) picks_add_all [of xs "newComposer lmt"] composer_ok_new [OF assms(1)]
  by (intro exI [of _ "add_all xs (newComposer lmt)"]) (auto intro: composer_ok_add_all)

lemma composed_cands_eligible:
  assumes "p \<in> set (composed_cands X ordered cs)"
  shows "\<exists>v c. csByID cs v = Some c \<and> acEligible c \<and> p = \<lparr> fcVideo = acId c, fcChannel = acChannel c, fcReason = acReason c \<rparr>"
proof -
  obtain v where v: "(case uuid_parse X v of None \<Rightarrow> None
     | Some vid \<Rightarrow> (case csByID cs vid of None \<Rightarrow> None
         | Some c \<Rightarrow> if acEligible c then Some \<lparr> fcVideo = acId c, fcChannel = acChannel c, fcReason = acReason c \<rparr> else None)) = Some p"
    using assms unfolding composed_cands_def in_map_filter by blast
  then show ?thesis by (cases "uuid_parse X v") (auto split: option.split_asm if_split_asm)
qed

lemma composed_cands_backed:
  "eligible_backed E hs ex cs \<Longrightarrow> p \<in> set (composed_cands X ordered cs) \<Longrightarrow> offered E hs p \<and> fcVideo p \<notin> ex"
  using composed_cands_eligible [of p X ordered cs] by (auto simp: eligible_backed_def backed_def)

lemma compose_composed:
  assumes "composeAdvanced X E cs lmt hs userID personalized lang subject = Inr its" and "cs_ok cs" and "0 \<le> lmt"
  shows "composed X E hs (csExclude cs) lmt its"
proof (cases "its = []")
  case True
  then show ?thesis using composed_Nil [OF assms(3)] by simp
next
  case False
  then have ne: "csOrder cs \<noteq> []" using assms(1) by (auto simp: composeAdvanced_def)
  then obtain feats where feats: "query E 13 (ListDocFeaturesByIDs hs (csOrder cs)) = Inr feats"
    using assms(1) by (auto simp: composeAdvanced_def split: sum.split_asm)
  define eligible where "eligible = List.map_filter (\<lambda>d. map_option (\<lambda>c. with_features (fe_now E) c d) (csByID cs (d_video_id d))) feats"
  have el: "\<forall>c \<in> set eligible. backed E hs (csExclude cs) c"
    using backed_features [OF feats _ assms(2)] by (auto simp: eligible_def in_map_filter)
  have ne': "eligible \<noteq> []" using assms(1) ne feats False by (auto simp: composeAdvanced_def eligible_def [symmetric])
  define aff where "aff = (if personalized then (case uuid_parse X userID of None \<Rightarrow> Inr eligible | Some uid \<Rightarrow> fillAffinity E uid eligible)
      else Inr eligible)"
  obtain cands where cands: "aff = Inr cands"
    using assms(1) ne feats ne' by (auto simp: composeAdvanced_def eligible_def [symmetric] aff_def [symmetric] split: sum.split_asm)
  have cb: "\<forall>c \<in> set cands. backed E hs (csExclude cs) c"
    using cands el fillAffinity_backed unfolding aff_def by (auto split: if_split_asm option.split_asm)
  define cs' where "cs' = cs\<lparr> csByID := csByID cs ++ map_of (map (\<lambda>c. (acId c, c)) (map (with_reason personalized cands) cands)) \<rparr>"
  have b': "eligible_backed E hs (csExclude cs) cs'"
    unfolding cs'_def using cb by (intro scored_backed [OF assms(2)]) (auto intro: with_reason_backed)
  obtain ordered' cs'' where ins: "insertExploration X E (MMR (mmr_docs X cands) recMMRLambda (int (length cands))) cs' hs lang subject lmt
      = (ordered', cs'')" by fastforce
  have "csExclude cs' = csExclude cs" by (simp add: cs'_def)
  then have b'': "eligible_backed E hs (csExclude cs) cs''" using insertExploration_backed [OF ins] b' by simp
  have "its = items X (add_all (composed_cands X ordered' cs'') (newComposer lmt))"
    using assms(1) ne feats ne' cands ins
    unfolding composeAdvanced_def eligible_def [symmetric] aff_def [symmetric]
    by (simp add: Let_def eligible_def [symmetric] aff_def [symmetric] cs'_def [symmetric] del: map_map)
  then show ?thesis using composed_with [OF assms(3)] composed_cands_backed [OF b''] by metis
qed

lemma relatedAdvanced_composed:
  assumes "relatedAdvanced X E req = Inr r"
  shows "composed X E (rrHideSensitive req) {rrVideoID req} (Limit (rrLimit req) recDefaultLimit maxRelatedLimit) (rsItems r)"
proof -
  have e: "rsItems (advanced_reply E sub) = []" for sub
    by (simp add: advanced_reply_def attachExperiment_def split: option.split)
  show ?thesis
    using assms composed_Nil [OF limit_nonneg(1)] related_cands_ok compose_composed [OF _ _ limit_nonneg(1)] e
    by (fastforce simp: relatedAdvanced_def Let_def split: sum.split_asm option.split_asm)
qed

lemma homeAdvanced_composed:
  assumes "homeAdvanced X E req = Inr r"
  shows "composed X E (hqHideSensitive req) (hidden X E req) (Limit (hqLimit req) recDefaultLimit maxHomeLimit) (rsItems r)"
proof -
  let ?lmt = "Limit (hqLimit req) recDefaultLimit maxHomeLimit"
  obtain cs where cs: "home_cands X E req ?lmt = Inr cs" using assms by (auto simp: homeAdvanced_def Let_def split: sum.split_asm)
  obtain its where "composeAdvanced X E cs ?lmt (hqHideSensitive req) (hqUserID req) (hqPersonalized req) (hqLang req)
      (SubjectOf (hqUserID req) (hqSessionID req)) = Inr its" "rsItems r = its"
    using assms cs by (auto simp: homeAdvanced_def Let_def split: sum.split_asm)
  then show ?thesis using compose_composed [OF _ _ limit_nonneg(2)] home_cands_ok [OF cs] by metis
qed

section \<open>Properties of the feeds\<close>

text \<open>C11. A related feed is sound in either mode. Every item is the id of a document that a statement of the request found eligible - and not
  sensitive, when the request hides those -; the feed keeps to its limit, repeats no video, never shows the
  video it is for, and lists its items by descending score; over a database at rest no channel has more than two items.\<close>

theorem related_feed_sound:
  assumes "Related X E req = Inr r" and "ext_ok X"
  shows "(\<forall>it \<in> set (rsItems r). may_recommend X E (rrHideSensitive req) (itVideo it)) \<and> distinct (map itVideo (rsItems r))
    \<and> int (length (rsItems r)) \<le> Limit (rrLimit req) recDefaultLimit maxRelatedLimit
    \<and> uuid_string X (rrVideoID req) \<notin> set (map itVideo (rsItems r)) \<and> sorted_wrt (>) (map itScore (rsItems r))
    \<and> (at_rest E s \<longrightarrow> length (filter (of_channel X s ch) (rsItems r)) \<le> 2)"
proof -
  have "composed X E (rrHideSensitive req) {rrVideoID req} (Limit (rrLimit req) recDefaultLimit maxRelatedLimit) (rsItems r)"
    using assms(1) relatedSimple_composed relatedAdvanced_composed by (auto simp: Related_def split: if_split_asm)
  from composed_facts [OF this assms(2)] show ?thesis by simp
qed

lemma hidden_watched:
  "hqPersonalized req \<Longrightarrow> uuid_parse X (hqUserID req) = Some uid \<Longrightarrow> query E 11 (RecentlyWatchedVideos uid 200) = Inr watched
    \<Longrightarrow> hidden X E req = set watched"
  by (simp add: hidden_def)

text \<open>C10. A home feed is sound in either mode. Every item is the id of a document that a statement of the request found eligible - and not
  sensitive, when the request hides those -; the feed keeps to its limit, repeats no video and lists its
  items by descending score; over a database at rest no channel has more than two items. And in the advanced mode a request
  that is personalized and names its user is shown none of the 200 most recently watched videos that the request read for that user; a request
  that is not personalized, and the simple mode, hide none.\<close>

theorem home_feed_sound:
  assumes "Home X E req = Inr r" and "ext_ok X"
  shows "(\<forall>it \<in> set (rsItems r). may_recommend X E (hqHideSensitive req) (itVideo it)) \<and> distinct (map itVideo (rsItems r))
    \<and> int (length (rsItems r)) \<le> Limit (hqLimit req) recDefaultLimit maxHomeLimit \<and> sorted_wrt (>) (map itScore (rsItems r))
    \<and> (at_rest E s \<longrightarrow> length (filter (of_channel X s ch) (rsItems r)) \<le> 2)
    \<and> (advancedMode E \<and> hqPersonalized req \<and> uuid_parse X (hqUserID req) = Some uid
        \<and> query E 11 (RecentlyWatchedVideos uid 200) = Inr watched \<longrightarrow>
        (\<forall>v \<in> set watched. uuid_string X v \<notin> set (map itVideo (rsItems r))))"
proof -
  have "composed X E (hqHideSensitive req) (if advancedMode E then hidden X E req else {})
      (Limit (hqLimit req) recDefaultLimit maxHomeLimit) (rsItems r)"
    using assms(1) homeSimple_composed homeAdvanced_composed by (auto simp: Home_def split: if_split_asm)
  from composed_facts [OF this assms(2)] show ?thesis by (auto simp: hidden_watched)
qed

section \<open>Two videos\<close>

definition pet_env :: feed_env where
  "pet_env = \<lparr> fe_dbnow = 0, fe_now = 0, fe_dbs = (\<lambda>i. Some two_cats), fe_trend = Some [(''2'', 9)], fe_exp = None, fe_session = None \<rparr>"

definition pet_related :: related_request where
  "pet_related = \<lparr> rrVideoID = 1, rrLimit = 0, rrHideSensitive = True, rrUserID = [], rrSessionID = [], rrPersonalized = False \<rparr>"

definition pet_home :: home_request where
  "pet_home = \<lparr> hqLimit = 0, hqHideSensitive = True, hqLang = [], hqUserID = [], hqSessionID = [], hqPersonalized = False \<rparr>"

definition pet_streams :: "feed_cand list list" where
  "pet_streams = [[cand_of ReasonTrending (2, None)], [cand_of ReasonFresh (1, None), cand_of ReasonFresh (2, None)],
     [cand_of ReasonPopular (1, None), cand_of ReasonPopular (2, None)]]"

lemma pet_limits: "Limit 0 recDefaultLimit maxHomeLimit = 20" "int32 40 = 40"
  by code_simp+

lemma pet_home_streams: "home_streams sample_ext pet_env 40 True [] = Inr pet_streams"
proof -
  have "redisTrendingCandidates sample_ext pet_env True = Some [cand_of ReasonTrending (2, None)]" by code_simp
  moreover have "query pet_env 7 (HomeRecent True [] (OptStr []) 40) = Inr [(1, None), (2, None)]" by code_simp
  moreover have "query pet_env 8 (PopularEligible True [] 40) = Inr [(1, None), (2, None)]" by code_simp
  ultimately show ?thesis by (simp add: home_streams_def Let_def pet_streams_def)
qed

definition pet_feed :: feed_response where
  "pet_feed = feed_reply (items sample_ext (round_robin pet_streams 0 (newComposer 20)))"

lemma pet_feed_items: "map (\<lambda>it. (itVideo it, itReason it)) (rsItems pet_feed) = [(''2'', ''trending''), (''1'', ''fresh'')]"
  by code_simp

lemma pet_simple: "advancedMode pet_env = False"
  by code_simp

lemma pet_home_simple: "homeSimple sample_ext pet_env 0 True [] = Inr pet_feed"
  by (simp add: homeSimple_def Let_def pet_limits pet_home_streams pet_feed_def)

lemma pet_home_answer: "Home sample_ext pet_env pet_home = Inr pet_feed"
  by (simp add: Home_def pet_simple pet_home_def pet_home_simple)

lemma home_feed_sound_witness:
  "map itVideo (rsItems pet_feed) = [''2'', ''1'']
   \<and> list_all (\<lambda>it. may_recommend sample_ext pet_env True (itVideo it)) (rsItems pet_feed)"
proof -
  have "map itVideo (rsItems pet_feed) = [''2'', ''1'']" using arg_cong [OF pet_feed_items, of "map fst"] by (simp add: comp_def)
  then show ?thesis
    using home_feed_sound [OF pet_home_answer ext_ok_sample] by (simp add: list_all_iff pet_home_def)
qed

definition pet_next :: feed_response where
  "pet_next = projr (relatedSimple sample_ext pet_env 1 0 True)"

lemma pet_next_answer: "Related sample_ext pet_env pet_related = Inr pet_next"
proof -
  have "case relatedSimple sample_ext pet_env 1 0 True of Inl e \<Rightarrow> False | Inr r \<Rightarrow> True" by code_simp
  then show ?thesis by (auto simp: Related_def pet_simple pet_related_def pet_next_def split: sum.split_asm)
qed

lemma related_feed_sound_witness:
  "map itVideo (rsItems pet_next) = [''2'']
   \<and> list_all (\<lambda>it. may_recommend sample_ext pet_env True (itVideo it)) (rsItems pet_next)"
proof -
  have "map itVideo (rsItems pet_next) = [''2'']" by code_simp
  then show ?thesis
    using related_feed_sound [OF pet_next_answer ext_ok_sample] by (simp add: list_all_iff pet_related_def)
qed

lemma home_feed_complete_witness: "''1'' \<in> set (map itVideo (rsItems pet_feed))"
proof -
  have "length (rsItems pet_feed) = 2" using arg_cong [OF pet_feed_items, of length] by simp
  moreover have "uuid_string sample_ext 1 = ''1''" by code_simp
  moreover have "cand_of ReasonFresh (1, None) \<in> set (concat pet_streams)" by (simp add: pet_streams_def)
  ultimately show ?thesis
    using home_feed_complete [OF pet_home_simple, of pet_streams "cand_of ReasonFresh (1, None)"]
    by (simp add: pet_limits pet_home_streams cand_of_def)
qed

definition plain_env :: "document list \<Rightarrow> feed_env" where
  "plain_env ds = \<lparr> fe_dbnow = 0, fe_now = 0, fe_dbs = (\<lambda>i. Some (empty_db\<lparr> documents := ds \<rparr>)), fe_trend = None, fe_exp = None,
     fe_session = None \<rparr>"

lemma home_feed_answers_iff_witness:
  "\<not> (\<exists>r. homeSimple sample_ext (plain_env [titled 1 ''cat'', (titled 2 ''Cat'')\<lparr> d_published_at := Some (hours 3) \<rparr>]) 0 False [] = Inr r)"
proof -
  have "\<not> list_all (\<lambda>d. visible False d \<longrightarrow> doc_time d < 0 + hours 2) [titled 1 ''cat'', (titled 2 ''Cat'')\<lparr> d_published_at := Some (hours 3) \<rparr>]"
    by code_simp
  then show ?thesis
    using home_feed_answers_iff [where s = "empty_db\<lparr> documents := [titled 1 ''cat'', (titled 2 ''Cat'')\<lparr> d_published_at := Some (hours 3) \<rparr>] \<rparr>"
        and E = "plain_env [titled 1 ''cat'', (titled 2 ''Cat'')\<lparr> d_published_at := Some (hours 3) \<rparr>]" and X = sample_ext and hs = False
        and lang = "[]" and lmt = 0]
    by (simp add: plain_env_def redisTrendingCandidates_def OptStr_def pg_text_opt_def)
qed

lemma unlabelled_before_preferred_witness:
  "\<exists>ds :: document list. [(2, None), (1, None)] = map feed_row_of ds
    \<and> sorted_wrt (\<lambda>a b. if d_language a = Some ''en'' then d_language b \<noteq> None else True) ds"
proof -
  have "HomeRecent False [] (Some ''en'') 5 (empty_db\<lparr> documents := [(titled 1 ''cat'')\<lparr> d_language := Some ''en'' \<rparr>, titled 2 ''Cat''] \<rparr>)
      = Inr [(2, None), (1, None)]" by code_simp
  from unlabelled_before_preferred [OF this] obtain ds :: "document list" where "[(2, None), (1, None)] = map feed_row_of ds"
    "sorted_wrt (\<lambda>a b. d_language a = Some ''en'' \<longrightarrow> d_language b \<noteq> None) ds" by (elim exE conjE) (rule that)
  then show ?thesis by (intro exI [of _ ds] conjI) (simp_all add: if_bool_eq_conj)
qed

end
