(* ===== verification/Api.thy ===== *)
theory Api
  imports System FeedsAdvanced Search
begin

text \<open>
  \<open>internal/api/handlers.go\<close> and \<open>server.go\<close>: the handlers, the routing table and the chain a request passes. A request
  changes one state, the database with Redis, the suggestion cache and the server's own state, and carries what it meets
  on its way: clocks, outcomes of transactions, what each of its statements finds. Echo's router, its body limit and
  \<open>Bind\<close> are parameters. Logging, metrics, \<open>Recover\<close> and the sockets are left out.
\<close>

section \<open>Requests\<close>

record request =
  rqMethod :: string
  rqPath :: string
  rqHeaders :: "(string \<times> string) list"
  rqQuery :: "(string \<times> string) list"
  rqBody :: "body option"

text \<open>\<open>c.QueryParam\<close>: the first value of the parameter, or nothing.\<close>

definition QueryParam :: "request \<Rightarrow> string \<Rightarrow> string" where
  "QueryParam rq name = (case map_of (rqQuery rq) name of Some v \<Rightarrow> v | None \<Rightarrow> [])"

record world =
  wDb :: db
  wRedis :: redis
  wCache :: suggest_cache
  wServer :: server

text \<open>What a request meets. \<open>caBind\<close> is what \<open>Bind\<close> makes of the body of an event batch; the two observations of the read
  fence are \<open>caBefore\<close> and \<open>caAfter\<close>; \<open>caLate\<close> says that the deadline passed.\<close>

record meeting =
  caNow :: int
  caWall :: int
  caClk :: "nat \<Rightarrow> int"
  caTx :: "bool \<times> bool"
  caUp :: bool
  caLate :: bool
  caHasRedis :: bool
  caRedisUp :: bool
  caStore :: bool
  caBefore :: "(store_error + status) option"
  caAfter :: "(store_error + status) option"
  caStatus :: "(store_error + status) option"
  caBind :: "envelope list option"
  caBodyFits :: bool
  caIter :: "(string \<times> scored_candidate) list \<Rightarrow> (string \<times> scored_candidate) list"
  caSuggest :: suggest_env
  caSearch :: search_env
  caFeed :: feed_env
  caFlushAt :: "nat \<Rightarrow> int"
  caSent :: "nat \<Rightarrow> nat"
  caNx :: "nat \<Rightarrow> bool"
  caRun :: "nat \<Rightarrow> bool"
  caPingDb :: "bool option"
  caPingRedis :: "bool option"
  caRequestID :: string

text \<open>What does not change between requests: the libraries, PostgreSQL, the event configuration and the secret.\<close>

record service =
  svX :: ext
  svP :: pg
  svLen :: "json \<Rightarrow> int"
  svEvents :: event_config
  svSecret :: string
  svMetrics :: bool

datatype reply = Suggestions suggest_response | Results search_response | Feed feed_response | Ingested result
  | HistoryPage history_page | BanPage banned_page | BanSet ban_response | NoContent | CatalogStatus status
  | Live | Ready int string | VersionInfo | MetricsPage

type_synonym handler = "service \<Rightarrow> meeting \<Rightarrow> (string \<Rightarrow> string) \<Rightarrow> request \<Rightarrow> world \<Rightarrow> (api_error + reply) \<times> world"

section \<open>Handlers\<close>

text \<open>The fenced reads share one shape: a first observation, the service, a second observation.\<close>

definition fenced :: "service \<Rightarrow> meeting \<Rightarrow> request \<Rightarrow> (fence \<Rightarrow> world \<Rightarrow> (api_error + reply) \<times> world) \<Rightarrow> world \<Rightarrow> (api_error + reply) \<times> world" where
  "fenced V C rq answer w =
     (case beginCatalogRead (svX V) (rqHeaders rq) (caBefore C) of
        Inl e \<Rightarrow> (Inl e, w)
      | Inr fence \<Rightarrow> (case answer fence w of
          (Inl e, w') \<Rightarrow> (Inl e, w')
        | (Inr r, w') \<Rightarrow> (case finishCatalogRead (svX V) (rqHeaders rq) (caAfter C) fence of
            Inl e \<Rightarrow> (Inl e, w') | Inr u \<Rightarrow> (Inr r, w'))))"

definition suggest_request_of :: "fence \<Rightarrow> request \<Rightarrow> suggest_request" where
  "suggest_request_of fence rq = \<lparr> sqFence = fst fence @ '':'' @ snd fence, sqQuery = QueryParam rq ''q'', sqLimit = qInt (QueryParam rq ''limit''),
     sqHideSensitive = qBool (QueryParam rq ''hide_sensitive''), sqPersonalized = qBool (QueryParam rq ''personalized''),
     sqIncludeHistory = qBool (QueryParam rq ''include_history''), sqLang = QueryParam rq ''lang'', sqUserID = QueryParam rq ''user_id'',
     sqSessionID = QueryParam rq ''session_id'', sqMode = QueryParam rq ''mode'' \<rparr>"

definition handleSuggestions :: handler where
  "handleSuggestions V C ps rq = fenced V C rq (\<lambda>fence w.
     (let (resp, cache') = Suggest (svX V) (svP V) (caIter C) (caSuggest C) (suggest_request_of fence rq) (wCache w)
      in (Inr (Suggestions resp), w\<lparr> wCache := cache' \<rparr>)))"

definition search_request_of :: "request \<Rightarrow> search_request" where
  "search_request_of rq = \<lparr> qQuery = QueryParam rq ''q'', qLimit = qInt (QueryParam rq ''limit''), qOffset = qInt (QueryParam rq ''offset''),
     qTag = QueryParam rq ''tag'', qCategory = QueryParam rq ''category'', qLanguage = QueryParam rq ''language'',
     qLicense = QueryParam rq ''license'', qHideSensitive = qBool (QueryParam rq ''hide_sensitive''), qMode = QueryParam rq ''mode'',
     qUserID = QueryParam rq ''user_id'', qSessionID = QueryParam rq ''session_id'', qPersonalized = qBool (QueryParam rq ''personalized''),
     qSkipCount = qBool (QueryParam rq ''skip_count'') \<rparr>"

text \<open>An error of a service is no error of the API's own.\<close>

definition failed :: "('r \<Rightarrow> reply) \<Rightarrow> sql_error + 'r \<Rightarrow> api_error + reply" where
  "failed f r = (case r of Inl e \<Rightarrow> Inl OtherError | Inr x \<Rightarrow> Inr (f x))"

definition handleSearch :: handler where
  "handleSearch V C ps rq = fenced V C rq (\<lambda>fence w.
     (failed Results (Search (svX V) (svP V) (caSearch C) (search_request_of rq)), w))"

definition handleRelated :: handler where
  "handleRelated V C ps rq w = (case queryUUID (svX V) ''video_id'' (QueryParam rq ''video_id'') of
     Inl e \<Rightarrow> (Inl e, w)
   | Inr video \<Rightarrow> fenced V C rq (\<lambda>fence w. (failed Feed (Related (svX V) (caFeed C)
        \<lparr> rrVideoID = video, rrLimit = qInt (QueryParam rq ''limit''), rrHideSensitive = qBool (QueryParam rq ''hide_sensitive''),
          rrUserID = QueryParam rq ''user_id'', rrSessionID = QueryParam rq ''session_id'',
          rrPersonalized = qBool (QueryParam rq ''personalized'') \<rparr>), w)) w)"

definition handleHome :: handler where
  "handleHome V C ps rq = fenced V C rq (\<lambda>fence w. (failed Feed (Home (svX V) (caFeed C)
     \<lparr> hqLimit = qInt (QueryParam rq ''limit''), hqHideSensitive = qBool (QueryParam rq ''hide_sensitive''), hqLang = QueryParam rq ''lang'',
       hqUserID = QueryParam rq ''user_id'', hqSessionID = QueryParam rq ''session_id'',
       hqPersonalized = qBool (QueryParam rq ''personalized'') \<rparr>), w))"

text \<open>\<open>flush\<close>: the effects of the accepted events run after the commit, in order, each of them whatever became of the last.\<close>

definition flush_one :: "event_config \<Rightarrow> meeting \<Rightarrow> nat \<Rightarrow> effect \<Rightarrow> redis \<Rightarrow> redis" where
  "flush_one cfg C i e m = (case e of
     SessionQuery sid nq \<Rightarrow> snd (PushSessionQuery (caFlushAt C i) (caSent C i) sid nq m)
   | SessionVideo sid vid \<Rightarrow> snd (PushSessionVideo (caFlushAt C i) (caSent C i) sid vid m)
   | EventIngest.TrendBump domain item subject \<Rightarrow> snd (Cache.TrendBump (caFlushAt C i) (caSent C i) (caNx C i) (caRun C i) domain item subject
       (EventIngest.TrendingHalfLifeSeconds cfg) (EventIngest.TrendCapWindow cfg) m))"

definition flush :: "event_config \<Rightarrow> meeting \<Rightarrow> effect list \<Rightarrow> redis \<Rightarrow> redis" where
  "flush cfg C effects m =
     (if \<not> caHasRedis C then m else fold (\<lambda>(i, e). flush_one cfg C i e) (enumerate 0 effects) m)"

definition handleEvents :: handler where
  "handleEvents V C ps rq w = (case caBind C of
     None \<Rightarrow> (Inl (newValidation ''events'' ''invalid JSON body''), w)
   | Some evs \<Rightarrow>
       if evs = [] then (Inl (newValidation ''events'' ''at least one event is required''), w)
       else if int (length evs) > MaxBatch then
         (Inl (newValidation ''events'' (''at most '' @ FormatInt MaxBatch @ '' events per batch'')), w)
       else (case Ingest (svX V) (svEvents V) (caTx C) (caNow C) (caClk C) evs (wDb w) of
           (None, s') \<Rightarrow> (Inl OtherError, w\<lparr> wDb := s' \<rparr>)
         | (Some (res, effects), s') \<Rightarrow> (Inr (Ingested res), w\<lparr> wDb := s', wRedis := flush (svEvents V) C effects (wRedis w) \<rparr>)))"

definition with_user :: "service \<Rightarrow> (string \<Rightarrow> string) \<Rightarrow> (uuid \<Rightarrow> world \<Rightarrow> (api_error + reply) \<times> world) \<Rightarrow> world \<Rightarrow> (api_error + reply) \<times> world" where
  "with_user V ps act w = (case pathUUID (svX V) ''user_id'' (ps ''user_id'') of Inl e \<Rightarrow> (Inl e, w) | Inr user \<Rightarrow> act user w)"

definition handleGetSearchHistory :: handler where
  "handleGetSearchHistory V C ps rq = with_user V ps (\<lambda>user w.
     ((if caUp C then failed HistoryPage (History.List user (qInt (QueryParam rq ''limit'')) (qInt (QueryParam rq ''offset'')) (wDb w))
       else Inl OtherError), w))"

definition handleClearSearchHistory :: handler where
  "handleClearSearchHistory V C ps rq = with_user V ps (\<lambda>user w.
     (case ClearAll (svX V) (caTx C) (caHasRedis C) (caRedisUp C) user (wDb w, wRedis w) of
        (r, s', m') \<Rightarrow> (failed (\<lambda>u. NoContent) r, w\<lparr> wDb := s', wRedis := m' \<rparr>)))"

definition handleDeleteSearchHistoryEntry :: handler where
  "handleDeleteSearchHistoryEntry V C ps rq = with_user V ps (\<lambda>user w.
     (case DeleteEntry (svX V) (caTx C) user (ps ''normalized_query'') (wDb w) of
        (r, s') \<Rightarrow> (failed (\<lambda>u. NoContent) r, w\<lparr> wDb := s' \<rparr>)))"

definition handleDeleteUser :: handler where
  "handleDeleteUser V C ps rq = with_user V ps (\<lambda>user w.
     (case PurgeUser (svX V) (caTx C) (caHasRedis C) (caRedisUp C) user (wDb w, wRedis w) of
        (r, s', m') \<Rightarrow> (failed (\<lambda>u. NoContent) r, w\<lparr> wDb := s', wRedis := m' \<rparr>)))"

definition moderationError :: "moderation_error \<Rightarrow> api_error" where
  "moderationError e = (case e of
     ErrEmptyQuery \<Rightarrow> newValidation ''normalized_query'' ''must not be empty after normalization'' | StoreError s \<Rightarrow> OtherError)"

definition handleListSuggestionBans :: handler where
  "handleListSuggestionBans V C ps rq w =
     (case ListBans (caUp C) (qInt (QueryParam rq ''limit'')) (qInt (QueryParam rq ''offset'')) (wDb w) of
        Inl e \<Rightarrow> (Inl OtherError, w) | Inr page \<Rightarrow> (Inr (BanPage page), w))"

definition handleBanSuggestion :: handler where
  "handleBanSuggestion V C ps rq w =
     (case Ban (svX V) (caUp C) (caNow C) (ps ''normalized_query'') (wDb w) of
        (Inl e, s') \<Rightarrow> (Inl (moderationError e), w\<lparr> wDb := s' \<rparr>)
      | (Inr r, s') \<Rightarrow> (Inr (BanSet r), w\<lparr> wDb := s' \<rparr>))"

definition handleUnbanSuggestion :: handler where
  "handleUnbanSuggestion V C ps rq w =
     (case Unban (svX V) (caUp C) (ps ''normalized_query'') (wDb w) of
        (Inl e, s') \<Rightarrow> (Inl (moderationError e), w\<lparr> wDb := s' \<rparr>)
      | (Inr u, s') \<Rightarrow> (Inr NoContent, w\<lparr> wDb := s' \<rparr>))"

text \<open>The catalog handlers and the probes, as handlers of the table.\<close>

definition catalogStatus :: handler where
  "catalogStatus V C ps rq w =
     (case handleCatalogStatus (map snd (filter (\<lambda>q. fst q = ''scope'') (rqQuery rq))) (caStatus C) of
        Inl e \<Rightarrow> (Inl e, w) | Inr st \<Rightarrow> (Inr (CatalogStatus st), w))"

definition catalogEpoch :: handler where
  "catalogEpoch V C ps rq w = (case handleCatalogEpoch (svX V) (caStore C) (rqBody rq) (wDb w) of
     (Inl e, s') \<Rightarrow> (Inl e, w\<lparr> wDb := s' \<rparr>) | (Inr u, s') \<Rightarrow> (Inr NoContent, w\<lparr> wDb := s' \<rparr>))"

definition catalogEvents :: handler where
  "catalogEvents V C ps rq w = (case handleCatalogEvents (svX V) (svLen V) (caTx C) (caNow C) (caClk C) (rqBody rq) (wDb w) of
     (Inl e, s') \<Rightarrow> (Inl e, w\<lparr> wDb := s' \<rparr>) | (Inr r, s') \<Rightarrow> (Inr (Ingested r), w\<lparr> wDb := s' \<rparr>))"

definition handleLive :: handler where
  "handleLive V C ps rq w = (Inr Live, w)"

definition readyz :: handler where
  "readyz V C ps rq w = (case handleReady (caWall C) (caPingDb C) (caPingRedis C) (wServer w) of
     ((code, status), sv) \<Rightarrow> (Inr (Ready code status), w\<lparr> wServer := sv \<rparr>))"

definition handleVersion :: handler where
  "handleVersion V C ps rq w = (Inr VersionInfo, w)"

definition metricsPage :: handler where
  "metricsPage V C ps rq w = (Inr MetricsPage, w)"

section \<open>The routing table\<close>

text \<open>A route: method, template, whether it stands behind the authentication, its handler.\<close>

type_synonym route = "string \<times> string \<times> bool \<times> handler"

definition routes :: "bool \<Rightarrow> route list" where
  "routes metrics =
     [(''GET'', ''/healthz'', False, handleLive), (''GET'', ''/readyz'', False, readyz), (''GET'', ''/version'', False, handleVersion)]
     @ (if metrics then [(''GET'', ''/metrics'', False, metricsPage)] else [])
     @ [(''GET'', ''/internal/v1/suggestions'', True, handleSuggestions),
        (''GET'', ''/internal/v1/suggestions/bans'', True, handleListSuggestionBans),
        (''PUT'', ''/internal/v1/suggestions/bans/:normalized_query'', True, handleBanSuggestion),
        (''DELETE'', ''/internal/v1/suggestions/bans/:normalized_query'', True, handleUnbanSuggestion),
        (''GET'', ''/internal/v1/search'', True, handleSearch),
        (''GET'', ''/internal/v1/recommendations/related'', True, handleRelated),
        (''GET'', ''/internal/v1/recommendations/home'', True, handleHome),
        (''POST'', ''/internal/v1/events'', True, handleEvents),
        (''GET'', ''/internal/v1/users/:user_id/search-history'', True, handleGetSearchHistory),
        (''DELETE'', ''/internal/v1/users/:user_id/search-history'', True, handleClearSearchHistory),
        (''DELETE'', ''/internal/v1/users/:user_id/search-history/:normalized_query'', True, handleDeleteSearchHistoryEntry),
        (''DELETE'', ''/internal/v1/users/:user_id'', True, handleDeleteUser),
        (''GET'', ''/internal/v2/catalog/status'', True, catalogStatus),
        (''PUT'', ''/internal/v2/catalog/epoch'', True, catalogEpoch),
        (''POST'', ''/internal/v2/catalog/events'', True, catalogEvents)]"

text \<open>Echo's router: the template that matches and the decoded parameters, or the error it answers with.\<close>

type_synonym router = "(string \<times> string) list \<Rightarrow> string \<Rightarrow> string \<Rightarrow> api_error + (string \<times> (string \<Rightarrow> string))"

section \<open>The chain\<close>

datatype outcome = Answer int reply | Refused error_body

record response =
  rpCorrelation :: string
  rpNosniff :: bool
  rpOutcome :: "outcome option"

fun reply_status :: "reply \<Rightarrow> int" where
  "reply_status NoContent = 204" | "reply_status (Ready code st) = code" | "reply_status r = 200"

text \<open>\<open>writeError\<close> of the authentication.\<close>

definition unauthorized :: "string \<Rightarrow> error_body" where
  "unauthorized reqID = \<lparr> eb_status = 401, eb_code = ''unauthorized'', eb_message = ''invalid or missing internal authentication'',
     eb_request_id = reqID, eb_fields = [] \<rparr>"

text \<open>\<open>requestDeadline\<close>: what the store reports after the deadline wraps \<open>context.DeadlineExceeded\<close>.\<close>

definition requestDeadline :: "bool \<Rightarrow> api_error \<Rightarrow> api_error" where
  "requestDeadline late e = (if late \<and> e = OtherError then Deadline else e)"

text \<open>The end of the chain: the body limit, the router, the authentication of its group and the handler.\<close>

definition dispatch_request :: "service \<Rightarrow> router \<Rightarrow> meeting \<Rightarrow> request \<Rightarrow> world \<Rightarrow> (error_body + (api_error + reply)) \<times> world" where
  "dispatch_request V R C rq w =
     (if \<not> caBodyFits C then (Inr (Inl (HTTPError 413 (Some ''Request Entity Too Large''))), w)
      else case R (map (\<lambda>r. (fst r, fst (snd r))) (routes (svMetrics V))) (rqMethod rq) (rqPath rq) of
        Inl e \<Rightarrow> (Inr (Inl e), w)
      | Inr (template, ps) \<Rightarrow>
          (case find (\<lambda>r. fst r = rqMethod rq \<and> fst (snd r) = template) (routes (svMetrics V)) of
             None \<Rightarrow> (Inr (Inl (HTTPError 404 (Some ''Not Found''))), w)
           | Some (_, _, behind, h) \<Rightarrow>
               if behind \<and> \<not> internalAuth (svSecret V) (caWall C) (rqMethod rq) (rqPath rq) (Header_Get (rqHeaders rq) ''X-Vidra-Internal-Auth'')
               then (Inl (unauthorized (caRequestID C)), w)
               else (case h V C ps rq w of (r, w') \<Rightarrow> (Inr r, w'))))"

definition serve :: "service \<Rightarrow> router \<Rightarrow> meeting \<Rightarrow> request \<Rightarrow> world \<Rightarrow> response \<times> world" where
  "serve V R C rq w =
     (let cid = correlationID (caRequestID C) (Header_Get (rqHeaders rq) ''X-Correlation-Id'');
          (out, w') = dispatch_request V R C rq w;
          outcome = (case out of
              Inl body \<Rightarrow> Some (Refused body)
            | Inr (Inr r) \<Rightarrow> Some (Answer (reply_status r) r)
            | Inr (Inl e) \<Rightarrow> (case httpErrorHandler False (caRequestID C) (requestDeadline (caLate C) e) of
                None \<Rightarrow> None
              | Some body \<Rightarrow> Some (Refused body)))
      in (\<lparr> rpCorrelation = cid, rpNosniff = True, rpOutcome = outcome \<rparr>, w'))"

section \<open>What a request asks for\<close>

text \<open>The abstract service knows operations only. The operation behind a route, for a request that reaches its handler.\<close>

definition user_op :: "service \<Rightarrow> (string \<Rightarrow> string) \<Rightarrow> (uuid \<Rightarrow> operation) \<Rightarrow> operation option" where
  "user_op V ps op = map_option op (uuid_parse (svX V) (ps ''user_id''))"

definition operation_at :: "service \<Rightarrow> meeting \<Rightarrow> (string \<Rightarrow> string) \<Rightarrow> request \<Rightarrow> world \<Rightarrow> string \<times> string \<Rightarrow> operation option" where
  "operation_at V C ps rq w r =
     (if r = (''POST'', ''/internal/v1/events'') then
        (case caBind C of None \<Rightarrow> None
         | Some evs \<Rightarrow> if evs = [] \<or> int (length evs) > MaxBatch then None
             else Some (Op_events (svEvents V) (caTx C) (caNow C) (caClk C) evs))
      else if r = (''PUT'', ''/internal/v1/suggestions/bans/:normalized_query'') then Some (Op_ban (caUp C) (caNow C) (ps ''normalized_query''))
      else if r = (''DELETE'', ''/internal/v1/suggestions/bans/:normalized_query'') then Some (Op_unban (caUp C) (ps ''normalized_query''))
      else if r = (''DELETE'', ''/internal/v1/users/:user_id/search-history'') then
        user_op V ps (\<lambda>u. Op_clear (caTx C) (caHasRedis C) (caRedisUp C) u (wRedis w))
      else if r = (''DELETE'', ''/internal/v1/users/:user_id'') then
        user_op V ps (\<lambda>u. Op_purge (caTx C) (caHasRedis C) (caRedisUp C) u (wRedis w))
      else if r = (''DELETE'', ''/internal/v1/users/:user_id/search-history/:normalized_query'') then
        user_op V ps (\<lambda>u. Op_forget (caTx C) u (ps ''normalized_query''))
      else if r = (''PUT'', ''/internal/v2/catalog/epoch'') then Some (Op_epoch (caStore C) (rqBody rq))
      else if r = (''POST'', ''/internal/v2/catalog/events'') then Some (Op_catalog (caTx C) (caNow C) (caClk C) (rqBody rq))
      else None)"

definition after_op :: "service \<Rightarrow> operation option \<Rightarrow> db \<Rightarrow> db" where
  "after_op V op s = (case op of None \<Rightarrow> s | Some op \<Rightarrow> perform (svX V) (svLen V) op s)"

text \<open>The route of a request, when it fits and the router knows it.\<close>

definition routed :: "service \<Rightarrow> router \<Rightarrow> meeting \<Rightarrow> request \<Rightarrow> (route \<times> (string \<Rightarrow> string)) option" where
  "routed V R C rq =
     (if \<not> caBodyFits C then None
      else case R (map (\<lambda>r. (fst r, fst (snd r))) (routes (svMetrics V))) (rqMethod rq) (rqPath rq) of Inl e \<Rightarrow> None
        | Inr (template, ps) \<Rightarrow> map_option (\<lambda>r. (r, ps))
            (find (\<lambda>r. fst r = rqMethod rq \<and> fst (snd r) = template) (routes (svMetrics V))))"

definition authentic :: "service \<Rightarrow> meeting \<Rightarrow> request \<Rightarrow> bool" where
  "authentic V C rq = internalAuth (svSecret V) (caWall C) (rqMethod rq) (rqPath rq) (Header_Get (rqHeaders rq) ''X-Vidra-Internal-Auth'')"

definition asked :: "service \<Rightarrow> router \<Rightarrow> meeting \<Rightarrow> request \<Rightarrow> world \<Rightarrow> operation option" where
  "asked V R C rq w = (case routed V R C rq of None \<Rightarrow> None
     | Some ((m, t, behind, h), ps) \<Rightarrow> if authentic V C rq then operation_at V C ps rq w (m, t) else None)"

section \<open>Handlers and the database\<close>

lemma fenced_cases:
  "fenced V C rq answer w = (r, w') \<Longrightarrow> w' = w \<or> (\<exists>f. w' = snd (answer f w))"
  by (auto simp: fenced_def split: sum.split_asm prod.split_asm) (metis snd_conv)+

lemma fenced_keeps:
  assumes "\<And>f. g (snd (answer f w)) = g w"
  shows "g (snd (fenced V C rq answer w)) = g w"
  using fenced_cases [of V C rq answer w] assms by (metis prod.exhaust_sel)

named_theorems handler_db

lemma reads_db [handler_db]:
  "wDb (snd (handleSuggestions V C ps rq w)) = wDb w" "wDb (snd (handleSearch V C ps rq w)) = wDb w"
  "wDb (snd (handleRelated V C ps rq w)) = wDb w" "wDb (snd (handleHome V C ps rq w)) = wDb w"
  "wDb (snd (handleGetSearchHistory V C ps rq w)) = wDb w" "wDb (snd (handleListSuggestionBans V C ps rq w)) = wDb w"
  "wDb (snd (catalogStatus V C ps rq w)) = wDb w" "wDb (snd (handleLive V C ps rq w)) = wDb w" "wDb (snd (readyz V C ps rq w)) = wDb w"
  "wDb (snd (handleVersion V C ps rq w)) = wDb w" "wDb (snd (metricsPage V C ps rq w)) = wDb w"
  by (auto simp: handleSuggestions_def handleSearch_def handleRelated_def handleHome_def handleGetSearchHistory_def with_user_def
      handleListSuggestionBans_def catalogStatus_def handleLive_def readyz_def handleVersion_def metricsPage_def fenced_keeps
      split: sum.split prod.split)

lemma writes_db [handler_db]:
  "wDb (snd (handleEvents V C ps rq w)) = after_op V (operation_at V C ps rq w (''POST'', ''/internal/v1/events'')) (wDb w)"
  "wDb (snd (handleBanSuggestion V C ps rq w)) = after_op V (operation_at V C ps rq w (''PUT'', ''/internal/v1/suggestions/bans/:normalized_query'')) (wDb w)"
  "wDb (snd (handleUnbanSuggestion V C ps rq w)) = after_op V (operation_at V C ps rq w (''DELETE'', ''/internal/v1/suggestions/bans/:normalized_query'')) (wDb w)"
  "wDb (snd (handleClearSearchHistory V C ps rq w)) = after_op V (operation_at V C ps rq w (''DELETE'', ''/internal/v1/users/:user_id/search-history'')) (wDb w)"
  "wDb (snd (handleDeleteUser V C ps rq w)) = after_op V (operation_at V C ps rq w (''DELETE'', ''/internal/v1/users/:user_id'')) (wDb w)"
  "wDb (snd (handleDeleteSearchHistoryEntry V C ps rq w)) = after_op V (operation_at V C ps rq w (''DELETE'', ''/internal/v1/users/:user_id/search-history/:normalized_query'')) (wDb w)"
  "wDb (snd (catalogEpoch V C ps rq w)) = after_op V (operation_at V C ps rq w (''PUT'', ''/internal/v2/catalog/epoch'')) (wDb w)"
  "wDb (snd (catalogEvents V C ps rq w)) = after_op V (operation_at V C ps rq w (''POST'', ''/internal/v2/catalog/events'')) (wDb w)"
  by (simp_all add: operation_at_def after_op_def user_op_def handleEvents_def handleBanSuggestion_def handleUnbanSuggestion_def
      handleClearSearchHistory_def handleDeleteUser_def handleDeleteSearchHistoryEntry_def with_user_def pathUUID_def catalogEpoch_def catalogEvents_def
      split: option.split sum.split prod.split)

text \<open>Every route of the table performs its operation, and a route before the authentication has none.\<close>

lemma table_performs:
  "list_all (\<lambda>(m, t, behind, h). wDb (snd (h V C ps rq w)) = after_op V (operation_at V C ps rq w (m, t)) (wDb w)
     \<and> (if behind then True else operation_at V C ps rq w (m, t) = None)) (routes metrics)"
  unfolding routes_def list_all_append list.pred_inject split_conv
  by (intro conjI; simp add: handler_db; simp add: operation_at_def after_op_def)

section \<open>Requests and operations\<close>

lemma snd_serve: "snd (serve V R C rq w) = snd (dispatch_request V R C rq w)"
  by (cases "dispatch_request V R C rq w") (simp add: serve_def Let_def)

lemma serve_world: "snd (serve V R C rq w) = (case routed V R C rq of None \<Rightarrow> w
     | Some ((m, t, behind, h), ps) \<Rightarrow> if behind \<and> \<not> authentic V C rq then w else snd (h V C ps rq w))"
proof (cases "R (map (\<lambda>r. (fst r, fst (snd r))) (routes (svMetrics V))) (rqMethod rq) (rqPath rq)")
  case (Inl e)
  then show ?thesis by (simp add: snd_serve dispatch_request_def routed_def)
next
  case (Inr x)
  obtain t ps where x: "x = (t, ps)" by (cases x)
  show ?thesis
    by (cases "find (\<lambda>r. fst r = rqMethod rq \<and> fst (snd r) = t) (routes (svMetrics V))")
      (simp_all add: snd_serve dispatch_request_def routed_def authentic_def Inr x split: prod.split)
qed

lemma routed_table:
  assumes "routed V R C rq = Some ((m, t, behind, h), ps)"
  shows "(m, t, behind, h) \<in> set (routes (svMetrics V))" and "m = rqMethod rq"
proof -
  have find: "find Q xs = Some x \<Longrightarrow> x \<in> set xs \<and> Q x" for Q and xs :: "route list" and x
    by (induction xs) (auto split: if_split_asm)
  from assms obtain template where "find (\<lambda>r. fst r = rqMethod rq \<and> fst (snd r) = template) (routes (svMetrics V)) = Some (m, t, behind, h)"
    unfolding routed_def by (auto split: if_split_asm sum.split_asm)
  then have *: "(m, t, behind, h) \<in> set (routes (svMetrics V)) \<and> m = rqMethod rq" by (auto dest: find)
  from * show "(m, t, behind, h) \<in> set (routes (svMetrics V))" and "m = rqMethod rq" by blast+
qed

lemma routed_performs:
  assumes "routed V R C rq = Some ((m, t, behind, h), ps)"
  shows "wDb (snd (h V C ps rq w)) = after_op V (operation_at V C ps rq w (m, t)) (wDb w)"
    and "\<not> behind \<Longrightarrow> operation_at V C ps rq w (m, t) = None"
  using routed_table(1) [OF assms] table_performs [of V C ps rq w "svMetrics V"] by (auto simp: list_all_iff split: if_split_asm)

lemma serve_asked:
  "wDb (snd (serve V R C rq w)) = after_op V (asked V R C rq w) (wDb w) \<and> (asked V R C rq w = None \<or> authentic V C rq)"
proof (cases "routed V R C rq")
  case None
  then show ?thesis by (simp add: serve_world asked_def after_op_def)
next
  case (Some x)
  obtain m t behind h ps where x: "x = ((m, t, behind, h), ps)" by (metis prod.exhaust)
  note r = Some [unfolded x]
  show ?thesis
    using routed_performs [OF r, of w] by (cases "authentic V C rq") (auto simp: serve_world asked_def r after_op_def)
qed

lemma serve_db: "wDb (snd (serve V R C rq w)) = after_op V (asked V R C rq w) (wDb w)"
  using serve_asked by blast

text \<open>C4. Every request is an operation or nothing. Whatever the request and whatever the router, the database afterwards is
  that of the one operation the abstract service knows for it - and a request that asks for one is
  authenticated. So what holds of every sequence of operations holds of the service.\<close>

theorem requests_refine_operations:
  "wDb (snd (serve V R C rq w)) = after_op V (asked V R C rq w) (wDb w) \<and> (asked V R C rq w = None \<or> authentic V C rq)"
  by (rule serve_asked)

section \<open>What is answered to whom\<close>

fun public_reply :: "reply \<Rightarrow> bool" where
  "public_reply Live = True" | "public_reply (Ready c s) = True" | "public_reply VersionInfo = True" | "public_reply MetricsPage = True"
| "public_reply r = False"

fun fenced_reply :: "reply \<Rightarrow> bool" where
  "fenced_reply (Suggestions r) = True" | "fenced_reply (Results r) = True" | "fenced_reply (Feed r) = True" | "fenced_reply r = False"

definition under_fence :: "service \<Rightarrow> meeting \<Rightarrow> request \<Rightarrow> bool" where
  "under_fence V C rq = (case beginCatalogRead (svX V) (rqHeaders rq) (caBefore C) of Inl e \<Rightarrow> False
     | Inr f \<Rightarrow> finishCatalogRead (svX V) (rqHeaders rq) (caAfter C) f = Inr ())"

lemma fenced_reply_fenced: "fenced V C rq answer w = (Inr r, w') \<Longrightarrow> under_fence V C rq"
  by (auto simp: fenced_def under_fence_def split: sum.split_asm prod.split_asm)

text \<open>What a request may change without a signature: the cached readiness, and that only to what this request's own
  probe of the two databases makes it. The database, Redis, the cache of suggestions and the draining flag stay.\<close>

definition only_probed :: "meeting \<Rightarrow> world \<Rightarrow> world \<Rightarrow> bool" where
  "only_probed C w w' \<longleftrightarrow> w' = w \<or> w' = w\<lparr> wServer := (wServer w)\<lparr> readinessCached :=
     readinessCached (snd (readiness (caWall C) (caPingDb C) (caPingRedis C) (wServer w))) \<rparr> \<rparr>"

lemma only_probed_refl [simp]: "only_probed C w w"
  by (simp add: only_probed_def)

lemma readiness_draining: "snd (readiness now db rdb sv) = sv\<lparr> readinessCached := readinessCached (snd (readiness now db rdb sv)) \<rparr>"
  by (simp add: readiness_def Let_def split: option.split prod.split)

lemma probed_only: "w\<lparr> wServer := snd (handleReady (caWall C) (caPingDb C) (caPingRedis C) (wServer w)) \<rparr> = w' \<Longrightarrow> only_probed C w w'"
  unfolding only_probed_def handleReady_def using readiness_draining [of "caWall C" "caPingDb C" "caPingRedis C" "wServer w"]
  by (auto simp: Let_def split_beta split: if_split_asm)

text \<open>A handler is public when it changes the cached readiness at most and says nothing of the corpus.\<close>

definition well_guarded :: "service \<Rightarrow> meeting \<Rightarrow> (string \<Rightarrow> string) \<Rightarrow> request \<Rightarrow> world \<Rightarrow> route \<Rightarrow> bool" where
  "well_guarded V C ps rq w = (\<lambda>(m, t, behind, h). case h V C ps rq w of (res, w') \<Rightarrow>
     (behind \<or> only_probed C w w' \<and> (case res of Inl e \<Rightarrow> True | Inr r \<Rightarrow> public_reply r))
     \<and> (case res of Inl e \<Rightarrow> True | Inr r \<Rightarrow> \<not> fenced_reply r \<or> under_fence V C rq))"

lemma failed_Inr: "failed f x = Inr r \<Longrightarrow> \<exists>y. r = f y"
  by (auto simp: failed_def split: sum.split_asm)

lemma reads_guarded:
  "well_guarded V C ps rq w (m, t, True, handleSuggestions)" "well_guarded V C ps rq w (m, t, True, handleSearch)"
  "well_guarded V C ps rq w (m, t, True, handleRelated)" "well_guarded V C ps rq w (m, t, True, handleHome)"
  by (auto simp: well_guarded_def handleSuggestions_def handleSearch_def handleRelated_def handleHome_def
      dest: fenced_reply_fenced split: sum.split prod.split)

lemma others_guarded:
  "well_guarded V C ps rq w (m, t, True, handleListSuggestionBans)" "well_guarded V C ps rq w (m, t, True, handleBanSuggestion)"
  "well_guarded V C ps rq w (m, t, True, handleUnbanSuggestion)" "well_guarded V C ps rq w (m, t, True, handleEvents)"
  "well_guarded V C ps rq w (m, t, True, handleGetSearchHistory)" "well_guarded V C ps rq w (m, t, True, handleClearSearchHistory)"
  "well_guarded V C ps rq w (m, t, True, handleDeleteSearchHistoryEntry)" "well_guarded V C ps rq w (m, t, True, handleDeleteUser)"
  "well_guarded V C ps rq w (m, t, True, catalogStatus)" "well_guarded V C ps rq w (m, t, True, catalogEpoch)"
  "well_guarded V C ps rq w (m, t, True, catalogEvents)"
  by (auto simp: well_guarded_def handleListSuggestionBans_def handleBanSuggestion_def handleUnbanSuggestion_def handleEvents_def
      handleGetSearchHistory_def handleClearSearchHistory_def handleDeleteSearchHistoryEntry_def handleDeleteUser_def with_user_def
      catalogStatus_def catalogEpoch_def catalogEvents_def dest!: failed_Inr split: sum.split prod.split option.split)

lemma probes_guarded:
  "well_guarded V C ps rq w (m, t, b, handleLive)" "well_guarded V C ps rq w (m, t, b, readyz)"
  "well_guarded V C ps rq w (m, t, b, handleVersion)" "well_guarded V C ps rq w (m, t, b, metricsPage)"
  by (auto simp: well_guarded_def handleLive_def readyz_def handleVersion_def metricsPage_def only_probed_def split: prod.split
      dest!: probed_only [unfolded only_probed_def, OF arg_cong [where f = "\<lambda>p. w\<lparr> wServer := snd p \<rparr>"]])

lemma table_guarded: "list_all (well_guarded V C ps rq w) (routes metrics)"
  by (simp add: routes_def reads_guarded others_guarded probes_guarded)

lemma served_outcome:
  assumes "routed V R C rq = Some ((m, t, behind, h), ps)"
  shows "rpOutcome (fst (serve V R C rq w)) =
    (if behind \<and> \<not> authentic V C rq then Some (Refused (unauthorized (caRequestID C)))
     else (case fst (h V C ps rq w) of Inr r \<Rightarrow> Some (Answer (reply_status r) r)
       | Inl e \<Rightarrow> map_option Refused (httpErrorHandler False (caRequestID C) (requestDeadline (caLate C) e))))"
proof -
  from assms obtain t' where R: "caBodyFits C" "R (map (\<lambda>r. (fst r, fst (snd r))) (routes (svMetrics V))) (rqMethod rq) (rqPath rq) = Inr (t', ps)"
    "find (\<lambda>r. fst r = rqMethod rq \<and> fst (snd r) = t') (routes (svMetrics V)) = Some (m, t, behind, h)"
    by (auto simp: routed_def split: if_split_asm sum.split_asm)
  obtain res w' where h: "h V C ps rq w = (res, w')" by (cases "h V C ps rq w")
  show ?thesis
  proof (cases "behind \<and> \<not> authentic V C rq")
    case True
    then have "dispatch_request V R C rq w = (Inl (unauthorized (caRequestID C)), w)"
      using R by (simp add: dispatch_request_def authentic_def)
    with True show ?thesis by (simp add: serve_def Let_def)
  next
    case False
    then have "dispatch_request V R C rq w = (Inr res, w')"
      using R h by (auto simp: dispatch_request_def authentic_def)
    with False show ?thesis by (auto simp: serve_def Let_def h split: sum.split option.split)
  qed
qed

lemma not_routed:
  assumes "routed V R C rq = None"
  shows "\<exists>e. dispatch_request V R C rq w = (Inr (Inl e), w)"
  using assms by (auto simp: routed_def dispatch_request_def split: if_split_asm sum.split_asm)

text \<open>C5. Nothing leaves unguarded. A request that is not authenticated changes nothing but the cached readiness, which is
  what it was or what a probe of the two databases found, and is answered an error or one of the public pages; and a list of suggestions, of search results or a feed is only
  answered when the catalog was under one fence before and after the queries ran.\<close>

theorem replies_guarded:
  "(authentic V C rq \<or> only_probed C w (snd (serve V R C rq w))
      \<and> (case rpOutcome (fst (serve V R C rq w)) of Some (Answer st r) \<Rightarrow> public_reply r | _ \<Rightarrow> True))
   \<and> (case rpOutcome (fst (serve V R C rq w)) of
        Some (Answer st r) \<Rightarrow> fenced_reply r \<longrightarrow> under_fence V C rq | _ \<Rightarrow> True)"
proof (cases "routed V R C rq")
  case None
  then obtain e where "dispatch_request V R C rq w = (Inr (Inl e), w)" using not_routed by blast
  then show ?thesis by (simp add: serve_def Let_def split: option.split)
next
  case (Some x)
  obtain m t behind h ps where x: "x = ((m, t, behind, h), ps)" by (metis prod.exhaust)
  note r = Some [unfolded x]
  have g: "well_guarded V C ps rq w (m, t, behind, h)"
    using table_guarded [of V C ps rq w "svMetrics V"] routed_table(1) [OF r] by (simp add: list_all_iff)
  show ?thesis
    using g unfolding well_guarded_def served_outcome [OF r] serve_world r
    by (auto split: prod.splits sum.splits option.splits)
qed

section \<open>Requests and jobs together\<close>

datatype step = Request meeting request | Job operation

text \<open>The operations that are jobs of the worker.\<close>

fun is_job :: "operation \<Rightarrow> bool" where
  "is_job (Op_prune clk) = True" | "is_job (Op_rollup cfg rd tx wall now) = True" | "is_job (Op_reeval cfg rd wall) = True"
| "is_job (Op_retention cfg rd n clk) = True" | "is_job (Op_engagement cfg rd tx now) = True"
| "is_job (Op_sessionize cfg tx now wall wall') = True" | "is_job (Op_covis cfg rd tx) = True" | "is_job op = False"

fun take_step :: "service \<Rightarrow> router \<Rightarrow> step \<Rightarrow> world \<Rightarrow> world" where
  "take_step V R (Request C rq) w = snd (serve V R C rq w)"
| "take_step V R (Job op) w = w\<lparr> wDb := perform (svX V) (svLen V) op (wDb w) \<rparr>"

definition run_service :: "service \<Rightarrow> router \<Rightarrow> step list \<Rightarrow> world \<Rightarrow> world" where
  "run_service V R steps w = fold (take_step V R) steps w"

text \<open>The query whose ban a request lifts: an authenticated \<open>DELETE\<close> of the bans route.\<close>

definition unban_of :: "service \<Rightarrow> router \<Rightarrow> meeting \<Rightarrow> request \<Rightarrow> string option" where
  "unban_of V R C rq = (case routed V R C rq of None \<Rightarrow> None
     | Some ((m, t, behind, h), ps) \<Rightarrow>
         if authentic V C rq \<and> (m, t) = (''DELETE'', ''/internal/v1/suggestions/bans/:normalized_query'')
         then Some (normalize (svX V) (ps ''normalized_query'')) else None)"

definition leaves_banned :: "service \<Rightarrow> router \<Rightarrow> string \<Rightarrow> step \<Rightarrow> bool" where
  "leaves_banned V R q st = (case st of Request C rq \<Rightarrow> unban_of V R C rq \<noteq> Some q | Job op \<Rightarrow> is_job op)"

lemma lifts_unban: "lifts X op = Some q \<longleftrightarrow> (\<exists>up nq. op = Op_unban up nq \<and> normalize X nq = q)"
  by (cases op) auto

lemma operation_at_unban: "operation_at V C ps rq w r = Some (Op_unban up nq) \<Longrightarrow>
    r = (''DELETE'', ''/internal/v1/suggestions/bans/:normalized_query'') \<and> nq = ps ''normalized_query''"
  unfolding operation_at_def by (simp split: if_split_asm option.split_asm) (auto simp: user_op_def)

lemma asked_unban:
  assumes "asked V R C rq w = Some op" and "lifts (svX V) op = Some q"
  shows "unban_of V R C rq = Some q"
proof -
  obtain up nq where op: "op = Op_unban up nq" "normalize (svX V) nq = q" using assms(2) lifts_unban by metis
  from assms(1) obtain m t behind h ps where r: "routed V R C rq = Some ((m, t, behind, h), ps)" "authentic V C rq"
    and a: "operation_at V C ps rq w (m, t) = Some (Op_unban up nq)"
    unfolding asked_def op(1) by (auto split: option.split_asm if_split_asm)
  then show ?thesis using operation_at_unban [OF a] op(2) by (simp add: unban_of_def)
qed

lemma step_keeps:
  assumes "ext_ok (svX V)" and ok: "system_ok (svX V) (wDb w)" and st: "leaves_banned V R q st"
  shows "system_ok (svX V) (wDb (take_step V R st w)) \<and> (banned q (wDb w) \<longrightarrow> banned q (wDb (take_step V R st w)))"
proof -
  note keeps = perform_ok [OF assms(1,2), of "svLen V"]
  show ?thesis
  proof (cases st)
    case (Job op)
    with st have "lifts (svX V) op = None" by (cases op) (auto simp: leaves_banned_def)
    then show ?thesis using keeps [of op] Job by (auto simp: banned_def)
  next
    case (Request C rq)
    then have db: "wDb (take_step V R st w) = after_op V (asked V R C rq w) (wDb w)" by (simp add: serve_db)
    show ?thesis
    proof (cases "asked V R C rq w")
      case None
      then show ?thesis using ok by (simp add: db after_op_def)
    next
      case (Some op)
      then have "lifts (svX V) op \<noteq> Some q" using st Request asked_unban [OF Some] by (auto simp: leaves_banned_def)
      then show ?thesis using keeps [of op] Some by (auto simp: db after_op_def)
    qed
  qed
qed

text \<open>C6. A ban ends with an authenticated request or not at all. Through any history of HTTP requests, whatever is sent and
  however it is routed, and of passes of the jobs, the invariant of the service holds; and a query that was banned
  stays banned unless an authenticated \<open>DELETE\<close> of its own ban is among the requests.\<close>

theorem ban_needs_authentic_unban:
  assumes "ext_ok (svX V)" and "system_ok (svX V) (wDb w)" and "banned q (wDb w)" and "list_all (leaves_banned V R q) steps"
  shows "system_ok (svX V) (wDb (run_service V R steps w)) \<and> banned q (wDb (run_service V R steps w))"
  using assms(2-4)
proof (induction steps arbitrary: w)
  case (Cons st steps)
  then show ?case using step_keeps [OF assms(1) Cons.prems(1), of R q st] by (simp add: run_service_def)
qed (simp add: run_service_def)

section \<open>Witnesses\<close>

definition calm_meeting :: meeting where
  "calm_meeting = \<lparr> caNow = 0, caWall = 1000 * nanos, caClk = (\<lambda>i. 0), caTx = (True, True), caUp = True, caLate = False, caHasRedis = True,
     caRedisUp = True, caStore = True, caBefore = status_in empty_db, caAfter = status_in empty_db, caStatus = status_in empty_db,
     caBind = None, caBodyFits = True, caIter = (\<lambda>xs. xs), caSuggest = calm_env two_cats, caSearch = cat_env (Some two_cats), caFeed = pet_env,
     caFlushAt = (\<lambda>i. 0), caSent = (\<lambda>i. 4), caNx = (\<lambda>i. True), caRun = (\<lambda>i. True), caPingDb = Some True, caPingRedis = Some True,
     caRequestID = ''r1'' \<rparr>"

definition sample_service :: service where
  "sample_service = \<lparr> svX = sample_ext, svP = sample_pg, svLen = (\<lambda>j. 0), svEvents = EventProps.sample_config, svSecret = ''secret'', svMetrics = True \<rparr>"

text \<open>A router for paths without parameters, and for the route of the bans.\<close>

definition small_router :: router where
  "small_router table method path =
     (let t = (if take 30 path = ''/internal/v1/suggestions/bans/'' then ''/internal/v1/suggestions/bans/:normalized_query'' else path)
      in if (method, t) \<in> set table then Inr (t, \<lambda>name. drop 30 path) else Inl (HTTPError 404 (Some ''Not Found'')))"

definition unsigned :: "string \<Rightarrow> string \<Rightarrow> request" where
  "unsigned method path = \<lparr> rqMethod = method, rqPath = path, rqHeaders = [], rqQuery = [(''q'', ''cat'')], rqBody = None \<rparr>"

definition signed :: "string \<Rightarrow> string \<Rightarrow> request" where
  "signed method path = (unsigned method path)\<lparr> rqHeaders :=
     [(''X-Vidra-Internal-Auth'', BuildInternalAuthHeader ''secret'' 1000 method path)] \<rparr>"

definition idle_world :: "db \<Rightarrow> world" where
  "idle_world s = \<lparr> wDb = s, wRedis = empty_redis, wCache = (\<lambda>k. None), wServer = fresh_server \<rparr>"

lemma internal_header_accepted:
  assumes "in_int64 ts" and "Http.in_window now ts"
  shows "internalAuth secret now method path (BuildInternalAuthHeader secret ts method path)"
proof -
  note ts = ParseInt_FormatInt [OF assms(1)]
  have "SplitN (CHR '':'') (BuildInternalAuthHeader secret ts method path) 3
      = [''v1'', FormatInt ts, InternalSignature secret ts method path]"
    unfolding SplitN_3 BuildInternalAuthHeader_def using ParseInt_no_colon [OF ts] by simp
  moreover have "BuildInternalAuthHeader secret ts method path \<noteq> []" by (simp add: BuildInternalAuthHeader_def)
  moreover have "\<not> skew_of now ts > internalAuthSkew" using assms(2) skew_of_small by blast
  ultimately show ?thesis by (simp add: internalAuth_def ts)
qed

lemma unsigned_rejected [simp]: "\<not> authentic sample_service calm_meeting (unsigned m p)"
  by (simp add: authentic_def unsigned_def Header_Get_def internalAuth_def)

lemma signed_accepted [simp]: "authentic sample_service calm_meeting (signed m p)"
proof -
  have "Http.in_window (1000 * nanos) 1000"
    by (simp add: Http.in_window_def time_Unix_def unixToInternal_def int64_id in_int64_def internalAuthSkew_def nanos_def)
  then have "internalAuth ''secret'' (1000 * nanos) m p (BuildInternalAuthHeader ''secret'' 1000 m p)"
    by (intro internal_header_accepted) (simp_all add: in_int64_def)
  then show ?thesis
    by (simp add: authentic_def sample_service_def calm_meeting_def signed_def unsigned_def Header_Get_def)
qed

text \<open>Without a signature the ban of a query stays, whoever asks; with one it ends.\<close>

lemma replies_guarded_witness:
  "wDb (snd (serve sample_service small_router calm_meeting (unsigned ''DELETE'' ''/internal/v1/suggestions/bans/cats'') (idle_world banned_cats))) = banned_cats
   \<and> \<not> draining (wServer (snd (serve sample_service small_router calm_meeting (unsigned ''DELETE'' ''/internal/v1/suggestions/bans/cats'') (idle_world banned_cats))))"
proof -
  let ?run = "snd (serve sample_service small_router calm_meeting (unsigned ''DELETE'' ''/internal/v1/suggestions/bans/cats'') (idle_world banned_cats))"
  have "only_probed calm_meeting (idle_world banned_cats) ?run"
    using replies_guarded [where V = sample_service and C = calm_meeting and R = small_router and w = "idle_world banned_cats"
        and rq = "unsigned ''DELETE'' ''/internal/v1/suggestions/bans/cats''"] by simp
  then show ?thesis by (auto simp: only_probed_def idle_world_def fresh_server_def)
qed

lemma ban_needs_authentic_unban_witness:
  "banned ''cats'' (wDb (run_service sample_service small_router
     [Request calm_meeting (unsigned ''DELETE'' ''/internal/v1/suggestions/bans/cats''),
      Request calm_meeting (signed ''DELETE'' ''/internal/v1/suggestions/bans/dogs''),
      Job (Op_rollup sample_worker True (True, True) 0 0)] (idle_world banned_cats)))"
proof -
  have "unban_of sample_service small_router calm_meeting (unsigned m p) = None" for m p
    by (simp add: unban_of_def split: option.split prod.split)
  moreover have "unban_of sample_service small_router calm_meeting (signed ''DELETE'' ''/internal/v1/suggestions/bans/dogs'') \<noteq> Some ''cats''"
  proof -
    have "normalize sample_ext ''dogs'' = ''dogs''" by code_simp
    moreover have "snd (the (routed sample_service small_router calm_meeting (signed ''DELETE'' ''/internal/v1/suggestions/bans/dogs'')))
        ''normalized_query'' = ''dogs''"
      by (simp add: routed_def calm_meeting_def signed_def unsigned_def small_router_def sample_service_def routes_def)
    ultimately show ?thesis by (auto simp: unban_of_def sample_service_def split: option.splits)
  qed
  ultimately have "list_all (leaves_banned sample_service small_router ''cats'')
     [Request calm_meeting (unsigned ''DELETE'' ''/internal/v1/suggestions/bans/cats''),
      Request calm_meeting (signed ''DELETE'' ''/internal/v1/suggestions/bans/dogs''),
      Job (Op_rollup sample_worker True (True, True) 0 0)]" by (simp add: leaves_banned_def)
  from ban_needs_authentic_unban [OF _ _ _ this, of "idle_world banned_cats"] show ?thesis
    using ext_ok_sample banned_cats_state by (simp add: sample_service_def idle_world_def)
qed

text \<open>A signed request does end it.\<close>

lemma signed_request_lifts:
  "unban_of sample_service small_router calm_meeting (signed ''DELETE'' ''/internal/v1/suggestions/bans/cats'') = Some ''cats''"
proof -
  let ?rq = "signed ''DELETE'' ''/internal/v1/suggestions/bans/cats''"
  have n: "normalize sample_ext ''cats'' = ''cats''" by code_simp
  have "routed sample_service small_router calm_meeting ?rq = Some ((''DELETE'', ''/internal/v1/suggestions/bans/:normalized_query'',
      True, handleUnbanSuggestion), \<lambda>name. ''cats'')"
    by (simp add: routed_def calm_meeting_def signed_def unsigned_def small_router_def sample_service_def routes_def)
  moreover have "svX sample_service = sample_ext" by (simp add: sample_service_def)
  ultimately show ?thesis using n by (simp add: unban_of_def)
qed

end
