(* ===== verification/Startup.thy ===== *)
theory Startup
  imports Telemetry Migrate Sweep Api
begin

text \<open>
  \<open>cmd/api/main.go\<close> and \<open>Server.Start\<close>: what the process does with its arguments and its environment, which jobs run under
  which interval, and the order of a shutdown. Whether the databases answer is an argument.
\<close>

section \<open>Wiring\<close>

definition eventCfg :: "config \<Rightarrow> event_config option" where
  "eventCfg c = (case (finite_of (cf_TrendingHalfLifeHours c), finite_of (cf_WatchHalfLifeHours c)) of
     (Some th, Some wh) \<Rightarrow> Some (event_config.make (th * 3600) (cf_TrendCapWindow c) wh)
   | _ \<Rightarrow> None)"

text \<open>The jobs beside those of the runner, in the order they are added.\<close>

definition extra_jobs :: "config \<Rightarrow> periodic_job list" where
  "extra_jobs c = fold AddJob
     [\<lparr> pj_name = ''model_loader'', pj_interval = cf_ModelLoaderInterval c \<rparr>, \<lparr> pj_name = ''experiment_refresh'', pj_interval = minutes 5 \<rparr>,
      \<lparr> pj_name = ''shadow_eval'', pj_interval = cf_ShadowEvalInterval c \<rparr>, \<lparr> pj_name = ''catalog_pending_cleanup'', pj_interval = hours 1 \<rparr>] []"

section \<open>The process\<close>

datatype fatal = BadConfig config_error | BadLogger | NoPostgres | NoRedis | UnknownJob | UnknownCommand

text \<open>What becomes of a start: the loops it runs beside the server, or the one job it runs. Which loops there are and how often
  they run is a matter of durations and names; the numbers the jobs run with, which need not be finite, play no part.\<close>

datatype start =
    Fatal fatal
  | OneShot job
  | Listening string "(string \<times> int \<times> job) list" bool

definition serve_process :: "parsers \<Rightarrow> env \<Rightarrow> bool \<Rightarrow> bool \<Rightarrow> start" where
  "serve_process Z env pg_up redis_up =
     (case Load Z env of Inl e \<Rightarrow> Fatal (BadConfig e)
      | Inr c \<Rightarrow>
        if NewLogger (ToLower Z) (cf_LogLevel c) (cf_LogFormat c) = None then Fatal BadLogger
        else if \<not> pg_up then Fatal NoPostgres
        else if \<not> redis_up then Fatal NoRedis
        else if cf_RunJob c \<noteq> [] then (case RunOnce (extra_jobs c) (cf_RunJob c) of None \<Rightarrow> Fatal UnknownJob | Some j \<Rightarrow> OneShot j)
        else Listening (HTTPAddr c) (if cf_WorkersEnabled c then Start (workerDefaults (wired_config c)) True (extra_jobs c) else [])
               (cf_MetricsEnabled c))"

text \<open>The table of loops is the same for any two configurations of the jobs with the same durations.\<close>

lemma loops_ignore_numbers:
  assumes "list_all (\<lambda>f. f w = f w') [AggregatesInterval, EngagementInterval, SessionizerInterval, TrendingInterval, CovisInterval,
    RetentionInterval, ReconcileGuardInterval, ReevalInterval]"
  shows "Start (workerDefaults w) has_cache extra = Start (workerDefaults w') has_cache extra"
  using assms by (simp add: Start_def workerDefaults_def)

text \<open>\<open>run\<close>: no arguments serve, \<open>migrate\<close> migrates, anything else is refused.\<close>

datatype command = Serve | Migrate_command "string list"

definition run_args :: "string list \<Rightarrow> command option" where
  "run_args args = (case args of [] \<Rightarrow> Some Serve | a # tail \<Rightarrow> if a \<noteq> ''migrate'' then None else Some (Migrate_command tail))"

section \<open>Shutting down\<close>

datatype shutdown_step = Draining | Waiting int | Closing int

text \<open>\<open>Server.Start\<close> after its context is done.\<close>

definition shutdown_steps :: "config \<Rightarrow> shutdown_step list" where
  "shutdown_steps c = [Draining] @ (if 0 < cf_HTTPDrainDelay c then [Waiting (cf_HTTPDrainDelay c)] else []) @ [Closing (cf_HTTPShutdownTimeout c)]"

definition shutdown_step :: "shutdown_step \<Rightarrow> server \<Rightarrow> server" where
  "shutdown_step st s = (case st of Draining \<Rightarrow> Drain s | _ \<Rightarrow> s)"

text \<open>Whatever was cached and whatever the databases answer, readiness is 503 from the first step until the listener closes.\<close>

lemma drained_before_closing:
  assumes "shutdown_steps c = before @ Closing d # after"
  shows "fst (fst (handleReady now db rdb (fold shutdown_step before s))) = 503"
proof -
  have "Draining \<in> set before" using assms by (cases before) (auto simp: shutdown_steps_def split: if_split_asm)
  moreover have "draining s \<Longrightarrow> draining (fold shutdown_step xs s)" for xs s
    by (induction xs arbitrary: s) (auto simp: shutdown_step_def Drain_def split: shutdown_step.split)
  ultimately have "draining (fold shutdown_step before s)"
  proof (induction before arbitrary: s)
    case (Cons a before)
    then show ?case by (cases "a = Draining") (auto simp: shutdown_step_def Drain_def split: shutdown_step.split)
  qed simp
  then show ?thesis by (simp add: handleReady_def)
qed

section \<open>What is started\<close>

lemma extra_jobs_eq: "extra_jobs c =
    [\<lparr> pj_name = ''model_loader'', pj_interval = dur (minutes 1) (cf_ModelLoaderInterval c) \<rparr>,
     \<lparr> pj_name = ''experiment_refresh'', pj_interval = minutes 5 \<rparr>, \<lparr> pj_name = ''shadow_eval'', pj_interval = dur (minutes 1) (cf_ShadowEvalInterval c) \<rparr>,
     \<lparr> pj_name = ''catalog_pending_cleanup'', pj_interval = hours 1 \<rparr>]"
  by (simp add: extra_jobs_def AddJob_def dur_def minutes_def hours_def nanos_def)

text \<open>The loops and the names of \<open>RunOnce\<close> agree: every job that has a loop can be run once under the name of its loop.\<close>

lemma loop_names: "list_all (\<lambda>(name, interval, j). RunOnce (extra_jobs c) name = Some j) (Start w True (extra_jobs c))"
  by (simp add: Start_def extra_jobs_eq RunOnce_def upt_rec)

lemma loops_distinct: "distinct (map fst (Start w True (extra_jobs c)))"
  by (simp add: Start_def extra_jobs_eq upt_rec)

lemma loop_intervals: "list_all (\<lambda>(name, interval, j). 0 < interval) (Start (workerDefaults w) True (extra_jobs c))"
proof -
  have "0 < interval" if "(name, interval, j) \<in> set (Start (workerDefaults w) True (extra_jobs c))" for name interval j
    using that unfolding extra_jobs_def by (rule started_intervals)
  then show ?thesis by (auto simp: list_all_iff)
qed

text \<open>C40. What a process does. One that listens was configured without a one-shot job, and its loops have distinct names,
  positive intervals, and are run once under the same names; one that runs a job once does not listen, and the job is the one it
  was asked for; both databases answered; and in production neither happens with the development secret, nor with one of less than
  32 bytes.\<close>

theorem started_process:
  "(case serve_process Z env pg_up redis_up of
      Fatal f \<Rightarrow> True
    | OneShot j \<Rightarrow> pg_up \<and> redis_up \<and> (\<exists>c. Load Z env = Inr c \<and> cf_RunJob c \<noteq> [] \<and> RunOnce (extra_jobs c) (cf_RunJob c) = Some j
        \<and> (cf_Environment c \<noteq> ''production'' \<or> 32 \<le> length (cf_InternalSecret c) \<and> \<not> UsingDevInternalSecret c))
    | Listening addr loops metrics \<Rightarrow> pg_up \<and> redis_up \<and> (\<exists>c. Load Z env = Inr c \<and> cf_RunJob c = [] \<and> addr = HTTPAddr c
        \<and> (cf_Environment c \<noteq> ''production'' \<or> 32 \<le> length (cf_InternalSecret c) \<and> \<not> UsingDevInternalSecret c)
        \<and> list_all (\<lambda>(name, interval, j). 0 < interval \<and> RunOnce (extra_jobs c) name = Some j) loops \<and> distinct (map fst loops)
        \<and> (cf_WorkersEnabled c = (loops \<noteq> []))))"
proof (cases "Load Z env")
  case (Inl e)
  then show ?thesis by (simp add: serve_process_def)
next
  case (Inr c)
  have secret: "cf_Environment c \<noteq> ''production'' \<or> 32 \<le> length (cf_InternalSecret c) \<and> \<not> UsingDevInternalSecret c"
    using production_secret [OF Inr] by blast
  have loops: "list_all (\<lambda>(name, interval, j). 0 < interval \<and> RunOnce (extra_jobs c) name = Some j) (Start (workerDefaults w) True (extra_jobs c))" for w
    using loop_names [of c "workerDefaults w"] loop_intervals [of w c] by (auto simp: list_all_iff)
  have some: "Start w True (extra_jobs c) \<noteq> []" for w by (simp add: Start_def)
  show ?thesis
    using secret loops some loops_distinct [of _ c] Inr
    by (auto simp: serve_process_def split: option.split if_split)
qed

lemma sample_process: "\<exists>addr loops. serve_process sample_parsers sample_env True True = Listening addr loops False \<and> loops \<noteq> []"
proof -
  have facts: "cf_LogLevel Config.sample_config = ''info''" "cf_LogFormat Config.sample_config = ''json''" "cf_RunJob Config.sample_config = []"
    "cf_WorkersEnabled Config.sample_config" "\<not> cf_MetricsEnabled Config.sample_config"
    by (simp_all add: Config.sample_config_def config_typed_def config_strings_def sample_env_def sample_parsers_def getEnv_def getEnvInt_def
        getEnvFloat_def getEnvBool_def getEnvDuration_def ninety_seconds)
  have "NewLogger (ToLower sample_parsers) ''info'' ''json'' \<noteq> None"
  proof -
    have "TrimSpace ''info'' = ''info''" "TrimSpace ''json'' = ''json''" by code_simp+
    then show ?thesis by (simp add: NewLogger_def ParseLevel_def sample_parsers_def Let_def)
  qed
  then show ?thesis using facts by (simp add: serve_process_def sample_loads Start_def)
qed

lemma started_process_witness:
  "case serve_process sample_parsers sample_env True True of
     Listening addr loops metrics \<Rightarrow> list_all (\<lambda>(name, interval, j). 0 < interval) loops \<and> distinct (map fst loops) | _ \<Rightarrow> False"
proof -
  obtain addr loops where p: "serve_process sample_parsers sample_env True True = Listening addr loops False" using sample_process by blast
  show ?thesis using started_process [where Z = sample_parsers and env = sample_env and pg_up = True and redis_up = True] unfolding p by (auto simp: list_all_iff)
qed

end
