(* ===== verification/Spec2Isabelle.thy ===== *)
theory Spec2Isabelle
  imports CatalogProps Poison Seeds Shadow Startup
begin

text \<open>
  Vidra Search: the search, suggestion and recommendation service of a video platform, written in Go over PostgreSQL and
  Redis. This library models the service as definitions of HOL, translated from the Go source and from the SQL of its
  statements, and proves what makes each part correct and what the parts guarantee together.

  \<^bold>\<open>The program.\<close> \<open>cmd/api\<close> reads a configuration from the environment and runs the migrations, one job, or the server with
  its jobs. The server (\<open>internal/api\<close>) authenticates every business request with an HMAC and hands it to a service. Events
  come in as batches (\<open>internal/event\<close>) and fill the documents, the query log, the ledger of behaviour and the private
  history of users; full observations of the catalogue come in pages under an epoch (\<open>internal/catalog\<close>,
  \<open>internal/store/catalog_*.go\<close>) and replace the visible documents when a snapshot is complete. The jobs
  (\<open>internal/worker\<close>) condense the ledger into query aggregates, counters, item neighbours and trending lists, derive
  sessions and apply retention. Reads - suggestions, search, related and home feeds - combine those with rankers
  (\<open>internal/ranking\<close>, \<open>internal/model\<close>) and are answered only when the catalogue stood still under one fence.

  \<^bold>\<open>Theories and code.\<close>

  \<^item> \<open>Prelude\<close>: machine integers at 32 and 64 bits, decimal text of \<open>strconv\<close>, \<open>sort.SliceStable\<close> with the locale
    \<open>strict_weak_order\<close>, SQL tables as lists of rows. \<open>Hashes\<close>: FNV-1a, SHA-256, HMAC, hex. \<open>Basics\<close>: \<open>paging\<close>, \<open>index\<close>, \<open>pgconv\<close>,
    \<open>rankutil\<close>, \<open>normalize\<close>. \<open>Json\<close>: \<open>encoding/json\<close> on syntax trees. \<open>Schema\<close>, \<open>Tables\<close>: the tables of \<open>migrations/\<close> as one
    record \<open>db\<close>, with the unique keys \<open>keys_ok\<close>.
  \<^item> \<open>CatalogProtocol\<close>, \<open>CatalogPayload\<close>: digests, manifests, verification and wire payloads (\<open>internal/catalog\<close>,
    \<open>event/catalog_payload.go\<close>, \<open>event/catalog_batch.go\<close>). \<open>CatalogStore\<close>: epoch, admission, staging, completion, status and
    pruning (\<open>internal/store/catalog_*.go\<close>). \<open>CatalogEvents\<close>: batches with savepoints (\<open>event/catalog_service.go\<close>), the locale
    \<open>savepoint_batch\<close>. \<open>CatalogInv\<close>, \<open>CatalogActivation\<close>, \<open>CatalogMachine\<close>, \<open>CatalogHttp\<close>, \<open>CatalogProps\<close>: the receiver's invariant,
    the exact effect of an activation, the receiver as a step relation, its routes and the read fence, its properties.
  \<^item> \<open>Payloads\<close>, \<open>Statements\<close>, \<open>EventIngest\<close>: \<open>event/types.go\<close>, \<open>history_rule.go\<close>, the writing statements, and
    \<open>event/service.go\<close>. \<open>EventLemmas\<close>, \<open>EventProps\<close>: what every statement of the intake keeps (locales \<open>observation_relation\<close>,
    \<open>statement_relation\<close>, \<open>free_relation\<close>, interpreted on five relations) and the properties of batches.
  \<^item> \<open>Redis\<close>, \<open>Cache\<close>: the keyspace with expiry, \<open>cache/session.go\<close>, \<open>cache/trending.go\<close>. \<open>Trending\<close>: decay and gate.
  \<^item> \<open>History\<close>, \<open>Moderation\<close>, \<open>Privacy\<close>: deletion of a user's traces, bans, and deletion against the anonymity floor.
  \<^item> \<open>WorkerBase\<close>, \<open>Rollups\<close>, \<open>Reevaluate\<close>, \<open>Engagement\<close>, \<open>Sessionizer\<close>, \<open>Covis\<close>, \<open>Sweep\<close>: configuration and jobs of
    \<open>internal/worker\<close> with their statements, one definition per common table expression. \<open>Poison\<close>: an event that stops a job.
  \<^item> \<open>Ranking\<close>, \<open>Diversity\<close>, \<open>SuggestBlend\<close>, \<open>Experiment\<close>: \<open>internal/ranking\<close> and \<open>internal/experiment\<close>.
  \<^item> \<open>TextSearch\<close>, \<open>Suggest\<close>, \<open>Search\<close>, \<open>Feeds\<close>, \<open>FeedsAdvanced\<close>: the read services with their statements; a ranker is the
    locale \<open>reranker\<close>, a source of feed rows the locale \<open>offers_rows\<close>.
  \<^item> \<open>Model\<close>, \<open>Shadow\<close>, \<open>Seeds\<close>: the registry of rankers, the loader, the artifacts, the shadow evaluation, and the statements that
    fill the registries.
  \<^item> \<open>System\<close>: every writing operation and job as one machine over the database. \<open>Http\<close>: errors, authentication, correlation,
    readiness. \<open>Api\<close>: the handlers, the routing table and the chain. \<open>Config\<close>, \<open>Telemetry\<close>, \<open>Migrate\<close>, \<open>Startup\<close>: configuration,
    instruments, migrations and the process.

  \<^bold>\<open>State and operations.\<close> A service method is a function from its arguments and the state to its result and the new state; an error
  is the left side of a sum. The state is \<open>db\<close>, for what lives in Redis \<open>redis\<close>, and for a request \<open>world\<close>, which holds both. A
  transaction is a pair of booleans - did it begin, did it commit - and what runs inside it; a transaction that does not
  commit leaves the state. Reads outside a transaction see a database per statement (\<open>nat \<Rightarrow> db option\<close>, \<open>None\<close> when the statement
  fails), so that writes in between are covered. Clocks are arguments; \<open>now\<close> is the start of a transaction. A Redis pipeline may be
  cut short, and a Redis command may fail. A Go map is iterated in an arbitrary order, which is an argument.

  \<^bold>\<open>What the lemmas show.\<close>

  \<^item> Composition: one invariant of the service under every order of operations and jobs (\<open>System.system_invariant\<close>); every HTTP request
    is one such operation or none (\<open>Api.requests_refine_operations\<close>), unauthenticated ones are none (\<open>Api.replies_guarded\<close>), and a
    ban ends only by an authenticated request (\<open>Api.ban_needs_authentic_unban\<close>); what a process starts (\<open>Startup.started_process\<close>).
  \<^item> Catalogue: an activation makes exactly the snapshot visible, stale observations are rejected, a manifest pins its pages, a fenced read runs over
    one epoch and one completed generation, in which only event batches change documents.
  \<^item> Events and privacy: replay does nothing, personal rows need consent, deletion forgets a user and nobody else.
  \<^item> Jobs: counters equal the counts of the retained ledger, rollup and re-evaluation agree, the re-evaluation ends, neighbours equal a
    reference definition, sessions satisfy their specification, trending lists serve the best items that pass the gate, exactly.
  \<^item> Reads: suggestions have a source, in the request's own database or in that of a request that filled the
    cache, the shared cache is impersonal, searches and feeds show visible documents only, within their limits,
    once each, in order; paging.
  \<^item> Rankers: only vouched artifacts are served, an activation takes effect, the evaluation changes metrics only.
  \<^item> Surroundings: which headers authenticate, what configuration loads and what the jobs make of it, what \<open>migrate\<close> may do to the ledger.

  Several theorems state defects: an event whose progress is no number stops the engagement job, a document dated in the
  future stops the home feed, a time stamp centuries ahead is not checked for replay, zeros the configuration accepts do not reach the jobs.

  \<^bold>\<open>Parameters.\<close> Code that is not in the repository is an argument. \<open>ext\<close> holds UUID parsing and printing, Unicode normalization
  and case folding and the UUID of a name; \<open>pg\<close> holds \<open>lower\<close>, the text search and trigram operators and the casts of PostgreSQL; the
  library of tree ensembles, Echo's router, body limit and \<open>Bind\<close>, the migration library and the split of a URL are arguments of what
  uses them, as are \<open>ParseFloat\<close> and \<open>ToLower\<close>. What is assumed of them are named hypotheses (\<open>ext_ok\<close>, \<open>lists_versions\<close>), each with
  an instance.

  \<^bold>\<open>Numbers, text, termination.\<close> A Go string is the list of its bytes, and text is compared byte by byte. Integers keep their width where
  a wrap-around can be seen (\<open>int32\<close>, \<open>int64\<close>), times are nanoseconds. A \<open>float64\<close> and a double precision are real numbers,
  except in \<open>Config\<close>, which keeps infinities and NaN and hands the jobs finite numbers only; single-precision columns are not
  rounded. The scores of \<open>Ranking\<close> take the logarithm of one more than the views: below that, for views of -1 and less, Go computes an
  infinity or NaN, and the theorem on reranking asks for views above -1. The underflow errors of PostgreSQL are written out where a
  client can cause them, and left out of the watch projection, whose times are the server's own. Every
  recursion is structural or has a termination proof; the re-evaluation runs as many batches as the constant of the code allows, 100,
  and its theorem has the hypothesis that so many are enough; the walk over the embedded migrations is a partial function that
  returns over a source that lists its versions. Two rows that tie in an \<open>ORDER BY\<close> come in the order of the table; NULL sorts first in a
  descending order.

  \<^bold>\<open>Not modelled.\<close> Sockets, signals, tickers, contexts and goroutines: a job is one pass, an operation acts at once. Panics and
  \<open>Recover\<close>. The opening of connection pools (\<open>store.go\<close>, \<open>cache.go\<close>, \<open>sqlcgen/db.go\<close>). The calls that feed the instruments,
  which are modelled apart, and log lines but that of a request. The names, buckets and text format of the metrics, which are the Prometheus library's. The
  build metadata. The load test under \<open>scripts/\<close>, the training code under \<open>training/\<close> and the tests.
\<close>

text \<open>A video is statically visible exactly when it is public and published; otherwise a
  non-empty suppression reason is recorded.\<close>

theorem eligible_iff_public_published:
  "fst (Eligible p s) = (p = ''public'' \<and> s = ''published'') \<and>
   (snd (Eligible p s) = []) = fst (Eligible p s)"
  by (simp add: fst_Eligible Eligible_reason [symmetric])

end
